(* ===== verification/Prelude.thy ===== *)
theory Prelude
  imports Main "HOL-Library.Word" "HOL-Library.Monad_Syntax"
begin

unbundle bit_operations_syntax

text \<open>
  Shared vocabulary of the development: the C integer types as words, byte buffers with
  bounds-checked accesses, the loop combinator \<open>foldM\<close>, and the lemmas that let the
  simplifier run straight-line buffer code.

  A buffer is the list of the bytes that are reachable from the C pointer.  Every access goes
  through \<open>rd\<close>, \<open>wr\<close>, \<open>rd_range\<close>, \<open>wr_range\<close>, \<open>memcpy\<close> or \<open>memset\<close>, which are \<open>None\<close>
  when the access leaves the buffer.  So \<open>None\<close> means undefined behaviour (an out-of-bounds
  access) in every function of the development, and a theorem that a function yields
  \<open>Some\<close> is a memory-safety statement.
\<close>

type_synonym u8 = "8 word"
type_synonym u16 = "16 word"
type_synonym u32 = "32 word"
type_synonym bytes = "u8 list"

named_theorems buf_simps \<open>unfolding rules for buffer accesses\<close>

section \<open>Buffers\<close>

definition rd :: "'a list \<Rightarrow> nat \<Rightarrow> 'a option" where
  "rd buf i = (if i < length buf then Some (buf ! i) else None)"

definition wr :: "'a list \<Rightarrow> nat \<Rightarrow> 'a \<Rightarrow> 'a list option" where
  "wr buf i v = (if i < length buf then Some (buf[i := v]) else None)"

definition rd_range :: "'a list \<Rightarrow> nat \<Rightarrow> nat \<Rightarrow> 'a list option" where
  "rd_range buf off n = (if off + n \<le> length buf then Some (take n (drop off buf)) else None)"

definition wr_range :: "'a list \<Rightarrow> nat \<Rightarrow> 'a list \<Rightarrow> 'a list option" where
  "wr_range buf off src =
     (if off + length src \<le> length buf
      then Some (take off buf @ src @ drop (off + length src) buf) else None)"

text \<open>\<open>memcpy(dst + off, src, n)\<close> and \<open>memset(buf + off, v, n)\<close>.\<close>

definition memcpy :: "'a list \<Rightarrow> nat \<Rightarrow> 'a list \<Rightarrow> nat \<Rightarrow> 'a list option" where
  "memcpy dst off src n = Option.bind (rd_range src 0 n) (wr_range dst off)"

definition memset :: "'a list \<Rightarrow> nat \<Rightarrow> 'a \<Rightarrow> nat \<Rightarrow> 'a list option" where
  "memset buf off v n = wr_range buf off (replicate n v)"

text \<open>Calling a function with the pointer \<open>buf + off\<close>: it sees, and may change, the suffix.\<close>

definition at_offset :: "nat \<Rightarrow> ('a list \<Rightarrow> 'a list option) \<Rightarrow> 'a list \<Rightarrow> 'a list option" where
  "at_offset off f buf =
     (if off \<le> length buf
      then map_option (\<lambda>b. take off buf @ b) (f (drop off buf)) else None)"

lemma rd_Some [simp]: "i < length buf \<Longrightarrow> rd buf i = Some (buf ! i)"
  by (simp add: rd_def)

lemma rd_None [simp]: "length buf \<le> i \<Longrightarrow> rd buf i = None"
  by (simp add: rd_def)

lemma wr_Some [simp]: "i < length buf \<Longrightarrow> wr buf i v = Some (buf[i := v])"
  by (simp add: wr_def)

lemma wr_None [simp]: "length buf \<le> i \<Longrightarrow> wr buf i v = None"
  by (simp add: wr_def)

lemma wr_eq_Some: "wr buf i v = Some b \<longleftrightarrow> i < length buf \<and> b = buf[i := v]"
  by (auto simp: wr_def)

lemma wr_length: "wr buf i v = Some b \<Longrightarrow> length b = length buf"
  by (auto simp: wr_def split: if_splits)

lemma rd_range_Some [simp]:
  "off + n \<le> length buf \<Longrightarrow> rd_range buf off n = Some (take n (drop off buf))"
  by (simp add: rd_range_def)

lemma wr_range_Some [simp]:
  "off + length src \<le> length buf \<Longrightarrow>
   wr_range buf off src = Some (take off buf @ src @ drop (off + length src) buf)"
  by (simp add: wr_range_def)

lemma wr_range_length: "wr_range buf off src = Some b \<Longrightarrow> length b = length buf"
  by (auto simp: wr_range_def split: if_splits)

lemma memcpy_Some [simp]:
  "n \<le> length src \<Longrightarrow> off + n \<le> length dst \<Longrightarrow>
   memcpy dst off src n = Some (take off dst @ take n src @ drop (off + n) dst)"
  by (simp add: memcpy_def min_absorb2)

lemma memcpy_length: "memcpy dst off src n = Some b \<Longrightarrow> length b = length dst"
  by (auto simp: memcpy_def bind_eq_Some_conv dest: wr_range_length)

lemma memset_Some [simp]:
  "off + n \<le> length buf \<Longrightarrow>
   memset buf off v n = Some (take off buf @ replicate n v @ drop (off + n) buf)"
  by (simp add: memset_def)

lemma memset_None: "length buf < off + n \<Longrightarrow> memset buf off v n = None"
  by (simp add: memset_def wr_range_def)

lemma at_offset_Some:
  "off \<le> length buf \<Longrightarrow> f (drop off buf) = Some b \<Longrightarrow>
   at_offset off f buf = Some (take off buf @ b)"
  by (simp add: at_offset_def)

lemma at_offset_append:
  "off = length p \<Longrightarrow> at_offset off f (p @ b) = map_option (\<lambda>b. p @ b) (f b)"
  by (simp add: at_offset_def)

lemmas buffer_defs = rd_def wr_def rd_range_def wr_range_def memcpy_def memset_def at_offset_def

section \<open>Loops\<close>

text \<open>A \<open>for\<close> loop whose body may fail: the body runs on the elements from left to right.\<close>

primrec foldM :: "('a \<Rightarrow> 's \<Rightarrow> 's option) \<Rightarrow> 'a list \<Rightarrow> 's \<Rightarrow> 's option" where
  "foldM f [] s = Some s"
| "foldM f (x # xs) s = Option.bind (f x s) (foldM f xs)"

lemma foldM_append: "foldM f (xs @ ys) s = Option.bind (foldM f xs s) (foldM f ys)"
  by (induction xs arbitrary: s) (auto split: Option.bind_splits)

lemma foldM_invariant:
  assumes "\<And>x s s'. x \<in> set xs \<Longrightarrow> P s \<Longrightarrow> f x s = Some s' \<Longrightarrow> P s'"
    and "P s" and "foldM f xs s = Some s'"
  shows "P s'"
  using assms
proof (induction xs arbitrary: s)
  case Nil
  then show ?case by simp
next
  case (Cons x xs)
  from Cons.prems(3) obtain t where "f x s = Some t" and "foldM f xs t = Some s'"
    by (auto simp: bind_eq_Some_conv)
  with Cons show ?case by (metis list.set_intros(1) list.set_intros(2))
qed

lemma foldM_total:
  assumes "\<And>x s. x \<in> set xs \<Longrightarrow> P s \<Longrightarrow> \<exists>s'. f x s = Some s' \<and> P s'" and "P s"
  shows "\<exists>s'. foldM f xs s = Some s' \<and> P s'"
  using assms
proof (induction xs arbitrary: s)
  case Nil
  then show ?case by simp
next
  case (Cons x xs)
  then obtain t where "f x s = Some t" and "P t" by (meson list.set_intros(1))
  with Cons show ?case by fastforce
qed

section \<open>Words\<close>

lemma unat_u8_lt: "unat (x :: u8) < 256"
  using unsigned_less [of x] by simp

lemma unat_u8_le: "unat (x :: u8) \<le> 255"
  using unat_u8_lt [of x] by linarith

lemma unat_u16_lt: "unat (x :: u16) < 65536"
  using unsigned_less [of x] by simp

lemma unat_u32_lt: "unat (x :: u32) < 4294967296"
  using unsigned_less [of x] by simp

lemma unat_u8_to_u32 [simp]: "unat (ucast (x :: u8) :: u32) = unat x"
  using unat_u8_lt [of x] by (simp add: unsigned_ucast_eq take_bit_nat_eq_self)

lemma u8_le_1: "(v :: u8) \<le> 1 \<longleftrightarrow> v = 0 \<or> v = 1"
proof
  assume "v \<le> 1"
  then have "unat v = unat (0 :: u8) \<or> unat v = unat (1 :: u8)"
    by (auto simp: word_le_nat_alt)
  then show "v = 0 \<or> v = 1" by (simp only: word_unat_eq_iff)
qed auto

lemma word_xor_eq_0 [simp]: "a XOR b = 0 \<longleftrightarrow> a = (b :: 'a::len word)"
  by (metis bit.xor_self xor.assoc xor.left_neutral xor.right_neutral)

lemma word_xor_cancel_right [simp]: "a XOR c = b XOR c \<longleftrightarrow> a = (b :: 'a::len word)"
  by (metis bit.xor_self xor.assoc xor.right_neutral)

lemma word_xor_cancel_left [simp]: "c XOR a = c XOR b \<longleftrightarrow> a = (b :: 'a::len word)"
  by (metis bit.xor_self xor.assoc xor.left_neutral)

lemma take_replicate_append [simp]: "n = length xs \<Longrightarrow> take n (xs @ ys) = xs"
  by simp

lemma in_set_tlD: "x \<in> set (tl xs) \<Longrightarrow> x \<in> set xs"
  by (cases xs) auto

lemma map_nth_upt_offset:
  "n \<le> length xs \<Longrightarrow> map (\<lambda>i. xs ! i) [0..<n] = take n xs"
  by (rule nth_equalityI) auto

text \<open>
  The masks of the code as \<open>mask n\<close>, so that \<open>bit_simps\<close> can decide equations between
  shifted and masked words bit by bit.
\<close>

lemma mask_literals:
  "(0xFFF :: u16) = mask 12" "(0xFF :: u16) = mask 8" "(0xF :: u16) = mask 4"
  "(0x0F :: u8) = mask 4"
  by (simp_all add: mask_eq_exp_minus_1)

text \<open>Numerals as successors, for lists of a known length.\<close>

lemmas list_eval = numeral_eq_Suc upt_rec

end
