(* ===== verification/EspCalls.thy ===== *)
theory EspCalls
  imports Prelude
begin

text \<open>
  The error codes of \<open>esp_err.h\<close> that the program uses, and the shape of its initialisation
  functions: a sequence of calls into ESP-IDF, each of whose results is checked; a failed call
  either ends the function with the error (\<open>True\<close>) or is only logged (\<open>False\<close>).  \<open>rc\<close> says
  what the calls return; the result is the function's value and the calls that were made.
\<close>

definition ESP_OK :: int where "ESP_OK = 0"
definition ESP_FAIL :: int where "ESP_FAIL = -1"
definition ESP_ERR_NO_MEM :: int where "ESP_ERR_NO_MEM = 0x101"

primrec run_calls :: "('c \<Rightarrow> int) \<Rightarrow> (bool \<times> 'c) list \<Rightarrow> int \<times> 'c list" where
  "run_calls rc [] = (ESP_OK, [])"
| "run_calls rc (fc # fcs) =
     (if fst fc \<and> rc (snd fc) \<noteq> ESP_OK then (rc (snd fc), [snd fc])
      else (fst (run_calls rc fcs), snd fc # snd (run_calls rc fcs)))"

text \<open>The contract: success means that every checked call succeeded and all were made; an error is
  the one of the last call that was made, and everything before it had succeeded or was optional.\<close>

lemma run_calls_ok:
  "fst (run_calls rc fcs) = ESP_OK \<longleftrightarrow> (\<forall>(f, c) \<in> set fcs. f \<longrightarrow> rc c = ESP_OK)"
  by (induction fcs) auto

lemma run_calls_all: "fst (run_calls rc fcs) = ESP_OK \<Longrightarrow> snd (run_calls rc fcs) = map snd fcs"
  by (induction fcs) auto

lemma run_calls_error:
  assumes "fst (run_calls rc fcs) \<noteq> ESP_OK"
  shows "\<exists>pre c post. fcs = pre @ (True, c) # post \<and> snd (run_calls rc fcs) = map snd pre @ [c]
    \<and> fst (run_calls rc fcs) = rc c \<and> (\<forall>(f, b) \<in> set pre. f \<longrightarrow> rc b = ESP_OK)"
  using assms
proof (induction fcs)
  case Nil
  then show ?case by simp
next
  case (Cons fc fcs)
  show ?case
  proof (cases "fst fc \<and> rc (snd fc) \<noteq> ESP_OK")
    case True
    then show ?thesis by (intro exI [of _ "[]"]) (cases fc, auto)
  next
    case False
    with Cons obtain pre c post where "fcs = pre @ (True, c) # post"
      "snd (run_calls rc fcs) = map snd pre @ [c]" "fst (run_calls rc fcs) = rc c"
      "\<forall>(f, b) \<in> set pre. f \<longrightarrow> rc b = ESP_OK" by auto
    with False show ?thesis by (intro exI [of _ "fc # pre"]) (cases fc, auto)
  qed
qed

end
