(* ===== verification/Fifo.thy ===== *)
theory Fifo
  imports Prelude
begin

text \<open>
  The contract that the two ring buffers of the firmware share (the NFC packet queue of
  \<open>nfc_mcu.c\<close> and the reply queue of \<open>btstack_hid.c\<close>): a bounded first-in first-out queue.
  \<open>ring_list\<close> reads a ring \<open>(slots, head, count)\<close> as the list of its elements in order of
  arrival; the locale \<open>bounded_fifo\<close> states what an implementation promises, and its lemmas
  say that a whole run of accepted, refused and removed elements behaves like the list.
\<close>

section \<open>Reading a ring as a list\<close>

definition ring_list :: "'a list \<Rightarrow> nat \<Rightarrow> nat \<Rightarrow> 'a list" where
  "ring_list slots h n = map (\<lambda>i. slots ! ((h + i) mod length slots)) [0..<n]"

lemma length_ring_list [simp]: "length (ring_list slots h n) = n"
  by (simp add: ring_list_def)

lemma ring_list_0 [simp]: "ring_list slots h 0 = []"
  by (simp add: ring_list_def)

lemma ring_list_eq_Nil [simp]: "ring_list slots h n = [] \<longleftrightarrow> n = 0"
  by (simp add: ring_list_def)

lemma ring_index_neq:
  assumes "i < n" and "n < (len :: nat)"
  shows "(h + i) mod len \<noteq> (h + n) mod len"
proof
  assume "(h + i) mod len = (h + n) mod len"
  then have "len dvd (h + n) - (h + i)"
    using assms(1) by (metis mod_eq_dvd_iff_nat add_le_mono le_refl less_imp_le)
  with assms show False by (auto dest: dvd_imp_le)
qed

lemma ring_list_push:
  assumes "n < length slots"
  shows "ring_list (slots[(h + n) mod length slots := x]) h (Suc n) = ring_list slots h n @ [x]"
proof -
  have "(h + n) mod length slots < length slots"
    using assms by (intro mod_less_divisor) linarith
  moreover have "\<forall>i < n. (h + n) mod length slots \<noteq> (h + i) mod length slots"
    using assms ring_index_neq by metis
  ultimately show ?thesis by (simp add: ring_list_def nth_list_update)
qed

lemma ring_list_pop:
  "ring_list slots (Suc h mod length slots) n = tl (ring_list slots h (Suc n))"
proof -
  have "tl (ring_list slots h (Suc n)) = map (\<lambda>i. slots ! ((h + i) mod length slots)) (map Suc [0..<n])"
    by (simp add: ring_list_def map_tl [symmetric] map_Suc_upt del: upt_Suc)
  also have "\<dots> = ring_list slots (Suc h mod length slots) n"
    by (simp add: ring_list_def mod_simps)
  finally show ?thesis by simp
qed

lemma ring_list_hd:
  "0 < n \<Longrightarrow> h < length slots \<Longrightarrow> hd (ring_list slots h n) = slots ! h"
  by (simp add: ring_list_def hd_map)

lemma set_ring_list: "0 < length slots \<Longrightarrow> set (ring_list slots h n) \<subseteq> set slots"
  by (auto simp: ring_list_def)

section \<open>The bounded queue contract\<close>

datatype 'a qop = Enq 'a | Deq

text \<open>The abstract queue: an element is refused when the queue is full.\<close>

fun fifo_step :: "nat \<Rightarrow> 'a list \<Rightarrow> 'a qop \<Rightarrow> 'a list" where
  "fifo_step cap xs (Enq x) = (if length xs < cap then xs @ [x] else xs)"
| "fifo_step cap xs Deq = tl xs"

text \<open>What a run hands out (each element at the time it is removed) and what it accepts.\<close>

fun fifo_out :: "nat \<Rightarrow> 'a list \<Rightarrow> 'a qop list \<Rightarrow> 'a list" where
  "fifo_out cap xs [] = []"
| "fifo_out cap xs (Deq # ops) = (if xs = [] then [] else [hd xs]) @ fifo_out cap (tl xs) ops"
| "fifo_out cap xs (Enq x # ops) = fifo_out cap (fifo_step cap xs (Enq x)) ops"

fun fifo_accepted :: "nat \<Rightarrow> 'a list \<Rightarrow> 'a qop list \<Rightarrow> 'a list" where
  "fifo_accepted cap xs [] = []"
| "fifo_accepted cap xs (Deq # ops) = fifo_accepted cap (tl xs) ops"
| "fifo_accepted cap xs (Enq x # ops) =
     (if length xs < cap then [x] else []) @ fifo_accepted cap (fifo_step cap xs (Enq x)) ops"

lemma fifo_conservation:
  "fifo_out cap xs ops @ foldl (fifo_step cap) xs ops = xs @ fifo_accepted cap xs ops"
proof (induction ops arbitrary: xs)
  case Nil
  then show ?case by simp
next
  case (Cons op ops)
  then show ?case by (cases op; cases xs) auto
qed

lemma fifo_bounded: "length xs \<le> cap \<Longrightarrow> length (foldl (fifo_step cap) xs ops) \<le> cap"
proof (induction ops arbitrary: xs)
  case Nil
  then show ?case by simp
next
  case (Cons op ops)
  then show ?case by (cases op) auto
qed

locale bounded_fifo =
  fixes inv :: "'s \<Rightarrow> bool"
    and contents :: "'s \<Rightarrow> 'a list"
    and cap :: nat
    and valid :: "'a \<Rightarrow> bool"
    and enq :: "'a \<Rightarrow> 's \<Rightarrow> 's"
    and deq :: "'s \<Rightarrow> 's"
  assumes bounded: "inv s \<Longrightarrow> length (contents s) \<le> cap"
    and contents_enq: "inv s \<Longrightarrow> valid x \<Longrightarrow> contents (enq x s) = fifo_step cap (contents s) (Enq x)"
    and contents_deq: "inv s \<Longrightarrow> contents (deq s) = tl (contents s)"
    and inv_enq: "inv s \<Longrightarrow> valid x \<Longrightarrow> inv (enq x s)"
    and inv_deq: "inv s \<Longrightarrow> inv (deq s)"
begin

definition step :: "'s \<Rightarrow> 'a qop \<Rightarrow> 's" where
  "step s op = (case op of Enq x \<Rightarrow> enq x s | Deq \<Rightarrow> deq s)"

definition valid_op :: "'a qop \<Rightarrow> bool" where
  "valid_op op = (case op of Enq x \<Rightarrow> valid x | Deq \<Rightarrow> True)"

lemma inv_step: "inv s \<Longrightarrow> valid_op op \<Longrightarrow> inv (step s op)"
  by (auto simp: step_def valid_op_def inv_enq inv_deq split: qop.splits)

lemma contents_step:
  "inv s \<Longrightarrow> valid_op op \<Longrightarrow> contents (step s op) = fifo_step cap (contents s) op"
  by (auto simp: step_def valid_op_def contents_enq contents_deq split: qop.splits)

lemma run_refines:
  "inv s \<Longrightarrow> list_all valid_op ops \<Longrightarrow>
   inv (foldl step s ops) \<and> contents (foldl step s ops) = foldl (fifo_step cap) (contents s) ops"
  by (induction ops arbitrary: s) (auto simp: inv_step contents_step)

lemma run_conserves:
  "inv s \<Longrightarrow> list_all valid_op ops \<Longrightarrow>
   fifo_out cap (contents s) ops @ contents (foldl step s ops)
     = contents s @ fifo_accepted cap (contents s) ops"
  by (simp add: run_refines fifo_conservation)

end

end
