(* ===== verification/Crc.thy ===== *)
theory Crc
  imports Prelude
begin

text \<open>
  The two checksums of the firmware: \<open>nfc_crc8\<close> (\<open>main/nfc_mcu.c\<close>, polynomial 0x07, most
  significant bit first, initial value 0), which closes every NFC packet, and \<open>crc32\<close>
  (\<open>main/pc_control.c\<close>, the reflected polynomial 0xEDB88320), which the PC sends with a dump.
  Both are the same bytewise scheme over a bit step that is linear over XOR and has a trivial
  kernel; the locale \<open>byte_crc\<close> derives from these two laws what makes them checksums.
\<close>

section \<open>The code\<close>

definition crc8_bit :: "u8 \<Rightarrow> u8" where
  "crc8_bit crc = (if crc AND 0x80 \<noteq> 0 then push_bit 1 crc XOR 7 else push_bit 1 crc)"

definition crc8_byte :: "u8 \<Rightarrow> u8 \<Rightarrow> u8" where
  "crc8_byte crc d = (crc8_bit ^^ 8) (crc XOR d)"

definition nfc_crc8 :: "bytes \<Rightarrow> nat \<Rightarrow> u8 option" where
  "nfc_crc8 data len =
     foldM (\<lambda>i crc. do { d \<leftarrow> rd data i; Some (crc8_byte crc d) }) [0..<len] 0"

definition crc32_bit :: "u32 \<Rightarrow> u32" where
  "crc32_bit crc = drop_bit 1 crc XOR (if crc AND 1 \<noteq> 0 then 0xedb88320 else 0)"

definition crc32_byte :: "u32 \<Rightarrow> u8 \<Rightarrow> u32" where
  "crc32_byte crc d = (crc32_bit ^^ 8) (crc XOR ucast d)"

definition crc32 :: "bytes \<Rightarrow> nat \<Rightarrow> u32 option" where
  "crc32 data len =
     map_option (\<lambda>crc. crc XOR 0xffffffff)
       (foldM (\<lambda>i crc. do { d \<leftarrow> rd data i; Some (crc32_byte crc d) }) [0..<len] 0xffffffff)"

text \<open>The loops over a whole buffer, without the bounds checks.\<close>

definition crc8_of :: "bytes \<Rightarrow> u8" where
  "crc8_of = foldl crc8_byte 0"

definition crc32_of :: "bytes \<Rightarrow> u32" where
  "crc32_of data = foldl crc32_byte 0xffffffff data XOR 0xffffffff"

lemma foldM_read_loop:
  "foldM (\<lambda>i s. do { d \<leftarrow> rd data i; Some (f s d) }) [0..<n] s =
     (if n \<le> length data then Some (foldl f s (take n data)) else None)"
proof (induction n)
  case 0
  show ?case by simp
next
  case (Suc n)
  then show ?case
    by (auto simp: foldM_append take_Suc_conv_app_nth Suc_le_eq not_less_eq_eq le_Suc_eq)
qed

lemma nfc_crc8_eq:
  "nfc_crc8 data len = (if len \<le> length data then Some (crc8_of (take len data)) else None)"
  by (simp add: nfc_crc8_def foldM_read_loop crc8_of_def)

lemma crc32_eq:
  "crc32 data len = (if len \<le> length data then Some (crc32_of (take len data)) else None)"
  by (simp add: crc32_def foldM_read_loop crc32_of_def)

section \<open>The checksum scheme\<close>

locale byte_crc =
  fixes bit_step :: "'w::len word \<Rightarrow> 'w word" and embed :: "u8 \<Rightarrow> 'w word"
  assumes step_xor: "bit_step (a XOR b) = bit_step a XOR bit_step b"
    and step_kernel: "bit_step c = 0 \<Longrightarrow> c = 0"
    and embed_xor: "embed (x XOR y) = embed x XOR embed y"
    and embed_kernel: "embed x = 0 \<Longrightarrow> x = 0"
begin

definition byte_step :: "'w word \<Rightarrow> u8 \<Rightarrow> 'w word" where
  "byte_step crc d = (bit_step ^^ 8) (crc XOR embed d)"

lemma iter_xor: "(bit_step ^^ n) (a XOR b) = (bit_step ^^ n) a XOR (bit_step ^^ n) b"
  by (induction n) (simp_all add: step_xor)

lemma iter_kernel: "(bit_step ^^ n) c = 0 \<Longrightarrow> c = 0"
  by (induction n) (auto dest: step_kernel)

lemma iter_inj: "(bit_step ^^ n) a = (bit_step ^^ n) b \<Longrightarrow> a = b"
  using iter_kernel [of n "a XOR b"] by (simp add: iter_xor)

lemma embed_inj: "embed x = embed y \<Longrightarrow> x = y"
  using embed_kernel [of "x XOR y"] by (simp add: embed_xor)

lemma byte_step_inj_crc: "byte_step a d = byte_step b d \<Longrightarrow> a = b"
  using iter_inj [of 8 "a XOR embed d" "b XOR embed d"] by (simp add: byte_step_def)

lemma byte_step_inj_data: "byte_step c x = byte_step c y \<Longrightarrow> x = y"
  using iter_inj [of 8 "c XOR embed x" "c XOR embed y"] by (simp add: byte_step_def embed_inj)

lemma byte_step_xor: "byte_step (a XOR b) (x XOR y) = byte_step a x XOR byte_step b y"
proof -
  have "(a XOR b) XOR embed (x XOR y) = (a XOR embed x) XOR (b XOR embed y)"
    by (simp add: embed_xor ac_simps)
  then show ?thesis by (simp only: byte_step_def iter_xor)
qed

lemma run_inj: "foldl byte_step a ds = foldl byte_step b ds \<Longrightarrow> a = b"
  by (induction ds arbitrary: a b) (auto dest: byte_step_inj_crc)

lemma run_detects:
  "foldl byte_step c (xs @ x # ys) = foldl byte_step c (xs @ y # ys) \<Longrightarrow> x = y"
  by (auto dest: run_inj byte_step_inj_data)

lemma run_xor:
  "length xs = length ys \<Longrightarrow>
   foldl byte_step (a XOR b) (map2 (XOR) xs ys) = foldl byte_step a xs XOR foldl byte_step b ys"
  by (induction xs ys arbitrary: a b rule: list_induct2) (simp_all add: byte_step_xor)

end

lemma and_0x80_iff: "(c :: u8) AND 0x80 \<noteq> 0 \<longleftrightarrow> bit c 7"
  using and_exp_eq_0_iff_not_bit [of c 7] by simp

lemma and_1_iff: "(c :: u32) AND 1 \<noteq> 0 \<longleftrightarrow> bit c 0"
  using and_exp_eq_0_iff_not_bit [of c 0] by simp

lemma crc8_bit_xor: "crc8_bit (a XOR b) = crc8_bit a XOR crc8_bit b"
  unfolding crc8_bit_def and_0x80_iff
  by (auto simp: push_bit_xor bit_xor_iff ac_simps)

lemma crc8_bit_kernel:
  assumes "crc8_bit c = 0" shows "c = 0"
proof (cases "bit c 7")
  case True
  then have "push_bit 1 c XOR 7 = 0" using assms unfolding crc8_bit_def and_0x80_iff by simp
  then have "\<not> bit (push_bit 1 c XOR 7) 0" by (simp only: bit_0_eq) simp
  then show ?thesis by (simp only: bit_xor_iff bit_push_bit_iff) simp
next
  case False
  then have "push_bit 1 c = 0" using assms unfolding crc8_bit_def and_0x80_iff by simp
  moreover have "bit (push_bit 1 c) (Suc n) \<longleftrightarrow> bit c n" if "n < 7" for n
    using that by (simp only: bit_push_bit_iff) simp
  ultimately have "\<not> bit c n" if "n < 7" for n using that by (simp only: bit_0_eq) simp
  with False have "\<not> bit c n" if "n < 8" for n
    using that by (cases "n = 7") auto
  then show ?thesis by (intro bit_word_eqI) simp
qed

lemma crc32_bit_xor: "crc32_bit (a XOR b) = crc32_bit a XOR crc32_bit b"
  unfolding crc32_bit_def and_1_iff
  by (auto simp: drop_bit_xor bit_xor_iff ac_simps)

lemma crc32_bit_kernel:
  assumes "crc32_bit c = 0" shows "c = 0"
proof (cases "bit c 0")
  case True
  then have "drop_bit 1 c XOR 0xedb88320 = 0"
    using assms unfolding crc32_bit_def and_1_iff by simp
  then have "\<not> bit (drop_bit 1 c XOR 0xedb88320) 31" by (simp only: bit_0_eq) simp
  moreover have "\<not> bit (drop_bit 1 c) 31"
    using bit_imp_le_length [of c 32] by (auto simp: bit_drop_bit_eq)
  ultimately have "\<not> bit (0xedb88320 :: u32) 31" by (simp only: bit_xor_iff) simp
  then show ?thesis by simp
next
  case False
  then have "drop_bit 1 c = 0" using assms unfolding crc32_bit_def and_1_iff by simp
  then have "\<not> bit (drop_bit 1 c) n" for n by simp
  then have "\<not> bit c (Suc n)" for n by (simp add: bit_simps)
  with False have "\<not> bit c n" for n by (cases n) auto
  then show ?thesis by (intro bit_word_eqI) simp
qed

interpretation c8: byte_crc crc8_bit "\<lambda>d. d"
  by unfold_locales (simp_all add: crc8_bit_xor crc8_bit_kernel)

interpretation c32: byte_crc crc32_bit "ucast :: u8 \<Rightarrow> u32"
proof
  show "c = 0" if "crc32_bit c = 0" for c using that by (rule crc32_bit_kernel)
  show "x = 0" if "(ucast x :: u32) = 0" for x :: u8
  proof -
    have "unat (ucast x :: u32) = 0" using that by simp
    then show ?thesis by (simp add: unat_eq_zero)
  qed
qed (simp_all add: crc32_bit_xor unsigned_xor_eq)

lemma crc8_of_byte_step: "crc8_of = foldl c8.byte_step 0"
  by (simp add: crc8_of_def crc8_byte_def [abs_def] c8.byte_step_def [abs_def])

lemma crc32_of_byte_step: "crc32_of ds = foldl c32.byte_step 0xffffffff ds XOR 0xffffffff"
  by (simp add: crc32_of_def crc32_byte_def [abs_def] c32.byte_step_def [abs_def])

lemma crc8_of_append_self: "crc8_of (xs @ [crc8_of xs]) = 0"
proof -
  have "(crc8_bit ^^ n) 0 = 0" for n
    by (induction n) (simp_all add: crc8_bit_def)
  then have "crc8_byte c c = 0" for c
    by (simp add: crc8_byte_def)
  then show ?thesis by (simp add: crc8_of_def)
qed

lemma crc8_detects: "crc8_of (xs @ x # ys) = crc8_of (xs @ y # ys) \<Longrightarrow> x = y"
  unfolding crc8_of_byte_step by (rule c8.run_detects)

lemma crc32_detects: "crc32_of (xs @ x # ys) = crc32_of (xs @ y # ys) \<Longrightarrow> x = y"
  unfolding crc32_of_byte_step by (rule c32.run_detects) simp

lemma crc8_of_xor:
  "length xs = length ys \<Longrightarrow> crc8_of (map2 (XOR) xs ys) = crc8_of xs XOR crc8_of ys"
  unfolding crc8_of_byte_step using c8.run_xor [of xs ys 0 0] by simp

lemma funpow_8: "(f ^^ 8) x = f (f (f (f (f (f (f (f x)))))))"
  by (simp add: numeral_eq_Suc)

section \<open>Properties\<close>

text \<open>
  Property C4: both checksums tell any two messages apart that differ in one byte: a packet or
  a dump with one corrupted byte never has the checksum of the original.
\<close>

theorem checksums_detect_byte_errors:
  assumes "x \<noteq> y"
  shows "nfc_crc8 (xs @ x # ys) (length (xs @ x # ys)) \<noteq> nfc_crc8 (xs @ y # ys) (length (xs @ y # ys))
    \<and> crc32 (xs @ x # ys) (length (xs @ x # ys)) \<noteq> crc32 (xs @ y # ys) (length (xs @ y # ys))"
  using assms crc8_detects [of xs x ys y] crc32_detects [of xs x ys y]
  by (auto simp: nfc_crc8_eq crc32_eq)

theorem checksums_detect_byte_errors_witness:
  "nfc_crc8 [1, 2, 3] 3 \<noteq> nfc_crc8 [1, 7, 3] 3 \<and> crc32 [1, 2, 3] 3 \<noteq> crc32 [1, 7, 3] 3"
proof -
  have "(2 :: u8) \<noteq> 7" by simp
  from checksums_detect_byte_errors [OF this, of "[1]" "[3]"] show ?thesis
    by (simp add: numeral_eq_Suc)
qed

text \<open>
  The routines compute the standard checksums: on the check string "123456789"
  they give the published check values of CRC-8 (0xF4) and CRC-32 (0xCBF43926).
\<close>

theorem checksum_check_values:
  "nfc_crc8 [49, 50, 51, 52, 53, 54, 55, 56, 57] 9 = Some 0xF4
   \<and> crc32 [49, 50, 51, 52, 53, 54, 55, 56, 57] 9 = Some 0xCBF43926"
  by (simp add: nfc_crc8_eq crc8_of_def crc8_byte_def crc8_bit_def funpow_8
      crc32_eq crc32_of_def crc32_byte_def crc32_bit_def)

end
