(* ===== verification/NfcMcu.thy ===== *)
theory NfcMcu
  imports Fifo Crc
begin

text \<open>
  \<open>main/nfc_mcu.c\<close>: the emulated NFC microcontroller.  The file's static variables are the
  record \<open>nfc_state\<close>; its operations are functions on it with the same names (\<open>flush\<close>,
  \<open>status\<close>, \<open>poll\<close>, \<open>uid\<close>, \<open>reserve\<close>, \<open>finish\<close> and the API functions \<open>nfc_*\<close>).  A pointer
  into the queue (\<open>reserve\<close>'s result) is the index of its slot; a null pointer is \<open>None\<close>, so
  using it ends in the undefined-behaviour result \<open>None\<close> of the option monad.
  Part one is the code; part two gives each operation an equation over whole packets; part
  three is the invariant, the queue contract and the properties.
\<close>

definition NFC_MCU_SIZE :: nat where "NFC_MCU_SIZE = 313"
definition NFC_TAG_SIZE :: nat where "NFC_TAG_SIZE = 540"

lemmas nfc_sizes = NFC_MCU_SIZE_def NFC_TAG_SIZE_def

section \<open>The code\<close>

record nfc_state =
  tag :: bytes
  present :: bool
  seen :: bool
  power_state :: u8
  poll_state :: u8
  queue :: "bytes list"
  q_head :: nat
  q_count :: nat
  received :: u32
  rejected :: u32
  last_cmd :: u8
  last_sub :: u8

definition nfc_boot :: nfc_state where
  "nfc_boot = \<lparr>tag = replicate NFC_TAG_SIZE 0, present = False, seen = False,
     power_state = 0, poll_state = 0, queue = replicate 4 (replicate NFC_MCU_SIZE 0),
     q_head = 0, q_count = 0, received = 0, rejected = 0, last_cmd = 0, last_sub = 0\<rparr>"

record nfc_diagnostics_t =
  d_power :: u8
  d_poll :: u8
  d_last_cmd :: u8
  d_last_sub :: u8
  d_pending :: nat
  d_received :: u32
  d_rejected :: u32
  d_present :: bool

definition nfc_diagnostics :: "nfc_state \<Rightarrow> nfc_diagnostics_t" where
  "nfc_diagnostics s = \<lparr>d_power = power_state s, d_poll = poll_state s,
     d_last_cmd = last_cmd s, d_last_sub = last_sub s, d_pending = q_count s,
     d_received = received s, d_rejected = rejected s, d_present = present s\<rparr>"

definition flush :: "nfc_state \<Rightarrow> nfc_state" where
  "flush s = s\<lparr>q_head := 0, q_count := 0\<rparr>"

definition nfc_reset :: "nfc_state \<Rightarrow> nfc_state" where
  "nfc_reset s = (flush s)\<lparr>power_state := 0, poll_state := 0, seen := False,
     received := 0, rejected := 0, last_cmd := 0, last_sub := 0\<rparr>"

definition uid :: "nfc_state \<Rightarrow> bytes \<Rightarrow> bytes option" where
  "uid s out = do { out \<leftarrow> memcpy out 0 (tag s) 3; memcpy out 3 (drop 4 (tag s)) 4 }"

definition reserve :: "nfc_state \<Rightarrow> (nat option \<times> nfc_state) option" where
  "reserve s =
     (if q_count s = 4 then Some (None, s)
      else let i = (q_head s + q_count s) mod 4 in
        do {
          slot \<leftarrow> rd (queue s) i;
          slot \<leftarrow> memset slot 0 0 NFC_MCU_SIZE;
          Some (Some i, s\<lparr>queue := (queue s)[i := slot], q_count := q_count s + 1\<rparr>)
        })"

text \<open>Writing through the pointer \<open>p = queue[i]\<close>.\<close>

definition with_slot :: "nat \<Rightarrow> (bytes \<Rightarrow> bytes option) \<Rightarrow> nfc_state \<Rightarrow> nfc_state option" where
  "with_slot i f s =
     do { p \<leftarrow> rd (queue s) i; p \<leftarrow> f p; Some (s\<lparr>queue := (queue s)[i := p]\<rparr>) }"

definition finish :: "bytes \<Rightarrow> bytes option" where
  "finish p = do { c \<leftarrow> nfc_crc8 p 312; wr p 312 c }"

definition status :: "nfc_state \<Rightarrow> nfc_state option" where
  "status s =
     do {
       (r, s) \<leftarrow> reserve s;
       (case r of
          None \<Rightarrow> Some s
        | Some i \<Rightarrow> with_slot i (\<lambda>p. do {
              p \<leftarrow> (if power_state s = 0 then wr p 0 0xff
                   else do { p \<leftarrow> memcpy p 0 [1, 0, 0, 0, 8, 0, 0x1b] 7; wr p 7 (power_state s) });
              finish p
            }) s)
     }"

definition nfc_power :: "u8 \<Rightarrow> nfc_state \<Rightarrow> (bool \<times> nfc_state) option" where
  "nfc_power value s =
     (if value > 1 then Some (False, s)
      else do {
        s \<leftarrow> status ((flush s)\<lparr>power_state := value, poll_state := 0, seen := False\<rparr>);
        Some (True, s)
      })"

definition nfc_config ::
    "bytes option \<Rightarrow> nat \<Rightarrow> bytes \<Rightarrow> nfc_state \<Rightarrow> (bool \<times> bytes \<times> nfc_state) option" where
  "nfc_config args len reply s =
     (case args of
        None \<Rightarrow> Some (False, reply, s)
      | Some a \<Rightarrow>
          if len < 3 then Some (False, reply, s)
          else do {
            mode \<leftarrow> rd a 2;
            if mode \<noteq> 0 \<and> mode \<noteq> 1 \<and> mode \<noteq> 4 then Some (False, reply, s)
            else do {
              s \<leftarrow> (if power_state s \<noteq> 0 \<and> mode \<noteq> 0
                   then status (flush (s\<lparr>power_state := mode, poll_state := 0, seen := False\<rparr>))
                   else Some s);
              reply \<leftarrow> memset reply 0 0 34;
              reply \<leftarrow> memcpy reply 0 [1, 0, 0xff, 0, 8, 0, 0x1b, 1] 8;
              c \<leftarrow> nfc_crc8 reply 33;
              reply \<leftarrow> wr reply 33 c;
              Some (True, reply, s)
            }
          })"

definition poll :: "nfc_state \<Rightarrow> nfc_state option" where
  "poll s =
     do {
       (r, s) \<leftarrow> reserve s;
       (case r of
          None \<Rightarrow> Some s
        | Some i \<Rightarrow> do {
            s \<leftarrow> with_slot i (\<lambda>p. memcpy p 0 [0x2a, 0, 5, 0, 0, 9, 0x31] 7) s;
            s \<leftarrow> (if present s \<and> poll_state s \<noteq> 0
                 then do {
                   let s = s\<lparr>poll_state := (if seen s then 9 else 1), seen := True\<rparr>;
                   with_slot i (\<lambda>p. do {
                       p \<leftarrow> memcpy p 8 [0, 0, 0, 1, 1, 2, 0, 7] 8;
                       at_offset 16 (uid s) p
                     }) s
                 }
                 else Some s);
            with_slot i (\<lambda>p. do { p \<leftarrow> wr p 7 (poll_state s); finish p }) s
          })
     }"

definition nfc_load :: "bytes option \<Rightarrow> nat \<Rightarrow> nfc_state \<Rightarrow> (bool \<times> nfc_state) option" where
  "nfc_load data len s =
     (case data of
        None \<Rightarrow> Some (False, s)
      | Some d \<Rightarrow>
          if len \<noteq> NFC_TAG_SIZE then Some (False, s)
          else do {
            t \<leftarrow> memcpy (tag s) 0 d len;
            let s = flush (s\<lparr>tag := t, present := True, seen := False\<rparr>);
            s \<leftarrow> (if power_state s = 4 \<and> poll_state s \<noteq> 0 then poll (s\<lparr>poll_state := 1\<rparr>)
                 else if power_state s \<noteq> 0 then status s
                 else Some s);
            Some (True, s)
          })"

definition nfc_unload :: "nfc_state \<Rightarrow> nfc_state option" where
  "nfc_unload s =
     do {
       let s = s\<lparr>present := False, seen := False\<rparr>;
       t \<leftarrow> memset (tag s) 0 0 NFC_TAG_SIZE;
       let s = flush (s\<lparr>tag := t\<rparr>);
       (if poll_state s \<noteq> 0
        then (let s = s\<lparr>poll_state := 1\<rparr> in if power_state s = 4 then poll s else Some s)
        else Some s)
     }"

definition wire_prefix :: bytes where
  "wire_prefix = [0x3a, 0x00, 0x07, 0x01, 0x00, 0x01, 0x31, 0x02, 0x00, 0x00, 0x00, 0x01,
     0x02, 0x00, 0x07]"

definition wire_meta :: bytes where
  "wire_meta = [0, 0, 0, 0, 0x7d, 0xfd, 0xf0, 0x79, 0x36, 0x51, 0xab, 0xd7, 0x46, 0x6e,
     0x39, 0xc1, 0x91, 0xba, 0xbe, 0xb8, 0x56, 0xce, 0xed, 0xf1, 0xce, 0x44,
     0xcc, 0x75, 0xea, 0xfb, 0x27, 9, 0x4d, 8, 0x7a, 0xe8, 3, 0, 0x3b, 0x3c,
     0x77, 0x78, 0x86, 0, 0]"

definition wire_second :: bytes where
  "wire_second = [0x3a, 0, 7, 2, 0, 9, 0x27]"

definition wire_tail :: bytes where
  "wire_tail = [0x2a, 0, 5, 0, 0, 9, 0x31, 4, 0, 0, 0, 1, 1, 2, 0, 7]"

definition read_tag :: "nfc_state \<Rightarrow> nfc_state option" where
  "read_tag s =
     do {
       let s = flush s;
       (r, s) \<leftarrow> reserve s;
       i \<leftarrow> r;
       s \<leftarrow> with_slot i (\<lambda>p. do {
           p \<leftarrow> memcpy p 0 wire_prefix 15;
           p \<leftarrow> at_offset 15 (uid s) p;
           p \<leftarrow> memcpy p (15 + 7) wire_meta 45;
           p \<leftarrow> memcpy p (15 + 7 + 45) (tag s) 245;
           finish p
         }) s;
       (r, s) \<leftarrow> reserve s;
       i \<leftarrow> r;
       s \<leftarrow> with_slot i (\<lambda>p. do {
           p \<leftarrow> memcpy p 0 wire_second 7;
           p \<leftarrow> memcpy p 7 (drop 245 (tag s)) 295;
           finish p
         }) s;
       (r, s) \<leftarrow> reserve s;
       i \<leftarrow> r;
       with_slot i (\<lambda>p. do {
           p \<leftarrow> memcpy p 0 wire_tail 16;
           p \<leftarrow> at_offset 16 (uid s) p;
           finish p
         }) s
     }"

definition handle_command :: "bytes option \<Rightarrow> nat \<Rightarrow> nfc_state \<Rightarrow> (bool \<times> nfc_state) option" where
  "handle_command packet len s =
     (case packet of
        None \<Rightarrow> Some (False, s)
      | Some p \<Rightarrow>
          if len < 11 then Some (False, s)
          else do {
            p0 \<leftarrow> rd p 0;
            if p0 \<noteq> 0x11 then Some (False, s)
            else do {
              cmd \<leftarrow> rd p 10;
              if cmd = 1 then do { s \<leftarrow> status s; Some (True, s) }
              else if cmd \<noteq> 2 \<or> len < 12 \<or> power_state s \<noteq> 4 then Some (False, s)
              else do {
                let data = drop 12 p;
                let size = len - 12;
                sub \<leftarrow> rd p 11;
                if sub = 1 then Some (True, s\<lparr>poll_state := 1\<rparr>)
                else if sub = 2 then Some (True, flush (s\<lparr>poll_state := 0, seen := False\<rparr>))
                else if sub = 4 then do { s \<leftarrow> poll s; Some (True, s) }
                else if sub = 6 then
                  (if size < 13 \<or> \<not> present s then Some (False, s)
                   else do {
                     setup \<leftarrow> rd_range data 6 7;
                     if list_ex (\<lambda>b. b \<noteq> 0) setup then Some (False, s)
                     else do { s \<leftarrow> read_tag s; Some (True, s) }
                   })
                else Some (False, s)
              }
            }
          })"

definition nfc_command :: "bytes option \<Rightarrow> nat \<Rightarrow> nfc_state \<Rightarrow> (bool \<times> nfc_state) option" where
  "nfc_command packet len s =
     do {
       let s = s\<lparr>received := received s + 1\<rparr>;
       cmd \<leftarrow> (case packet of None \<Rightarrow> Some 0 | Some p \<Rightarrow> if len > 10 then rd p 10 else Some 0);
       sub \<leftarrow> (case packet of None \<Rightarrow> Some 0 | Some p \<Rightarrow> if len > 11 then rd p 11 else Some 0);
       let s = s\<lparr>last_cmd := cmd, last_sub := sub\<rparr>;
       (ok, s) \<leftarrow> handle_command packet len s;
       Some (ok, if ok then s else s\<lparr>rejected := rejected s + 1\<rparr>)
     }"

definition nfc_peek :: "bytes \<Rightarrow> nfc_state \<Rightarrow> bytes option" where
  "nfc_peek out s =
     (if q_count s \<noteq> 0
      then do { p \<leftarrow> rd (queue s) (q_head s); memcpy out 0 p NFC_MCU_SIZE }
      else do {
        out \<leftarrow> memset out 0 0 NFC_MCU_SIZE;
        out \<leftarrow> wr out 0 0xff;
        finish out
      })"

definition nfc_commit :: "nfc_state \<Rightarrow> nfc_state" where
  "nfc_commit s =
     (if q_count s \<noteq> 0 then s\<lparr>q_head := (q_head s + 1) mod 4, q_count := q_count s - 1\<rparr> else s)"

section \<open>Operations as equations over whole packets\<close>

text \<open>
  \<open>nfc_wf\<close> is the shape of the static variables, \<open>contents\<close> the queue as a list, \<open>push\<close>
  the effect of filling a reserved slot, and \<open>seal body\<close> the 313-byte packet with the given
  first bytes: zero-padded to 312 bytes and closed by their checksum.
\<close>

definition nfc_wf :: "nfc_state \<Rightarrow> bool" where
  "nfc_wf s \<longleftrightarrow> length (tag s) = 540 \<and> length (queue s) = 4
     \<and> (\<forall>p \<in> set (queue s). length p = 313) \<and> q_head s < 4 \<and> q_count s \<le> 4"

definition contents :: "nfc_state \<Rightarrow> bytes list" where
  "contents s = ring_list (queue s) (q_head s) (q_count s)"

definition push :: "bytes \<Rightarrow> nfc_state \<Rightarrow> nfc_state" where
  "push p s = (if q_count s = 4 then s
     else s\<lparr>queue := (queue s)[(q_head s + q_count s) mod 4 := p], q_count := q_count s + 1\<rparr>)"

definition pad_body :: "bytes \<Rightarrow> bytes" where
  "pad_body body = body @ replicate (312 - length body) 0"

definition seal :: "bytes \<Rightarrow> bytes" where
  "seal body = pad_body body @ [crc8_of (pad_body body)]"

definition uid_bytes :: "bytes \<Rightarrow> bytes" where
  "uid_bytes t = take 3 t @ take 4 (drop 4 t)"

definition status_packet :: "u8 \<Rightarrow> bytes" where
  "status_packet pw = seal (if pw = 0 then [0xff] else [1, 0, 0, 0, 8, 0, 0x1b, pw])"

definition idle_packet :: bytes where
  "idle_packet = seal [0xff]"

definition poll_packet :: "u8 \<Rightarrow> bytes option \<Rightarrow> bytes" where
  "poll_packet st found = seal ([0x2a, 0, 5, 0, 0, 9, 0x31, st]
     @ (case found of None \<Rightarrow> [] | Some u \<Rightarrow> [0, 0, 0, 1, 1, 2, 0, 7] @ u))"

definition fragment1 :: "bytes \<Rightarrow> bytes" where
  "fragment1 t = seal (wire_prefix @ uid_bytes t @ wire_meta @ take 245 t)"

definition fragment2 :: "bytes \<Rightarrow> bytes" where
  "fragment2 t = seal (wire_second @ take 295 (drop 245 t))"

definition fragment_end :: "bytes \<Rightarrow> bytes" where
  "fragment_end t = seal (wire_tail @ uid_bytes t)"

lemma wire_lengths [simp]:
  "length wire_prefix = 15" "length wire_meta = 45" "length wire_second = 7" "length wire_tail = 16"
  by (simp_all add: wire_prefix_def wire_meta_def wire_second_def wire_tail_def)

lemma length_uid_bytes: "8 \<le> length t \<Longrightarrow> length (uid_bytes t) = 7"
  by (simp add: uid_bytes_def)

lemma length_seal: "length body \<le> 312 \<Longrightarrow> length (seal body) = 313"
  by (simp add: seal_def pad_body_def)

lemma nfc_wf_slots: "nfc_wf s \<Longrightarrow> i < 4 \<Longrightarrow> length (queue s ! i) = 313"
  by (auto simp: nfc_wf_def)

lemma nfc_wf_push: "nfc_wf s \<Longrightarrow> length p = 313 \<Longrightarrow> nfc_wf (push p s)"
  by (auto simp: nfc_wf_def push_def dest!: subsetD [OF set_update_subset_insert])

lemma nfc_wf_flush [simp]: "nfc_wf s \<Longrightarrow> nfc_wf (flush s)"
  by (simp add: nfc_wf_def flush_def)

lemma contents_push:
  "nfc_wf s \<Longrightarrow> contents (push p s) = (if length (contents s) < 4 then contents s @ [p] else contents s)"
  using ring_list_push [of "q_count s" "queue s" "q_head s" p]
  by (auto simp: contents_def push_def nfc_wf_def)

lemma contents_flush [simp]: "contents (flush s) = []"
  by (simp add: contents_def flush_def)

lemma length_contents [simp]: "length (contents s) = q_count s"
  by (simp add: contents_def)

lemma push_simps [simp]:
  "tag (push p s) = tag s" "present (push p s) = present s" "seen (push p s) = seen s"
  "power_state (push p s) = power_state s" "poll_state (push p s) = poll_state s"
  "received (push p s) = received s" "rejected (push p s) = rejected s"
  "last_cmd (push p s) = last_cmd s" "last_sub (push p s) = last_sub s"
  by (simp_all add: push_def)

lemma flush_simps [simp]:
  "tag (flush s) = tag s" "present (flush s) = present s" "seen (flush s) = seen s"
  "power_state (flush s) = power_state s" "poll_state (flush s) = poll_state s"
  "received (flush s) = received s" "rejected (flush s) = rejected s"
  "last_cmd (flush s) = last_cmd s" "last_sub (flush s) = last_sub s"
  "queue (flush s) = queue s" "q_head (flush s) = 0" "q_count (flush s) = 0"
  by (simp_all add: flush_def)

subsection \<open>Filling a reserved slot\<close>

lemma finish_eq: "length p = 313 \<Longrightarrow> finish p = Some (take 312 p @ [crc8_of (take 312 p)])"
  by (simp add: finish_def nfc_crc8_eq list_update_append upd_conv_take_nth_drop)

lemma finish_body:
  "length body + n = 313 \<Longrightarrow> 0 < n \<Longrightarrow> finish (body @ replicate n 0) = Some (seal body)"
  by (simp add: finish_eq seal_def pad_body_def)

lemma reserve_full: "q_count s = 4 \<Longrightarrow> reserve s = Some (None, s)"
  by (simp add: reserve_def)

lemma reserve_room:
  assumes "nfc_wf s" and "q_count s \<noteq> 4"
  shows "reserve s = Some (Some ((q_head s + q_count s) mod 4), push (replicate 313 0) s)"
  using assms nfc_wf_slots [OF assms(1)]
  by (simp add: reserve_def push_def Let_def nfc_wf_def NFC_MCU_SIZE_def)

text \<open>Writing a sequence of pieces into the slot that was just pushed.\<close>

lemma with_slot_push:
  assumes "nfc_wf s" and "q_count s \<noteq> 4" and "f p = Some p'"
  shows "with_slot ((q_head s + q_count s) mod 4) f (push p s) = Some (push p' s)"
  using assms by (simp add: with_slot_def push_def nfc_wf_def)

lemma status_eq:
  assumes "nfc_wf s"
  shows "status s = Some (push (status_packet (power_state s)) s)"
proof (cases "q_count s = 4")
  case True
  then show ?thesis by (simp add: status_def reserve_full push_def)
next
  case False
  have body: "[1, 0, 0, 0, 8, 0, 27] @ (power_state s # replicate 305 0)
      = [1, 0, 0, 0, 8, 0, 27, power_state s] @ replicate 305 (0 :: u8)" by simp
  have rep: "replicate 306 (0 :: u8) = 0 # replicate 305 0" "replicate 313 (0 :: u8) = 0 # replicate 312 0"
    by (simp_all add: replicate_Suc [symmetric] del: replicate_Suc)
  have "(do {
          p \<leftarrow> (if power_state s = 0 then wr (replicate 313 0) 0 0xff
               else do { p \<leftarrow> memcpy (replicate 313 0) 0 [1, 0, 0, 0, 8, 0, 0x1b] 7;
                         wr p 7 (power_state s) });
          finish p }) = Some (status_packet (power_state s))"
    using finish_body [of "[0xff]" 312] finish_body [of "[1, 0, 0, 0, 8, 0, 0x1b, power_state s]" 305]
    by (simp add: status_packet_def rep)
  with assms False show ?thesis
    by (simp add: status_def reserve_room with_slot_push cong: if_cong)
qed

lemma uid_eq:
  assumes "8 \<le> length (tag s)" and "7 \<le> length out"
  shows "uid s out = Some (uid_bytes (tag s) @ drop 7 out)"
  using assms by (simp add: uid_def uid_bytes_def min_def)

lemma uid_at:
  assumes "8 \<le> length (tag s)" and "n = length p" and "7 \<le> length q"
  shows "at_offset n (uid s) (p @ q) = Some (p @ uid_bytes (tag s) @ drop 7 q)"
  using assms by (simp add: at_offset_append uid_eq)

lemma memcpy_at:
  assumes "n = length p" and "m = length src" and "m \<le> length q"
  shows "memcpy (p @ q) n src m = Some (p @ src @ drop m q)"
  using assms by simp

text \<open>What one poll reports and how it moves the poll state.\<close>

definition polled :: "nfc_state \<Rightarrow> nfc_state" where
  "polled s = (if present s \<and> poll_state s \<noteq> 0
     then s\<lparr>poll_state := (if seen s then 9 else 1), seen := True\<rparr> else s)"

definition poll_answer :: "nfc_state \<Rightarrow> bytes" where
  "poll_answer s = poll_packet (poll_state (polled s))
     (if present s \<and> poll_state s \<noteq> 0 then Some (uid_bytes (tag s)) else None)"

lemma push_update:
  "push p (s\<lparr>poll_state := x, seen := y\<rparr>) = (push p s)\<lparr>poll_state := x, seen := y\<rparr>"
  by (simp add: push_def)

lemma nfc_wf_update [simp]:
  "nfc_wf (s\<lparr>poll_state := x\<rparr>) = nfc_wf s" "nfc_wf (s\<lparr>seen := y\<rparr>) = nfc_wf s"
  "nfc_wf (s\<lparr>power_state := x\<rparr>) = nfc_wf s" "nfc_wf (s\<lparr>present := y\<rparr>) = nfc_wf s"
  "nfc_wf (s\<lparr>received := n\<rparr>) = nfc_wf s" "nfc_wf (s\<lparr>rejected := n\<rparr>) = nfc_wf s"
  "nfc_wf (s\<lparr>last_cmd := x\<rparr>) = nfc_wf s" "nfc_wf (s\<lparr>last_sub := x\<rparr>) = nfc_wf s"
  by (simp_all add: nfc_wf_def)

lemma with_slot_idle:
  assumes "nfc_wf s" and "q_count s \<noteq> 4" and "f p = Some p'"
    and "t = (push p s)\<lparr>poll_state := x, seen := y\<rparr>"
  shows "with_slot ((q_head s + q_count s) mod 4) f t = Some ((push p' s)\<lparr>poll_state := x, seen := y\<rparr>)"
  using assms by (simp add: with_slot_def push_def nfc_wf_def)

lemma poll_eq:
  assumes "nfc_wf s"
  shows "poll s = Some (if q_count s = 4 then s else push (poll_answer s) (polled s))"
proof (cases "q_count s = 4")
  case True
  then show ?thesis by (simp add: poll_def reserve_full)
next
  case False
  let ?h = "[0x2a, 0, 5, 0, 0, 9, 0x31] :: bytes"
  let ?f = "[0, 0, 0, 1, 1, 2, 0, 7] :: bytes"
  let ?u = "uid_bytes (tag s)"
  have t: "length (tag s) = 540" using assms by (simp add: nfc_wf_def)
  then have u: "length ?u = 7" by (simp add: length_uid_bytes)
  have reps: "replicate 306 (0 :: u8) = 0 # replicate 305 0"
    by (simp_all add: replicate_Suc [symmetric] del: replicate_Suc)
  have w1: "with_slot i (\<lambda>p. memcpy p 0 ?h 7) (push (replicate 313 0) s)
      = Some (push (?h @ replicate 306 0) s)" if "i = (q_head s + q_count s) mod 4" for i
    unfolding that using assms False by (intro with_slot_push) simp_all
  have sealed1: "finish (?h @ st # replicate 305 0) = Some (poll_packet st None)" for st
    using finish_body [of "?h @ [st]" 305] by (simp add: poll_packet_def)
  have sealed2: "finish (?h @ st # ?f @ ?u @ replicate 290 0) = Some (poll_packet st (Some ?u))" for st
    using finish_body [of "?h @ [st] @ ?f @ ?u" 290] u by (simp add: poll_packet_def)
  show ?thesis
  proof (cases "present s \<and> poll_state s \<noteq> 0")
    case found: True
    let ?st = "if seen s then 9 else 1 :: u8"
    have "with_slot i (\<lambda>p. do { p \<leftarrow> memcpy p 8 ?f 8; at_offset 16 (uid t) p })
            ((push (?h @ replicate 306 0) s)\<lparr>poll_state := ?st, seen := True\<rparr>)
        = Some ((push (?h @ 0 # ?f @ ?u @ replicate 290 0) s)\<lparr>poll_state := ?st, seen := True\<rparr>)"
      if "tag t = tag s" and "i = (q_head s + q_count s) mod 4" for t i
      unfolding that(2) using assms False that(1) t
      by (intro with_slot_idle) (simp_all add: reps uid_at [of t 16 "?h @ 0 # ?f", simplified] )
    with found assms False sealed2 show ?thesis
      by (simp add: poll_def reserve_room w1 polled_def poll_answer_def Let_def push_update
          with_slot_idle [where p = "?h @ 0 # ?f @ ?u @ replicate 290 0"])
  next
    case none: False
    have "with_slot ((q_head s + q_count s) mod 4) (\<lambda>p. do { p \<leftarrow> wr p 7 st; finish p })
        (push (?h @ replicate 306 0) s) = Some (push (poll_packet st None) s)" for st
      using assms False sealed1 [of st] by (intro with_slot_push) (simp_all add: reps)
    with none assms False show ?thesis
      by (auto simp: poll_def reserve_room w1 polled_def poll_answer_def)
  qed
qed

text \<open>The whole-tag read: three packets, in order, on an empty queue.\<close>

lemma with_slot_fill:
  assumes "nfc_wf s" and "q_count s \<noteq> 4" and "f (replicate 313 0) = Some p'"
  shows "with_slot ((q_head s + q_count s) mod 4) f (push (replicate 313 0) s) = Some (push p' s)"
  using assms by (rule with_slot_push)

lemma fragments_fill:
  assumes "length (tag s) = 540"
  shows "(do { p \<leftarrow> memcpy (replicate 313 0) 0 wire_prefix 15; p \<leftarrow> at_offset 15 (uid s) p;
               p \<leftarrow> memcpy p (15 + 7) wire_meta 45; p \<leftarrow> memcpy p (15 + 7 + 45) (tag s) 245;
               finish p }) = Some (fragment1 (tag s))"
    and "(do { p \<leftarrow> memcpy (replicate 313 0) 0 wire_second 7;
               p \<leftarrow> memcpy p 7 (drop 245 (tag s)) 295; finish p }) = Some (fragment2 (tag s))"
    and "(do { p \<leftarrow> memcpy (replicate 313 0) 0 wire_tail 16; p \<leftarrow> at_offset 16 (uid s) p;
               finish p }) = Some (fragment_end (tag s))"
proof -
  let ?u = "uid_bytes (tag s)"
  have u: "length ?u = 7" using assms by (simp add: length_uid_bytes)
  have f1: "finish (wire_prefix @ ?u @ wire_meta @ take 245 (tag s) @ [0]) = Some (fragment1 (tag s))"
    using finish_body [of "wire_prefix @ ?u @ wire_meta @ take 245 (tag s)" 1] assms u
    by (simp add: fragment1_def)
  have f2: "finish (wire_second @ take 295 (drop 245 (tag s)) @ replicate 11 0) = Some (fragment2 (tag s))"
    using finish_body [of "wire_second @ take 295 (drop 245 (tag s))" 11] assms
    by (simp add: fragment2_def)
  have f3: "finish (wire_tail @ ?u @ replicate 290 0) = Some (fragment_end (tag s))"
    using finish_body [of "wire_tail @ ?u" 290] u by (simp add: fragment_end_def)
  have one: "replicate (Suc 0) (0 :: u8) = [0]" by simp
  show "(do { p \<leftarrow> memcpy (replicate 313 0) 0 wire_prefix 15; p \<leftarrow> at_offset 15 (uid s) p;
               p \<leftarrow> memcpy p (15 + 7) wire_meta 45; p \<leftarrow> memcpy p (15 + 7 + 45) (tag s) 245;
               finish p }) = Some (fragment1 (tag s))"
    using assms u f1 by (simp add: uid_at)
  show "(do { p \<leftarrow> memcpy (replicate 313 0) 0 wire_second 7;
               p \<leftarrow> memcpy p 7 (drop 245 (tag s)) 295; finish p }) = Some (fragment2 (tag s))"
    using assms f2 by simp
  show "(do { p \<leftarrow> memcpy (replicate 313 0) 0 wire_tail 16; p \<leftarrow> at_offset 16 (uid s) p;
               finish p }) = Some (fragment_end (tag s))"
    using assms u f3 by (simp add: uid_at)
qed

lemma length_fragments:
  assumes "length t = 540"
  shows "length (fragment1 t) = 313" "length (fragment2 t) = 313" "length (fragment_end t) = 313"
  using assms by (simp_all add: fragment1_def fragment2_def fragment_end_def length_seal length_uid_bytes)

lemma q_count_push: "q_count (push p s) = (if q_count s = 4 then 4 else q_count s + 1)"
  by (simp add: push_def)

lemma q_head_push [simp]: "q_head (push p s) = q_head s"
  by (simp add: push_def)

lemma uid_tag_cong: "tag s = tag t \<Longrightarrow> uid s = uid t"
  by (simp add: uid_def [abs_def])

lemma read_tag_eq:
  assumes "nfc_wf s"
  shows "read_tag s = Some (push (fragment_end (tag s)) (push (fragment2 (tag s))
                              (push (fragment1 (tag s)) (flush s))))"
proof -
  have t: "length (tag s) = 540" using assms by (simp add: nfc_wf_def)
  note len = length_fragments [OF t]
  let ?s0 = "flush s"
  let ?s1 = "push (fragment1 (tag s)) ?s0"
  let ?s2 = "push (fragment2 (tag s)) ?s1"
  have wf0: "nfc_wf ?s0" using assms by (rule nfc_wf_flush)
  have wf1: "nfc_wf ?s1" using wf0 len by (simp add: nfc_wf_push)
  have wf2: "nfc_wf ?s2" using wf1 len by (simp add: nfc_wf_push)
  have c: "q_count ?s0 = 0" "q_count ?s1 = 1" "q_count ?s2 = 2" by (simp_all add: q_count_push)
  have u: "uid (push p ?s0) = uid s" "uid (push p ?s2) = uid s" for p
    by (rule uid_tag_cong, simp)+
  have n: "q_count ?s0 \<noteq> 4" "q_count ?s1 \<noteq> 4" "q_count ?s2 \<noteq> 4" by (simp_all add: c)
  let ?f1 = "\<lambda>p. do { p \<leftarrow> memcpy p 0 wire_prefix 15; p \<leftarrow> at_offset 15 (uid s) p;
     p \<leftarrow> memcpy p (15 + 7) wire_meta 45; p \<leftarrow> memcpy p (15 + 7 + 45) (tag s) 245; finish p }"
  let ?f2 = "\<lambda>p. do { p \<leftarrow> memcpy p 0 wire_second 7; p \<leftarrow> memcpy p 7 (drop 245 (tag s)) 295; finish p }"
  let ?f3 = "\<lambda>p. do { p \<leftarrow> memcpy p 0 wire_tail 16; p \<leftarrow> at_offset 16 (uid s) p; finish p }"
  have slot1: "with_slot ((q_head ?s0 + q_count ?s0) mod 4) ?f1 (push (replicate 313 0) ?s0) = Some ?s1"
    by (rule with_slot_fill [OF wf0 n(1), where f = ?f1]) (rule fragments_fill(1) [OF t])
  have slot2: "with_slot ((q_head ?s1 + q_count ?s1) mod 4) ?f2 (push (replicate 313 0) ?s1) = Some ?s2"
    by (rule with_slot_fill [OF wf1 n(2), where f = ?f2]) (rule fragments_fill(2) [OF t])
  have slot3: "with_slot ((q_head ?s2 + q_count ?s2) mod 4) ?f3 (push (replicate 313 0) ?s2)
      = Some (push (fragment_end (tag s)) ?s2)"
    by (rule with_slot_fill [OF wf2 n(3), where f = ?f3]) (rule fragments_fill(3) [OF t])
  show ?thesis
    using slot1 slot2 slot3 unfolding read_tag_def Let_def
    by (simp add: reserve_room wf0 wf1 wf2 n u del: flush_simps(11,12) q_head_push)
qed

subsection \<open>The API operations\<close>

lemma flush_update [simp]:
  "flush (s\<lparr>power_state := x\<rparr>) = (flush s)\<lparr>power_state := x\<rparr>"
  "flush (s\<lparr>poll_state := x\<rparr>) = (flush s)\<lparr>poll_state := x\<rparr>"
  "flush (s\<lparr>seen := y\<rparr>) = (flush s)\<lparr>seen := y\<rparr>"
  "flush (s\<lparr>present := y\<rparr>) = (flush s)\<lparr>present := y\<rparr>"
  "flush (s\<lparr>tag := t\<rparr>) = (flush s)\<lparr>tag := t\<rparr>"
  by (simp_all add: flush_def)

text \<open>Changing the power mode: the queue is dropped and one status packet is queued.\<close>

definition powered :: "u8 \<Rightarrow> nfc_state \<Rightarrow> nfc_state" where
  "powered m s = push (status_packet m) ((flush s)\<lparr>power_state := m, poll_state := 0, seen := False\<rparr>)"

lemma powered_simps [simp]:
  "power_state (powered m s) = m" "poll_state (powered m s) = 0" "seen (powered m s) = False"
  "present (powered m s) = present s" "tag (powered m s) = tag s"
  by (simp_all add: powered_def)

lemma nfc_power_eq:
  assumes "nfc_wf s"
  shows "nfc_power v s = Some (if v > 1 then (False, s) else (True, powered v s))"
  using assms by (simp add: nfc_power_def status_eq powered_def)

definition config_reply :: bytes where
  "config_reply = [1, 0, 0xff, 0, 8, 0, 0x1b, 1] @ replicate 25 0
     @ [crc8_of ([1, 0, 0xff, 0, 8, 0, 0x1b, 1] @ replicate 25 0)]"

lemma nfc_config_eq:
  assumes "nfc_wf s" and "length reply = 34" and "\<And>a. args = Some a \<Longrightarrow> len \<le> length a"
  shows "nfc_config args len reply s =
    Some (case args of None \<Rightarrow> (False, reply, s)
      | Some a \<Rightarrow> if len < 3 \<or> a ! 2 \<notin> {0, 1, 4} then (False, reply, s)
          else (True, config_reply,
                if power_state s \<noteq> 0 \<and> a ! 2 \<noteq> 0 then powered (a ! 2) s else s))"
proof (cases args)
  case None
  then show ?thesis by (simp add: nfc_config_def)
next
  case (Some a)
  have rep: "replicate 26 (0 :: u8) = replicate 25 0 @ [0]"
    by (simp add: numeral_eq_Suc)
  show ?thesis
  proof (cases "len < 3")
    case True
    with Some show ?thesis by (simp add: nfc_config_def)
  next
    case False
    with Some assms(3) have "rd a 2 = Some (a ! 2)" by force
    with Some False assms(1,2) show ?thesis
      by (auto simp: nfc_config_def status_eq powered_def config_reply_def nfc_crc8_eq rep
          list_update_append Let_def)
  qed
qed

definition loaded :: "bytes \<Rightarrow> nfc_state \<Rightarrow> nfc_state" where
  "loaded t s = (flush s)\<lparr>tag := t, present := True, seen := False\<rparr>"

lemma nfc_load_eq:
  assumes "nfc_wf s" and "length d = 540"
  shows "nfc_load (Some d) 540 s =
    Some (True, if power_state s = 4 \<and> poll_state s \<noteq> 0
      then push (poll_packet 1 (Some (uid_bytes d))) ((loaded d s)\<lparr>poll_state := 1, seen := True\<rparr>)
      else if power_state s \<noteq> 0 then push (status_packet (power_state s)) (loaded d s)
      else loaded d s)"
proof -
  have t: "length (tag s) = 540" and wf: "nfc_wf (loaded d s)"
    using assms by (simp_all add: nfc_wf_def loaded_def flush_def)
  have "memcpy (tag s) 0 d 540 = Some d" using assms t by simp
  moreover have "(flush s)\<lparr>tag := d, present := True, seen := False\<rparr> = loaded d s"
    by (simp add: loaded_def)
  moreover have "poll ((loaded d s)\<lparr>poll_state := 1\<rparr>)
      = Some (push (poll_packet 1 (Some (uid_bytes d))) ((loaded d s)\<lparr>poll_state := 1, seen := True\<rparr>))"
    using wf by (simp add: poll_eq poll_answer_def polled_def loaded_def flush_def)
  ultimately show ?thesis
    using wf by (simp add: nfc_load_def NFC_TAG_SIZE_def status_eq Let_def loaded_def)
qed

lemma nfc_load_reject: "data = None \<or> len \<noteq> 540 \<Longrightarrow> nfc_load data len s = Some (False, s)"
  by (auto simp: nfc_load_def NFC_TAG_SIZE_def split: option.split)

definition unloaded :: "nfc_state \<Rightarrow> nfc_state" where
  "unloaded s = (flush s)\<lparr>tag := replicate 540 0, present := False, seen := False\<rparr>"

lemma nfc_unload_eq:
  assumes "nfc_wf s"
  shows "nfc_unload s =
    Some (if poll_state s = 0 then unloaded s
      else if power_state s = 4
      then push (poll_packet 1 None) ((unloaded s)\<lparr>poll_state := 1\<rparr>)
      else (unloaded s)\<lparr>poll_state := 1\<rparr>)"
proof -
  have t: "length (tag s) = 540" and wf: "nfc_wf (unloaded s)"
    using assms by (simp_all add: nfc_wf_def unloaded_def flush_def)
  have "(flush s)\<lparr>present := False, seen := False, tag := replicate 540 0\<rparr> = unloaded s"
    by (simp add: unloaded_def)
  moreover have "poll ((unloaded s)\<lparr>poll_state := 1\<rparr>)
      = Some (push (poll_packet 1 None) ((unloaded s)\<lparr>poll_state := 1\<rparr>))"
    using wf by (simp add: poll_eq poll_answer_def polled_def unloaded_def flush_def)
  ultimately show ?thesis
    using wf t by (simp add: nfc_unload_def NFC_TAG_SIZE_def Let_def)
       (auto simp: unloaded_def)
qed

text \<open>Which commands are accepted, and what an accepted command does.\<close>

definition command_ok :: "bytes \<Rightarrow> nat \<Rightarrow> nfc_state \<Rightarrow> bool" where
  "command_ok p len s \<longleftrightarrow> 11 \<le> len \<and> p ! 0 = 0x11 \<and>
     (p ! 10 = 1 \<or> (p ! 10 = 2 \<and> 12 \<le> len \<and> power_state s = 4 \<and>
       (p ! 11 \<in> {1, 2, 4}
        \<or> (p ! 11 = 6 \<and> 25 \<le> len \<and> present s \<and> (\<forall>b \<in> set (take 7 (drop 18 p)). b = 0)))))"

definition tag_queued :: "nfc_state \<Rightarrow> nfc_state" where
  "tag_queued s = push (fragment_end (tag s)) (push (fragment2 (tag s))
                    (push (fragment1 (tag s)) (flush s)))"

definition command_effect :: "bytes \<Rightarrow> nfc_state \<Rightarrow> nfc_state" where
  "command_effect p s =
     (if p ! 10 = 1 then push (status_packet (power_state s)) s
      else if p ! 11 = 1 then s\<lparr>poll_state := 1\<rparr>
      else if p ! 11 = 2 then (flush s)\<lparr>poll_state := 0, seen := False\<rparr>
      else if p ! 11 = 4 then (if q_count s = 4 then s else push (poll_answer s) (polled s))
      else tag_queued s)"

lemma handle_command_short: "len < 11 \<Longrightarrow> handle_command packet len s = Some (False, s)"
  by (simp add: handle_command_def split: option.split)

lemma handle_command_eq:
  assumes "nfc_wf s" and "len \<le> length p"
  shows "handle_command (Some p) len s =
    Some (if command_ok p len s then (True, command_effect p s) else (False, s))"
proof (cases "len < 11")
  case True
  then show ?thesis by (simp add: handle_command_short command_ok_def)
next
  case False
  with assms(2) have "11 \<le> length p" by linarith
  then have rds: "rd p 0 = Some (p ! 0)" "rd p 10 = Some (p ! 10)" by (auto intro!: rd_Some)
  show ?thesis
  proof (cases "p ! 0 = 0x11 \<and> p ! 10 = 2 \<and> 12 \<le> len \<and> power_state s = 4")
    case False
    with \<open>\<not> len < 11\<close> rds assms(1) show ?thesis
      by (auto simp: handle_command_def command_ok_def command_effect_def status_eq)
  next
    case True
    with assms(2) have rd11: "rd p 11 = Some (p ! 11)" by simp
    have blk: "rd_range (drop 12 p) 6 7 = Some (take 7 (drop 18 p))" if "25 \<le> len"
      using that assms(2) by simp
    show ?thesis
      using True \<open>\<not> len < 11\<close> rds rd11 assms(1) blk
      by (auto simp: handle_command_def command_ok_def command_effect_def poll_eq read_tag_eq
          tag_queued_def list_ex_iff Let_def not_less)
  qed
qed

lemma nfc_wf_polled [simp]: "nfc_wf (polled s) = nfc_wf s"
  by (simp add: polled_def nfc_wf_def)

definition counted :: "bytes option \<Rightarrow> nat \<Rightarrow> nfc_state \<Rightarrow> nfc_state" where
  "counted packet len s = s\<lparr>received := received s + 1,
     last_cmd := (case packet of None \<Rightarrow> 0 | Some p \<Rightarrow> if len > 10 then p ! 10 else 0),
     last_sub := (case packet of None \<Rightarrow> 0 | Some p \<Rightarrow> if len > 11 then p ! 11 else 0)\<rparr>"

lemma nfc_wf_counted [simp]: "nfc_wf (counted packet len s) = nfc_wf s"
  by (simp add: counted_def nfc_wf_def)

lemma counted_simps [simp]:
  "tag (counted packet len s) = tag s" "present (counted packet len s) = present s"
  "seen (counted packet len s) = seen s" "power_state (counted packet len s) = power_state s"
  "poll_state (counted packet len s) = poll_state s" "queue (counted packet len s) = queue s"
  "q_head (counted packet len s) = q_head s" "q_count (counted packet len s) = q_count s"
  "received (counted packet len s) = received s + 1" "rejected (counted packet len s) = rejected s"
  by (simp_all add: counted_def)

lemma command_ok_counted [simp]: "command_ok p len (counted packet n s) = command_ok p len s"
  by (simp add: command_ok_def)

lemma nfc_command_eq:
  assumes "nfc_wf s" and "\<And>p. packet = Some p \<Longrightarrow> len \<le> length p"
  shows "nfc_command packet len s =
    Some (case packet of
        None \<Rightarrow> (False, (counted None len s)\<lparr>rejected := rejected s + 1\<rparr>)
      | Some p \<Rightarrow> if command_ok p len s then (True, command_effect p (counted packet len s))
          else (False, (counted packet len s)\<lparr>rejected := rejected s + 1\<rparr>))"
proof (cases packet)
  case None
  then show ?thesis by (simp add: nfc_command_def handle_command_def counted_def)
next
  case (Some p)
  have reads: "(if len > 10 then rd p 10 else Some 0) = Some (if len > 10 then p ! 10 else 0)"
    "(if len > 11 then rd p 11 else Some 0) = Some (if len > 11 then p ! 11 else 0)"
    using assms(2) Some by auto
  have "s\<lparr>received := received s + 1, last_cmd := (if len > 10 then p ! 10 else 0),
      last_sub := (if len > 11 then p ! 11 else 0)\<rparr> = counted packet len s"
    by (simp add: counted_def Some)
  with Some reads assms show ?thesis
    by (simp add: nfc_command_def handle_command_eq)
qed

section \<open>The invariant\<close>

definition valid_packet :: "bytes \<Rightarrow> bool" where
  "valid_packet p \<longleftrightarrow> length p = 313 \<and> p ! 312 = crc8_of (take 312 p)"

definition nfc_inv :: "nfc_state \<Rightarrow> bool" where
  "nfc_inv s \<longleftrightarrow> nfc_wf s \<and> power_state s \<in> {0, 1, 4} \<and> poll_state s \<in> {0, 1, 9}
     \<and> (poll_state s \<noteq> 0 \<longrightarrow> power_state s = 4) \<and> (poll_state s = 9 \<longrightarrow> seen s)
     \<and> (seen s \<longrightarrow> present s) \<and> (\<forall>p \<in> set (contents s). valid_packet p)"

lemma valid_seal: "length body \<le> 312 \<Longrightarrow> valid_packet (seal body)"
  by (simp add: valid_packet_def seal_def pad_body_def nth_append)

lemma valid_status [simp]: "valid_packet (status_packet pw)"
  by (simp add: status_packet_def valid_seal)

lemma valid_idle [simp]: "valid_packet idle_packet"
  by (simp add: idle_packet_def valid_seal)

lemma valid_poll [simp]:
  "valid_packet (poll_packet st None)"
  "length u = 7 \<Longrightarrow> valid_packet (poll_packet st (Some u))"
  by (simp_all add: poll_packet_def valid_seal)

lemma valid_fragments:
  assumes "length t = 540"
  shows "valid_packet (fragment1 t)" "valid_packet (fragment2 t)" "valid_packet (fragment_end t)"
  using assms
  by (simp_all add: fragment1_def fragment2_def fragment_end_def valid_seal length_uid_bytes)

lemma valid_packet_length: "valid_packet p \<Longrightarrow> length p = 313"
  by (simp add: valid_packet_def)

lemma nfc_inv_wf: "nfc_inv s \<Longrightarrow> nfc_wf s"
  by (simp add: nfc_inv_def)

lemma contents_update [simp]:
  "contents (s\<lparr>poll_state := x\<rparr>) = contents s" "contents (s\<lparr>seen := y\<rparr>) = contents s"
  "contents (s\<lparr>power_state := x\<rparr>) = contents s" "contents (s\<lparr>present := y\<rparr>) = contents s"
  "contents (s\<lparr>tag := t\<rparr>) = contents s"
  "contents (s\<lparr>received := n\<rparr>) = contents s" "contents (s\<lparr>rejected := n\<rparr>) = contents s"
  "contents (s\<lparr>last_cmd := x\<rparr>) = contents s" "contents (s\<lparr>last_sub := x\<rparr>) = contents s"
  by (simp_all add: contents_def)

lemma contents_counted [simp]: "contents (counted packet len s) = contents s"
  by (simp add: counted_def)

lemma contents_polled [simp]: "contents (polled s) = contents s"
  by (simp add: polled_def)

lemma nfc_inv_push: "nfc_inv s \<Longrightarrow> valid_packet p \<Longrightarrow> nfc_inv (push p s)"
  by (auto simp: nfc_inv_def nfc_wf_push contents_push valid_packet_length split: if_splits)

lemma nfc_inv_flush: "nfc_inv s \<Longrightarrow> nfc_inv (flush s)"
  by (simp add: nfc_inv_def)

lemma nfc_inv_counted [simp]: "nfc_inv (counted packet len s) = nfc_inv s"
  by (simp add: nfc_inv_def)

lemma nfc_inv_rejected [simp]: "nfc_inv (s\<lparr>rejected := n\<rparr>) = nfc_inv s"
  by (simp add: nfc_inv_def)

lemma nfc_inv_powered: "nfc_inv s \<Longrightarrow> m \<in> {0, 1, 4} \<Longrightarrow> nfc_inv (powered m s)"
  unfolding powered_def by (rule nfc_inv_push) (auto simp: nfc_inv_def)

lemma poll_answer_valid: "nfc_wf s \<Longrightarrow> valid_packet (poll_answer s)"
  by (auto simp: poll_answer_def length_uid_bytes nfc_wf_def split: if_splits)

lemma nfc_inv_polled:
  assumes "nfc_inv s" shows "nfc_inv (polled s)"
proof (cases "present s \<and> poll_state s \<noteq> 0")
  case True
  with assms show ?thesis by (simp add: nfc_inv_def polled_def)
next
  case False
  then have "polled s = s" by (auto simp: polled_def)
  with assms show ?thesis by simp
qed

lemma nfc_inv_tag_queued: "nfc_inv s \<Longrightarrow> nfc_inv (tag_queued s)"
  unfolding tag_queued_def
  by (intro nfc_inv_push nfc_inv_flush valid_fragments) (auto simp: nfc_inv_def nfc_wf_def)

lemma nfc_inv_command_effect:
  assumes "nfc_inv s" and "command_ok p len s"
  shows "nfc_inv (command_effect p s)"
proof -
  have "nfc_inv (s\<lparr>poll_state := 1\<rparr>)" if "power_state s = 4"
    using assms(1) that by (simp add: nfc_inv_def)
  moreover have "nfc_inv ((flush s)\<lparr>poll_state := 0, seen := False\<rparr>)"
    using assms(1) by (simp add: nfc_inv_def)
  moreover have "nfc_inv (push (poll_answer s) (polled s))"
    using assms(1) by (intro nfc_inv_push nfc_inv_polled poll_answer_valid nfc_inv_wf)
  ultimately show ?thesis
    using assms by (auto simp: command_effect_def command_ok_def nfc_inv_tag_queued
        intro: nfc_inv_push)
qed

subsection \<open>The packet queue meets the bounded queue contract\<close>

lemma contents_commit: "nfc_wf s \<Longrightarrow> contents (nfc_commit s) = tl (contents s)"
  using ring_list_pop [of "queue s" "q_head s" "q_count s - 1"]
  by (auto simp: nfc_commit_def contents_def nfc_wf_def)

lemma nfc_wf_commit: "nfc_wf s \<Longrightarrow> nfc_wf (nfc_commit s)"
  by (auto simp: nfc_commit_def nfc_wf_def)

lemma commit_simps [simp]:
  "tag (nfc_commit s) = tag s" "present (nfc_commit s) = present s" "seen (nfc_commit s) = seen s"
  "power_state (nfc_commit s) = power_state s" "poll_state (nfc_commit s) = poll_state s"
  by (simp_all add: nfc_commit_def)

lemma idle_finish:
  "finish (0xff # replicate 312 0 @ q) = Some (idle_packet @ q)"
proof -
  have "replicate 312 (0 :: u8) = replicate 311 0 @ [0]"
    using replicate_add [of 311 1 "0 :: u8"] by simp
  then show ?thesis
    by (simp add: finish_def nfc_crc8_eq list_update_append idle_packet_def seal_def pad_body_def)
qed

text \<open>The packet at the front: the queue is never seen without one.\<close>

definition front_packet :: "nfc_state \<Rightarrow> bytes" where
  "front_packet s = (if contents s = [] then idle_packet else hd (contents s))"

lemma peek_eq:
  assumes "nfc_wf s" and "313 \<le> length out"
  shows "nfc_peek out s = Some (front_packet s @ drop 313 out)"
proof (cases "q_count s = 0")
  case True
  have rep: "replicate 313 (0 :: u8) = 0 # replicate 312 0"
    by (simp_all add: replicate_Suc [symmetric] del: replicate_Suc)
  with True assms(2) idle_finish show ?thesis
    by (simp add: nfc_peek_def NFC_MCU_SIZE_def contents_def front_packet_def)
next
  case False
  then have "hd (contents s) = queue s ! q_head s"
    using assms(1) by (simp add: contents_def ring_list_hd nfc_wf_def)
  with False assms nfc_wf_slots [OF assms(1), of "q_head s"] show ?thesis
    by (simp add: nfc_peek_def NFC_MCU_SIZE_def nfc_wf_def contents_def front_packet_def)
qed

lemma front_packet_valid: "nfc_inv s \<Longrightarrow> valid_packet (front_packet s)"
  by (auto simp: front_packet_def nfc_inv_def)

interpretation nq: bounded_fifo nfc_wf contents 4 "\<lambda>p. length p = 313" push nfc_commit
  by unfold_locales (simp_all add: nfc_wf_push nfc_wf_commit contents_push contents_commit, simp add: nfc_wf_def)

section \<open>Reachable states\<close>

text \<open>
  The calls of \<open>nfc_mcu.h\<close>, as one step function that is \<open>None\<close> when the call reads or writes outside
  a buffer, and the states that any sequence of them reaches from the boot state.  The requirements
  on a call are those C makes: a packet pointer is null or points to at least \<open>len\<close> readable bytes, the
  buffer handed to \<open>nfc_config\<close> has its 34 bytes and the one handed to \<open>nfc_peek\<close> its 313.
  All ten calls of the header are operations; the state is what they leave in the static variables.
\<close>

datatype nfc_op =
    NfcReset
  | NfcLoad "bytes option" nat
  | NfcUnload
  | NfcPower u8
  | NfcConfig "bytes option" nat bytes
  | NfcCommand "bytes option" nat
  | NfcPeek bytes
  | NfcCommit
  | NfcCrc8 bytes nat
  | NfcDiagnostics

definition readable :: "bytes option \<Rightarrow> nat \<Rightarrow> bool" where
  "readable p len = (case p of None \<Rightarrow> True | Some b \<Rightarrow> len \<le> length b)"

fun nfc_args_ok :: "nfc_op \<Rightarrow> bool" where
  "nfc_args_ok (NfcLoad p len) = readable p len"
| "nfc_args_ok (NfcConfig p len reply) = (readable p len \<and> length reply = 34)"
| "nfc_args_ok (NfcCommand p len) = readable p len"
| "nfc_args_ok (NfcPeek out) = (NFC_MCU_SIZE \<le> length out)"
| "nfc_args_ok (NfcCrc8 data len) = (len \<le> length data)"
| "nfc_args_ok _ = True"

fun nfc_step :: "nfc_op \<Rightarrow> nfc_state \<Rightarrow> nfc_state option" where
  "nfc_step NfcReset s = Some (nfc_reset s)"
| "nfc_step (NfcLoad p len) s = map_option snd (nfc_load p len s)"
| "nfc_step NfcUnload s = nfc_unload s"
| "nfc_step (NfcPower v) s = map_option snd (nfc_power v s)"
| "nfc_step (NfcConfig p len reply) s = map_option (snd \<circ> snd) (nfc_config p len reply s)"
| "nfc_step (NfcCommand p len) s = map_option snd (nfc_command p len s)"
| "nfc_step (NfcPeek out) s = map_option (\<lambda>_. s) (nfc_peek out s)"
| "nfc_step NfcCommit s = Some (nfc_commit s)"
| "nfc_step (NfcCrc8 data len) s = map_option (\<lambda>_. s) (nfc_crc8 data len)"
| "nfc_step NfcDiagnostics s = (let d = nfc_diagnostics s in Some s)"

inductive nfc_reachable :: "nfc_state \<Rightarrow> bool" where
  boot: "nfc_reachable nfc_boot"
| step: "nfc_reachable s \<Longrightarrow> nfc_args_ok op \<Longrightarrow> nfc_step op s = Some s' \<Longrightarrow> nfc_reachable s'"

lemma readable_Some [simp]: "readable (Some b) len \<longleftrightarrow> len \<le> length b" "readable None len"
  by (simp_all add: readable_def)

lemma nfc_inv_boot: "nfc_inv nfc_boot"
  by (simp add: nfc_inv_def nfc_wf_def nfc_boot_def contents_def nfc_sizes)

lemma nfc_inv_reset: "nfc_inv s \<Longrightarrow> nfc_inv (nfc_reset s)"
  by (simp add: nfc_inv_def nfc_reset_def)

lemma nfc_inv_commit: "nfc_inv s \<Longrightarrow> nfc_inv (nfc_commit s)"
  by (auto simp: nfc_inv_def nfc_wf_commit contents_commit dest: in_set_tlD)

lemma tag_uid_length: "nfc_inv s \<Longrightarrow> length (uid_bytes (tag s)) = 7"
  by (simp add: nfc_inv_def nfc_wf_def length_uid_bytes)

lemma nfc_inv_loaded: "nfc_inv s \<Longrightarrow> length d = 540 \<Longrightarrow> poll_state s \<noteq> 9 \<Longrightarrow> nfc_inv (loaded d s)"
  by (auto simp: nfc_inv_def loaded_def nfc_wf_def)

lemma nfc_inv_load:
  assumes "nfc_inv s" and "length d = 540" and "nfc_load (Some d) 540 s = Some (ok, s')"
  shows "nfc_inv s'"
proof -
  have u: "length (uid_bytes d) = 7" using assms(2) by (simp add: length_uid_bytes)
  have wf: "nfc_wf (loaded d s)"
    using assms by (simp add: nfc_inv_def nfc_wf_def loaded_def flush_def)
  have found: "nfc_inv ((loaded d s)\<lparr>poll_state := 1, seen := True\<rparr>)" if "power_state s = 4"
    using wf that by (simp add: nfc_inv_def) (simp add: loaded_def)
  have idle: "nfc_inv (loaded d s)" if "poll_state s = 0"
    using wf that assms(1) by (simp add: nfc_inv_def) (auto simp: loaded_def)
  show ?thesis
    using assms nfc_inv_wf [OF assms(1)] found idle u
    by (auto simp: nfc_load_eq nfc_inv_def [of s] split: if_splits intro: nfc_inv_push)
qed

lemma nfc_load_result:
  assumes "nfc_inv s" and "length d = 540"
  shows "\<exists>s'. nfc_load (Some d) 540 s = Some (True, s') \<and> nfc_inv s' \<and> tag s' = d \<and> present s'
    \<and> power_state s' = power_state s"
proof -
  obtain s' where s': "nfc_load (Some d) 540 s = Some (True, s')"
    using nfc_load_eq [OF nfc_inv_wf [OF assms(1)] assms(2)] by auto
  moreover have "nfc_inv s'" by (rule nfc_inv_load [OF assms s'])
  ultimately show ?thesis
    using nfc_load_eq [OF nfc_inv_wf [OF assms(1)] assms(2)]
    by (auto simp: loaded_def split: if_splits)
qed

lemma nfc_inv_unload:
  assumes "nfc_inv s" and "nfc_unload s = Some s'"
  shows "nfc_inv s'"
proof -
  have wf: "nfc_wf (unloaded s)"
    using assms by (simp add: nfc_inv_def nfc_wf_def unloaded_def flush_def)
  have "nfc_inv ((unloaded s)\<lparr>poll_state := 1\<rparr>)" if "power_state s = 4"
    using wf that by (simp add: nfc_inv_def) (simp add: unloaded_def)
  moreover have "nfc_inv (unloaded s)" if "poll_state s = 0"
    using wf that assms(1) by (simp add: nfc_inv_def) (auto simp: unloaded_def)
  ultimately show ?thesis
    using assms nfc_inv_wf [OF assms(1)]
    by (auto simp: nfc_unload_eq nfc_inv_def [of s] split: if_splits intro: nfc_inv_push)
qed

lemma nfc_unload_result:
  assumes "nfc_inv s"
  shows "\<exists>s'. nfc_unload s = Some s' \<and> nfc_inv s' \<and> tag s' = replicate 540 0 \<and> \<not> present s'
    \<and> power_state s' = power_state s"
proof -
  obtain s' where s': "nfc_unload s = Some s'"
    using nfc_unload_eq [OF nfc_inv_wf [OF assms]] by auto
  moreover have "nfc_inv s'" by (rule nfc_inv_unload [OF assms s'])
  ultimately show ?thesis
    using nfc_unload_eq [OF nfc_inv_wf [OF assms]] by (auto simp: unloaded_def split: if_splits)
qed

text \<open>The console's commands never change the tag.\<close>

lemma command_effect_tag [simp]:
  "tag (command_effect p s) = tag s" "present (command_effect p s) = present s"
  "power_state (command_effect p s) = power_state s"
  by (simp_all add: command_effect_def tag_queued_def polled_def)

lemma nfc_command_result:
  assumes "nfc_inv s" and "readable p len"
  shows "\<exists>ok s'. nfc_command p len s = Some (ok, s') \<and> nfc_inv s' \<and> tag s' = tag s \<and> present s' = present s
    \<and> power_state s' = power_state s"
proof -
  have "\<And>b. p = Some b \<Longrightarrow> len \<le> length b" using assms(2) by simp
  note eq = nfc_command_eq [OF nfc_inv_wf [OF assms(1)] this]
  show ?thesis
    using assms(1) by (auto simp: eq nfc_inv_command_effect split: option.split)
qed

lemma nfc_step_total:
  assumes "nfc_inv s" and "nfc_args_ok op"
  shows "\<exists>s'. nfc_step op s = Some s' \<and> nfc_inv s'"
proof (cases op)
  case (NfcLoad p len)
  show ?thesis
  proof (cases "p = None \<or> len \<noteq> 540")
    case True
    with NfcLoad assms(1) show ?thesis by (simp add: nfc_load_reject)
  next
    case False
    with NfcLoad assms(2) obtain b where b: "p = Some b" "540 \<le> length b" by auto
    have eq: "nfc_load (Some b) 540 s = nfc_load (Some (take 540 b)) 540 s"
      using b(2) by (simp add: nfc_load_def NFC_TAG_SIZE_def memcpy_def)
    have "length (take 540 b) = 540" using b(2) by simp
    then have "\<exists>r. nfc_load (Some (take 540 b)) 540 s = Some r \<and> nfc_inv (snd r)"
      using nfc_load_eq [OF nfc_inv_wf [OF assms(1)]] nfc_inv_load [OF assms(1)] by fastforce
    with NfcLoad b False eq show ?thesis by auto
  qed
next
  case (NfcConfig p len reply)
  with assms(2) have "\<And>a. p = Some a \<Longrightarrow> len \<le> length a" "length reply = 34" by auto
  note eq = nfc_config_eq [OF nfc_inv_wf [OF assms(1)] this(2,1)]
  show ?thesis
    using assms(1) nfc_inv_powered [OF assms(1)] by (simp add: NfcConfig eq split: option.split)
next
  case (NfcCommand p len)
  with assms(2) have "\<And>a. p = Some a \<Longrightarrow> len \<le> length a" by auto
  note eq = nfc_command_eq [OF nfc_inv_wf [OF assms(1)] this]
  show ?thesis
    using assms(1) by (auto simp: NfcCommand eq nfc_inv_command_effect split: option.split)
next
  case (NfcPower v)
  have "v \<in> {0, 1, 4}" if "\<not> 1 < v"
    using that by (auto simp: not_less u8_le_1)
  with NfcPower assms show ?thesis
    by (auto simp: nfc_power_eq nfc_inv_wf intro: nfc_inv_powered)
next
  case NfcUnload
  then show ?thesis
    using nfc_unload_eq [OF nfc_inv_wf [OF assms(1)]] nfc_inv_unload [OF assms(1)] by simp
next
  case (NfcPeek out)
  with assms show ?thesis by (simp add: peek_eq nfc_inv_wf NFC_MCU_SIZE_def)
next
  case (NfcCrc8 data len)
  with assms show ?thesis by (simp add: nfc_crc8_eq)
qed (use assms in \<open>simp_all add: nfc_inv_reset nfc_inv_commit\<close>)

lemma nfc_reachable_inv: "nfc_reachable s \<Longrightarrow> nfc_inv s"
proof (induction rule: nfc_reachable.induct)
  case boot
  show ?case by (rule nfc_inv_boot)
next
  case (step s op s')
  with nfc_step_total [of s op] show ?case by auto
qed

end
