(* ===== verification/ControllerState.thy ===== *)
theory ControllerState
  imports Prelude
begin

text \<open>
  \<open>main/controller_state.h\<close> and \<open>main/controller_state.c\<close>: the button masks and the four
  12-bit stick axes of the emulated controller, and its neutral state.
\<close>

definition BTN_Y :: u8 where "BTN_Y = 1"
definition BTN_X :: u8 where "BTN_X = 2"
definition BTN_B :: u8 where "BTN_B = 4"
definition BTN_A :: u8 where "BTN_A = 8"
definition BTN_R :: u8 where "BTN_R = 64"
definition BTN_ZR :: u8 where "BTN_ZR = 128"

definition BTN_MINUS :: u8 where "BTN_MINUS = 1"
definition BTN_PLUS :: u8 where "BTN_PLUS = 2"
definition BTN_STICK_R :: u8 where "BTN_STICK_R = 4"
definition BTN_STICK_L :: u8 where "BTN_STICK_L = 8"
definition BTN_HOME :: u8 where "BTN_HOME = 16"
definition BTN_CAPTURE :: u8 where "BTN_CAPTURE = 32"

definition BTN_DOWN :: u8 where "BTN_DOWN = 1"
definition BTN_UP :: u8 where "BTN_UP = 2"
definition BTN_RIGHT :: u8 where "BTN_RIGHT = 4"
definition BTN_LEFT :: u8 where "BTN_LEFT = 8"
definition BTN_L :: u8 where "BTN_L = 64"
definition BTN_ZL :: u8 where "BTN_ZL = 128"

lemmas button_defs =
  BTN_Y_def BTN_X_def BTN_B_def BTN_A_def BTN_R_def BTN_ZR_def
  BTN_MINUS_def BTN_PLUS_def BTN_STICK_R_def BTN_STICK_L_def BTN_HOME_def BTN_CAPTURE_def
  BTN_DOWN_def BTN_UP_def BTN_RIGHT_def BTN_LEFT_def BTN_L_def BTN_ZL_def

record controller_state =
  right_buttons :: u8
  shared_buttons :: u8
  left_buttons :: u8
  left_stick_x :: u16
  left_stick_y :: u16
  right_stick_x :: u16
  right_stick_y :: u16

text \<open>The file-static instance before \<open>app_main\<close> initialises it.\<close>

definition controller_static :: controller_state where
  "controller_static =
     \<lparr>right_buttons = 0, shared_buttons = 0, left_buttons = 0,
      left_stick_x = 0, left_stick_y = 0, right_stick_x = 0, right_stick_y = 0\<rparr>"

definition controller_state_init :: "controller_state \<Rightarrow> controller_state" where
  "controller_state_init _ =
     \<lparr>right_buttons = 0, shared_buttons = 0, left_buttons = 0,
      left_stick_x = 0x800, left_stick_y = 0x800,
      right_stick_x = 0x800, right_stick_y = 0x800\<rparr>"

text \<open>The neutral state, and the well-formedness that the header states: 12-bit axes.\<close>

definition neutral :: "controller_state \<Rightarrow> bool" where
  "neutral c \<longleftrightarrow> c = controller_state_init c"

definition sticks_12bit :: "controller_state \<Rightarrow> bool" where
  "sticks_12bit c \<longleftrightarrow> left_stick_x c \<le> 0xFFF \<and> left_stick_y c \<le> 0xFFF
     \<and> right_stick_x c \<le> 0xFFF \<and> right_stick_y c \<le> 0xFFF"

lemma controller_state_init_const: "controller_state_init c = controller_state_init d"
  by (simp add: controller_state_init_def)

lemma neutral_init [simp]: "neutral (controller_state_init c)"
  by (simp add: neutral_def controller_state_init_def)

lemma sticks_12bit_init [simp]: "sticks_12bit (controller_state_init c)"
  by (simp add: sticks_12bit_def controller_state_init_def)

end
