(* ===== verification/InputReport.thy ===== *)
theory InputReport
  imports ControllerState
begin

text \<open>
  \<open>main/input_report.c\<close>: the byte layout of the input reports 0x3F (simple HID), 0x21
  (subcommand reply) and 0x30 (full report with motion data).  The file-static flag
  \<open>s_virtual_grip\<close> is the argument \<open>grip\<close> of the functions that read it.  Each builder takes
  the output buffer and returns it updated, or \<open>None\<close> when it would write outside of it.
  \<open>header_bytes\<close>, \<open>reply_bytes\<close>, \<open>full_bytes\<close> and \<open>simple_bytes\<close> are the layouts as closed
  byte lists; the builders are proved to produce them.
\<close>

definition INPUT_REPORT_SIZE :: nat where "INPUT_REPORT_SIZE = 49"
definition INPUT_REPORT_0x31_SIZE :: nat where "INPUT_REPORT_0x31_SIZE = 362"

lemmas report_sizes = INPUT_REPORT_SIZE_def INPUT_REPORT_0x31_SIZE_def

section \<open>Builders\<close>

definition get_subcmd_ack :: "u8 \<Rightarrow> u8" where
  "get_subcmd_ack subcmd_id =
     (if subcmd_id = 0x02 then 0x82
      else if subcmd_id = 0x04 then 0x83
      else if subcmd_id = 0x10 then 0x90
      else if subcmd_id = 0x20 \<or> subcmd_id = 0x21 then 0xA0
      else 0x80)"

definition input_report_set_virtual_grip :: "bool \<Rightarrow> bool" where
  "input_report_set_virtual_grip pressed = pressed"

definition pack_stick :: "bytes \<Rightarrow> u16 \<Rightarrow> u16 \<Rightarrow> bytes option" where
  "pack_stick dst x y =
     (let x = x AND 0x0FFF; y = y AND 0x0FFF in
      do {
        dst \<leftarrow> wr dst 0 (ucast (x AND 0xFF));
        dst \<leftarrow> wr dst 1 (ucast (drop_bit 8 x OR push_bit 4 (y AND 0x0F)));
        wr dst 2 (ucast (drop_bit 4 y))
      })"

definition input_report_fill_header ::
    "bool \<Rightarrow> bytes \<Rightarrow> u8 \<Rightarrow> u8 \<Rightarrow> controller_state \<Rightarrow> bytes option" where
  "input_report_fill_header grip buf report_id timer state =
     do {
       buf \<leftarrow> wr buf 0 report_id;
       buf \<leftarrow> wr buf 1 timer;
       buf \<leftarrow> wr buf 2 0x8E;
       buf \<leftarrow> wr buf 3 (right_buttons state OR (if grip then BTN_R else 0));
       buf \<leftarrow> wr buf 4 (shared_buttons state);
       buf \<leftarrow> wr buf 5 (left_buttons state OR (if grip then BTN_L else 0));
       buf \<leftarrow> at_offset 6 (\<lambda>d. pack_stick d (left_stick_x state) (left_stick_y state)) buf;
       buf \<leftarrow> at_offset 9 (\<lambda>d. pack_stick d (right_stick_x state) (right_stick_y state)) buf;
       wr buf 12 0x00
     }"

definition fill_imu_frame_neutral :: "bytes \<Rightarrow> bytes option" where
  "fill_imu_frame_neutral frame =
     do {
       frame \<leftarrow> memset frame 0 0x00 12;
       frame \<leftarrow> wr frame 4 0x00;
       wr frame 5 0x10
     }"

definition simple_buttons :: "bool \<Rightarrow> controller_state \<Rightarrow> u16" where
  "simple_buttons grip state =
     (let r = right_buttons state; s = shared_buttons state; l = left_buttons state in
       (if r AND BTN_Y \<noteq> 0 then push_bit 0 1 else 0)
       OR (if r AND BTN_B \<noteq> 0 then push_bit 1 1 else 0)
       OR (if r AND BTN_A \<noteq> 0 then push_bit 2 1 else 0)
       OR (if r AND BTN_X \<noteq> 0 then push_bit 3 1 else 0)
       OR (if grip \<or> l AND BTN_L \<noteq> 0 then push_bit 4 1 else 0)
       OR (if grip \<or> r AND BTN_R \<noteq> 0 then push_bit 5 1 else 0)
       OR (if l AND BTN_ZL \<noteq> 0 then push_bit 6 1 else 0)
       OR (if r AND BTN_ZR \<noteq> 0 then push_bit 7 1 else 0)
       OR (if s AND BTN_MINUS \<noteq> 0 then push_bit 8 1 else 0)
       OR (if s AND BTN_PLUS \<noteq> 0 then push_bit 9 1 else 0)
       OR (if s AND BTN_STICK_L \<noteq> 0 then push_bit 10 1 else 0)
       OR (if s AND BTN_STICK_R \<noteq> 0 then push_bit 11 1 else 0)
       OR (if s AND BTN_HOME \<noteq> 0 then push_bit 12 1 else 0)
       OR (if s AND BTN_CAPTURE \<noteq> 0 then push_bit 13 1 else 0))"

definition dpad_x :: "controller_state \<Rightarrow> int" where
  "dpad_x state = of_bool (left_buttons state AND BTN_RIGHT \<noteq> 0)
                  - of_bool (left_buttons state AND BTN_LEFT \<noteq> 0)"

definition dpad_y :: "controller_state \<Rightarrow> int" where
  "dpad_y state = of_bool (left_buttons state AND BTN_DOWN \<noteq> 0)
                  - of_bool (left_buttons state AND BTN_UP \<noteq> 0)"

definition hat_switch :: "controller_state \<Rightarrow> u8" where
  "hat_switch state =
     (let x = dpad_x state; y = dpad_y state in
      if y < 0 then (if x < 0 then 7 else if x > 0 then 1 else 0)
      else if y > 0 then (if x < 0 then 5 else if x > 0 then 3 else 4)
      else (if x < 0 then 6 else if x > 0 then 2 else 8))"

definition input_report_build_0x3F :: "bool \<Rightarrow> bytes \<Rightarrow> controller_state \<Rightarrow> bytes option" where
  "input_report_build_0x3F grip buf state =
     do {
       buf \<leftarrow> memset buf 0 0x00 12;
       buf \<leftarrow> wr buf 0 0x3F;
       let btns = simple_buttons grip state;
       buf \<leftarrow> wr buf 1 (ucast (btns AND 0xFF));
       buf \<leftarrow> wr buf 2 (ucast (drop_bit 8 btns));
       buf \<leftarrow> wr buf 3 (hat_switch state);
       let axes = [left_stick_x state, left_stick_y state,
                   right_stick_x state, right_stick_y state];
       foldM (\<lambda>i buf. do {
           let value = push_bit 4 ((axes ! i) AND 0x0FFF);
           buf \<leftarrow> wr buf (4 + i * 2) (ucast value);
           wr buf (5 + i * 2) (ucast (drop_bit 8 value))
         }) [0..<4] buf
     }"

definition input_report_build_0x21 ::
    "bool \<Rightarrow> bytes \<Rightarrow> u8 \<Rightarrow> controller_state \<Rightarrow> u8 \<Rightarrow> bytes option \<Rightarrow> u8 \<Rightarrow> bytes option" where
  "input_report_build_0x21 grip buf timer state subcmd_id payload payload_len =
     do {
       buf \<leftarrow> memset buf 0 0x00 INPUT_REPORT_SIZE;
       buf \<leftarrow> input_report_fill_header grip buf 0x21 timer state;
       buf \<leftarrow> wr buf 13 (get_subcmd_ack subcmd_id);
       buf \<leftarrow> wr buf 14 subcmd_id;
       (case payload of
          None \<Rightarrow> Some buf
        | Some p \<Rightarrow>
            if unat payload_len > 0
            then let copy_len = (if unat payload_len > INPUT_REPORT_SIZE - 15
                                 then INPUT_REPORT_SIZE - 15 else unat payload_len)
                 in memcpy buf 15 p copy_len
            else Some buf)
     }"

definition input_report_build_0x30 :: "bool \<Rightarrow> bytes \<Rightarrow> u8 \<Rightarrow> controller_state \<Rightarrow> bytes option" where
  "input_report_build_0x30 grip buf timer state =
     do {
       buf \<leftarrow> memset buf 0 0x00 INPUT_REPORT_SIZE;
       buf \<leftarrow> input_report_fill_header grip buf 0x30 timer state;
       buf \<leftarrow> at_offset 13 fill_imu_frame_neutral buf;
       buf \<leftarrow> at_offset 25 fill_imu_frame_neutral buf;
       at_offset 37 fill_imu_frame_neutral buf
     }"

section \<open>The layouts\<close>

definition stick_bytes :: "u16 \<Rightarrow> u16 \<Rightarrow> bytes" where
  "stick_bytes x y =
     [ucast x, ucast (take_bit 4 (drop_bit 8 x)) OR ucast (push_bit 4 (take_bit 4 y)),
      ucast (drop_bit 4 y)]"

definition header_bytes :: "bool \<Rightarrow> u8 \<Rightarrow> u8 \<Rightarrow> controller_state \<Rightarrow> bytes" where
  "header_bytes grip report_id timer c =
     [report_id, timer, 0x8E,
      right_buttons c OR (if grip then BTN_R else 0),
      shared_buttons c,
      left_buttons c OR (if grip then BTN_L else 0)]
     @ stick_bytes (left_stick_x c) (left_stick_y c)
     @ stick_bytes (right_stick_x c) (right_stick_y c)
     @ [0]"

definition imu_frame :: bytes where
  "imu_frame = [0, 0, 0, 0, 0, 0x10, 0, 0, 0, 0, 0, 0]"

definition full_bytes :: "bool \<Rightarrow> u8 \<Rightarrow> u8 \<Rightarrow> controller_state \<Rightarrow> bytes" where
  "full_bytes grip report_id timer c =
     header_bytes grip report_id timer c @ imu_frame @ imu_frame @ imu_frame"

definition reply_bytes :: "bool \<Rightarrow> u8 \<Rightarrow> controller_state \<Rightarrow> u8 \<Rightarrow> bytes \<Rightarrow> bytes" where
  "reply_bytes grip timer c subcmd_id payload =
     header_bytes grip 0x21 timer c @ [get_subcmd_ack subcmd_id, subcmd_id]
     @ take 34 payload @ replicate (34 - length payload) 0"

definition axis_bytes :: "u16 \<Rightarrow> bytes" where
  "axis_bytes a = [ucast (push_bit 4 (a AND 0xFFF)), ucast (drop_bit 8 (push_bit 4 (a AND 0xFFF)))]"

definition simple_bytes :: "bool \<Rightarrow> controller_state \<Rightarrow> bytes" where
  "simple_bytes grip c =
     [0x3F, ucast (simple_buttons grip c), ucast (drop_bit 8 (simple_buttons grip c)), hat_switch c]
     @ axis_bytes (left_stick_x c) @ axis_bytes (left_stick_y c)
     @ axis_bytes (right_stick_x c) @ axis_bytes (right_stick_y c)"

lemma length_stick_bytes [simp]: "length (stick_bytes x y) = 3"
  by (simp add: stick_bytes_def)

lemma length_header_bytes [simp]: "length (header_bytes grip i t c) = 13"
  by (simp add: header_bytes_def)

lemma length_imu_frame [simp]: "length imu_frame = 12"
  by (simp add: imu_frame_def)

lemma length_full_bytes [simp]: "length (full_bytes grip i t c) = 49"
  by (simp add: full_bytes_def)

lemma length_reply_bytes [simp]: "length (reply_bytes grip t c s p) = 49"
  by (simp add: reply_bytes_def)

lemma length_simple_bytes [simp]: "length (simple_bytes grip c) = 12"
  by (simp add: simple_bytes_def axis_bytes_def)

section \<open>The builders produce the layouts\<close>

lemma ucast_low_byte: "(ucast ((x :: u16) AND 0xFF) :: u8) = ucast x"
  unfolding mask_literals by (rule bit_word_eqI) (auto simp: bit_simps)

lemma stick_masks:
  fixes x y :: u16
  shows "(ucast ((x AND 0x0FFF) AND 0xFF) :: u8) = ucast x"
    and "(ucast (drop_bit 8 (x AND 0x0FFF) OR push_bit 4 ((y AND 0x0FFF) AND 0x0F)) :: u8)
         = ucast (take_bit 4 (drop_bit 8 x)) OR ucast (push_bit 4 (take_bit 4 y))"
    and "(ucast (drop_bit 4 (y AND 0x0FFF)) :: u8) = ucast (drop_bit 4 y)"
  unfolding mask_literals by (rule bit_word_eqI, auto simp: bit_simps)+

lemma pack_stick_eq:
  assumes "3 \<le> length dst"
  shows "pack_stick dst x y = Some (stick_bytes x y @ drop 3 dst)"
proof -
  obtain a b c rest where "dst = a # b # c # rest"
    using assms by (auto simp: numeral_eq_Suc Suc_le_length_iff)
  then show ?thesis
    unfolding pack_stick_def Let_def stick_masks by (simp add: stick_bytes_def)
qed

text \<open>Running a builder over \<open>p @ rest\<close>, where \<open>p\<close> is what has been written so far.\<close>

lemma fill_header_eq:
  assumes "13 \<le> length buf"
  shows "input_report_fill_header grip buf report_id timer c
         = Some (header_bytes grip report_id timer c @ drop 13 buf)"
proof -
  obtain b0 b1 b2 b3 b4 b5 b6 b7 b8 b9 b10 b11 b12 rest where
    "buf = [b0, b1, b2, b3, b4, b5, b6, b7, b8, b9, b10, b11, b12] @ rest"
    using assms by (auto simp: numeral_eq_Suc Suc_le_length_iff)
  then show ?thesis
    by (simp add: input_report_fill_header_def at_offset_def pack_stick_eq header_bytes_def
        stick_bytes_def)
qed

lemma fill_imu_frame_eq:
  assumes "12 \<le> length frame"
  shows "fill_imu_frame_neutral frame = Some (imu_frame @ drop 12 frame)"
  using assms by (simp add: fill_imu_frame_neutral_def imu_frame_def list_eval)

lemma build_0x30_eq:
  assumes "INPUT_REPORT_SIZE \<le> length buf"
  shows "input_report_build_0x30 grip buf timer c
         = Some (full_bytes grip 0x30 timer c @ drop INPUT_REPORT_SIZE buf)"
  using assms
  by (simp add: input_report_build_0x30_def INPUT_REPORT_SIZE_def fill_header_eq
      at_offset_def fill_imu_frame_eq full_bytes_def)

lemma build_0x21_eq:
  assumes "INPUT_REPORT_SIZE \<le> length buf"
    and "\<And>p. payload = Some p \<Longrightarrow> unat payload_len \<le> length p"
  shows "input_report_build_0x21 grip buf timer c subcmd_id payload payload_len
         = Some (reply_bytes grip timer c subcmd_id
                   (case payload of None \<Rightarrow> [] | Some p \<Rightarrow> take (unat payload_len) p)
                 @ drop INPUT_REPORT_SIZE buf)"
proof -
  define h where "h = header_bytes grip 0x21 timer c"
  define k where "k = get_subcmd_ack subcmd_id"
  define rest where "rest = drop 49 buf"
  have h: "length h = 13" by (simp add: h_def)
  have fill: "input_report_fill_header grip (replicate 49 0 @ rest) 0x21 timer c
      = Some (h @ replicate 36 0 @ rest)"
    by (simp add: fill_header_eq h_def)
  have rep: "replicate 36 (0 :: u8) = 0 # 0 # replicate 34 0"
    by (simp add: numeral_eq_Suc)
  have ids: "(h @ replicate 36 0 @ rest)[13 := k, 14 := subcmd_id]
      = (h @ [k, subcmd_id]) @ replicate 34 0 @ rest"
    by (simp add: list_update_append h rep numeral_eq_Suc)
  have "input_report_build_0x21 grip buf timer c subcmd_id payload payload_len
      = (case payload of None \<Rightarrow> Some ((h @ [k, subcmd_id]) @ replicate 34 0 @ rest)
         | Some p \<Rightarrow> if unat payload_len > 0
             then memcpy ((h @ [k, subcmd_id]) @ replicate 34 0 @ rest) 15 p
                    (if unat payload_len > 34 then 34 else unat payload_len)
             else Some ((h @ [k, subcmd_id]) @ replicate 34 0 @ rest))"
    using assms(1) fill ids
    by (simp add: input_report_build_0x21_def INPUT_REPORT_SIZE_def h rest_def [symmetric]
        k_def [symmetric] Let_def split: option.split del: append_assoc)
  then show ?thesis
    using assms(2)
    by (auto simp: h reply_bytes_def h_def [symmetric] k_def [symmetric] rest_def
        INPUT_REPORT_SIZE_def min_def split: option.split)
qed

lemma build_0x3F_eq:
  assumes "12 \<le> length buf"
  shows "input_report_build_0x3F grip buf c = Some (simple_bytes grip c @ drop 12 buf)"
proof -
  have "replicate 12 (0 :: u8) = [0, 0, 0, 0, 0, 0, 0, 0, 0, 0, 0, 0]"
    by (simp add: numeral_eq_Suc)
  then show ?thesis
    using assms
    by (simp add: input_report_build_0x3F_def simple_bytes_def axis_bytes_def ucast_low_byte
        list_eval Let_def)
qed

section \<open>Decoding what was built\<close>

text \<open>
  The host's reading of the header, from the layout comment of \<open>input_report.c\<close>: byte 6 is
  X[7:0], byte 7 is X[11:8] and Y[3:0], byte 8 is Y[11:4], and bytes 9 to 11 likewise.
\<close>

definition unpack_stick :: "u8 \<Rightarrow> u8 \<Rightarrow> u8 \<Rightarrow> u16 \<times> u16" where
  "unpack_stick b0 b1 b2 =
     (ucast b0 OR push_bit 8 (ucast (take_bit 4 b1)), ucast (drop_bit 4 b1) OR push_bit 4 (ucast b2))"

definition decode_state :: "bytes \<Rightarrow> controller_state" where
  "decode_state b =
     \<lparr>right_buttons = b ! 3, shared_buttons = b ! 4, left_buttons = b ! 5,
      left_stick_x = fst (unpack_stick (b ! 6) (b ! 7) (b ! 8)),
      left_stick_y = snd (unpack_stick (b ! 6) (b ! 7) (b ! 8)),
      right_stick_x = fst (unpack_stick (b ! 9) (b ! 10) (b ! 11)),
      right_stick_y = snd (unpack_stick (b ! 9) (b ! 10) (b ! 11))\<rparr>"

lemma unpack_pack_x:
  "ucast (ucast x :: u8) OR push_bit 8 (ucast (take_bit 4
      (ucast (take_bit 4 (drop_bit 8 x)) OR ucast (push_bit 4 (take_bit 4 y)) :: u8)))
   = take_bit 12 (x :: u16)"
  by (rule bit_word_eqI) (auto simp: bit_simps)

lemma unpack_pack_y:
  "ucast (drop_bit 4 (ucast (take_bit 4 (drop_bit 8 x)) OR ucast (push_bit 4 (take_bit 4 y)) :: u8))
     OR push_bit 4 (ucast (ucast (drop_bit 4 y) :: u8)) = take_bit 12 (y :: u16)"
  by (rule bit_word_eqI) (auto simp: bit_simps, metis le_add_diff_inverse not_less)

lemma unpack_stick_bytes:
  "unpack_stick (stick_bytes x y ! 0) (stick_bytes x y ! 1) (stick_bytes x y ! 2)
   = (take_bit 12 x, take_bit 12 y)"
  unfolding unpack_stick_def stick_bytes_def
  by (simp only: nth_Cons_0 nth_Cons_Suc numeral_2_eq_2 One_nat_def unpack_pack_x unpack_pack_y)

lemma take_bit_12_id: "x \<le> 0xFFF \<Longrightarrow> take_bit 12 x = (x :: u16)"
  by (simp add: word_unat_eq_iff unsigned_take_bit_eq take_bit_nat_eq_self word_le_nat_alt)

lemma decode_header:
  "decode_state (header_bytes grip i t c @ rest) =
     \<lparr>right_buttons = right_buttons c OR (if grip then BTN_R else 0),
      shared_buttons = shared_buttons c,
      left_buttons = left_buttons c OR (if grip then BTN_L else 0),
      left_stick_x = take_bit 12 (left_stick_x c), left_stick_y = take_bit 12 (left_stick_y c),
      right_stick_x = take_bit 12 (right_stick_x c), right_stick_y = take_bit 12 (right_stick_y c)\<rparr>"
  using unpack_stick_bytes [of "left_stick_x c" "left_stick_y c"]
    unpack_stick_bytes [of "right_stick_x c" "right_stick_y c"]
  by (simp add: decode_state_def header_bytes_def stick_bytes_def numeral_eq_Suc)

lemma decode_full_bytes:
  assumes "sticks_12bit c"
  shows "decode_state (full_bytes False i t c @ rest) = c"
proof -
  have "full_bytes False i t c @ rest = header_bytes False i t c @ imu_frame @ imu_frame @ imu_frame @ rest"
    by (simp add: full_bytes_def)
  with assms show ?thesis
    by (simp only: decode_header) (simp add: sticks_12bit_def take_bit_12_id)
qed

lemma full_bytes_id: "full_bytes g i t c ! 0 = i"
  by (simp add: full_bytes_def header_bytes_def)

lemma simple_bytes_id: "simple_bytes g c ! 0 = 0x3F"
  by (simp add: simple_bytes_def)

text \<open>The direction that a hat value stands for (0 is up, then clockwise, 8 is released).\<close>

definition hat_vector :: "u8 \<Rightarrow> int \<times> int" where
  "hat_vector h =
     (if h = 0 then (0, -1) else if h = 1 then (1, -1) else if h = 2 then (1, 0)
      else if h = 3 then (1, 1) else if h = 4 then (0, 1) else if h = 5 then (-1, 1)
      else if h = 6 then (-1, 0) else if h = 7 then (-1, -1) else (0, 0))"

lemma dpad_range: "dpad_x c \<in> {-1, 0, 1}" "dpad_y c \<in> {-1, 0, 1}"
  by (simp_all add: dpad_x_def dpad_y_def of_bool_def)

lemma hat_vector_hat_switch: "hat_vector (hat_switch c) = (dpad_x c, dpad_y c)"
  using dpad_range [of c] unfolding hat_switch_def Let_def
  by (elim insertE emptyE) (simp_all add: hat_vector_def)

lemma axis_bytes_value:
  "unat (axis_bytes a ! 0) + 256 * unat (axis_bytes a ! 1) = 16 * (unat a mod 4096)"
proof -
  define v where "v = push_bit 4 (a AND 0xFFF)"
  have a: "a AND 0xFFF = take_bit 12 a"
    unfolding mask_literals by (simp add: take_bit_eq_mask)
  have v: "unat v = 16 * (unat a mod 4096)"
  proof -
    have "unat v = take_bit 16 (push_bit 4 (take_bit 12 (unat a)))"
      by (simp only: v_def a unsigned_push_bit_eq unsigned_take_bit_eq) simp
    then show ?thesis by (simp add: push_bit_eq_mult take_bit_eq_mod)
  qed
  have "unat (ucast v :: u8) = unat v mod 256"
    by (simp add: unsigned_ucast_eq take_bit_eq_mod)
  moreover have "unat (ucast (drop_bit 8 v) :: u8) = unat v div 256 mod 256"
    by (simp only: unsigned_ucast_eq unsigned_drop_bit_eq)
       (simp add: take_bit_eq_mod drop_bit_eq_div mod_mult2_eq [of _ 256 256, simplified])
  moreover have "unat v div 256 < 256" using unat_u16_lt [of v] by auto
  moreover have "axis_bytes a = [ucast v, ucast (drop_bit 8 v)]"
    by (simp only: axis_bytes_def v_def)
  ultimately show ?thesis by (simp add: v [symmetric])
qed

lemma simple_bytes_nth:
  "simple_bytes grip c ! 0 = 0x3F" "simple_bytes grip c ! 3 = hat_switch c"
  "simple_bytes grip c ! 4 = axis_bytes (left_stick_x c) ! 0"
  "simple_bytes grip c ! 5 = axis_bytes (left_stick_x c) ! 1"
  "simple_bytes grip c ! 6 = axis_bytes (left_stick_y c) ! 0"
  "simple_bytes grip c ! 7 = axis_bytes (left_stick_y c) ! 1"
  "simple_bytes grip c ! 8 = axis_bytes (right_stick_x c) ! 0"
  "simple_bytes grip c ! 9 = axis_bytes (right_stick_x c) ! 1"
  "simple_bytes grip c ! 10 = axis_bytes (right_stick_y c) ! 0"
  "simple_bytes grip c ! 11 = axis_bytes (right_stick_y c) ! 1"
  by (simp_all add: simple_bytes_def axis_bytes_def)

section \<open>Properties\<close>

text \<open>
  \<open>input_report_build_0x30\<close> writes exactly the 49 bytes of the 0x30 report (id,
  timer, battery, the three button bytes, both packed sticks, three neutral motion frames),
  leaves the rest of the buffer alone, and is out of bounds exactly on a buffer of less than
  49 bytes.
\<close>

theorem build_0x30_layout:
  "input_report_build_0x30 grip buf timer c =
     (if 49 \<le> length buf
      then Some ([0x30, timer, 0x8E, right_buttons c OR (if grip then BTN_R else 0),
                  shared_buttons c, left_buttons c OR (if grip then BTN_L else 0)]
             @ stick_bytes (left_stick_x c) (left_stick_y c)
             @ stick_bytes (right_stick_x c) (right_stick_y c)
             @ [0] @ imu_frame @ imu_frame @ imu_frame @ drop 49 buf)
      else None)"
proof (cases "49 \<le> length buf")
  case True
  then show ?thesis
    by (simp add: build_0x30_eq INPUT_REPORT_SIZE_def full_bytes_def header_bytes_def)
next
  case False
  then show ?thesis
    by (simp add: input_report_build_0x30_def INPUT_REPORT_SIZE_def memset_None)
qed

text \<open>
  The header of a 0x30 report carries the controller state without loss: decoding
  the built report gives back the state that was sent, for 12-bit axes and no virtual grip.
\<close>

theorem build_0x30_roundtrip:
  assumes "sticks_12bit c" and "input_report_build_0x30 False buf timer c = Some b"
  shows "decode_state b = c"
proof -
  from assms(2) have "INPUT_REPORT_SIZE \<le> length buf"
    by (cases "49 \<le> length buf")
       (simp_all add: INPUT_REPORT_SIZE_def input_report_build_0x30_def memset_None)
  with assms(2) have "b = full_bytes False 0x30 timer c @ drop INPUT_REPORT_SIZE buf"
    by (simp add: build_0x30_eq)
  with assms(1) show ?thesis
    by (simp add: full_bytes_def decode_header sticks_12bit_def take_bit_12_id)
qed

theorem build_0x30_roundtrip_witness:
  "\<exists>b. decode_state b = \<lparr>right_buttons = 8, shared_buttons = 2, left_buttons = 64,
      left_stick_x = 0x123, left_stick_y = 0xFFF, right_stick_x = 0x800, right_stick_y = 0\<rparr>
     \<and> length b = 49"
proof -
  let ?c = "\<lparr>right_buttons = 8, shared_buttons = 2, left_buttons = 64,
      left_stick_x = 0x123, left_stick_y = 0xFFF, right_stick_x = 0x800, right_stick_y = 0\<rparr>"
  have "input_report_build_0x30 False (replicate 49 0) 7 ?c = Some (full_bytes False 0x30 7 ?c)"
    by (simp add: build_0x30_eq INPUT_REPORT_SIZE_def)
  moreover have "sticks_12bit ?c" by (simp add: sticks_12bit_def)
  ultimately have "decode_state (full_bytes False 0x30 7 ?c) = ?c"
    by (intro build_0x30_roundtrip)
  then show ?thesis by (intro exI [of _ "full_bytes False 0x30 7 ?c"]) simp
qed

text \<open>
  \<open>input_report_build_0x3F\<close> writes 12 bytes; the hat byte stands for the net
  direction of the D-pad (opposite directions cancel), and each of the four axes is sent as a
  16-bit little-endian value that is 16 times the 12-bit axis.
\<close>

theorem build_0x3F_meaning:
  "\<exists>b. input_report_build_0x3F grip (replicate 12 x) c = Some b \<and> length b = 12 \<and> b ! 0 = 0x3F
     \<and> hat_vector (b ! 3) = (dpad_x c, dpad_y c)
     \<and> unat (b ! 4) + 256 * unat (b ! 5) = 16 * (unat (left_stick_x c) mod 4096)
     \<and> unat (b ! 6) + 256 * unat (b ! 7) = 16 * (unat (left_stick_y c) mod 4096)
     \<and> unat (b ! 8) + 256 * unat (b ! 9) = 16 * (unat (right_stick_x c) mod 4096)
     \<and> unat (b ! 10) + 256 * unat (b ! 11) = 16 * (unat (right_stick_y c) mod 4096)"
proof (intro exI conjI)
  show "input_report_build_0x3F grip (replicate 12 x) c = Some (simple_bytes grip c)"
    by (simp add: build_0x3F_eq)
qed (simp_all only: simple_bytes_nth hat_vector_hat_switch axis_bytes_value length_simple_bytes)

end
