(* ===== verification/SpiFlash.thy ===== *)
theory SpiFlash
  imports Prelude
begin

text \<open>
  \<open>main/spi_flash.c\<close>: the emulated SPI flash of the controller.  A table of regions is
  overlaid on an erased (0xFF) image; \<open>spi_flash_read\<close> copies the part of each region that
  the request \<open>addr .. addr+len-1\<close> intersects.  The address arithmetic is 32 bits wide, as in
  the code.  \<open>flash_image\<close> is the contract: the byte at every address of the emulated flash.
\<close>

section \<open>The flash data and the region table\<close>

definition spi_serial :: bytes where
  "spi_serial = [0x58, 0x41, 0x57, 0x30, 0x30, 0x30, 0x30, 0x30,
                 0x30, 0x30, 0x30, 0x30, 0x30, 0x30, 0x00, 0x00]"

definition spi_imu_factory_cal :: bytes where
  "spi_imu_factory_cal =
     [0x00, 0x00, 0x00, 0x00, 0x00, 0x00,
      0x00, 0x40, 0x00, 0x40, 0x00, 0x40,
      0x00, 0x00, 0x00, 0x00, 0x00, 0x00,
      0xE0, 0x3B, 0xE0, 0x3B, 0xE0, 0x3B]"

definition spi_stick_cal_left :: bytes where
  "spi_stick_cal_left = [0x00, 0x07, 0x70, 0x00, 0x08, 0x80, 0x00, 0x07, 0x70]"

definition spi_stick_cal_right :: bytes where
  "spi_stick_cal_right = [0x00, 0x07, 0x70, 0x00, 0x08, 0x80, 0x00, 0x07, 0x70]"

definition spi_colors :: bytes where
  "spi_colors = [0x32, 0x32, 0x32, 0xFF, 0xFF, 0xFF, 0x32, 0x32, 0x32, 0x32, 0x32, 0x32]"

definition spi_user_cal_ff :: bytes where
  "spi_user_cal_ff =
     [0xFF, 0xFF, 0xFF, 0xFF, 0xFF, 0xFF, 0xFF, 0xFF,
      0xFF, 0xFF, 0xFF, 0xFF, 0xFF, 0xFF, 0xFF, 0xFF,
      0xFF, 0xFF, 0xFF, 0xFF, 0xFF, 0xFF, 0xFF, 0xFF,
      0xFF, 0xFF]"

record spi_region =
  start :: u32
  end_addr :: u32
  data :: bytes
  data_len :: nat

definition spi_regions :: "spi_region list" where
  "spi_regions =
     [\<lparr>start = 0x6000, end_addr = 0x600F, data = spi_serial, data_len = 16\<rparr>,
      \<lparr>start = 0x6020, end_addr = 0x6037, data = spi_imu_factory_cal, data_len = 24\<rparr>,
      \<lparr>start = 0x603D, end_addr = 0x6045, data = spi_stick_cal_left, data_len = 9\<rparr>,
      \<lparr>start = 0x6046, end_addr = 0x604E, data = spi_stick_cal_right, data_len = 9\<rparr>,
      \<lparr>start = 0x6050, end_addr = 0x605B, data = spi_colors, data_len = 12\<rparr>,
      \<lparr>start = 0x8010, end_addr = 0x8025, data = spi_user_cal_ff, data_len = 22\<rparr>,
      \<lparr>start = 0x8026, end_addr = 0x8041, data = spi_user_cal_ff, data_len = 26\<rparr>]"

section \<open>The read operation\<close>

text \<open>
  One iteration of the inner loop, for the address \<open>byte_addr\<close>.  The loop counter is a
  \<open>uint32_t\<close> that never wraps, because \<open>intersect_end \<le> reg->end\<close> and every region ends
  below \<open>0xFFFFFFFF\<close>; so the loop runs over the addresses of \<open>[start..<Suc end]\<close>.
\<close>

definition spi_copy_byte :: "u32 \<Rightarrow> spi_region \<Rightarrow> nat \<Rightarrow> bytes \<Rightarrow> bytes option" where
  "spi_copy_byte addr reg byte_addr out =
     (let out_idx = unat (of_nat byte_addr - addr);
          data_idx = unat (of_nat byte_addr - start reg)
      in if data_idx < data_len reg
         then do { v \<leftarrow> rd (data reg) data_idx; wr out out_idx v }
         else Some out)"

definition spi_read_region :: "u32 \<Rightarrow> u8 \<Rightarrow> spi_region \<Rightarrow> bytes \<Rightarrow> bytes option" where
  "spi_read_region addr len reg out =
     (let last = addr + ucast len - 1 in
      if addr > end_addr reg \<or> last < start reg then Some out
      else
        let intersect_start = (if addr > start reg then addr else start reg);
            intersect_end = (if last < end_addr reg then last else end_addr reg)
        in foldM (spi_copy_byte addr reg) [unat intersect_start..<Suc (unat intersect_end)] out)"

definition spi_flash_read :: "u32 \<Rightarrow> bytes \<Rightarrow> u8 \<Rightarrow> bytes option" where
  "spi_flash_read addr out len =
     do {
       out \<leftarrow> memset out 0 0xFF (unat len);
       foldM (spi_read_region addr len) spi_regions out
     }"

section \<open>The contract: an image of the flash\<close>

definition flash_image :: "nat \<Rightarrow> u8" where
  "flash_image a =
     (if 0x6000 \<le> a \<and> a < 0x6010 then spi_serial ! (a - 0x6000)
      else if 0x6020 \<le> a \<and> a < 0x6038 then spi_imu_factory_cal ! (a - 0x6020)
      else if 0x603D \<le> a \<and> a < 0x6046 then spi_stick_cal_left ! (a - 0x603D)
      else if 0x6046 \<le> a \<and> a < 0x604F then spi_stick_cal_right ! (a - 0x6046)
      else if 0x6050 \<le> a \<and> a < 0x605C then spi_colors ! (a - 0x6050)
      else 0xFF)"

text \<open>What one region puts at an address, and the overlay of a table of regions.\<close>

definition region_at :: "spi_region \<Rightarrow> nat \<Rightarrow> u8 option" where
  "region_at reg a =
     (if unat (start reg) \<le> a \<and> a \<le> unat (end_addr reg) \<and> a - unat (start reg) < data_len reg
      then Some (data reg ! (a - unat (start reg))) else None)"

definition overlay :: "spi_region \<Rightarrow> nat \<Rightarrow> u8 \<Rightarrow> u8" where
  "overlay reg a b = (case region_at reg a of None \<Rightarrow> b | Some v \<Rightarrow> v)"

definition region_ok :: "spi_region \<Rightarrow> bool" where
  "region_ok reg \<longleftrightarrow> data_len reg \<le> length (data reg) \<and> 0 < unat (start reg)
     \<and> unat (end_addr reg) < 0x10000"

lemma spi_regions_ok: "list_all region_ok spi_regions"
  by (simp add: spi_regions_def region_ok_def spi_serial_def spi_imu_factory_cal_def
      spi_stick_cal_left_def spi_stick_cal_right_def spi_colors_def spi_user_cal_ff_def)

section \<open>Correctness of the copy loops\<close>

lemma spi_copy_byte_eq:
  assumes "unat addr \<le> b" and "unat (start reg) \<le> b" and "b < 0x10000"
    and "b - unat addr < length out" and "data_len reg \<le> length (data reg)"
  shows "spi_copy_byte addr reg b out =
    Some (if b - unat (start reg) < data_len reg
          then out[b - unat addr := data reg ! (b - unat (start reg))] else out)"
proof -
  have sub: "unat ((of_nat b :: u32) - w) = b - unat w" if "unat w \<le> b" for w :: u32
  proof -
    have "unat (of_nat b :: u32) = b"
      using assms(3) by (simp add: unat_of_nat)
    with that show ?thesis by (simp add: unat_sub word_le_nat_alt)
  qed
  show ?thesis using assms by (simp add: spi_copy_byte_def Let_def sub)
qed

text \<open>
  The effect of the inner loop up to the address \<open>e\<close>: the bytes of the output whose address
  lies in \<open>s..e\<close> and in the data of the region are replaced.
\<close>

definition copied :: "u32 \<Rightarrow> spi_region \<Rightarrow> nat \<Rightarrow> nat \<Rightarrow> bytes \<Rightarrow> bytes" where
  "copied addr reg s e out =
     map (\<lambda>i. let a = unat addr + i in
            if s \<le> a \<and> a < e \<and> a - unat (start reg) < data_len reg
            then data reg ! (a - unat (start reg)) else out ! i) [0..<length out]"

lemma length_copied [simp]: "length (copied addr reg s e out) = length out"
  by (simp add: copied_def)

lemma nth_copied:
  "i < length out \<Longrightarrow> copied addr reg s e out ! i =
     (if s \<le> unat addr + i \<and> unat addr + i < e \<and> unat addr + i - unat (start reg) < data_len reg
      then data reg ! (unat addr + i - unat (start reg)) else out ! i)"
  by (simp add: copied_def Let_def)

lemma copied_empty: "e \<le> s \<Longrightarrow> copied addr reg s e out = out"
  by (rule nth_equalityI) (auto simp: nth_copied)

lemma copied_Suc:
  assumes "s \<le> e" and "unat addr \<le> e" and "e - unat addr < length out"
  shows "copied addr reg s (Suc e) out =
    (if e - unat (start reg) < data_len reg
     then (copied addr reg s e out)[e - unat addr := data reg ! (e - unat (start reg))]
     else copied addr reg s e out)"
proof (rule nth_equalityI)
  fix i
  assume "i < length (copied addr reg s (Suc e) out)"
  then have i: "i < length out" by simp
  have pos: "e - unat addr = i \<longleftrightarrow> unat addr + i = e" using assms(2) by auto
  show "copied addr reg s (Suc e) out ! i =
    (if e - unat (start reg) < data_len reg
     then (copied addr reg s e out)[e - unat addr := data reg ! (e - unat (start reg))]
     else copied addr reg s e out) ! i"
  proof (cases "unat addr + i = e")
    case True
    with i assms pos show ?thesis by (auto simp: nth_copied)
  next
    case False
    with i pos have "(copied addr reg s e out)[e - unat addr := v] ! i = copied addr reg s e out ! i"
      for v by simp
    with False i show ?thesis by (auto simp: nth_copied)
  qed
qed simp

lemma spi_copy_loop:
  assumes "unat addr \<le> s" and "unat (start reg) \<le> s" and "data_len reg \<le> length (data reg)"
    and "e \<le> 0x10000" and "e \<le> unat addr + length out" and "s \<le> e"
  shows "foldM (spi_copy_byte addr reg) [s..<e] out = Some (copied addr reg s e out)"
  using assms(6,4,5)
proof (induction e rule: dec_induct)
  case base
  show ?case by (simp add: copied_empty)
next
  case (step e)
  then have IH: "foldM (spi_copy_byte addr reg) [s..<e] out = Some (copied addr reg s e out)"
    by simp
  have "spi_copy_byte addr reg e (copied addr reg s e out) = Some (copied addr reg s (Suc e) out)"
    using assms(1-3) step
    by (subst spi_copy_byte_eq) (auto simp: copied_Suc)
  with IH step.hyps show ?case by (simp add: foldM_append)
qed

section \<open>One region, then the whole table\<close>

lemma unat_last_address:
  fixes addr :: u32 and len :: u8
  assumes "unat addr < 0x10000" and "addr \<noteq> 0 \<or> len \<noteq> 0"
  shows "unat (addr + ucast len - 1) = unat addr + unat len - 1"
proof -
  have add: "unat (addr + ucast len) = unat addr + unat len"
    using assms(1) unat_u8_lt [of len] by (subst unat_add_lem [THEN iffD1]) simp_all
  moreover have "addr + ucast len \<noteq> 0"
    using add assms(2) by (metis add_eq_0_iff_both_eq_0 unat_0 unat_eq_zero)
  ultimately show ?thesis by (simp add: unat_minus_one)
qed

definition overlaid :: "u32 \<Rightarrow> u8 \<Rightarrow> (nat \<Rightarrow> u8 \<Rightarrow> u8) \<Rightarrow> bytes \<Rightarrow> bytes" where
  "overlaid addr len f out =
     map (\<lambda>i. if i < unat len then f (unat addr + i) (out ! i) else out ! i) [0..<length out]"

lemma length_overlaid [simp]: "length (overlaid addr len f out) = length out"
  by (simp add: overlaid_def)

lemma overlaid_comp:
  "overlaid addr len g (overlaid addr len f out) = overlaid addr len (\<lambda>a b. g a (f a b)) out"
  by (rule nth_equalityI) (simp_all add: overlaid_def)

lemma spi_read_region_eq:
  assumes "region_ok reg" and "addr \<noteq> 0 \<or> len \<noteq> 0" and "unat len \<le> length out"
  shows "spi_read_region addr len reg out = Some (overlaid addr len (overlay reg) out)"
proof (cases "addr > end_addr reg")
  case True
  then show ?thesis
    by (auto simp: spi_read_region_def overlaid_def overlay_def region_at_def word_less_nat_alt
        intro!: nth_equalityI)
next
  case False
  define last where "last = addr + ucast len - 1"
  define s where "s = (if addr > start reg then unat addr else unat (start reg))"
  define e where "e = (if last < end_addr reg then unat last else unat (end_addr reg))"
  from assms(1) have ok: "data_len reg \<le> length (data reg)" "unat (end_addr reg) < 0x10000"
    by (simp_all add: region_ok_def)
  from False have le: "unat addr \<le> unat (end_addr reg)" by (simp add: word_le_nat_alt linorder_not_less)
  with ok assms(2) have last: "unat last = unat addr + unat len - 1"
    unfolding last_def by (intro unat_last_address) auto
  show ?thesis
  proof (cases "last < start reg")
    case True
    then have "spi_read_region addr len reg out = Some out"
      by (simp add: spi_read_region_def last_def Let_def)
    moreover have "overlaid addr len (overlay reg) out = out"
      using True last
      by (auto simp: overlaid_def overlay_def region_at_def word_less_nat_alt intro!: nth_equalityI)
    ultimately show ?thesis by simp
  next
    case noskip: False
    have run: "spi_read_region addr len reg out = foldM (spi_copy_byte addr reg) [s..<Suc e] out"
      using False noskip
      by (simp add: spi_read_region_def Let_def last_def [symmetric] s_def e_def if_distrib
          del: upt_Suc)
    have e_le: "e \<le> unat (end_addr reg)" and e_last: "e \<le> unat addr + unat len - 1"
      using last by (auto simp: e_def word_less_nat_alt)
    have pos: "0 < unat addr + unat len"
      using assms(2) by (auto simp: unat_gt_0)
    have s_ge: "unat addr \<le> s" "unat (start reg) \<le> s"
      by (auto simp: s_def word_less_nat_alt)
    have "foldM (spi_copy_byte addr reg) [s..<Suc e] out = Some (copied addr reg s (Suc e) out)"
    proof (cases "s \<le> e")
      case True
      with e_last assms(3) s_ge pos have "Suc e \<le> unat addr + length out" by linarith
      with ok e_le s_ge True show ?thesis by (intro spi_copy_loop) auto
    next
      case False
      then show ?thesis by (simp add: copied_empty)
    qed
    moreover have "copied addr reg s (Suc e) out = overlaid addr len (overlay reg) out"
    proof (rule nth_equalityI)
      fix i
      assume "i < length (copied addr reg s (Suc e) out)"
      then have i: "i < length out" by simp
      have "s \<le> unat addr + i \<and> unat addr + i < Suc e \<longleftrightarrow>
        i < unat len \<and> unat (start reg) \<le> unat addr + i \<and> unat addr + i \<le> unat (end_addr reg)"
        using last noskip pos by (auto simp: s_def e_def word_less_nat_alt)
      with i show "copied addr reg s (Suc e) out ! i = overlaid addr len (overlay reg) out ! i"
        by (auto simp: nth_copied overlaid_def overlay_def region_at_def)
    qed simp
    ultimately show ?thesis by (simp add: run)
  qed
qed

lemma spi_read_table_eq:
  assumes "list_all region_ok regs" and "addr \<noteq> 0 \<or> len \<noteq> 0" and "unat len \<le> length out"
  shows "foldM (spi_read_region addr len) regs out =
    Some (overlaid addr len (\<lambda>a b. fold (\<lambda>reg. overlay reg a) regs b) out)"
  using assms
proof (induction regs arbitrary: out)
  case Nil
  show ?case by (auto simp: overlaid_def intro!: nth_equalityI)
next
  case (Cons reg regs)
  then show ?case by (simp add: spi_read_region_eq overlaid_comp)
qed

lemma spi_user_cal_ff_replicate: "spi_user_cal_ff = replicate 26 0xFF"
  by (simp add: spi_user_cal_ff_def list_eval)

lemma nth_spi_user_cal_ff: "k < 26 \<Longrightarrow> spi_user_cal_ff ! k = 0xFF"
  unfolding spi_user_cal_ff_replicate by (rule nth_replicate)

lemma region_at_short:
  assumes "unat (start reg) = s" and "unat (end_addr reg) = e" and "s + data_len reg \<le> Suc e"
    and "n = data_len reg"
  shows "region_at reg a = (if s \<le> a \<and> a < s + n then Some (data reg ! (a - s)) else None)"
  using assms by (auto simp: region_at_def)

lemma flash_image_overlay: "fold (\<lambda>reg. overlay reg a) spi_regions 0xFF = flash_image a"
  by (auto simp: spi_regions_def overlay_def region_at_short flash_image_def nth_spi_user_cal_ff)

text \<open>The functional contract of the read, and the one request that leaves the buffer.\<close>

lemma spi_flash_read_eq:
  assumes "addr \<noteq> 0 \<or> len \<noteq> 0" and "unat len \<le> length out"
  shows "spi_flash_read addr out len =
    Some (map (\<lambda>i. flash_image (unat addr + i)) [0..<unat len] @ drop (unat len) out)"
proof -
  let ?blank = "replicate (unat len) 0xFF @ drop (unat len) out"
  have "spi_flash_read addr out len =
      Some (overlaid addr len (\<lambda>a b. fold (\<lambda>reg. overlay reg a) spi_regions b) ?blank)"
    using assms spi_regions_ok by (simp add: spi_flash_read_def spi_read_table_eq)
  also have "overlaid addr len (\<lambda>a b. fold (\<lambda>reg. overlay reg a) spi_regions b) ?blank =
      map (\<lambda>i. flash_image (unat addr + i)) [0..<unat len] @ drop (unat len) out"
    using assms(2)
    by (intro nth_equalityI) (auto simp: overlaid_def nth_append flash_image_overlay)
  finally show ?thesis .
qed

lemma spi_flash_read_zero:
  assumes "length out \<le> 0x6000"
  shows "spi_flash_read 0 out 0 = None"
proof -
  have "spi_copy_byte 0 (hd spi_regions) 0x6000 out = None"
    using assms by (simp add: spi_copy_byte_def spi_regions_def spi_serial_def)
  moreover have "[0x6000..<Suc 0x600F] = 0x6000 # [0x6001..<Suc (0x600F :: nat)]"
    by (subst upt_conv_Cons) simp_all
  ultimately have "spi_read_region 0 0 (hd spi_regions) out = None"
    by (simp add: spi_read_region_def spi_regions_def Let_def del: upt_Suc upt_rec_numeral)
  then have "foldM (spi_read_region 0 0) spi_regions out = None"
    by (cases spi_regions) (auto simp: spi_regions_def)
  then show ?thesis by (simp add: spi_flash_read_def)
qed

section \<open>Properties\<close>

text \<open>
  Property C5: a flash read of any length from any address except \<open>(0, 0)\<close> writes exactly the
  requested bytes of the flash image (the tables, 0xFF elsewhere, also across neighbouring
  regions) and nothing behind them.
\<close>

theorem spi_flash_read_contract:
  assumes "addr \<noteq> 0 \<or> len \<noteq> 0" and "unat len \<le> length out"
  shows "\<exists>r. spi_flash_read addr out len = Some r \<and> length r = length out
    \<and> (\<forall>i < unat len. r ! i = flash_image (unat addr + i))
    \<and> drop (unat len) r = drop (unat len) out"
  using assms by (auto simp: spi_flash_read_eq nth_append)

theorem spi_flash_read_contract_witness:
  "\<exists>r. spi_flash_read 0x603D (replicate 29 0) 25 = Some r \<and> length r = 29
    \<and> r ! 0 = hd spi_stick_cal_left \<and> r ! 9 = hd spi_stick_cal_right \<and> r ! 18 = 0xFF
    \<and> r ! 19 = hd spi_colors"
proof -
  obtain r where r: "spi_flash_read 0x603D (replicate 29 0) 25 = Some r" "length r = 29"
      and nth: "\<And>i. i < 25 \<Longrightarrow> r ! i = flash_image (0x603D + i)"
    using spi_flash_read_contract [of "0x603D" 25 "replicate 29 0"] by auto
  have "flash_image 0x603D = hd spi_stick_cal_left" "flash_image 0x6046 = hd spi_stick_cal_right"
    "flash_image 0x604F = 0xFF" "flash_image 0x6050 = hd spi_colors"
    by (simp_all add: flash_image_def spi_stick_cal_left_def spi_stick_cal_right_def spi_colors_def)
  with nth [of 0] nth [of 9] nth [of 18] nth [of 19] r show ?thesis by simp
qed

text \<open>
  The read of no bytes at address 0 does leave the buffer: \<open>addr + len - 1\<close> wraps
  to 0xFFFFFFFF, every region then counts as requested, and the copy writes at index 0x6000.
\<close>

theorem spi_flash_read_zero_leaves_buffer:
  assumes "length out \<le> 0x6000"
  shows "spi_flash_read 0 out 0 = None"
  using assms by (rule spi_flash_read_zero)

theorem spi_flash_read_zero_leaves_buffer_witness:
  "spi_flash_read 0 (replicate 29 0) 0 = None"
  using spi_flash_read_zero_leaves_buffer [of "replicate 29 0"] by simp

end
