(* ===== verification/SwitchProto.thy ===== *)
theory SwitchProto
  imports NfcMcu InputReport SpiFlash
begin

text \<open>
  \<open>main/switch_proto.c\<close>: the parser and dispatcher of the console's output reports.  The record
  \<open>dev\<close> gathers the state that its handlers read and write: the controller state, the grip
  flag of \<open>input_report.c\<close>, the NFC controller, the three static variables of the module and
  the Bluetooth address; its last field \<open>link\<close> is the state of the transport.  A handler takes
  the transport's \<open>hid_transport_send_input_report\<close> as the argument \<open>send\<close>, so that the same
  handlers run over each of the three transports.

  A local array that C leaves uninitialised starts as zeros here; every such array is
  completely overwritten before it is read, as the layout equations show.
\<close>

section \<open>The code\<close>

datatype stream_mode_t = STREAM_MODE_NONE | STREAM_MODE_0x3F | STREAM_MODE_0x30 | STREAM_MODE_0x31

record 'l dev =
  ctrl :: controller_state
  virtual_grip :: bool
  nfc :: nfc_state
  s_stream_mode :: stream_mode_t
  s_timer :: u8
  s_stream_enabled :: bool
  g_esp32_mac :: bytes
  link :: 'l

type_synonym ('l, 'm) dev_of = "('l, 'm) dev_scheme"
type_synonym 'l sender = "bytes \<Rightarrow> nat \<Rightarrow> 'l \<Rightarrow> 'l option"

definition upd_link :: "('l \<Rightarrow> 'l) \<Rightarrow> ('l, 'm) dev_of \<Rightarrow> ('l, 'm) dev_of" where
  "upd_link f d = d\<lparr>link := f (link d)\<rparr>"

definition send_subcmd_reply ::
    "'l sender \<Rightarrow> u8 \<Rightarrow> bytes option \<Rightarrow> u8 \<Rightarrow> ('l, 'm) dev_of \<Rightarrow> ('l, 'm) dev_of option" where
  "send_subcmd_reply send subcmd_id payload payload_len d =
     do {
       report \<leftarrow> input_report_build_0x21 (virtual_grip d) (replicate INPUT_REPORT_SIZE 0) (s_timer d)
                   (ctrl d) subcmd_id payload payload_len;
       let d = d\<lparr>s_timer := (s_timer d + 1) AND 0xFF\<rparr>;
       l \<leftarrow> send report INPUT_REPORT_SIZE (link d);
       Some (d\<lparr>link := l\<rparr>)
     }"

definition send_generic_ack ::
    "'l sender \<Rightarrow> u8 \<Rightarrow> ('l, 'm) dev_of \<Rightarrow> ('l, 'm) dev_of option" where
  "send_generic_ack send subcmd_id d = send_subcmd_reply send subcmd_id (Some [0x03]) 1 d"

definition handle_subcmd_01_pairing ::
    "'l sender \<Rightarrow> ('l, 'm) dev_of \<Rightarrow> ('l, 'm) dev_of option" where
  "handle_subcmd_01_pairing send d = send_generic_ack send 0x01 d"

definition handle_subcmd_02_device_info ::
    "'l sender \<Rightarrow> ('l, 'm) dev_of \<Rightarrow> ('l, 'm) dev_of option" where
  "handle_subcmd_02_device_info send d =
     do {
       m0 \<leftarrow> rd (g_esp32_mac d) 0; m1 \<leftarrow> rd (g_esp32_mac d) 1; m2 \<leftarrow> rd (g_esp32_mac d) 2;
       m3 \<leftarrow> rd (g_esp32_mac d) 3; m4 \<leftarrow> rd (g_esp32_mac d) 4; m5 \<leftarrow> rd (g_esp32_mac d) 5;
       send_subcmd_reply send 0x02
         (Some [0x03, 0x48, 0x03, 0x02, m0, m1, m2, m3, m4, m5, 0x01, 0x01]) 12 d
     }"

definition handle_subcmd_03_set_mode ::
    "'l sender \<Rightarrow> u8 \<Rightarrow> ('l, 'm) dev_of \<Rightarrow> ('l, 'm) dev_of option" where
  "handle_subcmd_03_set_mode send mode_arg d =
     (let d = (if mode_arg = 0x30 then d\<lparr>s_stream_mode := STREAM_MODE_0x30, s_stream_enabled := True\<rparr>
               else if mode_arg = 0x31 then d\<lparr>s_stream_mode := STREAM_MODE_0x31, s_stream_enabled := True\<rparr>
               else if mode_arg = 0x3F then d\<lparr>s_stream_mode := STREAM_MODE_0x3F, s_stream_enabled := True\<rparr>
               else d)
      in send_subcmd_reply send 0x03 (Some [0x03]) 1 d)"

definition handle_subcmd_08_shipment ::
    "'l sender \<Rightarrow> ('l, 'm) dev_of \<Rightarrow> ('l, 'm) dev_of option" where
  "handle_subcmd_08_shipment send d = send_subcmd_reply send 0x08 None 0 d"

definition handle_subcmd_10_spi_read ::
    "'l sender \<Rightarrow> bytes \<Rightarrow> ('l, 'm) dev_of \<Rightarrow> ('l, 'm) dev_of option" where
  "handle_subcmd_10_spi_read send args d =
     do {
       a0 \<leftarrow> rd args 0; a1 \<leftarrow> rd args 1; a2 \<leftarrow> rd args 2; a3 \<leftarrow> rd args 3;
       let addr = (ucast a0 :: u32) OR push_bit 8 (ucast a1) OR push_bit 16 (ucast a2)
                  OR push_bit 24 (ucast a3);
       len \<leftarrow> rd args 4;
       let len = (if len > 0x1D then 0x1D else len);
       payload \<leftarrow> memset (replicate (5 + 0x1D) 0) 0 0xFF (5 + 0x1D);
       payload \<leftarrow> wr payload 0 a0;
       payload \<leftarrow> wr payload 1 a1;
       payload \<leftarrow> wr payload 2 a2;
       payload \<leftarrow> wr payload 3 a3;
       payload \<leftarrow> wr payload 4 len;
       payload \<leftarrow> at_offset 5 (\<lambda>out. spi_flash_read addr out len) payload;
       send_subcmd_reply send 0x10 (Some payload) (5 + len) d
     }"

definition handle_subcmd_30_player_lights ::
    "'l sender \<Rightarrow> ('l, 'm) dev_of \<Rightarrow> ('l, 'm) dev_of option" where
  "handle_subcmd_30_player_lights send d = send_subcmd_reply send 0x30 None 0 d"

definition handle_subcmd_38_home_light ::
    "'l sender \<Rightarrow> ('l, 'm) dev_of \<Rightarrow> ('l, 'm) dev_of option" where
  "handle_subcmd_38_home_light send d = send_subcmd_reply send 0x38 None 0 d"

definition handle_subcmd_40_imu ::
    "'l sender \<Rightarrow> ('l, 'm) dev_of \<Rightarrow> ('l, 'm) dev_of option" where
  "handle_subcmd_40_imu send d = send_subcmd_reply send 0x40 None 0 d"

definition handle_subcmd_48_vibration ::
    "'l sender \<Rightarrow> ('l, 'm) dev_of \<Rightarrow> ('l, 'm) dev_of option" where
  "handle_subcmd_48_vibration send d = send_subcmd_reply send 0x48 None 0 d"

definition handle_subcmd_04_trigger_elapsed ::
    "'l sender \<Rightarrow> ('l, 'm) dev_of \<Rightarrow> ('l, 'm) dev_of option" where
  "handle_subcmd_04_trigger_elapsed send d = send_subcmd_reply send 0x04 (Some (replicate 14 0)) 14 d"

definition handle_subcmd_05_page_list ::
    "'l sender \<Rightarrow> ('l, 'm) dev_of \<Rightarrow> ('l, 'm) dev_of option" where
  "handle_subcmd_05_page_list send d = send_subcmd_reply send 0x05 (Some [0x01]) 1 d"

definition handle_subcmd_31_player_lights ::
    "'l sender \<Rightarrow> ('l, 'm) dev_of \<Rightarrow> ('l, 'm) dev_of option" where
  "handle_subcmd_31_player_lights send d = send_subcmd_reply send 0x31 (Some [0x00]) 1 d"

definition handle_subcmd_21_mcu_config ::
    "'l sender \<Rightarrow> bytes \<Rightarrow> nat \<Rightarrow> ('l, 'm) dev_of \<Rightarrow> ('l, 'm) dev_of option" where
  "handle_subcmd_21_mcu_config send args len d =
     do {
       (ok, payload, n) \<leftarrow> nfc_config (Some args) len (replicate 34 0) (nfc d);
       let d = d\<lparr>nfc := n\<rparr>;
       if \<not> ok then Some d else send_subcmd_reply send 0x21 (Some payload) 34 d
     }"

definition handle_subcmd_22_mcu_state ::
    "'l sender \<Rightarrow> bytes \<Rightarrow> nat \<Rightarrow> ('l, 'm) dev_of \<Rightarrow> ('l, 'm) dev_of option" where
  "handle_subcmd_22_mcu_state send args len d =
     (if len = 0 then Some d
      else do {
        a0 \<leftarrow> rd args 0;
        (ok, n) \<leftarrow> nfc_power a0 (nfc d);
        let d = d\<lparr>nfc := n\<rparr>;
        if \<not> ok then Some d else send_subcmd_reply send 0x22 None 0 d
      })"

definition dispatch_subcommand ::
    "'l sender \<Rightarrow> u8 \<Rightarrow> bytes \<Rightarrow> nat \<Rightarrow> ('l, 'm) dev_of \<Rightarrow> ('l, 'm) dev_of option" where
  "dispatch_subcommand send subcmd_id args args_len d =
     (if subcmd_id = 0x01 then handle_subcmd_01_pairing send d
      else if subcmd_id = 0x02 then handle_subcmd_02_device_info send d
      else if subcmd_id = 0x03 then
        do { m \<leftarrow> (if args_len > 0 then rd args 0 else Some 0x3F); handle_subcmd_03_set_mode send m d }
      else if subcmd_id = 0x04 then handle_subcmd_04_trigger_elapsed send d
      else if subcmd_id = 0x05 then handle_subcmd_05_page_list send d
      else if subcmd_id = 0x06 then send_generic_ack send 0x06 d
      else if subcmd_id = 0x07 then send_generic_ack send 0x07 d
      else if subcmd_id = 0x08 then handle_subcmd_08_shipment send d
      else if subcmd_id = 0x10 then
        (if args_len \<ge> 5 then handle_subcmd_10_spi_read send args d else send_generic_ack send 0x10 d)
      else if subcmd_id = 0x11 then send_generic_ack send 0x11 d
      else if subcmd_id = 0x12 then send_generic_ack send 0x12 d
      else if subcmd_id = 0x20 then send_generic_ack send 0x20 d
      else if subcmd_id = 0x21 then handle_subcmd_21_mcu_config send args args_len d
      else if subcmd_id = 0x22 then handle_subcmd_22_mcu_state send args args_len d
      else if subcmd_id = 0x30 then handle_subcmd_30_player_lights send d
      else if subcmd_id = 0x31 then handle_subcmd_31_player_lights send d
      else if subcmd_id = 0x38 then handle_subcmd_38_home_light send d
      else if subcmd_id = 0x40 then handle_subcmd_40_imu send d
      else if subcmd_id = 0x41 then send_generic_ack send 0x41 d
      else if subcmd_id = 0x42 then send_generic_ack send 0x42 d
      else if subcmd_id = 0x43 then send_generic_ack send 0x43 d
      else if subcmd_id = 0x48 then handle_subcmd_48_vibration send d
      else send_generic_ack send subcmd_id d)"

definition switch_proto_init :: "('l, 'm) dev_of \<Rightarrow> ('l, 'm) dev_of" where
  "switch_proto_init d =
     d\<lparr>nfc := nfc_reset (nfc d), s_stream_mode := STREAM_MODE_0x30, s_timer := 0x00,
       s_stream_enabled := False\<rparr>"

definition switch_proto_handle_output ::
    "'l sender \<Rightarrow> bytes option \<Rightarrow> nat \<Rightarrow> ('l, 'm) dev_of \<Rightarrow> ('l, 'm) dev_of option" where
  "switch_proto_handle_output send packet len d =
     (case packet of
        None \<Rightarrow> Some d
      | Some p \<Rightarrow>
          if len < 1 then Some d
          else do {
            report_id \<leftarrow> rd p 0;
            if report_id = 0x01 then
              (if len < 11 then Some d
               else do {
                 subcmd_id \<leftarrow> rd p 10;
                 let args = drop 11 p;
                 let args_len = (if len > 11 then len - 11 else 0);
                 dispatch_subcommand send subcmd_id args args_len d
               })
            else if report_id = 0x10 then Some d
            else if report_id = 0x11 then
              do { (ok, n) \<leftarrow> nfc_command packet len (nfc d); Some (d\<lparr>nfc := n\<rparr>) }
            else Some d
          })"

definition switch_proto_get_stream_mode :: "('l, 'm) dev_of \<Rightarrow> stream_mode_t" where
  "switch_proto_get_stream_mode d = s_stream_mode d"

definition switch_proto_next_timer :: "('l, 'm) dev_of \<Rightarrow> u8 \<times> ('l, 'm) dev_of" where
  "switch_proto_next_timer d = (s_timer d, d\<lparr>s_timer := (s_timer d + 1) AND 0xFF\<rparr>)"

definition switch_proto_stream_enabled :: "('l, 'm) dev_of \<Rightarrow> bool" where
  "switch_proto_stream_enabled d = s_stream_enabled d"

section \<open>The dispatcher as one table\<close>

text \<open>
  \<open>dev_ok\<close> is the shape of the state; \<open>post_reply\<close> is the one way a reply leaves the module;
  \<open>subcmd_payload\<close> and \<open>subcmd_effect\<close> say, per subcommand, what is answered (\<open>None\<close>: nothing)
  and what changes.  \<open>dispatch_eq\<close> states that the code is this table.
\<close>

definition dev_ok :: "('l, 'm) dev_of \<Rightarrow> bool" where
  "dev_ok d \<longleftrightarrow> nfc_inv (nfc d) \<and> length (g_esp32_mac d) = 6"

definition post_reply :: "'l sender \<Rightarrow> u8 \<Rightarrow> bytes \<Rightarrow> ('l, 'm) dev_of \<Rightarrow> ('l, 'm) dev_of option" where
  "post_reply send subcmd_id payload d =
     do {
       l \<leftarrow> send (reply_bytes (virtual_grip d) (s_timer d) (ctrl d) subcmd_id payload) 49 (link d);
       Some (d\<lparr>s_timer := s_timer d + 1, link := l\<rparr>)
     }"

definition le32 :: "bytes \<Rightarrow> nat" where
  "le32 b = unat (b ! 0) + 256 * unat (b ! 1) + 65536 * unat (b ! 2) + 16777216 * unat (b ! 3)"

definition spi_len :: "bytes \<Rightarrow> nat" where
  "spi_len args = min (unat (args ! 4)) 29"

definition spi_zero :: "u8 \<Rightarrow> bytes \<Rightarrow> nat \<Rightarrow> bool" where
  "spi_zero subcmd_id args args_len \<longleftrightarrow>
     subcmd_id = 0x10 \<and> 5 \<le> args_len \<and> (\<forall>b \<in> set (take 5 args). b = 0)"

definition mode_of :: "u8 \<Rightarrow> stream_mode_t option" where
  "mode_of m = (if m = 0x30 then Some STREAM_MODE_0x30 else if m = 0x31 then Some STREAM_MODE_0x31
     else if m = 0x3F then Some STREAM_MODE_0x3F else None)"

definition subcmd_payload :: "u8 \<Rightarrow> bytes \<Rightarrow> nat \<Rightarrow> ('l, 'm) dev_of \<Rightarrow> bytes option" where
  "subcmd_payload subcmd_id args args_len d =
     (if subcmd_id = 0x02 then Some ([0x03, 0x48, 0x03, 0x02] @ g_esp32_mac d @ [0x01, 0x01])
      else if subcmd_id = 0x04 then Some (replicate 14 0)
      else if subcmd_id = 0x05 then Some [0x01]
      else if subcmd_id \<in> {0x08, 0x30, 0x38, 0x40, 0x48} then Some []
      else if subcmd_id = 0x10 \<and> 5 \<le> args_len then
        Some (take 4 args @ [of_nat (spi_len args)]
              @ map (\<lambda>i. flash_image (le32 args + i)) [0..<spi_len args])
      else if subcmd_id = 0x21 then
        (if 3 \<le> args_len \<and> args ! 2 \<in> {0, 1, 4} then Some config_reply else None)
      else if subcmd_id = 0x22 then
        (if 0 < args_len \<and> args ! 0 \<in> {0, 1} then Some [] else None)
      else if subcmd_id = 0x31 then Some [0x00]
      else Some [0x03])"

definition subcmd_effect :: "u8 \<Rightarrow> bytes \<Rightarrow> nat \<Rightarrow> ('l, 'm) dev_of \<Rightarrow> ('l, 'm) dev_of" where
  "subcmd_effect subcmd_id args args_len d =
     (if subcmd_id = 0x03 then
        (case mode_of (if 0 < args_len then args ! 0 else 0x3F) of
           None \<Rightarrow> d
         | Some m \<Rightarrow> d\<lparr>s_stream_mode := m, s_stream_enabled := True\<rparr>)
      else if subcmd_id = 0x21 \<and> 3 \<le> args_len \<and> args ! 2 \<in> {1, 4} \<and> power_state (nfc d) \<noteq> 0
      then d\<lparr>nfc := powered (args ! 2) (nfc d)\<rparr>
      else if subcmd_id = 0x22 \<and> 0 < args_len \<and> args ! 0 \<in> {0, 1}
      then d\<lparr>nfc := powered (args ! 0) (nfc d)\<rparr>
      else d)"

lemma and_255_u8 [simp]: "(x :: u8) AND 255 = x"
proof -
  have "(255 :: u8) = - 1" by simp
  then show ?thesis by (simp only: and.right_neutral)
qed

lemma send_subcmd_reply_eq:
  assumes "\<And>p. payload = Some p \<Longrightarrow> unat n \<le> length p"
  shows "send_subcmd_reply send subcmd_id payload n d =
    post_reply send subcmd_id (case payload of None \<Rightarrow> [] | Some p \<Rightarrow> take (unat n) p) d"
  using build_0x21_eq [OF _ assms, where buf = "replicate 49 0"]
  by (simp add: send_subcmd_reply_def post_reply_def Let_def INPUT_REPORT_SIZE_def)

lemma send_subcmd_reply_None: "send_subcmd_reply send i None 0 d = post_reply send i [] d"
  by (simp add: send_subcmd_reply_eq)

lemma send_subcmd_reply_Some:
  "unat n = length p \<Longrightarrow> send_subcmd_reply send i (Some p) n d = post_reply send i p d"
  using send_subcmd_reply_eq [of "Some p" n] by simp

lemma send_subcmd_reply_prefix:
  "unat n = length p \<Longrightarrow> send_subcmd_reply send i (Some (p @ q)) n d = post_reply send i p d"
  using send_subcmd_reply_eq [of "Some (p @ q)" n] by simp

lemma send_generic_ack_eq: "send_generic_ack send i d = post_reply send i [0x03] d"
  by (simp add: send_generic_ack_def send_subcmd_reply_Some)

lemma handle_02_eq:
  assumes "length (g_esp32_mac d) = 6"
  shows "handle_subcmd_02_device_info send d
    = post_reply send 0x02 ([0x03, 0x48, 0x03, 0x02] @ g_esp32_mac d @ [0x01, 0x01]) d"
proof -
  obtain m0 m1 m2 m3 m4 m5 where "g_esp32_mac d = [m0, m1, m2, m3, m4, m5]"
    using assms by (auto simp: numeral_eq_Suc length_Suc_conv)
  then show ?thesis
    by (simp add: handle_subcmd_02_device_info_def send_subcmd_reply_Some)
qed

lemma handle_03_eq:
  "handle_subcmd_03_set_mode send m d = post_reply send 0x03 [0x03]
     (case mode_of m of None \<Rightarrow> d | Some k \<Rightarrow> d\<lparr>s_stream_mode := k, s_stream_enabled := True\<rparr>)"
  by (simp add: handle_subcmd_03_set_mode_def mode_of_def send_subcmd_reply_Some)

lemma or_shifted_nat:
  assumes "a < 2 ^ n"
  shows "a OR push_bit n b = a + 2 ^ n * (b :: nat)"
proof -
  have "\<not> bit a m \<or> \<not> bit (push_bit n b) m" for m
  proof (cases "m < n")
    case True
    then show ?thesis by (simp add: bit_push_bit_iff)
  next
    case False
    have "take_bit n a = a" using assms by (simp add: take_bit_nat_eq_self)
    with False show ?thesis by (metis bit_take_bit_iff not_less)
  qed
  then have "a + push_bit n b = a OR push_bit n b" by (rule disjunctive_add)
  then show ?thesis by (simp add: push_bit_eq_mult ac_simps)
qed

lemma unat_le32:
  fixes a b c e :: u8
  shows "unat ((ucast a :: u32) OR push_bit 8 (ucast b) OR push_bit 16 (ucast c) OR push_bit 24 (ucast e))
    = unat a + 256 * unat b + 65536 * unat c + 16777216 * unat e"
proof -
  note lt = unat_u8_lt [of a] unat_u8_lt [of b] unat_u8_lt [of c] unat_u8_lt [of e]
  have sh: "unat (push_bit n (ucast x :: u32)) = push_bit n (unat x)" if "n \<le> 24" for n and x :: u8
  proof -
    have "push_bit n (unat x) < 2 ^ 32"
      using unat_u8_lt [of x] that power_increasing [of n 24 "2 :: nat"]
      by (auto simp: push_bit_eq_mult intro!: le_less_trans [OF mult_mono [of "unat x" 255 "2 ^ n" "2 ^ 24"]])
    then show ?thesis by (simp add: unsigned_push_bit_eq take_bit_nat_eq_self)
  qed
  have "unat ((ucast a :: u32) OR push_bit 8 (ucast b) OR push_bit 16 (ucast c) OR push_bit 24 (ucast e))
      = ((unat a OR push_bit 8 (unat b)) OR push_bit 16 (unat c)) OR push_bit 24 (unat e)"
    by (simp add: unsigned_or_eq sh or.assoc)
  also have "\<dots> = unat a + 256 * unat b + 65536 * unat c + 16777216 * unat e"
    using lt by (simp add: or_shifted_nat)
  finally show ?thesis .
qed

lemma map_upt_cong_offset:
  "m = n \<Longrightarrow> (\<And>i. i < n \<Longrightarrow> f i = g i) \<Longrightarrow> map f [0..<m] = map g [0..<n]"
  by simp

lemma handle_10_eq:
  assumes "5 \<le> length args" and "\<not> (\<forall>b \<in> set (take 5 args). b = 0)"
  shows "handle_subcmd_10_spi_read send args d = post_reply send 0x10
    (take 4 args @ [of_nat (spi_len args)]
     @ map (\<lambda>i. flash_image (le32 args + i)) [0..<spi_len args]) d"
proof -
  obtain a0 a1 a2 a3 a4 rest where args: "args = [a0, a1, a2, a3, a4] @ rest"
    using assms(1) by (auto simp: numeral_eq_Suc Suc_le_length_iff)
  define addr where "addr = (ucast a0 :: u32) OR push_bit 8 (ucast a1) OR push_bit 16 (ucast a2)
    OR push_bit 24 (ucast a3)"
  define len where "len = (if a4 > 0x1D then 0x1D else a4)"
  have ulen: "unat len = spi_len args"
    by (simp add: len_def spi_len_def args word_less_nat_alt min_def)
  have uaddr: "unat addr = le32 args"
    by (simp add: addr_def unat_le32 le32_def args)
  have nz: "addr \<noteq> 0 \<or> len \<noteq> 0"
  proof (rule ccontr)
    assume "\<not> ?thesis"
    then have "unat addr = 0" "unat len = 0" by simp_all
    then have "a0 = 0" "a1 = 0" "a2 = 0" "a3 = 0" "a4 = 0"
      using uaddr ulen
      by (auto simp: le32_def spi_len_def args unat_eq_zero min_def split: if_splits)
    with assms(2) args show False by simp
  qed
  have le: "spi_len args \<le> 29" by (simp add: spi_len_def)
  have lenw: "of_nat (spi_len args) = len" by (simp add: ulen [symmetric])
  have u5: "unat (5 + len) = 5 + spi_len args"
    using le ulen by (simp add: unat_word_ariths)
  have "replicate 5 (0xFF :: u8) = [0xFF, 0xFF, 0xFF, 0xFF, 0xFF]"
    by (simp add: numeral_eq_Suc)
  then have rep: "replicate 34 (0xFF :: u8) = [0xFF, 0xFF, 0xFF, 0xFF, 0xFF] @ replicate 29 0xFF"
    using replicate_add [of 5 29 "0xFF :: u8"] by simp
  have read: "spi_flash_read addr (replicate 29 0xFF) len
      = Some (map (\<lambda>i. flash_image (le32 args + i)) [0..<spi_len args] @ replicate (29 - spi_len args) 0xFF)"
    using spi_flash_read_eq [OF nz, of "replicate 29 0xFF"] le by (simp add: ulen uaddr)
  have "handle_subcmd_10_spi_read send args d = send_subcmd_reply send 0x10
      (Some (([a0, a1, a2, a3, len] @ map (\<lambda>i. flash_image (le32 args + i)) [0..<spi_len args])
        @ replicate (29 - spi_len args) 0xFF)) (5 + len) d"
    by (simp add: handle_subcmd_10_spi_read_def args Let_def addr_def [symmetric] len_def [symmetric]
        rep at_offset_def read [unfolded args])
  also have "\<dots> = post_reply send 0x10
      ([a0, a1, a2, a3, len] @ map (\<lambda>i. flash_image (le32 args + i)) [0..<spi_len args]) d"
    using u5 by (intro send_subcmd_reply_prefix) simp
  finally show ?thesis by (simp add: lenw) (simp add: args)
qed

text \<open>A request for no bytes at address 0 reaches the out-of-bounds write of the flash read.\<close>

lemma handle_10_zero:
  assumes "5 \<le> length args" and "\<forall>b \<in> set (take 5 args). b = 0"
  shows "handle_subcmd_10_spi_read send args d = None"
proof -
  obtain a0 a1 a2 a3 a4 rest where args: "args = [a0, a1, a2, a3, a4] @ rest"
    using assms(1) by (auto simp: numeral_eq_Suc Suc_le_length_iff)
  with assms(2) have "a0 = 0" "a1 = 0" "a2 = 0" "a3 = 0" "a4 = 0" by auto
  moreover have "at_offset 5 (\<lambda>out. spi_flash_read 0 out 0) p = None" if "length p = 34" for p
    using that by (simp add: at_offset_def spi_flash_read_zero)
  ultimately show ?thesis
    by (simp add: handle_subcmd_10_spi_read_def args Let_def)
qed

text \<open>The handlers that touch the NFC controller.\<close>

lemma powered_case: "powered m n = n' \<Longrightarrow> d\<lparr>nfc := powered m n\<rparr> = d\<lparr>nfc := n'\<rparr>"
  by simp

lemma handle_21_eq:
  assumes "dev_ok d" and "len \<le> length args"
  shows "handle_subcmd_21_mcu_config send args len d =
    (if 3 \<le> len \<and> args ! 2 \<in> {0, 1, 4}
     then post_reply send 0x21 config_reply (subcmd_effect 0x21 args len d) else Some d)"
proof -
  have "length config_reply = 34" by (simp add: config_reply_def)
  then show ?thesis
    using assms nfc_config_eq [of "nfc d" "replicate 34 0" "Some args" len]
    by (auto simp: handle_subcmd_21_mcu_config_def dev_ok_def nfc_inv_wf subcmd_effect_def
        send_subcmd_reply_Some Let_def not_less)
qed

lemma handle_22_eq:
  assumes "dev_ok d" and "len \<le> length args"
  shows "handle_subcmd_22_mcu_state send args len d =
    (if 0 < len \<and> args ! 0 \<in> {0, 1}
     then post_reply send 0x22 [] (subcmd_effect 0x22 args len d) else Some d)"
proof (cases "len = 0")
  case True
  then show ?thesis by (simp add: handle_subcmd_22_mcu_state_def)
next
  case False
  with assms(2) have "rd args 0 = Some (args ! 0)" by (intro rd_Some) linarith
  with assms(1) False u8_le_1 [of "args ! 0"] show ?thesis
    by (auto simp: handle_subcmd_22_mcu_state_def dev_ok_def nfc_inv_wf nfc_power_eq subcmd_effect_def
        send_subcmd_reply_None not_less [symmetric])
qed

text \<open>The table is the dispatcher.\<close>

lemma dispatch_eq:
  assumes "dev_ok d" and "args_len \<le> length args" and "\<not> spi_zero subcmd_id args args_len"
  shows "dispatch_subcommand send subcmd_id args args_len d =
    (case subcmd_payload subcmd_id args args_len d of
       None \<Rightarrow> Some (subcmd_effect subcmd_id args args_len d)
     | Some pl \<Rightarrow> post_reply send subcmd_id pl (subcmd_effect subcmd_id args args_len d))"
proof -
  consider "subcmd_id = 0x02" | "subcmd_id = 0x03" | "subcmd_id = 0x10" | "subcmd_id = 0x21"
    | "subcmd_id = 0x22"
    | "subcmd_id \<noteq> 0x02" "subcmd_id \<noteq> 0x03" "subcmd_id \<noteq> 0x10" "subcmd_id \<noteq> 0x21" "subcmd_id \<noteq> 0x22"
    by blast
  then show ?thesis
  proof cases
    case 1
    with assms(1) show ?thesis
      by (simp add: dispatch_subcommand_def handle_02_eq dev_ok_def subcmd_payload_def subcmd_effect_def)
  next
    case 2
    have "(if args_len > 0 then rd args 0 else Some 0x3F) = Some (if args_len > 0 then args ! 0 else 0x3F)"
      using assms(2) by (auto intro: rd_Some)
    with 2 show ?thesis
      by (simp add: dispatch_subcommand_def handle_03_eq subcmd_payload_def subcmd_effect_def)
  next
    case 3
    then show ?thesis
      using assms(2,3)
      by (auto simp: dispatch_subcommand_def handle_10_eq spi_zero_def send_generic_ack_eq
          subcmd_payload_def subcmd_effect_def)
  next
    case 4
    with assms(1,2) show ?thesis
      by (auto simp: dispatch_subcommand_def handle_21_eq subcmd_payload_def subcmd_effect_def)
  next
    case 5
    with assms(1,2) show ?thesis
      by (auto simp: dispatch_subcommand_def handle_22_eq subcmd_payload_def subcmd_effect_def)
  next
    case 6
    then show ?thesis
      by (simp add: dispatch_subcommand_def handle_subcmd_01_pairing_def handle_subcmd_04_trigger_elapsed_def
          handle_subcmd_05_page_list_def handle_subcmd_08_shipment_def handle_subcmd_30_player_lights_def
          handle_subcmd_31_player_lights_def handle_subcmd_38_home_light_def handle_subcmd_40_imu_def
          handle_subcmd_48_vibration_def send_generic_ack_eq send_subcmd_reply_None send_subcmd_reply_Some
          subcmd_payload_def subcmd_effect_def)
  qed
qed

section \<open>Whole output reports\<close>

text \<open>\<open>wild_request\<close> is the one request that makes the code leave a buffer.\<close>

definition subcmd_packet :: "bytes \<Rightarrow> nat \<Rightarrow> bool" where
  "subcmd_packet p len \<longleftrightarrow> 11 \<le> len \<and> p ! 0 = 0x01"

definition wild_request :: "bytes \<Rightarrow> nat \<Rightarrow> bool" where
  "wild_request p len \<longleftrightarrow> subcmd_packet p len \<and> spi_zero (p ! 10) (drop 11 p) (len - 11)"

lemma handle_output_subcmd:
  assumes "subcmd_packet p len" and "len \<le> length p"
  shows "switch_proto_handle_output send (Some p) len d
    = dispatch_subcommand send (p ! 10) (drop 11 p) (len - 11) d"
proof -
  have "11 \<le> length p" using assms by (simp add: subcmd_packet_def)
  then have "rd p 0 = Some (p ! 0)" "rd p 10 = Some (p ! 10)" by (auto intro!: rd_Some)
  moreover have "(if len > 11 then len - 11 else 0) = len - 11" by simp
  ultimately show ?thesis
    using assms(1) by (simp add: switch_proto_handle_output_def subcmd_packet_def Let_def)
qed

lemma handle_output_other:
  assumes "\<not> subcmd_packet p len" and "len \<le> length p" and "dev_ok d"
  shows "\<exists>n. switch_proto_handle_output send (Some p) len d = Some (d\<lparr>nfc := n\<rparr>)
    \<and> nfc_inv n \<and> tag n = tag (nfc d) \<and> present n = present (nfc d)
    \<and> power_state n = power_state (nfc d)"
proof (cases "len < 1")
  case True
  with assms(3) show ?thesis
    by (intro exI [of _ "nfc d"]) (simp add: switch_proto_handle_output_def dev_ok_def)
next
  case False
  with assms(2) have r: "rd p 0 = Some (p ! 0)" by (intro rd_Some) linarith
  have inv: "nfc_inv (nfc d)" using assms(3) by (simp add: dev_ok_def)
  show ?thesis
  proof (cases "p ! 0 = 0x11")
    case True
    from nfc_command_result [OF inv, of "Some p" len] assms(2)
    obtain ok n where "nfc_command (Some p) len (nfc d) = Some (ok, n)" and "nfc_inv n"
      "tag n = tag (nfc d)" "present n = present (nfc d)" "power_state n = power_state (nfc d)" by auto
    with True False r show ?thesis
      by (intro exI [of _ n]) (simp add: switch_proto_handle_output_def)
  next
    case nfc: False
    with False r assms(1) inv show ?thesis
      by (intro exI [of _ "nfc d"]) (simp add: switch_proto_handle_output_def subcmd_packet_def)
  qed
qed

lemma subcmd_effect_simps [simp]:
  "virtual_grip (subcmd_effect i a n d) = virtual_grip d" "ctrl (subcmd_effect i a n d) = ctrl d"
  "s_timer (subcmd_effect i a n d) = s_timer d" "link (subcmd_effect i a n d) = link d"
  "g_esp32_mac (subcmd_effect i a n d) = g_esp32_mac d" "more (subcmd_effect i a n d) = more d"
  by (simp_all add: subcmd_effect_def split: option.split)

text \<open>What an output report can touch at all: the NFC controller but not its tag, and the protocol state.\<close>

definition proto_frame :: "('l, 'm) dev_of \<Rightarrow> ('l, 'm) dev_of \<Rightarrow> bool" where
  "proto_frame d d' \<longleftrightarrow> (\<exists>n m e t l. tag n = tag (nfc d) \<and> present n = present (nfc d)
     \<and> d' = d\<lparr>nfc := n, s_stream_mode := m, s_stream_enabled := e, s_timer := t, link := l\<rparr>)"

lemma proto_frame_effect: "proto_frame d (subcmd_effect i a n d)"
proof -
  have "subcmd_effect i a n d = d\<lparr>nfc := nfc (subcmd_effect i a n d),
      s_stream_mode := s_stream_mode (subcmd_effect i a n d),
      s_stream_enabled := s_stream_enabled (subcmd_effect i a n d), s_timer := s_timer d, link := link d\<rparr>"
    and "tag (nfc (subcmd_effect i a n d)) = tag (nfc d)"
    and "present (nfc (subcmd_effect i a n d)) = present (nfc d)"
    by (auto simp: subcmd_effect_def split: option.split)
  then show ?thesis unfolding proto_frame_def by blast
qed

lemma proto_frame_post: "proto_frame d d' \<Longrightarrow> proto_frame d (d'\<lparr>s_timer := t, link := l\<rparr>)"
  unfolding proto_frame_def by (elim exE conjE) (auto intro!: exI)

lemma proto_frame_nfc:
  assumes "tag n = tag (nfc d)" and "present n = present (nfc d)"
  shows "proto_frame d (d\<lparr>nfc := n\<rparr>)"
  unfolding proto_frame_def
  by (rule exI [of _ n], rule exI [of _ "s_stream_mode d"], rule exI [of _ "s_stream_enabled d"],
      rule exI [of _ "s_timer d"], rule exI [of _ "link d"]) (simp add: assms)

lemma dev_ok_effect:
  assumes "dev_ok d" shows "dev_ok (subcmd_effect i a n d)"
proof -
  have "nfc_inv (nfc (subcmd_effect i a n d))"
    using assms by (auto simp: subcmd_effect_def dev_ok_def nfc_inv_powered split: option.split)
  with assms show ?thesis by (simp add: dev_ok_def)
qed

lemma upd_link_fields [simp]:
  "link (upd_link f d) = f (link d)" "nfc (upd_link f d) = nfc d" "ctrl (upd_link f d) = ctrl d"
  "virtual_grip (upd_link f d) = virtual_grip d" "g_esp32_mac (upd_link f d) = g_esp32_mac d"
  "s_timer (upd_link f d) = s_timer d" "s_stream_mode (upd_link f d) = s_stream_mode d"
  "s_stream_enabled (upd_link f d) = s_stream_enabled d"
  "dev_ok (upd_link f d) = dev_ok d"
  by (simp_all add: upd_link_def dev_ok_def)

lemma dev_ok_post: "dev_ok d \<Longrightarrow> dev_ok (d\<lparr>s_timer := t, link := l\<rparr>)"
  by (simp add: dev_ok_def)

section \<open>What a transport promises\<close>

text \<open>
  The contract of \<open>hid_transport_send_input_report\<close> that the handlers rely on: it returns for
  every report of at most 49 readable bytes, keeps its own invariant, and appends to its
  \<open>outbox\<close> (what it holds for or has handed to the stack) either the report or nothing.
\<close>

locale transport =
  fixes send :: "'l sender" and ok :: "'l \<Rightarrow> bool" and outbox :: "'l \<Rightarrow> bytes list"
  assumes send_total: "ok l \<Longrightarrow> 0 < len \<Longrightarrow> len \<le> 49 \<Longrightarrow> len \<le> length b \<Longrightarrow>
    \<exists>l'. send b len l = Some l' \<and> ok l' \<and> outbox l' \<in> {outbox l, outbox l @ [take len b]}"
begin

lemma post_reply_total:
  assumes "ok (link d)"
  shows "\<exists>l. post_reply send i pl d = Some (d\<lparr>s_timer := s_timer d + 1, link := l\<rparr>) \<and> ok l
    \<and> outbox l \<in> {outbox (link d),
         outbox (link d) @ [reply_bytes (virtual_grip d) (s_timer d) (ctrl d) i pl]}"
  using send_total [OF assms, of 49 "reply_bytes (virtual_grip d) (s_timer d) (ctrl d) i pl"]
  by (auto simp: post_reply_def)

lemma handle_output_total:
  assumes "dev_ok d" and "ok (link d)" and "len \<le> length p" and "\<not> wild_request p len"
  shows "\<exists>d'. switch_proto_handle_output send (Some p) len d = Some d' \<and> dev_ok d' \<and> ok (link d')
    \<and> proto_frame d d'
    \<and> (outbox (link d') = outbox (link d) \<or> subcmd_packet p len \<and> (\<exists>pl.
         subcmd_payload (p ! 10) (drop 11 p) (len - 11) d = Some pl \<and>
         outbox (link d') = outbox (link d)
           @ [reply_bytes (virtual_grip d) (s_timer d) (ctrl d) (p ! 10) pl]))"
proof (cases "subcmd_packet p len")
  case False
  from handle_output_other [OF False assms(3,1)] assms(1,2) show ?thesis
    by (force simp: dev_ok_def proto_frame_nfc)
next
  case True
  let ?e = "subcmd_effect (p ! 10) (drop 11 p) (len - 11) d"
  have nz: "\<not> spi_zero (p ! 10) (drop 11 p) (len - 11)"
    using assms(4) True by (simp add: wild_request_def)
  have "len - 11 \<le> length (drop 11 p)" using assms(3) by simp
  note eq = handle_output_subcmd [OF True assms(3)] dispatch_eq [OF assms(1) this nz]
  show ?thesis
  proof (cases "subcmd_payload (p ! 10) (drop 11 p) (len - 11) d")
    case None
    with assms(1,2) show ?thesis by (simp add: eq dev_ok_effect proto_frame_effect)
  next
    case (Some pl)
    from post_reply_total [of ?e "p ! 10" pl] assms(2) obtain l where
      "post_reply send (p ! 10) pl ?e = Some (?e\<lparr>s_timer := s_timer ?e + 1, link := l\<rparr>)" "ok l"
      "outbox l \<in> {outbox (link d),
         outbox (link d) @ [reply_bytes (virtual_grip d) (s_timer d) (ctrl d) (p ! 10) pl]}"
      by auto
    with Some True assms(1) show ?thesis 
      by (auto simp: eq dev_ok_post dev_ok_effect proto_frame_effect proto_frame_post)
  qed
qed

end

text \<open>
  A transport that only records what it is given: with it as \<open>send\<close>, the replies of a run are
  the list in \<open>link\<close>.
\<close>

definition log_send :: "bytes list sender" where
  "log_send b len l = do { r \<leftarrow> rd_range b 0 len; Some (l @ [r]) }"

interpretation log: transport log_send "\<lambda>l. True" "\<lambda>l. l"
  by unfold_locales (simp add: log_send_def)

lemma handle_output_wild:
  assumes "wild_request p len" and "len \<le> length p"
  shows "switch_proto_handle_output send (Some p) len d = None"
proof -
  from assms have s: "subcmd_packet p len" "p ! 10 = 0x10" "5 \<le> len - 11"
    "\<forall>b \<in> set (take 5 (drop 11 p)). b = 0"
    by (simp_all add: wild_request_def spi_zero_def)
  then have "5 \<le> length (drop 11 p)" using assms(2) by simp
  with s show ?thesis
    by (simp add: handle_output_subcmd [OF s(1) assms(2)] dispatch_subcommand_def handle_10_zero)
qed

lemma handle_output_log:
  assumes "dev_ok d" and "subcmd_packet p len" and "len \<le> length p" and "\<not> wild_request p len"
  shows "switch_proto_handle_output log_send (Some p) len d =
    Some (case subcmd_payload (p ! 10) (drop 11 p) (len - 11) d of
        None \<Rightarrow> subcmd_effect (p ! 10) (drop 11 p) (len - 11) d
      | Some pl \<Rightarrow> (subcmd_effect (p ! 10) (drop 11 p) (len - 11) d)\<lparr>s_timer := s_timer d + 1,
          link := link d @ [reply_bytes (virtual_grip d) (s_timer d) (ctrl d) (p ! 10) pl]\<rparr>)"
proof -
  have nz: "\<not> spi_zero (p ! 10) (drop 11 p) (len - 11)"
    using assms(2,4) by (simp add: wild_request_def)
  have "len - 11 \<le> length (drop 11 p)" using assms(3) by simp
  note eq = handle_output_subcmd [OF assms(2,3)] dispatch_eq [OF assms(1) this nz]
  show ?thesis
    by (simp add: eq post_reply_def log_send_def split: option.split)
qed

text \<open>Over any transport: the state of the transport changes only by sending the reply.\<close>

lemma handle_output_link:
  assumes "dev_ok d" and "len \<le> length p" and "\<not> wild_request p len"
    and "switch_proto_handle_output send (Some p) len d = Some d'"
  shows "link d' = link d \<or> (\<exists>pl. subcmd_packet p len \<and> subcmd_payload (p ! 10) (drop 11 p) (len - 11) d = Some pl
    \<and> send (reply_bytes (virtual_grip d) (s_timer d) (ctrl d) (p ! 10) pl) 49 (link d) = Some (link d'))"
proof (cases "subcmd_packet p len")
  case False
  from handle_output_other [OF False assms(2,1), of send] assms(4) show ?thesis by auto
next
  case True
  have nz: "\<not> spi_zero (p ! 10) (drop 11 p) (len - 11)"
    using assms(3) True by (simp add: wild_request_def)
  have "len - 11 \<le> length (drop 11 p)" using assms(2) by simp
  note eq = handle_output_subcmd [OF True assms(2)] dispatch_eq [OF assms(1) this nz]
  show ?thesis
    using assms(4) True by (auto simp: eq post_reply_def bind_eq_Some_conv split: option.splits)
qed

lemma handle_output_reply:
  assumes "dev_ok d" and "subcmd_packet p len" and "len \<le> length p" and "\<not> wild_request p len"
    and "subcmd_payload (p ! 10) (drop 11 p) (len - 11) d = Some pl"
  shows "switch_proto_handle_output send (Some p) len d =
    post_reply send (p ! 10) pl (subcmd_effect (p ! 10) (drop 11 p) (len - 11) d)"
proof -
  have nz: "\<not> spi_zero (p ! 10) (drop 11 p) (len - 11)"
    using assms(2,4) by (simp add: wild_request_def)
  have "len - 11 \<le> length (drop 11 p)" using assms(3) by simp
  note eq = handle_output_subcmd [OF assms(2,3)] dispatch_eq [OF assms(1) this nz]
  show ?thesis by (simp add: eq assms(5))
qed

lemma reply_bytes_view:
  "take 2 (reply_bytes g t c i pl) = [0x21, t]" "reply_bytes g t c i pl ! 13 = get_subcmd_ack i"
  "reply_bytes g t c i pl ! 14 = i"
  "drop 15 (reply_bytes g t c i pl) = take 34 pl @ replicate (34 - length pl) 0"
  by (simp_all add: reply_bytes_def header_bytes_def nth_append stick_bytes_def numeral_eq_Suc)


text \<open>A state for the witnesses: just connected, nothing recorded.\<close>

definition proto_boot :: "bytes list dev" where
  "proto_boot = \<lparr>ctrl = controller_state_init controller_static, virtual_grip = False, nfc = nfc_boot,
     s_stream_mode = STREAM_MODE_0x30, s_timer = 0, s_stream_enabled = False,
     g_esp32_mac = [1, 2, 3, 4, 5, 6], link = []\<rparr>"

lemma proto_boot_ok: "dev_ok proto_boot"
  by (simp add: dev_ok_def proto_boot_def nfc_inv_boot)

section \<open>Properties\<close>

text \<open>
  The console's output reports are handled without an out-of-bounds access, except
  for exactly one request: a flash read (subcommand 0x10) of zero bytes at address 0.
\<close>

theorem proto_memory_safe:
  assumes "dev_ok d" and "len \<le> length p"
  shows "(switch_proto_handle_output log_send (Some p) len d = None) \<longleftrightarrow>
    (16 \<le> len \<and> p ! 0 = 0x01 \<and> p ! 10 = 0x10 \<and> (\<forall>b \<in> set (take 5 (drop 11 p)). b = 0))"
proof -
  have "wild_request p len \<longleftrightarrow>
      16 \<le> len \<and> p ! 0 = 0x01 \<and> p ! 10 = 0x10 \<and> (\<forall>b \<in> set (take 5 (drop 11 p)). b = 0)"
    by (auto simp: wild_request_def subcmd_packet_def spi_zero_def)
  moreover have "(switch_proto_handle_output log_send (Some p) len d = None) \<longleftrightarrow> wild_request p len"
    using handle_output_wild [OF _ assms(2), of log_send d]
      log.handle_output_total [OF assms(1) TrueI assms(2)] by (cases "wild_request p len") auto
  ultimately show ?thesis by simp
qed

theorem proto_memory_safe_witness:
  "switch_proto_handle_output log_send (Some ([1, 0, 0, 0, 0, 0, 0, 0, 0, 0, 0x10, 0, 0, 0, 0, 0])) 16 proto_boot = None
   \<and> switch_proto_handle_output log_send (Some ([1, 0, 0, 0, 0, 0, 0, 0, 0, 0, 0x10, 0, 0, 0, 0, 1])) 16 proto_boot \<noteq> None"
  using proto_memory_safe [OF proto_boot_ok, of 16 "[1, 0, 0, 0, 0, 0, 0, 0, 0, 0, 0x10, 0, 0, 0, 0, 0]"]
    proto_memory_safe [OF proto_boot_ok, of 16 "[1, 0, 0, 0, 0, 0, 0, 0, 0, 0, 0x10, 0, 0, 0, 0, 1]"]
  by simp



text \<open>
  The reply to a flash read echoes the address and the length (at most 29) and
  carries exactly that part of the flash image.
\<close>

theorem proto_spi_reply:
  assumes "dev_ok d" and "16 \<le> len" and "len \<le> length p" and "p ! 0 = 0x01" and "p ! 10 = 0x10"
    and "switch_proto_handle_output log_send (Some p) len d = Some d'"
  shows "\<exists>r n. link d' = link d @ [r] \<and> n = min (unat (p ! 15)) 29
    \<and> take 4 (drop 15 r) = take 4 (drop 11 p) \<and> unat (r ! 19) = n
    \<and> take n (drop 20 r) = map (\<lambda>i. flash_image (le32 (drop 11 p) + i)) [0..<n]"
proof -
  have s: "subcmd_packet p len" using assms(2,4) by (simp add: subcmd_packet_def)
  have nw: "\<not> wild_request p len"
    using handle_output_wild [OF _ assms(3), of log_send d] assms(6) by auto
  define n where "n = spi_len (drop 11 p)"
  have p15: "drop 11 p ! 4 = p ! 15" using assms(2,3) by simp
  have n: "n = min (unat (p ! 15)) 29" by (simp add: n_def spi_len_def p15)
  define pl where "pl = take 4 (drop 11 p) @ [of_nat n] @ map (\<lambda>i. flash_image (le32 (drop 11 p) + i)) [0..<n]"
  define r where "r = reply_bytes (virtual_grip d) (s_timer d) (ctrl d) (p ! 10) pl"
  have "subcmd_payload (p ! 10) (drop 11 p) (len - 11) d = Some pl"
  proof -
    have "5 \<le> len - 11" using assms(2) by simp
    with assms(5) show ?thesis by (simp add: subcmd_payload_def pl_def n_def)
  qed
  then have link: "link d' = link d @ [r]"
    using handle_output_log [OF assms(1) s assms(3) nw] assms(6) by (auto simp: r_def)
  have l4: "length (take 4 (drop 11 p)) = 4" using assms(2,3) by simp
  have n29: "n \<le> 29" by (simp add: n)
  then have "length pl \<le> 34" using l4 by (simp add: pl_def)
  then have r15: "drop 15 r = pl @ replicate (34 - length pl) 0"
    by (simp add: r_def reply_bytes_view)
  have d20: "drop 20 r = drop 5 (drop 15 r)" by simp
  have len49: "length r = 49" by (simp add: r_def)
  have "r ! 19 = drop 15 r ! 4" using len49 by simp
  then have "r ! 19 = of_nat n" using l4 by (simp only: r15) (simp add: pl_def nth_append)
  moreover have "unat (of_nat n :: u8) = n" using n29 by (simp add: unat_of_nat)
  moreover have "take n (drop 20 r) = map (\<lambda>i. flash_image (le32 (drop 11 p) + i)) [0..<n]"
    using l4 by (simp only: d20 r15) (simp add: pl_def)
  moreover have "take 4 (drop 15 r) = take 4 (drop 11 p)"
    using l4 by (simp only: r15) (simp add: pl_def)
  ultimately show ?thesis using link n by auto
qed

theorem proto_spi_reply_witness:
  "\<exists>d' r. switch_proto_handle_output log_send
      (Some [1, 0, 0, 0, 0, 0, 0, 0, 0, 0, 0x10, 0x3D, 0x60, 0, 0, 25]) 16 proto_boot = Some d'
    \<and> link d' = [r] \<and> take 25 (drop 20 r) = map (\<lambda>i. flash_image (0x603D + i)) [0..<25]"
proof -
  let ?p = "[1, 0, 0, 0, 0, 0, 0, 0, 0, 0, 0x10, 0x3D, 0x60, 0, 0, 25] :: bytes"
  have "\<not> wild_request ?p 16" by (simp add: wild_request_def spi_zero_def)
  then obtain d' where d': "switch_proto_handle_output log_send (Some ?p) 16 proto_boot = Some d'"
    using log.handle_output_total [OF proto_boot_ok TrueI, of 16 ?p] by auto
  have "le32 (drop 11 ?p) = 0x603D" "?p ! 15 = 25" "link proto_boot = []"
    by (simp_all add: le32_def proto_boot_def)
  with proto_spi_reply [OF proto_boot_ok _ _ _ _ d'] d' show ?thesis by auto
qed

text \<open>
  No output report changes the controller state, the grip flag or the address, and
  only a subcommand 0x03 with one of the three known modes changes the report mode; a report
  that is not a subcommand is never answered.
\<close>

theorem proto_mode_changes:
  assumes "dev_ok d" and "len \<le> length p"
    and "switch_proto_handle_output log_send (Some p) len d = Some d'"
  shows "dev_ok d' \<and> ctrl d' = ctrl d \<and> virtual_grip d' = virtual_grip d \<and> g_esp32_mac d' = g_esp32_mac d
    \<and> (if 11 \<le> len \<and> p ! 0 = 0x01 \<and> p ! 10 = 0x03 \<and> (len = 11 \<or> p ! 11 \<in> {0x30, 0x31, 0x3F})
       then s_stream_enabled d' \<and> s_stream_mode d' =
         (if len = 11 then STREAM_MODE_0x3F else if p ! 11 = 0x30 then STREAM_MODE_0x30
          else if p ! 11 = 0x31 then STREAM_MODE_0x31 else STREAM_MODE_0x3F)
       else s_stream_mode d' = s_stream_mode d \<and> s_stream_enabled d' = s_stream_enabled d)
    \<and> (\<not> (11 \<le> len \<and> p ! 0 = 0x01) \<longrightarrow> link d' = link d)"
proof (cases "subcmd_packet p len")
  case False
  from handle_output_other [OF False assms(2,1), of log_send] assms(3) obtain n where
    "d' = d\<lparr>nfc := n\<rparr>" "nfc_inv n" by auto
  with False assms(1) show ?thesis by (auto simp: dev_ok_def subcmd_packet_def)
next
  case True
  have nw: "\<not> wild_request p len"
    using handle_output_wild [OF _ assms(2), of log_send d] assms(3) by auto
  let ?e = "subcmd_effect (p ! 10) (drop 11 p) (len - 11) d"
  have d': "d' = ?e \<or> (\<exists>t l. d' = ?e\<lparr>s_timer := t, link := l\<rparr>)"
    using handle_output_log [OF assms(1) True assms(2) nw] assms(3)
    by (auto split: option.splits)
  have mode: "s_stream_mode d' = s_stream_mode ?e" "s_stream_enabled d' = s_stream_enabled ?e"
    using d' by auto
  have arg: "drop 11 p ! 0 = p ! 11" if "len \<noteq> 11" using that True assms(2) by (simp add: subcmd_packet_def)
  have "dev_ok d'" using d' dev_ok_effect [OF assms(1)] by (auto simp: dev_ok_post)
  moreover have "ctrl d' = ctrl d" "virtual_grip d' = virtual_grip d" "g_esp32_mac d' = g_esp32_mac d"
    using d' by auto
  ultimately show ?thesis
    using True arg
    by (auto simp: subcmd_packet_def mode subcmd_effect_def mode_of_def split: option.split)
qed

theorem proto_mode_changes_witness:
  "\<exists>d'. switch_proto_handle_output log_send (Some [1, 0, 0, 0, 0, 0, 0, 0, 0, 0, 0x03, 0x31]) 12 proto_boot = Some d'
    \<and> s_stream_mode d' = STREAM_MODE_0x31 \<and> s_stream_enabled d'"
proof -
  let ?p = "[1, 0, 0, 0, 0, 0, 0, 0, 0, 0, 0x03, 0x31] :: bytes"
  have "\<not> wild_request ?p 12" by (simp add: wild_request_def spi_zero_def)
  then obtain d' where d': "switch_proto_handle_output log_send (Some ?p) 12 proto_boot = Some d'"
    using log.handle_output_total [OF proto_boot_ok TrueI, of 12 ?p] by auto
  with proto_mode_changes [OF proto_boot_ok _ d'] show ?thesis by simp
qed

end
