(* ===== verification/PcControl.thy ===== *)
theory PcControl
  imports EspCalls SwitchProto Complex_Main
begin

text \<open>
  \<open>main/pc_control.c\<close>: the serial control channel.  The reader task assembles lines from the
  UART and queues them; \<open>pc_control_poll\<close>, which runs in the Bluetooth run loop, executes up to
  four queued lines and releases all buttons when the last state message is older than 500 ms.

  cJSON, the FreeRTOS queue and the clock are not part of the repository.  The cJSON calls that
  the code makes are the fields of \<open>cjson\<close>, an argument of every function that uses them;
  \<open>xQueueReceive\<close> and \<open>xQueueSend\<close> are function arguments over an abstract queue; the value
  of \<open>esp_timer_get_time()\<close> is an argument of the call that reads it.  A C double is a rational
  number or not finite, which is exact for the comparisons made here.
  What \<open>answer\<close> prints is recorded field by field in \<open>answers\<close>.
\<close>

section \<open>The code\<close>

datatype double = Finite rat | NonFinite

record 'j cjson =
  cJSON_Parse :: "bytes \<Rightarrow> 'j option"
  cJSON_GetObjectItem :: "'j \<Rightarrow> string \<Rightarrow> 'j option"
  cJSON_IsNumber :: "'j \<Rightarrow> bool"
  cJSON_IsString :: "'j \<Rightarrow> bool"
  valuedouble :: "'j \<Rightarrow> double"
  valuestring :: "'j \<Rightarrow> string"

record answer_t =
  ans_id :: nat
  ans_ok :: bool
  ans_message :: string
  ans_connected :: bool
  ans_loaded :: bool
  ans_crc :: u32
  ans_diag :: nfc_diagnostics_t

record 'l pc_dev = "'l dev" +
  last_state :: int
  linked :: bool
  tag_loaded :: bool
  tag_crc :: u32
  answers :: "answer_t list"

type_synonym ('l, 'm) pc_of = "('l, 'm) pc_dev_scheme"

definition answer :: "nat \<Rightarrow> bool \<Rightarrow> string \<Rightarrow> ('l, 'm) pc_of \<Rightarrow> ('l, 'm) pc_of" where
  "answer i ok message d =
     d\<lparr>answers := answers d @ [\<lparr>ans_id = i, ans_ok = ok, ans_message = message,
        ans_connected = linked d, ans_loaded = tag_loaded d, ans_crc = tag_crc d,
        ans_diag = nfc_diagnostics (nfc d)\<rparr>]\<rparr>"

definition release :: "('l, 'm) pc_of \<Rightarrow> ('l, 'm) pc_of" where
  "release d = d\<lparr>ctrl := controller_state_init (ctrl d),
     virtual_grip := input_report_set_virtual_grip False, last_state := 0\<rparr>"

definition pc_control_connection :: "bool \<Rightarrow> ('l, 'm) pc_of \<Rightarrow> ('l, 'm) pc_of" where
  "pc_control_connection conn d = release (d\<lparr>linked := conn\<rparr>)"

definition number :: "'j cjson \<Rightarrow> 'j \<Rightarrow> string \<Rightarrow> nat \<Rightarrow> nat option" where
  "number api obj key max_value =
     (case cJSON_GetObjectItem api obj key of
        None \<Rightarrow> None
      | Some v \<Rightarrow>
          if \<not> cJSON_IsNumber api v then None
          else case valuedouble api v of
            NonFinite \<Rightarrow> None
          | Finite x \<Rightarrow>
              if x < 0 \<or> x > of_nat max_value \<or> x \<noteq> of_int \<lfloor>x\<rfloor> then None else Some (nat \<lfloor>x\<rfloor>))"

definition nibble :: "char \<Rightarrow> int" where
  "nibble c =
     (let v = (of_char c :: nat) in
      if 48 \<le> v \<and> v \<le> 57 then int v - 48
      else if 97 \<le> v \<and> v \<le> 102 then int v - 97 + 10
      else if 65 \<le> v \<and> v \<le> 70 then int v - 65 + 10
      else -1)"

text \<open>One step of the loop that fills \<open>candidate\<close>; \<open>None\<close> is the jump to \<open>done\<close>.\<close>

fun decode_hex :: "nat \<Rightarrow> string \<Rightarrow> bytes option" where
  "decode_hex 0 hex = Some []"
| "decode_hex (Suc n) hex =
     (let hi = nibble (hex ! 0); lo = nibble (hex ! 1) in
      if hi < 0 \<or> lo < 0 then None
      else map_option ((#) (of_int (push_bit 4 hi OR lo))) (decode_hex n (drop 2 hex)))"

definition is_string :: "'j cjson \<Rightarrow> 'j option \<Rightarrow> bool" where
  "is_string api v = (case v of None \<Rightarrow> False | Some j \<Rightarrow> cJSON_IsString api j)"

definition state_fields :: "'j cjson \<Rightarrow> 'j \<Rightarrow> controller_state option" where
  "state_fields api obj =
     do {
       r \<leftarrow> number api obj ''r'' 255;
       s \<leftarrow> number api obj ''s'' 63;
       l \<leftarrow> number api obj ''l'' 255;
       lx \<leftarrow> number api obj ''lx'' 4095;
       ly \<leftarrow> number api obj ''ly'' 4095;
       rx \<leftarrow> number api obj ''rx'' 4095;
       ry \<leftarrow> number api obj ''ry'' 4095;
       Some \<lparr>right_buttons = of_nat r, shared_buttons = of_nat s, left_buttons = of_nat l,
         left_stick_x = of_nat lx, left_stick_y = of_nat ly,
         right_stick_x = of_nat rx, right_stick_y = of_nat ry\<rparr>
     }"

definition command_state ::
    "'j cjson \<Rightarrow> 'j \<Rightarrow> nat \<Rightarrow> int \<Rightarrow> ('l, 'm) pc_of \<Rightarrow> ('l, 'm) pc_of" where
  "command_state api obj i now d =
     (case state_fields api obj of
        None \<Rightarrow> answer i False ''Invalid controller state'' d
      | Some c \<Rightarrow>
          if \<not> linked d then answer i False ''Switch disconnected'' (release d)
          else answer i True ''State applied'' (d\<lparr>ctrl := c, last_state := now\<rparr>))"

text \<open>The structural check of a dump: the negation of the condition that rejects it.\<close>

definition tag_bytes_ok :: "bytes \<Rightarrow> bool" where
  "tag_bytes_ok c \<longleftrightarrow> c ! 0 = 0x04 \<and> c ! 3 = 0x88 XOR c ! 0 XOR c ! 1 XOR c ! 2
     \<and> c ! 8 = c ! 4 XOR c ! 5 XOR c ! 6 XOR c ! 7"

definition command_load ::
    "'j cjson \<Rightarrow> 'j \<Rightarrow> nat \<Rightarrow> ('l, 'm) pc_of \<Rightarrow> ('l, 'm) pc_of option" where
  "command_load api obj i d =
     (let hex = cJSON_GetObjectItem api obj ''hex'' in
      case (if is_string api hex \<and> length (valuestring api (the hex)) = 1080
            then number api obj ''crc'' 0xffffffff else None) of
        None \<Rightarrow> Some (answer i False ''Expected 540-byte raw BIN and CRC32'' d)
      | Some expected \<Rightarrow>
          (case decode_hex 540 (valuestring api (the hex)) of
             None \<Rightarrow> Some (answer i False ''Invalid hex'' d)
           | Some candidate \<Rightarrow> do {
               actual \<leftarrow> crc32 candidate 540;
               if unat actual \<noteq> expected then Some (answer i False ''CRC mismatch'' d)
               else if \<not> tag_bytes_ok candidate
               then Some (answer i False ''Invalid NTAG UID/BCC'' d)
               else do {
                 (_, n) \<leftarrow> nfc_load (Some candidate) 540 (nfc d);
                 Some (answer i True ''BIN presented; NFC read experimental''
                         (d\<lparr>nfc := n, tag_crc := actual, tag_loaded := True\<rparr>))
               }
             }))"

text \<open>A C string in a buffer ends at its first NUL.\<close>

definition c_str :: "bytes \<Rightarrow> bytes" where
  "c_str b = takeWhile (\<lambda>c. c \<noteq> 0) b"

definition command ::
    "'j cjson \<Rightarrow> bytes \<Rightarrow> int \<Rightarrow> ('l, 'm) pc_of \<Rightarrow> ('l, 'm) pc_of option" where
  "command api line now d =
     (case cJSON_Parse api (c_str line) of
        None \<Rightarrow> Some (answer 0 False ''Invalid JSON or id'' d)
      | Some obj \<Rightarrow>
          (case number api obj ''id'' 2147483647 of
             None \<Rightarrow> Some (answer 0 False ''Invalid JSON or id'' d)
           | Some i \<Rightarrow>
               let cmd = cJSON_GetObjectItem api obj ''cmd'' in
               if \<not> is_string api cmd then Some (answer i False ''Missing cmd'' d)
               else let name = valuestring api (the cmd) in
                 if name = ''status'' then Some (answer i True ''PC controller v1'' d)
                 else if name = ''release'' then Some (answer i True ''Released'' (release d))
                 else if name = ''state'' then Some (command_state api obj i now d)
                 else if name = ''load'' then command_load api obj i d
                 else if name = ''unload'' then do {
                   n \<leftarrow> nfc_unload (nfc d);
                   Some (answer i True ''BIN removed'' (d\<lparr>nfc := n, tag_loaded := False, tag_crc := 0\<rparr>))
                 }
                 else Some (answer i False ''Unknown command'' d)))"

text \<open>
  \<open>now k\<close> is the time that the command of round \<open>k\<close> reads, \<open>now 4\<close> the one of the timeout
  check after the loop.
\<close>

fun poll_commands ::
    "'j cjson \<Rightarrow> ('q \<Rightarrow> (bytes \<times> 'q) option) \<Rightarrow> (nat \<Rightarrow> int) \<Rightarrow> nat \<Rightarrow> 'q \<Rightarrow> ('l, 'm) pc_of
      \<Rightarrow> ('q \<times> ('l, 'm) pc_of) option" where
  "poll_commands api recv now 0 q d = Some (q, d)"
| "poll_commands api recv now (Suc n) q d =
     (case recv q of
        None \<Rightarrow> Some (q, d)
      | Some (line, q') \<Rightarrow> do { d \<leftarrow> command api line (now (3 - n)) d; poll_commands api recv now n q' d })"

definition pc_control_poll ::
    "'j cjson \<Rightarrow> ('q \<Rightarrow> (bytes \<times> 'q) option) \<Rightarrow> (nat \<Rightarrow> int) \<Rightarrow> 'q \<Rightarrow> ('l, 'm) pc_of
      \<Rightarrow> ('q \<times> ('l, 'm) pc_of) option" where
  "pc_control_poll api recv now q d =
     do {
       (q, d) \<leftarrow> poll_commands api recv now 4 q d;
       Some (q, if last_state d \<noteq> 0 \<and> now 4 - last_state d > 500000 then release d else d)
     }"

definition LINE_SIZE :: nat where "LINE_SIZE = 1400"

record reader_state =
  rd_line :: bytes
  rd_used :: nat
  rd_overflow :: bool

definition reader_start :: reader_state where
  "reader_start = \<lparr>rd_line = replicate LINE_SIZE 0, rd_used = 0, rd_overflow = False\<rparr>"

text \<open>One pass of the reader's loop, for a byte that \<open>uart_read_bytes\<close> delivered.\<close>

definition reader_byte ::
    "(bytes \<Rightarrow> 'q \<Rightarrow> 'q) \<Rightarrow> u8 \<Rightarrow> reader_state \<times> 'q \<Rightarrow> (reader_state \<times> 'q) option" where
  "reader_byte enqueue c rq =
     (let (r, q) = rq in
      if c = 13 then Some (r, q)
      else if c = 10 then
        (if \<not> rd_overflow r \<and> rd_used r \<noteq> 0
         then do {
           line \<leftarrow> wr (rd_line r) (rd_used r) 0;
           Some (r\<lparr>rd_line := line, rd_used := 0, rd_overflow := False\<rparr>, enqueue line q)
         }
         else Some (r\<lparr>rd_used := 0, rd_overflow := False\<rparr>, q))
      else if rd_used r < LINE_SIZE - 1 \<and> \<not> rd_overflow r
      then do {
        line \<leftarrow> wr (rd_line r) (rd_used r) c;
        Some (r\<lparr>rd_line := line, rd_used := rd_used r + 1\<rparr>, q)
      }
      else Some (r\<lparr>rd_overflow := True\<rparr>, q))"

definition reader ::
    "(bytes \<Rightarrow> 'q \<Rightarrow> 'q) \<Rightarrow> bytes \<Rightarrow> reader_state \<times> 'q \<Rightarrow> (reader_state \<times> 'q) option" where
  "reader enqueue input rq = foldM (reader_byte enqueue) input rq"

text \<open>The resources that \<open>pc_control_init\<close> acquires, and the outcomes of the calls it makes.\<close>


record pc_resources =
  commands_queue :: bool
  uart_installed :: bool
  reader_running :: bool

definition pc_control_init :: "bool \<Rightarrow> int \<Rightarrow> bool \<Rightarrow> pc_resources \<Rightarrow> int \<times> pc_resources" where
  "pc_control_init queue_created uart_err task_created r =
     (let r = r\<lparr>commands_queue := queue_created\<rparr> in
      if \<not> queue_created then (ESP_ERR_NO_MEM, r)
      else if uart_err \<noteq> ESP_OK then (uart_err, r\<lparr>commands_queue := False\<rparr>)
      else
        let r = r\<lparr>uart_installed := True\<rparr> in
        if \<not> task_created then (ESP_ERR_NO_MEM, r\<lparr>uart_installed := False, commands_queue := False\<rparr>)
        else (ESP_OK, r\<lparr>reader_running := True\<rparr>))"

section \<open>Commands\<close>

lemma number_le: "number api obj key m = Some n \<Longrightarrow> n \<le> m"
proof -
  assume "number api obj key m = Some n"
  then obtain x :: rat where "0 \<le> x" "x \<le> of_nat m" "n = nat \<lfloor>x\<rfloor>"
    by (auto simp: number_def not_less split: option.splits if_splits double.splits)
  moreover from this have "\<lfloor>x\<rfloor> \<le> int m" by (simp add: floor_le_iff)
  ultimately show ?thesis by simp
qed

lemma number_of_nat:
  assumes "cJSON_GetObjectItem api obj key = Some v" and "cJSON_IsNumber api v"
    and "valuedouble api v = Finite (of_nat n)" and "n \<le> m"
  shows "number api obj key m = Some n"
  using assms by (simp add: number_def)

lemma length_decode_hex: "decode_hex n hex = Some b \<Longrightarrow> length b = n"
  by (induction n arbitrary: hex b) (auto simp: Let_def split: if_splits)

lemma answers_answer: "\<exists>a. answers (answer i ok m d) = answers d @ [a] \<and> ans_id a = i \<and> ans_ok a = ok"
  by (simp add: answer_def)

lemma answer_simps [simp]:
  "ctrl (answer i ok m d) = ctrl d" "virtual_grip (answer i ok m d) = virtual_grip d"
  "nfc (answer i ok m d) = nfc d" "last_state (answer i ok m d) = last_state d"
  "linked (answer i ok m d) = linked d" "tag_loaded (answer i ok m d) = tag_loaded d"
  "tag_crc (answer i ok m d) = tag_crc d" "g_esp32_mac (answer i ok m d) = g_esp32_mac d"
  "link (answer i ok m d) = link d" "s_stream_mode (answer i ok m d) = s_stream_mode d"
  "s_timer (answer i ok m d) = s_timer d" "s_stream_enabled (answer i ok m d) = s_stream_enabled d"
  "dev_ok (answer i ok m d) = dev_ok d"
  by (simp_all add: answer_def dev_ok_def)

lemma release_simps [simp]:
  "neutral (ctrl (release d))" "ctrl (release d) = controller_state_init (ctrl d)"
  "\<not> virtual_grip (release d)" "nfc (release d) = nfc d" "last_state (release d) = 0"
  "linked (release d) = linked d" "tag_loaded (release d) = tag_loaded d"
  "tag_crc (release d) = tag_crc d" "answers (release d) = answers d" "link (release d) = link d"
  "s_stream_mode (release d) = s_stream_mode d" "s_timer (release d) = s_timer d"
  "s_stream_enabled (release d) = s_stream_enabled d" "dev_ok (release d) = dev_ok d"
  "g_esp32_mac (release d) = g_esp32_mac d"
  by (simp_all add: release_def input_report_set_virtual_grip_def dev_ok_def)

lemma dev_ok_update [simp]:
  "dev_ok (d\<lparr>ctrl := c\<rparr>) = dev_ok d" "dev_ok (d\<lparr>last_state := t\<rparr>) = dev_ok d"
  "dev_ok (d\<lparr>linked := b\<rparr>) = dev_ok d" "dev_ok (d\<lparr>tag_crc := x\<rparr>) = dev_ok d"
  "dev_ok (d\<lparr>tag_loaded := b\<rparr>) = dev_ok d"
  by (simp_all add: dev_ok_def)

text \<open>
  The invariant of the channel: a controller state other than neutral is always backed by the
  time of the message that set it and by a connected console; the axes stay within 12 bits; the
  NFC controller holds a tag exactly when the channel says so, and its checksum is the reported one.
\<close>

definition pc_inv :: "('l, 'm) pc_of \<Rightarrow> bool" where
  "pc_inv d \<longleftrightarrow> dev_ok d \<and> \<not> virtual_grip d \<and> sticks_12bit (ctrl d)
     \<and> (last_state d = 0 \<longrightarrow> neutral (ctrl d)) \<and> (\<not> linked d \<longrightarrow> last_state d = 0)
     \<and> present (nfc d) = tag_loaded d
     \<and> (tag_loaded d \<longrightarrow> crc32_of (tag (nfc d)) = tag_crc d) \<and> (\<not> tag_loaded d \<longrightarrow> tag_crc d = 0)"

lemma pc_inv_answer [simp]: "pc_inv (answer i ok m d) = pc_inv d"
  by (simp add: pc_inv_def)

lemma pc_inv_release: "pc_inv d \<Longrightarrow> pc_inv (release d)"
  by (simp add: pc_inv_def)

lemma pc_inv_connection: "pc_inv d \<Longrightarrow> pc_inv (pc_control_connection c d)"
  by (simp add: pc_inv_def pc_control_connection_def)

lemma of_nat_le_16: "n \<le> 4095 \<Longrightarrow> (of_nat n :: u16) \<le> 0xFFF"
  by (simp add: word_le_nat_alt unat_of_nat)

lemma state_fields_12bit: "state_fields api obj = Some c \<Longrightarrow> sticks_12bit c"
  by (auto simp: state_fields_def bind_eq_Some_conv sticks_12bit_def
      intro!: of_nat_le_16 dest: number_le)

lemma pc_inv_command_state:
  assumes "pc_inv d" and "now \<noteq> 0" shows "pc_inv (command_state api obj i now d)"
proof (cases "state_fields api obj")
  case None
  with assms show ?thesis by (simp add: command_state_def)
next
  case (Some c)
  then have "sticks_12bit c" by (rule state_fields_12bit)
  with assms Some pc_inv_release [OF assms(1)] show ?thesis
    by (simp add: command_state_def) (simp add: pc_inv_def)
qed

definition load_request :: "'j cjson \<Rightarrow> 'j \<Rightarrow> bytes option" where
  "load_request api obj =
     (case cJSON_GetObjectItem api obj ''hex'' of
        None \<Rightarrow> None
      | Some h \<Rightarrow>
          if cJSON_IsString api h \<and> length (valuestring api h) = 1080
          then (case (number api obj ''crc'' 0xffffffff, decode_hex 540 (valuestring api h)) of
                  (Some expected, Some c) \<Rightarrow>
                    if expected = unat (crc32_of c) \<and> tag_bytes_ok c then Some c else None
                | _ \<Rightarrow> None)
          else None)"

lemma load_request_length: "load_request api obj = Some c \<Longrightarrow> length c = 540"
  by (auto simp: load_request_def length_decode_hex split: option.splits if_splits)

text \<open>The three tests of a load request: the fields, the hexadecimal text, the dump itself.\<close>

lemma command_load_fields:
  assumes "cJSON_GetObjectItem api obj ''hex'' = Some h" and "cJSON_IsString api h"
    and "length (valuestring api h) = 1080" and "number api obj ''crc'' 0xffffffff = Some e"
  shows "command_load api obj i d = (case decode_hex 540 (valuestring api h) of
      None \<Rightarrow> Some (answer i False ''Invalid hex'' d)
    | Some c \<Rightarrow>
        if unat (crc32_of c) \<noteq> e then Some (answer i False ''CRC mismatch'' d)
        else if \<not> tag_bytes_ok c then Some (answer i False ''Invalid NTAG UID/BCC'' d)
        else do { (_, n) \<leftarrow> nfc_load (Some c) 540 (nfc d);
                  Some (answer i True ''BIN presented; NFC read experimental''
                    (d\<lparr>nfc := n, tag_crc := crc32_of c, tag_loaded := True\<rparr>)) })"
proof (cases "decode_hex 540 (valuestring api h)")
  case None
  with assms show ?thesis by (simp add: command_load_def is_string_def)
next
  case (Some c)
  then have "length c = 540" by (rule length_decode_hex)
  then have "crc32 c 540 = Some (crc32_of c)" by (simp add: crc32_eq)
  with assms Some show ?thesis
    by (simp add: command_load_def is_string_def)
qed

lemma command_load_no_fields:
  assumes "\<not> (\<exists>h e. cJSON_GetObjectItem api obj ''hex'' = Some h \<and> cJSON_IsString api h
      \<and> length (valuestring api h) = 1080 \<and> number api obj ''crc'' 0xffffffff = Some e)"
  shows "command_load api obj i d = Some (answer i False ''Expected 540-byte raw BIN and CRC32'' d)"
proof -
  have "(if is_string api (cJSON_GetObjectItem api obj ''hex'')
      \<and> length (valuestring api (the (cJSON_GetObjectItem api obj ''hex''))) = 1080
      then number api obj ''crc'' 0xffffffff else None) = None"
    using assms by (cases "cJSON_GetObjectItem api obj ''hex''") (auto simp: is_string_def)
  then show ?thesis by (simp only: command_load_def Let_def option.case)
qed

lemma command_load_reject:
  assumes "load_request api obj = None"
  shows "\<exists>m. command_load api obj i d = Some (answer i False m d)"
proof (cases "\<exists>h e. cJSON_GetObjectItem api obj ''hex'' = Some h \<and> cJSON_IsString api h
      \<and> length (valuestring api h) = 1080 \<and> number api obj ''crc'' 0xffffffff = Some e")
  case False
  from command_load_no_fields [OF this, of i d] show ?thesis by blast
next
  case True
  then obtain h e where f: "cJSON_GetObjectItem api obj ''hex'' = Some h" "cJSON_IsString api h"
    "length (valuestring api h) = 1080" "number api obj ''crc'' 0xffffffff = Some e" by blast
  show ?thesis
  proof (cases "decode_hex 540 (valuestring api h)")
    case None
    then show ?thesis by (simp add: command_load_fields [OF f]) blast
  next
    case (Some c)
    with assms f have "e \<noteq> unat (crc32_of c) \<or> \<not> tag_bytes_ok c"
      by (auto simp: load_request_def)
    with Some show ?thesis by (cases "unat (crc32_of c) = e") (auto simp: command_load_fields [OF f])
  qed
qed

lemma command_load_accept:
  assumes "load_request api obj = Some c" and "nfc_inv (nfc d)"
  shows "\<exists>n. nfc_load (Some c) 540 (nfc d) = Some (True, n) \<and> nfc_inv n \<and> tag n = c \<and> present n
    \<and> command_load api obj i d = Some (answer i True ''BIN presented; NFC read experimental''
        (d\<lparr>nfc := n, tag_crc := crc32_of c, tag_loaded := True\<rparr>))"
proof -
  have len: "length c = 540" by (rule load_request_length [OF assms(1)])
  from nfc_load_result [OF assms(2) len] obtain n where
    n: "nfc_load (Some c) 540 (nfc d) = Some (True, n)" "nfc_inv n" "tag n = c" "present n" by auto
  moreover obtain h where "cJSON_GetObjectItem api obj ''hex'' = Some h" "cJSON_IsString api h"
    "length (valuestring api h) = 1080" "number api obj ''crc'' 0xffffffff = Some (unat (crc32_of c))"
    "decode_hex 540 (valuestring api h) = Some c" "tag_bytes_ok c"
    using assms(1) by (auto simp: load_request_def split: option.splits if_splits)
  ultimately show ?thesis
    by (simp add: command_load_fields)
qed

lemma pc_inv_load:
  assumes "pc_inv d"
  shows "\<exists>d'. command_load api obj i d = Some d' \<and> pc_inv d'
    \<and> (\<exists>a. answers d' = answers d @ [a]) \<and> link d' = link d \<and> linked d' = linked d"
proof (cases "load_request api obj")
  case None
  from command_load_reject [OF None, of i d] obtain m where
    "command_load api obj i d = Some (answer i False m d)" by blast
  with assms answers_answer [of i False m d] show ?thesis by auto
next
  case (Some c)
  have "nfc_inv (nfc d)" using assms by (simp add: pc_inv_def dev_ok_def)
  from command_load_accept [OF Some this, of i] obtain n where n: "nfc_inv n" "tag n = c" "present n"
    "command_load api obj i d = Some (answer i True ''BIN presented; NFC read experimental''
        (d\<lparr>nfc := n, tag_crc := crc32_of c, tag_loaded := True\<rparr>))" by blast
  moreover have "pc_inv (d\<lparr>nfc := n, tag_crc := crc32_of c, tag_loaded := True\<rparr>)"
    using assms n by (simp add: pc_inv_def dev_ok_def)
  ultimately show ?thesis
    using answers_answer [of i True _ "d\<lparr>nfc := n, tag_crc := crc32_of c, tag_loaded := True\<rparr>"] by auto
qed

lemma command_total:
  assumes "pc_inv d" and "now \<noteq> 0"
  shows "\<exists>d' a. command api line now d = Some d' \<and> pc_inv d' \<and> answers d' = answers d @ [a]
    \<and> link d' = link d \<and> linked d' = linked d"
proof -
  have ans: "\<exists>d' a. Some (answer i ok m e) = Some d' \<and> pc_inv d' \<and> answers d' = answers d @ [a]
      \<and> link d' = link d \<and> linked d' = linked d"
    if "pc_inv e" "answers e = answers d" "link e = link d" "linked e = linked d" for i ok m e
    using that answers_answer [of i ok m e] by auto
  have st: "\<exists>d' a. Some (command_state api obj i now d) = Some d' \<and> pc_inv d'
      \<and> answers d' = answers d @ [a] \<and> link d' = link d \<and> linked d' = linked d" for obj i
  proof -
    have "\<exists>a. answers (command_state api obj i now d) = answers d @ [a]"
      by (auto simp: command_state_def answer_def split: option.split)
    moreover have "link (command_state api obj i now d) = link d" "linked (command_state api obj i now d) = linked d"
      by (auto simp: command_state_def split: option.split)
    ultimately show ?thesis using pc_inv_command_state [OF assms] by auto
  qed
  have un: "\<exists>n. nfc_unload (nfc d) = Some n \<and> pc_inv (d\<lparr>nfc := n, tag_loaded := False, tag_crc := 0\<rparr>)"
    using nfc_unload_result [of "nfc d"] assms(1) by (auto simp: pc_inv_def dev_ok_def)
  show ?thesis
  proof (cases "cJSON_Parse api (c_str line)")
    case None
    with ans [of d] assms show ?thesis by (simp add: command_def)
  next
    case (Some obj)
    show ?thesis
    proof (cases "number api obj ''id'' 2147483647")
      case None
      with Some ans [of d] assms show ?thesis by (simp add: command_def)
    next
      case id: (Some i)
      define cmd where "cmd = cJSON_GetObjectItem api obj ''cmd''"
      have eq: "command api line now d = (if \<not> is_string api cmd then Some (answer i False ''Missing cmd'' d)
        else if valuestring api (the cmd) = ''status'' then Some (answer i True ''PC controller v1'' d)
        else if valuestring api (the cmd) = ''release'' then Some (answer i True ''Released'' (release d))
        else if valuestring api (the cmd) = ''state'' then Some (command_state api obj i now d)
        else if valuestring api (the cmd) = ''load'' then command_load api obj i d
        else if valuestring api (the cmd) = ''unload'' then do {
          n \<leftarrow> nfc_unload (nfc d);
          Some (answer i True ''BIN removed'' (d\<lparr>nfc := n, tag_loaded := False, tag_crc := 0\<rparr>))
        }
        else Some (answer i False ''Unknown command'' d))"
        by (simp only: command_def Some id option.case cmd_def Let_def)
      from un obtain n where n: "nfc_unload (nfc d) = Some n"
        "pc_inv (d\<lparr>nfc := n, tag_loaded := False, tag_crc := 0\<rparr>)" by blast
      have "\<exists>d' a. command_load api obj i d = Some d' \<and> pc_inv d' \<and> answers d' = answers d @ [a]
          \<and> link d' = link d \<and> linked d' = linked d"
        using pc_inv_load [OF assms(1), of api obj i] by blast
      with ans [of d] ans [of "release d"] st ans [OF n(2)] assms(1) show ?thesis
        unfolding eq by (simp add: pc_inv_release n(1))
    qed
  qed
qed

lemma poll_commands_total:
  assumes "pc_inv d" and "\<forall>k. now k \<noteq> 0"
  shows "\<exists>q' d'. poll_commands api recv now n q d = Some (q', d') \<and> pc_inv d'
    \<and> link d' = link d \<and> linked d' = linked d"
  using assms
proof (induction n arbitrary: q d)
  case 0
  then show ?case by simp
next
  case (Suc n)
  show ?case
  proof (cases "recv q")
    case None
    with Suc.prems show ?thesis by simp
  next
    case (Some lq)
    obtain line q' where lq: "lq = (line, q')" by (cases lq)
    from command_total [OF Suc.prems(1), of "now (3 - n)" api line] Suc.prems(2) obtain d1 where
      d1: "command api line (now (3 - n)) d = Some d1" "pc_inv d1" "link d1 = link d" "linked d1 = linked d"
      by auto
    with Suc.IH [OF d1(2) Suc.prems(2), of q'] Some lq show ?thesis by auto
  qed
qed

section \<open>The line assembler\<close>

text \<open>
  What the reader should queue: the lines of the input without carriage returns, except for
  empty ones and ones that do not fit the buffer.
\<close>

fun lines_of :: "bytes \<Rightarrow> bytes \<Rightarrow> bytes list" where
  "lines_of acc [] = []"
| "lines_of acc (c # cs) =
     (if c = 13 then lines_of acc cs
      else if c = 10 then (if acc \<noteq> [] \<and> length acc < 1400 then [acc] else []) @ lines_of [] cs
      else lines_of (acc @ [c]) cs)"

text \<open>The state of the reader after the characters \<open>acc\<close> of an unfinished line.\<close>

definition reader_at :: "bytes \<Rightarrow> reader_state \<Rightarrow> bool" where
  "reader_at acc r \<longleftrightarrow> length (rd_line r) = 1400
     \<and> (if length acc < 1400
        then \<not> rd_overflow r \<and> rd_used r = length acc \<and> take (length acc) (rd_line r) = acc
        else rd_overflow r \<and> rd_used r = 1399)"

lemma reader_at_Nil: "length l = 1400 \<Longrightarrow> reader_at [] \<lparr>rd_line = l, rd_used = 0, rd_overflow = False\<rparr>"
  by (simp add: reader_at_def)

lemma c_str_terminated:
  assumes "n < length l" shows "c_str (l[n := 0]) = c_str (take n l)"
proof -
  have "l[n := 0] = take n l @ 0 # drop (Suc n) l"
    using assms by (simp add: upd_conv_take_nth_drop)
  moreover have "c_str (xs @ 0 # ys) = c_str xs" for xs ys
    by (induction xs) (simp_all add: c_str_def)
  ultimately show ?thesis by simp
qed

lemma reader_byte_at:
  assumes "reader_at acc r"
  shows "\<exists>r' ls. reader_byte enqueue c (r, q) = Some (r', fold enqueue ls q)
    \<and> reader_at (if c = 13 then acc else if c = 10 then [] else acc @ [c]) r'
    \<and> list_all (\<lambda>l. length l = 1400) ls
    \<and> map c_str ls = map c_str (if c = 10 \<and> acc \<noteq> [] \<and> length acc < 1400 then [acc] else [])"
proof -
  from assms have l: "length (rd_line r) = 1400" by (simp add: reader_at_def)
  consider "c = 13" | "c = 10" | "c \<noteq> 13" "c \<noteq> 10" by blast
  then show ?thesis
  proof cases
    case 1
    with assms show ?thesis by (intro exI [of _ r] exI [of _ "[]"]) (simp add: reader_byte_def)
  next
    case 2
    show ?thesis
    proof (cases "acc \<noteq> [] \<and> length acc < 1400")
      case True
      let ?l = "(rd_line r)[length acc := 0]"
      have "c_str ?l = c_str acc"
        using True assms l by (simp add: c_str_terminated reader_at_def)
      with 2 True assms l show ?thesis
        by (intro exI [of _ "r\<lparr>rd_line := ?l, rd_used := 0, rd_overflow := False\<rparr>"] exI [of _ "[?l]"])
           (simp add: reader_byte_def reader_at_def)
    next
      case False
      with 2 assms l show ?thesis
        by (intro exI [of _ "r\<lparr>rd_used := 0, rd_overflow := False\<rparr>"] exI [of _ "[]"])
           (auto simp: reader_byte_def reader_at_def split: if_splits)
    qed
  next
    case 3
    show ?thesis
    proof (cases "length acc < 1399")
      case True
      with assms have "take (length acc) (rd_line r) = acc" by (simp add: reader_at_def)
      then have "take (Suc (length acc)) ((rd_line r)[length acc := c]) = acc @ [c]"
        using True l by (simp add: take_Suc_conv_app_nth)
      with 3 True assms l show ?thesis
        by (intro exI [of _ "r\<lparr>rd_line := (rd_line r)[length acc := c], rd_used := Suc (length acc)\<rparr>"]
              exI [of _ "[]"])
           (simp add: reader_byte_def reader_at_def LINE_SIZE_def)
    next
      case False
      with 3 assms l show ?thesis
        by (intro exI [of _ "r\<lparr>rd_overflow := True\<rparr>"] exI [of _ "[]"])
           (auto simp: reader_byte_def reader_at_def LINE_SIZE_def split: if_splits)
    qed
  qed
qed

lemma reader_refines:
  assumes "reader_at acc r"
  shows "\<exists>r' ls. reader enqueue input (r, q) = Some (r', fold enqueue ls q)
    \<and> list_all (\<lambda>l. length l = 1400) ls \<and> map c_str ls = map c_str (lines_of acc input)"
  using assms
proof (induction input arbitrary: acc r q)
  case Nil
  then show ?case by (intro exI [of _ r] exI [of _ "[]"]) (simp add: reader_def)
next
  case (Cons c cs)
  from reader_byte_at [OF Cons.prems, of enqueue c q] obtain r1 ls1 where
    one: "reader_byte enqueue c (r, q) = Some (r1, fold enqueue ls1 q)"
      "reader_at (if c = 13 then acc else if c = 10 then [] else acc @ [c]) r1"
      "list_all (\<lambda>l. length l = 1400) ls1"
      "map c_str ls1 = map c_str (if c = 10 \<and> acc \<noteq> [] \<and> length acc < 1400 then [acc] else [])"
    by blast
  from Cons.IH [OF one(2), of "fold enqueue ls1 q"] obtain r2 ls2 where
    two: "reader enqueue cs (r1, fold enqueue ls1 q) = Some (r2, fold enqueue ls2 (fold enqueue ls1 q))"
      "list_all (\<lambda>l. length l = 1400) ls2"
      "map c_str ls2 = map c_str (lines_of (if c = 13 then acc else if c = 10 then [] else acc @ [c]) cs)"
    by blast
  have "map c_str (ls1 @ ls2) = map c_str (lines_of acc (c # cs))"
    using one(4) two(3) by auto
  with one two show ?case
    by (intro exI [of _ r2] exI [of _ "ls1 @ ls2"]) (simp add: reader_def)
qed

section \<open>Hexadecimal text\<close>

definition hex_digit :: "nat \<Rightarrow> char" where
  "hex_digit n = ''0123456789abcdef'' ! n"

definition hex_byte :: "u8 \<Rightarrow> string" where
  "hex_byte b = [hex_digit (unat b div 16), hex_digit (unat b mod 16)]"

lemma nibble_hex_digit: "n < 16 \<Longrightarrow> nibble (hex_digit n) = int n"
proof -
  have "list_all (\<lambda>n. nibble (hex_digit n) = int n) [0..<16]"
    by code_simp
  then show "n < 16 \<Longrightarrow> nibble (hex_digit n) = int n"
    by (simp add: list_all_iff)
qed

lemma hex_byte_value:
  "(of_int (push_bit 4 (int (unat b div 16)) OR int (unat b mod 16)) :: u8) = b"
proof -
  have "unat b mod 16 OR push_bit 4 (unat b div 16) = unat b"
    using or_shifted_nat [of "unat b mod 16" 4 "unat b div 16"] by simp
  then have "push_bit 4 (int (unat b div 16)) OR int (unat b mod 16) = int (unat b)"
    by (metis of_nat_or_eq of_nat_push_bit or.commute)
  then show ?thesis by simp
qed

lemma decode_hex_bytes: "decode_hex (length bs) (concat (map hex_byte bs) @ rest) = Some bs"
proof (induction bs)
  case Nil
  then show ?case by simp
next
  case (Cons b bs)
  have "unat b div 16 < 16" using unat_u8_lt [of b] by auto
  with Cons show ?case
    by (simp add: hex_byte_def nibble_hex_digit Let_def hex_byte_value)
qed

section \<open>Instances for the witnesses\<close>

text \<open>
  A concrete interface: a line is one byte that selects a message, a message is a list of
  named values.
\<close>

datatype demo_json = JNum rat | JStr string | JObj "(string \<times> demo_json) list"

definition demo_tag :: bytes where
  "demo_tag = [4, 1, 2, 0x8F, 1, 2, 3, 4, 4] @ replicate 531 0"

definition demo_message :: "u8 \<Rightarrow> demo_json option" where
  "demo_message b =
     (if b = 1 then Some (JObj [(''id'', JNum 7), (''cmd'', JStr ''state''), (''r'', JNum 8), (''s'', JNum 0),
        (''l'', JNum 0), (''lx'', JNum 2048), (''ly'', JNum 4095), (''rx'', JNum 0), (''ry'', JNum 1)])
      else if b = 2 then Some (JObj [(''id'', JNum 8), (''cmd'', JStr ''load''),
        (''hex'', JStr (concat (map hex_byte demo_tag))), (''crc'', JNum (of_nat (unat (crc32_of demo_tag))))])
      else None)"

definition demo_api :: "demo_json cjson" where
  "demo_api = \<lparr>cJSON_Parse = (\<lambda>l. case l of [b] \<Rightarrow> demo_message b | _ \<Rightarrow> None),
     cJSON_GetObjectItem = (\<lambda>j k. case j of JObj kvs \<Rightarrow> map_of kvs k | _ \<Rightarrow> None),
     cJSON_IsNumber = (\<lambda>j. case j of JNum _ \<Rightarrow> True | _ \<Rightarrow> False),
     cJSON_IsString = (\<lambda>j. case j of JStr _ \<Rightarrow> True | _ \<Rightarrow> False),
     valuedouble = (\<lambda>j. case j of JNum x \<Rightarrow> Finite x | _ \<Rightarrow> NonFinite),
     valuestring = (\<lambda>j. case j of JStr s \<Rightarrow> s | _ \<Rightarrow> [])\<rparr>"

lemma demo_load_message:
  "cJSON_Parse demo_api [2] = Some (the (demo_message 2))"
  "cJSON_GetObjectItem demo_api (the (demo_message 2)) ''id'' = Some (JNum (of_nat 8))"
  "cJSON_GetObjectItem demo_api (the (demo_message 2)) ''cmd'' = Some (JStr ''load'')"
  "cJSON_GetObjectItem demo_api (the (demo_message 2)) ''hex'' = Some (JStr (concat (map hex_byte demo_tag)))"
  "cJSON_GetObjectItem demo_api (the (demo_message 2)) ''crc''
     = Some (JNum (of_nat (unat (crc32_of demo_tag))))"
  "cJSON_IsNumber demo_api (JNum x)" "cJSON_IsString demo_api (JStr t)"
  "valuedouble demo_api (JNum x) = Finite x" "valuestring demo_api (JStr t) = t"
  by (simp_all add: demo_api_def demo_message_def)

lemma demo_tag_facts: "length demo_tag = 540" "tag_bytes_ok demo_tag" "demo_tag[0 := 4] = demo_tag"
  by (simp_all add: demo_tag_def tag_bytes_ok_def)

lemma demo_numbers:
  "number demo_api (the (demo_message 2)) ''id'' 2147483647 = Some 8"
  "number demo_api (the (demo_message 2)) ''crc'' 0xffffffff = Some (unat (crc32_of demo_tag))"
proof -
  show "number demo_api (the (demo_message 2)) ''id'' 2147483647 = Some 8"
    by (rule number_of_nat [OF demo_load_message(2,6,8)]) simp
  have "unat (crc32_of demo_tag) \<le> 0xffffffff" using unat_u32_lt [of "crc32_of demo_tag"] by simp
  then show "number demo_api (the (demo_message 2)) ''crc'' 0xffffffff = Some (unat (crc32_of demo_tag))"
    by (rule number_of_nat [OF demo_load_message(5,6,8)])
qed

lemma length_hex_text: "length (concat (map hex_byte bs)) = 2 * length bs"
  by (induction bs) (simp_all add: hex_byte_def)

lemma demo_load_request: "load_request demo_api (the (demo_message 2)) = Some demo_tag"
  using decode_hex_bytes [of demo_tag "[]"] length_hex_text [of demo_tag] demo_tag_facts
  by (simp add: load_request_def demo_load_message demo_numbers del: length_concat)

lemma demo_load_command: "command demo_api [2] now d = command_load demo_api (the (demo_message 2)) 8 d"
  by (simp add: command_def c_str_def demo_load_message demo_numbers is_string_def)

definition list_recv :: "bytes list \<Rightarrow> (bytes \<times> bytes list) option" where
  "list_recv q = (case q of [] \<Rightarrow> None | l # ls \<Rightarrow> Some (l, ls))"

definition pc_boot :: "bytes list pc_dev" where
  "pc_boot = dev.extend proto_boot
     \<lparr>last_state = 0, linked = True, tag_loaded = False, tag_crc = 0, answers = []\<rparr>"

lemma pc_boot_inv: "pc_inv pc_boot"
  by (simp add: pc_inv_def pc_boot_def proto_boot_def dev.defs dev_ok_def nfc_inv_boot)
     (simp add: nfc_boot_def)

lemma pc_boot_simps [simp]:
  "linked pc_boot = True" "last_state pc_boot = 0" "answers pc_boot = []" "link pc_boot = []"
  by (simp_all add: pc_boot_def proto_boot_def dev.defs)

lemma nfc_inv_pc: "pc_inv d \<Longrightarrow> nfc_inv (nfc d)"
  by (simp add: pc_inv_def dev_ok_def)

section \<open>Properties\<close>

text \<open>
  Property C12: every line, whatever it holds, is answered exactly once, without an out-of-bounds
  access, and keeps the channel's invariant: buttons are held only with a running deadline and a
  connected console, axes stay within 12 bits, and the reported tag is the one on the reader.
\<close>

theorem pc_command_answered:
  assumes "pc_inv d" and "now \<noteq> 0"
  shows "\<exists>d' a. command api line now d = Some d' \<and> answers d' = answers d @ [a] \<and> pc_inv d'
    \<and> (\<not> neutral (ctrl d') \<longrightarrow> last_state d' \<noteq> 0 \<and> linked d')
    \<and> sticks_12bit (ctrl d') \<and> (tag_loaded d' \<longleftrightarrow> present (nfc d'))"
  using command_total [OF assms, of api line] by (auto simp: pc_inv_def)

theorem pc_command_answered_witness:
  "\<exists>d' a. command demo_api [1] 5 pc_boot = Some d' \<and> answers d' = [a] \<and> sticks_12bit (ctrl d')"
  using pc_command_answered [OF pc_boot_inv, of 5 demo_api "[1]"] by auto

text \<open>
  Property C13: the channel fails closed: after every poll, a controller state other than neutral
  means that the console is connected and that a state message was accepted at most 500 ms ago.
\<close>

theorem pc_poll_fails_closed:
  assumes "pc_inv d" and "\<forall>k. now k \<noteq> 0"
  shows "\<exists>q' d'. pc_control_poll api recv now q d = Some (q', d') \<and> pc_inv d'
    \<and> (\<not> neutral (ctrl d') \<longrightarrow> linked d' \<and> last_state d' \<noteq> 0 \<and> now 4 - last_state d' \<le> 500000)"
proof -
  from poll_commands_total [OF assms, of api recv 4 q] obtain q' d' where
    p: "poll_commands api recv now 4 q d = Some (q', d')" "pc_inv d'" by blast
  show ?thesis
  proof (cases "last_state d' \<noteq> 0 \<and> now 4 - last_state d' > 500000")
    case True
    with p show ?thesis by (simp add: pc_control_poll_def pc_inv_release)
  next
    case False
    with p show ?thesis by (auto simp: pc_control_poll_def pc_inv_def)
  qed
qed

theorem pc_poll_fails_closed_witness:
  "\<exists>q' d'. pc_control_poll demo_api list_recv (\<lambda>k. 100 + int k) [[1], [3], [2]] pc_boot = Some (q', d')
    \<and> pc_inv d'"
  using pc_poll_fails_closed [OF pc_boot_inv, of "\<lambda>k. 100 + int k" demo_api list_recv "[[1], [3], [2]]"]
  by auto

text \<open>
  Property C14: a tag dump that is sent as the hexadecimal text of 540 bytes with its CRC-32 is placed
  on the NFC reader byte for byte exactly when its UID begins with 0x04 and its two check bytes
  are right (\<open>tag_bytes_ok\<close>).  With other check bytes, or with the CRC-32 of a dump that differs in one
  byte, it is refused and the reader stays as it was.
\<close>

theorem pc_load_exact:
  assumes "pc_inv d" and "length c = 540"
    and "cJSON_GetObjectItem api obj ''hex'' = Some h" and "cJSON_IsString api h"
    and "valuestring api h = concat (map hex_byte c)"
    and "number api obj ''crc'' 0xffffffff = Some (unat (crc32_of (c[k := b])))" and "k < 540"
  shows "\<exists>d' a. command_load api obj i d = Some d' \<and> answers d' = answers d @ [a]
    \<and> (if b = c ! k \<and> tag_bytes_ok c
       then ans_ok a \<and> tag (nfc d') = c \<and> present (nfc d') \<and> tag_crc d' = crc32_of c
       else \<not> ans_ok a \<and> nfc d' = nfc d \<and> tag_loaded d' = tag_loaded d)"
proof -
  have len: "length (valuestring api h) = 1080" using assms(2,5) length_hex_text [of c] by simp
  have dec: "decode_hex 540 (valuestring api h) = Some c"
    using decode_hex_bytes [of c "[]"] assms(2,5) by simp
  note eq = command_load_fields [OF assms(3,4) len assms(6), of i d]
  show ?thesis
  proof (cases "b = c ! k")
    case True
    then have "c[k := b] = c" by simp
    moreover obtain n where "nfc_load (Some c) 540 (nfc d) = Some (True, n)" "tag n = c" "present n"
      using nfc_load_result [OF nfc_inv_pc [OF assms(1)] assms(2)] by blast
    ultimately show ?thesis using True dec by (simp add: eq) (simp add: answer_def)
  next
    case False
    have "c = take k c @ (c ! k) # drop (Suc k) c" "c[k := b] = take k c @ b # drop (Suc k) c"
      using assms(2,7) by (simp_all add: id_take_nth_drop upd_conv_take_nth_drop)
    with False have "crc32_of c \<noteq> crc32_of (c[k := b])" by (metis crc32_detects)
    then have "unat (crc32_of c) \<noteq> unat (crc32_of (c[k := b]))" by (simp add: word_unat_eq_iff)
    with False dec show ?thesis by (simp add: eq) (simp add: answer_def)
  qed
qed

theorem pc_load_exact_witness:
  "\<exists>d' a. command_load demo_api (the (demo_message 2)) 8 pc_boot = Some d' \<and> answers d' = [a]
    \<and> ans_ok a \<and> tag (nfc d') = demo_tag"
proof -
  have crc: "number demo_api (the (demo_message 2)) ''crc'' 0xffffffff = Some (unat (crc32_of (demo_tag[0 := 4])))"
    by (simp add: demo_tag_facts(3) demo_numbers(2))
  from pc_load_exact [OF pc_boot_inv demo_tag_facts(1) demo_load_message(4,7,9) crc, of 8] demo_tag_facts(2)
  show ?thesis by (simp add: demo_tag_def) blast
qed

text \<open>
  Property C15: the reader task queues exactly the lines of the serial input, in order and as C
  strings, without carriage returns; empty lines and lines of 1400 or more characters are
  dropped whole, and no write leaves the line buffer.
\<close>

theorem pc_reader_lines:
  "\<exists>r' ls. reader (\<lambda>l q. q @ [l]) input (reader_start, []) = Some (r', ls)
    \<and> list_all (\<lambda>l. length l = LINE_SIZE) ls \<and> map c_str ls = map c_str (lines_of [] input)"
proof -
  have "reader_at [] reader_start" by (simp add: reader_start_def reader_at_def LINE_SIZE_def)
  moreover have "fold (\<lambda>l q. q @ [l]) ls q = q @ ls" for ls q :: "bytes list"
    by (induction ls arbitrary: q) simp_all
  ultimately show ?thesis
    using reader_refines [of "[]" reader_start "\<lambda>l q. q @ [l]" input "[]"] by (auto simp: LINE_SIZE_def)
qed

text \<open>
  \<open>pc_control_init\<close> either succeeds with the queue, the UART driver and the reader
  task in place, or reports the error and leaves none of them behind.
\<close>

theorem pc_init_no_leak:
  "case pc_control_init created uart_err task \<lparr>commands_queue = False, uart_installed = False, reader_running = False\<rparr> of
     (err, r) \<Rightarrow> (if created \<and> uart_err = ESP_OK \<and> task
       then err = ESP_OK \<and> r = \<lparr>commands_queue = True, uart_installed = True, reader_running = True\<rparr>
       else err \<noteq> ESP_OK \<and> r = \<lparr>commands_queue = False, uart_installed = False, reader_running = False\<rparr>)"
  by (simp add: pc_control_init_def ESP_OK_def ESP_ERR_NO_MEM_def Let_def)

end
