(* ===== verification/HidDescriptor.thy ===== *)
theory HidDescriptor
  imports Prelude
begin

text \<open>
  A reader for report descriptors: it walks the short items, keeps the global items report size,
  report count and report ID, and adds up the bits of the input items of one report.
  The first argument bounds the recursion: every item takes at least one byte.
\<close>

fun item_value :: "bytes \<Rightarrow> nat" where
  "item_value [] = 0"
| "item_value (b # bs) = unat b + 256 * item_value bs"

fun input_bits :: "bytes \<Rightarrow> u8 \<Rightarrow> nat \<Rightarrow> nat \<Rightarrow> nat \<Rightarrow> bytes \<Rightarrow> nat" where
  "input_bits [] rid cur sz cnt bs = 0"
| "input_bits (x # fuel) rid cur sz cnt [] = 0"
| "input_bits (x # fuel) rid cur sz cnt (b # bs) =
     (let n = (if unat b mod 4 = 3 then 4 else unat b mod 4);
          v = item_value (take n bs);
          kind = unat b div 4;
          rest = drop n bs
      in if kind = 0x21 then input_bits fuel rid v sz cnt rest
         else if kind = 0x1D then input_bits fuel rid cur v cnt rest
         else if kind = 0x25 then input_bits fuel rid cur sz v rest
         else if kind = 0x20 \<and> cur = unat rid
         then sz * cnt + input_bits fuel rid cur sz cnt rest
         else input_bits fuel rid cur sz cnt rest)"

end
