(* ===== verification/BtstackHid.thy ===== *)
theory BtstackHid
  imports PcControl HidDescriptor
begin

text \<open>
  \<open>main/btstack_hid.c\<close>: the Bluetooth Classic transport over BTstack.  Its static variables are
  the record \<open>btstack_link\<close>, which is the \<open>link\<close> of the device state; a slot of the reply ring is
  a pair of the 49-byte array and the length in use.  The calls into BTstack are recorded in
  \<open>stack_calls\<close>; what they return (the status of a transmission, the time) is an argument of
  the handler.  A Bluetooth event is given in decoded form (\<open>hci_event\<close>), as BTstack's accessor
  functions deliver its fields.
\<close>

section \<open>The code\<close>

definition REPLY_QUEUE_SIZE :: nat where "REPLY_QUEUE_SIZE = 8"
definition SWITCH_INPUT_INTERVAL_MS :: nat where "SWITCH_INPUT_INTERVAL_MS = 24"

datatype timer_id = InputTimer | PcTimer

datatype stack_call =
    RequestCanSendNow u16
  | SendInterrupt u16 bytes
  | StartTimer timer_id nat
  | RemoveTimer timer_id
  | SspConfirm bytes

record btstack_link =
  hid_cid :: u16
  is_connected :: bool
  send_pending :: bool
  replies :: "(bytes \<times> nat) list"
  reply_head :: nat
  reply_count :: nat
  input_report_count :: u32
  last_rx_ms :: u32
  last_subcmd :: u8
  stalled_logged :: bool
  stack_calls :: "stack_call list"

type_synonym 'm bt_of = "(btstack_link, 'm) pc_of"

definition call_stack :: "stack_call \<Rightarrow> btstack_link \<Rightarrow> btstack_link" where
  "call_stack c l = l\<lparr>stack_calls := stack_calls l @ [c]\<rparr>"

definition hid_descriptor :: bytes where
  "hid_descriptor =
    [0x05,0x01,0x09,0x05,0xA1,0x01,
     0x85,0x21,0x06,0x01,0xFF,0x09,0x21,0x15,0x00,0x25,0x00,
     0x75,0x08,0x95,0x30,0x81,0x02,
     0x85,0x30,0x09,0x30,0x15,0x00,0x25,0x00,0x75,0x08,0x95,
     0x30,0x81,0x02,
     0x85,0x31,0x09,0x31,0x75,0x08,0x96,0x69,0x01,0x81,0x02,
     0x85,0x3F,0x05,0x09,0x19,0x01,0x29,0x10,0x15,0x00,0x25,
     0x01,0x75,0x01,0x95,0x10,0x81,0x02,
     0x05,0x01,0x09,0x39,0x15,0x00,0x25,0x07,0x75,0x04,0x95,
     0x01,0x81,0x42,0x75,0x04,0x95,0x01,0x81,0x03,
     0x09,0x30,0x09,0x31,0x09,0x33,0x09,0x34,0x15,0x00,0x27,
     0xFF,0xFF,0x00,0x00,0x75,0x10,0x95,0x04,0x81,0x02,
     0x85,0x01,0x06,0x01,0xFF,0x09,0x01,0x15,0x00,0x27,0xFF,
     0xFF,0x00,0x00,0x75,0x08,0x95,0x30,0x91,0x02,
     0x85,0x10,0x09,0x10,0x15,0x00,0x27,0xFF,0xFF,0x00,0x00,
     0x75,0x08,0x95,0x30,0x91,0x02,
     0x85,0x11,0x09,0x11,0x75,0x08,0x95,0x30,0x91,0x02,
     0xC0]"

definition btstack_hid_send_input_report :: "btstack_link sender" where
  "btstack_hid_send_input_report b len l =
     (if \<not> is_connected l \<or> len = 0 then Some l
      else if len > INPUT_REPORT_SIZE \<or> reply_count l = REPLY_QUEUE_SIZE then Some l
      else
        let tail = (reply_head l + reply_count l) mod REPLY_QUEUE_SIZE in
        do {
          slot \<leftarrow> rd (replies l) tail;
          dst \<leftarrow> memcpy (fst slot) 0 b len;
          let l = l\<lparr>replies := (replies l)[tail := (dst, len)], reply_count := reply_count l + 1\<rparr>;
          Some (if \<not> send_pending l
                then call_stack (RequestCanSendNow (hid_cid l)) (l\<lparr>send_pending := True\<rparr>) else l)
        })"

text \<open>
  What \<open>send_next_report\<close> puts into \<open>msg\<close>: the message, the report's length and whether it
  carries an NFC packet; \<open>None\<close> when the mode sends nothing.
\<close>

definition build_next_report :: "'m bt_of \<Rightarrow> ((bytes \<times> nat \<times> bool) option \<times> 'm bt_of) option" where
  "build_next_report d =
     (let msg = 0xA1 # replicate INPUT_REPORT_0x31_SIZE 0 in
      if reply_count (link d) \<noteq> 0 then
        do {
          slot \<leftarrow> rd (replies (link d)) (reply_head (link d));
          msg \<leftarrow> memcpy msg 1 (fst slot) (snd slot);
          Some (Some (msg, snd slot, False), d)
        }
      else
        let d = d\<lparr>virtual_grip := input_report_set_virtual_grip False\<rparr>;
            mode = switch_proto_get_stream_mode d in
        if mode = STREAM_MODE_0x3F then
          do {
            msg \<leftarrow> at_offset 1 (\<lambda>b. input_report_build_0x3F (virtual_grip d) b (ctrl d)) msg;
            Some (Some (msg, 12, False), d)
          }
        else if mode = STREAM_MODE_0x30 then
          do {
            let (t, d) = switch_proto_next_timer d;
            msg \<leftarrow> at_offset 1 (\<lambda>b. input_report_build_0x30 (virtual_grip d) b t (ctrl d)) msg;
            Some (Some (msg, INPUT_REPORT_SIZE, False), d)
          }
        else if mode = STREAM_MODE_0x31 then
          do {
            let (t, d) = switch_proto_next_timer d;
            msg \<leftarrow> at_offset 1 (\<lambda>b. input_report_build_0x30 (virtual_grip d) b t (ctrl d)) msg;
            msg \<leftarrow> wr msg 1 0x31;
            msg \<leftarrow> at_offset (1 + INPUT_REPORT_SIZE) (\<lambda>b. nfc_peek b (nfc d)) msg;
            Some (Some (msg, INPUT_REPORT_0x31_SIZE, True), d)
          }
        else Some (None, d))"

definition pop_reply :: "btstack_link \<Rightarrow> btstack_link" where
  "pop_reply l = l\<lparr>reply_head := (reply_head l + 1) mod REPLY_QUEUE_SIZE, reply_count := reply_count l - 1\<rparr>"

definition send_next_report :: "int \<Rightarrow> 'm bt_of \<Rightarrow> 'm bt_of option" where
  "send_next_report tx_status d =
     (let is_reply = (reply_count (link d) \<noteq> 0);
          d = upd_link (\<lambda>l. l\<lparr>send_pending := False\<rparr>) d in
      do {
        (built, d) \<leftarrow> build_next_report d;
        (case built of
           None \<Rightarrow> Some d
         | Some (msg, len, mcu_report) \<Rightarrow>
             do {
               frame \<leftarrow> rd_range msg 0 (len + 1);
               let d = upd_link (call_stack (SendInterrupt (hid_cid (link d)) frame)) d;
               if tx_status \<noteq> 0 then Some d
               else
                 let d = (if mcu_report then d\<lparr>nfc := nfc_commit (nfc d)\<rparr> else d) in
                 Some (if is_reply then upd_link pop_reply d
                       else upd_link (\<lambda>l. l\<lparr>input_report_count := input_report_count l + 1\<rparr>) d)
             })
      })"

definition input_timer_handler :: "u32 \<Rightarrow> 'm bt_of \<Rightarrow> 'm bt_of" where
  "input_timer_handler now d =
     (let d = (if is_connected (link d) \<and> \<not> switch_proto_stream_enabled d \<and> \<not> stalled_logged (link d)
                 \<and> now - last_rx_ms (link d) \<ge> 10000
               then upd_link (\<lambda>l. l\<lparr>stalled_logged := True\<rparr>) d else d);
          d = (if is_connected (link d) \<and> \<not> send_pending (link d)
               then upd_link (\<lambda>l. call_stack (RequestCanSendNow (hid_cid l)) (l\<lparr>send_pending := True\<rparr>)) d
               else d)
      in upd_link (call_stack (StartTimer InputTimer SWITCH_INPUT_INTERVAL_MS)) d)"

definition track_output :: "u32 \<Rightarrow> bytes \<Rightarrow> nat \<Rightarrow> 'm bt_of \<Rightarrow> 'm bt_of option" where
  "track_output now packet len d =
     do {
       let d = upd_link (\<lambda>l. l\<lparr>last_rx_ms := now, stalled_logged := False\<rparr>) d;
       d \<leftarrow> (if len \<ge> 11
            then do {
              p0 \<leftarrow> rd packet 0;
              if p0 = 0x01 then do { c \<leftarrow> rd packet 10; Some (upd_link (\<lambda>l. l\<lparr>last_subcmd := c\<rparr>) d) }
              else Some d
            }
            else Some d);
       switch_proto_handle_output btstack_hid_send_input_report (Some packet) len d
     }"

definition report_data_callback :: "u32 \<Rightarrow> u16 \<Rightarrow> int \<Rightarrow> bytes option \<Rightarrow> 'm bt_of \<Rightarrow> 'm bt_of option" where
  "report_data_callback now report_id report_size report d =
     (case report of
        None \<Rightarrow> Some d
      | Some r \<Rightarrow>
          if report_size \<le> 0 then Some d
          else
            let size = nat (if report_size > 64 then 64 else report_size) in
            do {
              packet \<leftarrow> wr (replicate 65 0) 0 (ucast report_id);
              packet \<leftarrow> memcpy packet 1 r size;
              track_output now packet (size + 1) d
            })"

definition set_report_callback :: "u32 \<Rightarrow> int \<Rightarrow> bytes option \<Rightarrow> 'm bt_of \<Rightarrow> 'm bt_of option" where
  "set_report_callback now report_size report d =
     (case report of
        None \<Rightarrow> Some d
      | Some r \<Rightarrow>
          if report_size < 1 then Some d
          else
            let size = nat (if report_size > 65 then 65 else report_size) in
            do {
              packet \<leftarrow> memcpy (replicate 65 0) 0 r size;
              track_output now packet size d
            })"

datatype hci_event =
    NotAnEvent
  | UserConfirmationRequest bytes
  | HidConnectionOpened int u16
  | HidConnectionClosed
  | HidCanSendNow
  | OtherEvent

definition on_connection_opened :: "u32 \<Rightarrow> u16 \<Rightarrow> 'm bt_of \<Rightarrow> 'm bt_of" where
  "on_connection_opened now cid d =
     (let d = upd_link (\<lambda>l. l\<lparr>hid_cid := cid, is_connected := True, send_pending := False,
                input_report_count := 0, reply_head := 0, reply_count := 0\<rparr>) d;
          d = d\<lparr>virtual_grip := input_report_set_virtual_grip False\<rparr>;
          d = upd_link (\<lambda>l. l\<lparr>last_rx_ms := now, last_subcmd := 0, stalled_logged := False\<rparr>) d;
          d = pc_control_connection True d;
          d = switch_proto_init d
      in upd_link (call_stack (StartTimer InputTimer SWITCH_INPUT_INTERVAL_MS)) d)"

definition on_connection_closed :: "'m bt_of \<Rightarrow> 'm bt_of" where
  "on_connection_closed d =
     (let d = upd_link (\<lambda>l. l\<lparr>is_connected := False, send_pending := False, hid_cid := 0,
                input_report_count := 0, reply_head := 0, reply_count := 0\<rparr>) d;
          d = d\<lparr>virtual_grip := input_report_set_virtual_grip False\<rparr>;
          d = upd_link (call_stack (RemoveTimer InputTimer)) d
      in pc_control_connection False d)"

definition packet_handler :: "u32 \<Rightarrow> int \<Rightarrow> hci_event \<Rightarrow> 'm bt_of \<Rightarrow> 'm bt_of option" where
  "packet_handler now tx_status ev d =
     (case ev of
        NotAnEvent \<Rightarrow> Some d
      | UserConfirmationRequest addr \<Rightarrow> Some (upd_link (call_stack (SspConfirm addr)) d)
      | HidConnectionOpened st cid \<Rightarrow> Some (if st \<noteq> 0 then d else on_connection_opened now cid d)
      | HidConnectionClosed \<Rightarrow> Some (on_connection_closed d)
      | HidCanSendNow \<Rightarrow>
          (if is_connected (link d) \<and> send_pending (link d) then send_next_report tx_status d else Some d)
      | OtherEvent \<Rightarrow> Some d)"

definition pc_timer_handler ::
    "'j cjson \<Rightarrow> ('q \<Rightarrow> (bytes \<times> 'q) option) \<Rightarrow> (nat \<Rightarrow> int) \<Rightarrow> 'q \<Rightarrow> 'm bt_of \<Rightarrow> ('q \<times> 'm bt_of) option" where
  "pc_timer_handler api recv now q d =
     do {
       (q, d) \<leftarrow> pc_control_poll api recv now q d;
       Some (q, upd_link (call_stack (StartTimer PcTimer 10)) d)
     }"

text \<open>
  The start-up: \<open>btstack_main\<close> as the calls it makes, in order, with their arguments (the sizes
  of the two service records are arguments because they are asserted; \<open>FirmwareRecords\<close> computes them).
\<close>

datatype setup_call =
    GapDiscoverableControl nat
  | GapSetClassOfDevice u32
  | GapSetLocalName string
  | GapSspSetNoInputNoOutput
  | GapLinkPolicyRoleSwitchSniff
  | GapSetAllowRoleSwitch bool
  | L2capInit
  | SdpInit
  | HidCreateSdpRecord u8 u8 bytes string
  | SdpRegisterHidService
  | DeviceIdCreateSdpRecord u16 u16 u16
  | SdpRegisterDeviceIdService
  | HidDeviceInit bool bytes
  | HidDeviceAcceptTruncated bool
  | RegisterHandlers
  | HciPowerOn

definition btstack_setup :: "setup_call list" where
  "btstack_setup =
     [GapDiscoverableControl 1, GapSetClassOfDevice 0x002508, GapSetLocalName ''Pro Controller'',
      GapSspSetNoInputNoOutput, GapLinkPolicyRoleSwitchSniff, GapSetAllowRoleSwitch True,
      L2capInit, SdpInit,
      HidCreateSdpRecord 0x08 33 hid_descriptor ''Pro Controller'', SdpRegisterHidService,
      DeviceIdCreateSdpRecord 0x057E 0x2009 0x0100, SdpRegisterDeviceIdService,
      HidDeviceInit False hid_descriptor, HidDeviceAcceptTruncated True, RegisterHandlers, HciPowerOn]"

text \<open>\<open>None\<close> is a failed assertion: a service record that is larger than its buffer.\<close>

definition btstack_main :: "bytes \<Rightarrow> nat \<Rightarrow> nat \<Rightarrow> 'm bt_of \<Rightarrow> (setup_call list \<times> 'm bt_of) option" where
  "btstack_main mac hid_len id_len d =
     (if hid_len \<le> 512 \<and> id_len \<le> 100
      then do { m \<leftarrow> memcpy (g_esp32_mac d) 0 mac 6; Some (btstack_setup, d\<lparr>g_esp32_mac := m\<rparr>) }
      else None)"

definition btstack_hid_init ::
    "int \<Rightarrow> bytes \<Rightarrow> nat \<Rightarrow> nat \<Rightarrow> int \<times> pc_resources \<Rightarrow> 'm bt_of \<Rightarrow> (int \<times> 'm bt_of) option" where
  "btstack_hid_init init_status mac hid_len id_len pc d =
     (if init_status \<noteq> 0 then Some (ESP_FAIL, d)
      else do {
        (_, d) \<leftarrow> btstack_main mac hid_len id_len d;
        (if fst pc \<noteq> ESP_OK then Some (fst pc, d)
         else Some (ESP_OK, upd_link (call_stack (StartTimer PcTimer 10)) d))
      })"

section \<open>The reply queue\<close>

definition link_ok :: "btstack_link \<Rightarrow> bool" where
  "link_ok l \<longleftrightarrow> length (replies l) = 8 \<and> reply_head l < 8 \<and> reply_count l \<le> 8
     \<and> (\<forall>s \<in> set (replies l). length (fst s) = 49 \<and> snd s \<le> 49)
     \<and> (\<not> is_connected l \<longrightarrow> reply_count l = 0)"

definition queued :: "btstack_link \<Rightarrow> bytes list" where
  "queued l = map (\<lambda>s. take (snd s) (fst s)) (ring_list (replies l) (reply_head l) (reply_count l))"

definition rq_ok :: "btstack_link \<Rightarrow> bool" where
  "rq_ok l \<longleftrightarrow> link_ok l \<and> is_connected l"

text \<open>Queueing a report of legal size, as the total function the queue contract wants.\<close>

definition enq_reply :: "bytes \<Rightarrow> btstack_link \<Rightarrow> btstack_link" where
  "enq_reply b l = the (btstack_hid_send_input_report b (length b) l)"

lemma length_queued [simp]: "length (queued l) = reply_count l"
  by (simp add: queued_def)

lemma call_stack_simps [simp]:
  "replies (call_stack c l) = replies l" "reply_head (call_stack c l) = reply_head l"
  "reply_count (call_stack c l) = reply_count l" "is_connected (call_stack c l) = is_connected l"
  "send_pending (call_stack c l) = send_pending l" "hid_cid (call_stack c l) = hid_cid l"
  "stack_calls (call_stack c l) = stack_calls l @ [c]"
  "input_report_count (call_stack c l) = input_report_count l"
  by (simp_all add: call_stack_def)

lemma queued_call [simp]: "queued (call_stack c l) = queued l"
  by (simp add: queued_def)

lemma link_ok_call [simp]: "link_ok (call_stack c l) = link_ok l"
  by (simp add: link_ok_def)

lemma send_reply_eq:
  assumes "link_ok l" and "0 < len" and "len \<le> 49" and "len \<le> length b"
  shows "btstack_hid_send_input_report b len l = Some (
    if \<not> is_connected l \<or> reply_count l = 8 then l
    else let t = (reply_head l + reply_count l) mod 8;
             l' = l\<lparr>replies := (replies l)[t := (take len b @ drop len (fst (replies l ! t)), len)],
                    reply_count := reply_count l + 1\<rparr>
         in if send_pending l then l'
            else call_stack (RequestCanSendNow (hid_cid l)) (l'\<lparr>send_pending := True\<rparr>))"
proof -
  let ?t = "(reply_head l + reply_count l) mod 8"
  have t: "?t < length (replies l)" using assms(1) by (simp add: link_ok_def)
  then have "length (fst (replies l ! ?t)) = 49"
    using assms(1) by (auto simp: link_ok_def dest: nth_mem)
  with t assms show ?thesis
    by (simp add: btstack_hid_send_input_report_def INPUT_REPORT_SIZE_def REPLY_QUEUE_SIZE_def Let_def)
qed

lemma send_reply_result:
  assumes "link_ok l" and "0 < len" and "len \<le> 49" and "len \<le> length b"
  shows "\<exists>l'. btstack_hid_send_input_report b len l = Some l' \<and> link_ok l'
    \<and> queued l' = (if is_connected l then fifo_step 8 (queued l) (Enq (take len b)) else queued l)
    \<and> is_connected l' = is_connected l \<and> hid_cid l' = hid_cid l"
proof (cases "\<not> is_connected l \<or> reply_count l = 8")
  case True
  with assms show ?thesis by (auto simp: send_reply_eq)
next
  case False
  define t where "t = (reply_head l + reply_count l) mod 8"
  define slot where "slot = (take len b @ drop len (fst (replies l ! t)), len)"
  define l1 where "l1 = l\<lparr>replies := (replies l)[t := slot], reply_count := reply_count l + 1\<rparr>"
  have len8: "length (replies l) = 8" and cnt: "reply_count l < 8"
    using assms(1) False by (auto simp: link_ok_def)
  have "t < length (replies l)" using len8 by (simp add: t_def)
  then have "length (fst (replies l ! t)) = 49"
    using assms(1) by (auto simp: link_ok_def dest: nth_mem)
  then have slot: "length (fst slot) = 49" "snd slot \<le> 49" "take (snd slot) (fst slot) = take len b"
    using assms(2-4) by (simp_all add: slot_def)
  have "ring_list (replies l1) (reply_head l1) (reply_count l1)
      = ring_list (replies l) (reply_head l) (reply_count l) @ [slot]"
    using ring_list_push [of "reply_count l" "replies l" "reply_head l" slot] cnt len8
    by (simp add: l1_def t_def)
  then have q: "queued l1 = queued l @ [take len b]"
    using slot(3) by (simp add: queued_def)
  have ok: "link_ok l1"
    using assms(1) False slot cnt
    by (auto simp: link_ok_def l1_def dest!: subsetD [OF set_update_subset_insert])
  have "btstack_hid_send_input_report b len l = Some (if send_pending l then l1
      else call_stack (RequestCanSendNow (hid_cid l)) (l1\<lparr>send_pending := True\<rparr>))"
    using assms False by (simp add: send_reply_eq Let_def t_def slot_def l1_def)
  moreover have "link_ok (l1\<lparr>send_pending := True\<rparr>) = link_ok l1" "queued (l1\<lparr>send_pending := True\<rparr>) = queued l1"
    "is_connected l1 = is_connected l" "hid_cid l1 = hid_cid l"
    by (simp_all add: link_ok_def queued_def) (simp_all add: l1_def)
  ultimately show ?thesis
    using False q ok cnt by auto
qed

lemma queued_pop: "link_ok l \<Longrightarrow> 0 < reply_count l \<Longrightarrow> queued (pop_reply l) = tl (queued l)"
  using ring_list_pop [of "replies l" "reply_head l" "reply_count l - 1"]
  by (simp add: queued_def pop_reply_def REPLY_QUEUE_SIZE_def link_ok_def map_tl)

lemma link_ok_pop: "link_ok l \<Longrightarrow> link_ok (pop_reply l)"
  by (auto simp: link_ok_def pop_reply_def REPLY_QUEUE_SIZE_def)

text \<open>Taking the head off, when there is one.\<close>

definition deq_reply :: "btstack_link \<Rightarrow> btstack_link" where
  "deq_reply l = (if reply_count l = 0 then l else pop_reply l)"

lemma enq_reply_result:
  assumes "rq_ok l" and "0 < length b" and "length b \<le> 49"
  shows "btstack_hid_send_input_report b (length b) l = Some (enq_reply b l)" "rq_ok (enq_reply b l)"
    "queued (enq_reply b l) = fifo_step 8 (queued l) (Enq b)"
  using send_reply_result [of l "length b" b] assms by (auto simp: rq_ok_def enq_reply_def)

interpretation rq: bounded_fifo rq_ok queued 8 "\<lambda>b. 0 < length b \<and> length b \<le> 49" enq_reply deq_reply
proof
  show "rq_ok l \<Longrightarrow> length (queued l) \<le> 8" for l
    by (simp add: rq_ok_def link_ok_def)
  show "rq_ok l \<Longrightarrow> queued (deq_reply l) = tl (queued l)" for l
    by (auto simp: deq_reply_def rq_ok_def queued_pop) (simp add: queued_def)
  show "rq_ok l \<Longrightarrow> rq_ok (deq_reply l)" for l
    by (auto simp: deq_reply_def rq_ok_def link_ok_pop) (simp add: pop_reply_def)
qed (simp_all add: enq_reply_result)

interpretation bt: transport btstack_hid_send_input_report "\<lambda>l. link_ok l \<and> is_connected l = c" queued for c
proof
  fix l len and b :: bytes
  assume ok: "link_ok l \<and> is_connected l = c" and "0 < len" "len \<le> 49" "len \<le> length b"
  from send_reply_result [OF _ this(2-4), of l] ok
  show "\<exists>l'. btstack_hid_send_input_report b len l = Some l' \<and> (link_ok l' \<and> is_connected l' = c)
      \<and> queued l' \<in> {queued l, queued l @ [take len b]}"
    by auto
qed

section \<open>Sending the next report\<close>

lemma upd_link_simps [simp]:
  "last_state (upd_link f d) = last_state d"
  "linked (upd_link f d) = linked d" "tag_loaded (upd_link f d) = tag_loaded d"
  "tag_crc (upd_link f d) = tag_crc d" "answers (upd_link f d) = answers d"
  "pc_inv (upd_link f d) = pc_inv d"
  by (simp_all add: upd_link_def dev_ok_def pc_inv_def)

text \<open>The message for the current state, and what taking it changes.\<close>

definition next_message :: "'m bt_of \<Rightarrow> bytes option" where
  "next_message d =
     (if queued (link d) \<noteq> [] then Some (0xA1 # hd (queued (link d)))
      else case s_stream_mode d of
        STREAM_MODE_0x3F \<Rightarrow> Some (0xA1 # simple_bytes False (ctrl d))
      | STREAM_MODE_0x30 \<Rightarrow> Some (0xA1 # full_bytes False 0x30 (s_timer d) (ctrl d))
      | STREAM_MODE_0x31 \<Rightarrow>
          Some (0xA1 # full_bytes False 0x31 (s_timer d) (ctrl d) @ front_packet (nfc d))
      | STREAM_MODE_NONE \<Rightarrow> None)"

definition streaming :: "'m bt_of \<Rightarrow> bool" where
  "streaming d \<longleftrightarrow> queued (link d) = []"

definition advanced :: "'m bt_of \<Rightarrow> 'm bt_of" where
  "advanced d = d\<lparr>virtual_grip := False,
     s_timer := (if s_stream_mode d \<in> {STREAM_MODE_0x30, STREAM_MODE_0x31} then s_timer d + 1 else s_timer d)\<rparr>"

lemma head_reply:
  assumes "link_ok l" and "queued l \<noteq> []"
  shows "rd (replies l) (reply_head l) = Some (replies l ! reply_head l)"
    "length (fst (replies l ! reply_head l)) = 49" "snd (replies l ! reply_head l) \<le> 49"
    "hd (queued l) = take (snd (replies l ! reply_head l)) (fst (replies l ! reply_head l))"
proof -
  have h: "reply_head l < length (replies l)" "0 < reply_count l"
    using assms by (auto simp: link_ok_def queued_def)
  then show "rd (replies l) (reply_head l) = Some (replies l ! reply_head l)" by simp
  from h show "length (fst (replies l ! reply_head l)) = 49" "snd (replies l ! reply_head l) \<le> 49"
    using assms(1) by (auto simp: link_ok_def dest: nth_mem)
  show "hd (queued l) = take (snd (replies l ! reply_head l)) (fst (replies l ! reply_head l))"
    using h by (simp add: queued_def hd_map ring_list_hd)
qed

lemma full_bytes_0x31: "(full_bytes g 0x30 t c)[0 := i] = full_bytes g i t c"
  by (simp add: full_bytes_def header_bytes_def)

lemma queued_empty: "queued l = [] \<longleftrightarrow> reply_count l = 0"
  by (simp add: queued_def)

lemma build_next_result:
  assumes "link_ok (link d)" and "dev_ok d"
  shows "\<exists>b. build_next_report d = Some (b, if streaming d then advanced d else d)
    \<and> (case next_message d of
         None \<Rightarrow> b = None
       | Some m \<Rightarrow> \<exists>msg len. b = Some (msg, len, streaming d \<and> s_stream_mode d = STREAM_MODE_0x31)
           \<and> len + 1 \<le> length msg \<and> take (len + 1) msg = m)"
proof (cases "streaming d")
  case False
  then have ne: "queued (link d) \<noteq> []" by (simp add: streaming_def)
  note hr = head_reply [OF assms(1) ne]
  let ?s = "replies (link d) ! reply_head (link d)"
  have "memcpy (0xA1 # replicate 362 0) 1 (fst ?s) (snd ?s)
      = Some (0xA1 # take (snd ?s) (fst ?s) @ drop (snd ?s) (replicate 362 0))"
    using hr(2,3) by simp
  moreover have "build_next_report d = do {
      msg \<leftarrow> memcpy (0xA1 # replicate 362 0) 1 (fst ?s) (snd ?s); Some (Some (msg, snd ?s, False), d) }"
    using ne hr(1) by (simp add: build_next_report_def INPUT_REPORT_0x31_SIZE_def queued_empty)
  ultimately show ?thesis
    using False ne hr by (simp add: next_message_def)
next
  case True
  then have z: "reply_count (link d) = 0" by (simp add: streaming_def queued_empty)
  have wf: "nfc_wf (nfc d)" using assms(2) by (simp add: dev_ok_def nfc_inv_wf)
  have b30: "at_offset 1 (\<lambda>b. input_report_build_0x30 False b t (ctrl d)) (0xA1 # replicate 362 0)
      = Some (0xA1 # full_bytes False 0x30 t (ctrl d) @ replicate 313 0)" for t
    by (simp add: at_offset_def build_0x30_eq INPUT_REPORT_SIZE_def)
  have b3F: "at_offset 1 (\<lambda>b. input_report_build_0x3F False b (ctrl d)) (0xA1 # replicate 362 0)
      = Some (0xA1 # simple_bytes False (ctrl d) @ replicate 350 0)"
    by (simp add: at_offset_def build_0x3F_eq)
  have b31: "at_offset 50 (\<lambda>b. nfc_peek b (nfc d)) (0xA1 # full_bytes False 0x31 t (ctrl d) @ replicate 313 0)
      = Some (0xA1 # full_bytes False 0x31 t (ctrl d) @ front_packet (nfc d))" for t
    using wf by (simp add: at_offset_def peek_eq)
  have w31: "wr (0xA1 # full_bytes False 0x30 t (ctrl d) @ replicate 313 0) 1 0x31
      = Some (0xA1 # full_bytes False 0x31 t (ctrl d) @ replicate 313 0)" for t
    by (simp add: list_update_append full_bytes_0x31)
  show ?thesis
  proof (cases "s_stream_mode d")
    case STREAM_MODE_NONE
    with True z show ?thesis
      by (simp add: build_next_report_def advanced_def next_message_def streaming_def queued_empty
          input_report_set_virtual_grip_def switch_proto_get_stream_mode_def Let_def)
  next
    case STREAM_MODE_0x3F
    with True z b3F show ?thesis
      by (simp add: build_next_report_def advanced_def next_message_def streaming_def queued_empty
          input_report_set_virtual_grip_def switch_proto_get_stream_mode_def Let_def
          INPUT_REPORT_0x31_SIZE_def)
  next
    case STREAM_MODE_0x30
    with True z b30 show ?thesis
      by (simp add: build_next_report_def advanced_def next_message_def streaming_def queued_empty
          input_report_set_virtual_grip_def switch_proto_get_stream_mode_def switch_proto_next_timer_def
          Let_def report_sizes)
  next
    case STREAM_MODE_0x31
    have "length (front_packet (nfc d)) = 313"
      using assms(2) by (simp add: dev_ok_def front_packet_valid valid_packet_length)
    with STREAM_MODE_0x31 True z b30 w31 b31 show ?thesis
      by (simp add: build_next_report_def advanced_def next_message_def streaming_def queued_empty
          input_report_set_virtual_grip_def switch_proto_get_stream_mode_def switch_proto_next_timer_def
          Let_def report_sizes)
  qed
qed

text \<open>The whole handler: the message goes out; what is taken depends on the transport's status.\<close>

definition sent_next :: "int \<Rightarrow> bytes \<Rightarrow> 'm bt_of \<Rightarrow> 'm bt_of" where
  "sent_next st m d =
     (let d1 = upd_link (call_stack (SendInterrupt (hid_cid (link d)) m) \<circ> (\<lambda>l. l\<lparr>send_pending := False\<rparr>))
                 (if streaming d then advanced d else d)
      in if st \<noteq> 0 then d1
         else if \<not> streaming d then upd_link pop_reply d1
         else upd_link (\<lambda>l. l\<lparr>input_report_count := input_report_count l + 1\<rparr>)
           (if s_stream_mode d = STREAM_MODE_0x31 then d1\<lparr>nfc := nfc_commit (nfc d)\<rparr> else d1))"

lemma upd_link_comp: "upd_link f (upd_link g d) = upd_link (f \<circ> g) d"
  by (simp add: upd_link_def)

lemma advanced_upd: "advanced (upd_link f d) = upd_link f (advanced d)"
  by (simp add: advanced_def upd_link_def)

lemma advanced_simps [simp]:
  "link (advanced d) = link d" "nfc (advanced d) = nfc d" "ctrl (advanced d) = ctrl d"
  "s_stream_mode (advanced d) = s_stream_mode d" "linked (advanced d) = linked d"
  "last_state (advanced d) = last_state d" "dev_ok (advanced d) = dev_ok d"
  "pc_inv d \<Longrightarrow> pc_inv (advanced d)"
  by (simp_all add: advanced_def dev_ok_def pc_inv_def)

lemma send_pending_simps [simp]:
  "queued (l\<lparr>send_pending := b\<rparr>) = queued l" "link_ok (l\<lparr>send_pending := b\<rparr>) = link_ok l"
  "queued (l\<lparr>input_report_count := n\<rparr>) = queued l" "link_ok (l\<lparr>input_report_count := n\<rparr>) = link_ok l"
  by (simp_all add: queued_def link_ok_def)

lemma send_next_result:
  assumes "link_ok (link d)" and "dev_ok d"
  shows "send_next_report st d = Some (case next_message d of
      None \<Rightarrow> upd_link (\<lambda>l. l\<lparr>send_pending := False\<rparr>) (if streaming d then advanced d else d)
    | Some m \<Rightarrow> sent_next st m d)"
proof -
  let ?d = "upd_link (\<lambda>l. l\<lparr>send_pending := False\<rparr>) d"
  have same: "streaming ?d = streaming d" "next_message ?d = next_message d" "s_stream_mode ?d = s_stream_mode d"
    "link_ok (link ?d)" "dev_ok ?d"
    using assms by (simp_all add: streaming_def next_message_def split: stream_mode_t.split)
  have ir: "(reply_count (link d) \<noteq> 0) = (\<not> streaming d)" by (simp add: streaming_def queued_empty)
  from build_next_result [OF same(4,5), unfolded same(1-3)] obtain b where
    b: "build_next_report ?d = Some (b, if streaming d then advanced ?d else ?d)"
    "case next_message d of
         None \<Rightarrow> b = None
       | Some m \<Rightarrow> \<exists>msg len. b = Some (msg, len, streaming d \<and> s_stream_mode d = STREAM_MODE_0x31)
           \<and> len + 1 \<le> length msg \<and> take (len + 1) msg = m" by blast
  show ?thesis
  proof (cases "next_message d")
    case None
    with b show ?thesis
      by (simp add: send_next_report_def Let_def advanced_upd)
  next
    case (Some m)
    with b(2) obtain msg len where
      m: "b = Some (msg, len, streaming d \<and> s_stream_mode d = STREAM_MODE_0x31)"
      "rd_range msg 0 (len + 1) = Some m" by auto
    have rc: "(0 < reply_count (link d)) = (\<not> streaming d)" "(reply_count (link d) = 0) = streaming d"
      using ir by auto
    show ?thesis
    proof (cases "streaming d")
      case True
      with b(1) Some m rc show ?thesis
        by (simp add: send_next_report_def Let_def sent_next_def upd_link_comp comp_def)
           (simp add: upd_link_def advanced_def)
    next
      case False
      with b(1) Some m rc show ?thesis
        by (simp add: send_next_report_def Let_def sent_next_def upd_link_comp comp_def)
    qed
  qed
qed

lemma next_message_None: "next_message d = None \<longleftrightarrow> streaming d \<and> s_stream_mode d = STREAM_MODE_NONE"
  by (auto simp: next_message_def streaming_def split: stream_mode_t.split)

lemma sent_next_simps [simp]:
  "ctrl (sent_next st m d) = ctrl d" "linked (sent_next st m d) = linked d"
  "last_state (sent_next st m d) = last_state d" "s_stream_mode (sent_next st m d) = s_stream_mode d"
  "is_connected (link (sent_next st m d)) = is_connected (link d)"
  "send_pending (link (sent_next st m d)) = False"
  "stack_calls (link (sent_next st m d)) = stack_calls (link d) @ [SendInterrupt (hid_cid (link d)) m]"
  "nfc (sent_next st m d) = (if st = 0 \<and> streaming d \<and> s_stream_mode d = STREAM_MODE_0x31
     then nfc_commit (nfc d) else nfc d)"
  by (simp_all add: sent_next_def Let_def pop_reply_def)

lemma sent_next_queue:
  assumes "link_ok (link d)"
  shows "queued (link (sent_next st m d)) = (if st = 0 then tl (queued (link d)) else queued (link d))"
    "link_ok (link (sent_next st m d))"
proof -
  let ?l = "call_stack (SendInterrupt (hid_cid (link d)) m) (link d\<lparr>send_pending := False\<rparr>)"
  have l: "link_ok ?l" "queued ?l = queued (link d)" using assms by simp_all
  have "0 < reply_count ?l" if "\<not> streaming d" using that by (simp add: streaming_def queued_empty)
  with queued_pop [OF l(1)] l show "queued (link (sent_next st m d))
      = (if st = 0 then tl (queued (link d)) else queued (link d))"
    by (auto simp: sent_next_def Let_def streaming_def)
  show "link_ok (link (sent_next st m d))"
    using l(1) link_ok_pop [OF l(1)] by (simp add: sent_next_def Let_def)
qed

lemma pc_inv_commit: "pc_inv d \<Longrightarrow> nfc d = n \<Longrightarrow> pc_inv (d\<lparr>nfc := nfc_commit n\<rparr>)"
  by (auto simp: pc_inv_def dev_ok_def nfc_inv_commit)

lemma pc_inv_sent_next: "pc_inv d \<Longrightarrow> pc_inv (sent_next st m d)"
  by (simp add: sent_next_def Let_def pc_inv_commit)

section \<open>The device under BTstack\<close>

text \<open>
  The invariant of the whole device: the parts' invariants, and the transport is connected
  exactly when the control channel believes so.
\<close>

definition bt_inv :: "'m bt_of \<Rightarrow> bool" where
  "bt_inv d \<longleftrightarrow> pc_inv d \<and> link_ok (link d) \<and> (is_connected (link d) \<longleftrightarrow> linked d)"

text \<open>The events that reach the handlers, with what the stack and the clock answer.\<close>

datatype 'q bt_event =
    Packet u32 int hci_event
  | InputTimerTick u32
  | PcTimerTick "nat \<Rightarrow> int" 'q
  | OutputReport u32 u16 int "bytes option"
  | SetReport u32 int "bytes option"

definition report_readable :: "int \<Rightarrow> bytes option \<Rightarrow> bool" where
  "report_readable n r = (case r of None \<Rightarrow> True | Some b \<Rightarrow> n \<le> int (length b))"

fun bt_event_ok :: "'q bt_event \<Rightarrow> bool" where
  "bt_event_ok (PcTimerTick now q) = (\<forall>k. now k \<noteq> 0)"
| "bt_event_ok (OutputReport now i n r) = report_readable n r"
| "bt_event_ok (SetReport now n r) = report_readable n r"
| "bt_event_ok _ = True"

fun bt_step :: "'j cjson \<Rightarrow> ('q \<Rightarrow> (bytes \<times> 'q) option) \<Rightarrow> 'q bt_event \<Rightarrow> 'm bt_of \<Rightarrow> 'm bt_of option" where
  "bt_step api recv (Packet now st ev) d = packet_handler now st ev d"
| "bt_step api recv (InputTimerTick now) d = Some (input_timer_handler now d)"
| "bt_step api recv (PcTimerTick now q) d = map_option snd (pc_timer_handler api recv now q d)"
| "bt_step api recv (OutputReport now i n r) d = report_data_callback now i n r d"
| "bt_step api recv (SetReport now n r) d = set_report_callback now n r d"

text \<open>The packet that a callback builds in its local buffer, and its length.\<close>

definition output_packet :: "u16 \<Rightarrow> int \<Rightarrow> bytes \<Rightarrow> bytes \<times> nat" where
  "output_packet i n r = (let k = nat (min n 64) in ((ucast i # take k r) @ replicate (64 - k) 0, k + 1))"

definition set_packet :: "int \<Rightarrow> bytes \<Rightarrow> bytes \<times> nat" where
  "set_packet n r = (let k = nat (min n 65) in (take k r @ replicate (65 - k) 0, k))"

text \<open>The event carries the one request that the flash read does not survive.\<close>

fun wild_event :: "'q bt_event \<Rightarrow> bool" where
  "wild_event (OutputReport now i n (Some r)) = (0 < n \<and> (case output_packet i n r of (p, k) \<Rightarrow> wild_request p k))"
| "wild_event (SetReport now n (Some r)) = (0 < n \<and> (case set_packet n r of (p, k) \<Rightarrow> wild_request p k))"
| "wild_event _ = False"

lemma track_output_eq:
  assumes "len \<le> length p"
  shows "\<exists>f. track_output now p len d
      = switch_proto_handle_output btstack_hid_send_input_report (Some p) len (upd_link f d)
    \<and> (\<forall>l. link_ok (f l) = link_ok l \<and> is_connected (f l) = is_connected l \<and> queued (f l) = queued l
         \<and> stack_calls (f l) = stack_calls l \<and> send_pending (f l) = send_pending l
         \<and> hid_cid (f l) = hid_cid l)"
proof -
  let ?f = "\<lambda>l. l\<lparr>last_rx_ms := now, stalled_logged := False\<rparr>"
  let ?g = "\<lambda>l. (?f l)\<lparr>last_subcmd := p ! 10\<rparr>"
  have inv: "link_ok (?f l) = link_ok l" "queued (?f l) = queued l" "link_ok (?g l) = link_ok l"
    "queued (?g l) = queued l" for l
    by (simp_all add: link_ok_def queued_def)
  show ?thesis
  proof (cases "11 \<le> len")
    case True
    then have "11 \<le> length p" using assms by simp
    then have "rd p 0 = Some (p ! 0)" "rd p 10 = Some (p ! 10)" by (auto intro!: rd_Some)
    with True inv show ?thesis
      by (intro exI [of _ "if p ! 0 = 1 then ?g else ?f"])
         (simp add: track_output_def upd_link_comp comp_def Let_def)
  next
    case False
    with inv show ?thesis
      by (intro exI [of _ ?f]) (simp add: track_output_def)
  qed
qed

lemma track_output_wild:
  assumes "wild_request p len" and "len \<le> length p"
  shows "track_output now p len d = None"
  using track_output_eq [OF assms(2), of now d] by (auto simp: handle_output_wild [OF assms])

lemma pc_inv_frame: "pc_inv d \<Longrightarrow> proto_frame d d' \<Longrightarrow> dev_ok d' \<Longrightarrow> pc_inv d'"
  unfolding proto_frame_def by (elim exE conjE) (simp add: pc_inv_def)

lemma linked_frame: "proto_frame d d' \<Longrightarrow> linked d' = linked d"
  unfolding proto_frame_def by (elim exE conjE) simp

lemma track_output_total:
  assumes "bt_inv d" and "len \<le> length p" and "\<not> wild_request p len"
  shows "\<exists>d'. track_output now p len d = Some d' \<and> bt_inv d'
    \<and> (queued (link d') = queued (link d) \<or> (\<exists>r. queued (link d') = queued (link d) @ [r]
         \<and> length r = 49 \<and> r ! 0 = 0x21))"
proof -
  from track_output_eq [OF assms(2), of now d] obtain f where
    f: "track_output now p len d
      = switch_proto_handle_output btstack_hid_send_input_report (Some p) len (upd_link f d)"
    "\<forall>l. link_ok (f l) = link_ok l \<and> is_connected (f l) = is_connected l \<and> queued (f l) = queued l" by blast
  let ?d = "upd_link f d" let ?c = "is_connected (link d)"
  have pre: "dev_ok ?d" "link_ok (link ?d) \<and> is_connected (link ?d) = ?c" "pc_inv ?d"
    using assms(1) f(2) by (simp_all add: bt_inv_def pc_inv_def)
  from bt.handle_output_total [OF pre(1,2) assms(2,3)] obtain d' where
    d': "switch_proto_handle_output btstack_hid_send_input_report (Some p) len ?d = Some d'"
      "dev_ok d'" "link_ok (link d') \<and> is_connected (link d') = ?c" "proto_frame ?d d'"
      "queued (link d') = queued (link ?d) \<or> (\<exists>i pl. queued (link d') = queued (link ?d)
         @ [reply_bytes (virtual_grip ?d) (s_timer ?d) (ctrl ?d) i pl])" by blast
  moreover have "reply_bytes g t c i pl ! 0 = 0x21" for g t c i pl
    by (simp add: reply_bytes_def header_bytes_def)
  moreover have "bt_inv d'"
    using pc_inv_frame [OF pre(3) d'(4,2)] linked_frame [OF d'(4)] d'(3) assms(1) by (simp add: bt_inv_def)
  ultimately show ?thesis using f by auto
qed

lemma callback_packets:
  assumes "report_readable n (Some r)" and "0 < n"
  shows "report_data_callback now i n (Some r) d
      = (case output_packet i n r of (p, k) \<Rightarrow> track_output now p k d)"
    and "set_report_callback now n (Some r) d = (case set_packet n r of (p, k) \<Rightarrow> track_output now p k d)"
    and "case output_packet i n r of (p, k) \<Rightarrow> k \<le> length p"
    and "case set_packet n r of (p, k) \<Rightarrow> k \<le> length p"
proof -
  have k: "nat (min n 64) \<le> length r" "nat (min n 64) \<le> 64" "nat (min n 65) \<le> length r" "nat (min n 65) \<le> 65"
    using assms by (auto simp: report_readable_def)
  have m: "(if n > 64 then 64 else n) = min n 64" "(if n > 65 then 65 else n) = min n 65" by auto
  have rep: "replicate 65 (0 :: u8) = 0 # replicate 64 0"
    by (simp add: replicate_Suc [symmetric] del: replicate_Suc)
  show "report_data_callback now i n (Some r) d
      = (case output_packet i n r of (p, k) \<Rightarrow> track_output now p k d)"
    using assms(2) k by (simp add: report_data_callback_def output_packet_def m rep Let_def)
  show "set_report_callback now n (Some r) d = (case set_packet n r of (p, k) \<Rightarrow> track_output now p k d)"
    using assms(2) k by (simp add: set_report_callback_def set_packet_def m Let_def)
  show "case output_packet i n r of (p, k) \<Rightarrow> k \<le> length p" "case set_packet n r of (p, k) \<Rightarrow> k \<le> length p"
    using k by (simp_all add: output_packet_def set_packet_def Let_def)
qed

lemma callback_skip:
  "report = None \<or> n \<le> 0 \<Longrightarrow> report_data_callback now i n report d = Some d"
  "report = None \<or> n \<le> 0 \<Longrightarrow> set_report_callback now n report d = Some d"
  by (auto simp: report_data_callback_def set_report_callback_def split: option.split)

lemma pc_inv_init: "pc_inv d \<Longrightarrow> pc_inv (switch_proto_init d)"
  by (simp add: pc_inv_def switch_proto_init_def dev_ok_def nfc_inv_reset) (simp add: nfc_reset_def)

lemma connection_simps [simp]:
  "link (pc_control_connection c d) = link d" "linked (pc_control_connection c d) = c"
  "link (switch_proto_init d) = link d" "linked (switch_proto_init d) = linked d"
  "neutral (ctrl (pc_control_connection c d))" "ctrl (switch_proto_init d) = ctrl d"
  by (simp_all add: pc_control_connection_def switch_proto_init_def)

lemma pc_inv_grip: "pc_inv d \<Longrightarrow> pc_inv (d\<lparr>virtual_grip := False\<rparr>)"
  by (simp add: pc_inv_def dev_ok_def)

lemma bt_inv_opened:
  assumes "bt_inv d" shows "bt_inv (on_connection_opened now cid d)"
proof -
  have "link_ok (link (on_connection_opened now cid d))"
    using assms by (simp add: on_connection_opened_def Let_def bt_inv_def link_ok_def)
  moreover have "pc_inv (on_connection_opened now cid d)"
    using assms by (simp add: on_connection_opened_def Let_def bt_inv_def pc_inv_init pc_inv_connection
        pc_inv_grip input_report_set_virtual_grip_def)
  ultimately show ?thesis
    by (simp add: bt_inv_def) (simp add: on_connection_opened_def Let_def)
qed

lemma bt_inv_closed:
  assumes "bt_inv d" shows "bt_inv (on_connection_closed d)"
proof -
  have "link_ok (link (on_connection_closed d))"
    using assms by (simp add: on_connection_closed_def Let_def bt_inv_def link_ok_def)
  moreover have "pc_inv (on_connection_closed d)"
    using assms by (simp add: on_connection_closed_def Let_def bt_inv_def pc_inv_connection
        pc_inv_grip input_report_set_virtual_grip_def)
  ultimately show ?thesis
    by (simp add: bt_inv_def) (simp add: on_connection_closed_def Let_def)
qed

lemma bt_inv_upd:
  "bt_inv d \<Longrightarrow> (\<And>l. link_ok l \<Longrightarrow> link_ok (f l)) \<Longrightarrow> (\<And>l. is_connected (f l) = is_connected l)
   \<Longrightarrow> bt_inv (upd_link f d)"
  by (simp add: bt_inv_def)

lemma link_ok_stalled [simp]: "link_ok (l\<lparr>stalled_logged := b\<rparr>) = link_ok l"
  by (simp add: link_ok_def)

lemma bt_inv_input_timer: "bt_inv d \<Longrightarrow> bt_inv (input_timer_handler now d)"
  unfolding input_timer_handler_def Let_def by (auto intro!: bt_inv_upd)

lemma send_next_total:
  assumes "bt_inv d"
  shows "\<exists>d'. send_next_report st d = Some d' \<and> bt_inv d'"
proof -
  from assms have l: "link_ok (link d)" "dev_ok d" "pc_inv d" "is_connected (link d) \<longleftrightarrow> linked d"
    by (simp_all add: bt_inv_def pc_inv_def)
  show ?thesis
  proof (cases "next_message d")
    case None
    with l show ?thesis
      by (simp add: send_next_result bt_inv_def)
  next
    case (Some m)
    with l sent_next_queue(2) [OF l(1)] show ?thesis
      by (simp add: send_next_result bt_inv_def pc_inv_sent_next)
  qed
qed

lemma poll_total:
  assumes "bt_inv d" and "\<forall>k. now k \<noteq> 0"
  shows "\<exists>q' d'. pc_control_poll api recv now q d = Some (q', d') \<and> bt_inv d'"
proof -
  have "pc_inv d" using assms(1) by (simp add: bt_inv_def)
  from poll_commands_total [OF this assms(2), of api recv 4 q] obtain q' d' where
    "poll_commands api recv now 4 q d = Some (q', d')" "pc_inv d'" "link d' = link d" "linked d' = linked d"
    by blast
  with assms(1) show ?thesis by (auto simp: pc_control_poll_def bt_inv_def pc_inv_release)
qed

text \<open>Every event is handled, unless it is the wild request; the handlers keep the invariant.\<close>

lemma bt_step_total:
  assumes "bt_inv d" and "bt_event_ok ev" and "\<not> wild_event ev"
  shows "\<exists>d'. bt_step api recv ev d = Some d' \<and> bt_inv d'"
proof (cases ev)
  case (Packet now st e)
  show ?thesis
  proof (cases e)
    case HidCanSendNow
    with Packet assms(1) send_next_total [OF assms(1), of st] show ?thesis
      by (simp add: packet_handler_def)
  next
    case (UserConfirmationRequest a)
    with Packet assms(1) show ?thesis
      by (auto simp: packet_handler_def intro!: bt_inv_upd)
  qed (use Packet assms(1) in \<open>simp_all add: packet_handler_def bt_inv_opened bt_inv_closed\<close>)
next
  case (InputTimerTick now)
  with assms(1) show ?thesis by (simp add: bt_inv_input_timer)
next
  case (PcTimerTick now q)
  with assms(2) poll_total [OF assms(1), of now api recv q] show ?thesis
    by (auto simp: pc_timer_handler_def intro!: bt_inv_upd)
next
  case (OutputReport now i n r)
  show ?thesis
  proof (cases "r = None \<or> n \<le> 0")
    case True
    with OutputReport assms(1) show ?thesis by (simp add: callback_skip(1) [OF True])
  next
    case False
    then obtain b where b: "r = Some b" "0 < n" by auto
    then have rr: "report_readable n (Some b)" using assms(2) OutputReport by simp
    obtain p k where pk: "output_packet i n b = (p, k)" by (cases "output_packet i n b")
    with callback_packets(3) [OF rr b(2), of i] have "k \<le> length p" by simp
    moreover have "\<not> wild_request p k" using assms(3) OutputReport b pk by simp
    ultimately show ?thesis
      using track_output_total [OF assms(1), of k p now] callback_packets(1) [OF rr b(2), of now i d]
        OutputReport b pk by auto
  qed
next
  case (SetReport now n r)
  show ?thesis
  proof (cases "r = None \<or> n \<le> 0")
    case True
    with SetReport assms(1) show ?thesis by (simp add: callback_skip(2) [OF True])
  next
    case False
    then obtain b where b: "r = Some b" "0 < n" by auto
    then have rr: "report_readable n (Some b)" using assms(2) SetReport by simp
    obtain p k where pk: "set_packet n b = (p, k)" by (cases "set_packet n b")
    with callback_packets(4) [OF rr b(2)] have "k \<le> length p" by simp
    moreover have "\<not> wild_request p k" using assms(3) SetReport b pk by simp
    ultimately show ?thesis
      using track_output_total [OF assms(1), of k p now] callback_packets(2) [OF rr b(2), of now d]
        SetReport b pk by auto
  qed
qed

definition bt_link_boot :: btstack_link where
  "bt_link_boot = \<lparr>hid_cid = 0, is_connected = False, send_pending = False,
     replies = replicate 8 (replicate 49 0, 0), reply_head = 0, reply_count = 0,
     input_report_count = 0, last_rx_ms = 0, last_subcmd = 0, stalled_logged = False, stack_calls = []\<rparr>"

definition bt_boot :: "btstack_link pc_dev" where
  "bt_boot = \<lparr>ctrl = controller_state_init controller_static, virtual_grip = False, nfc = nfc_boot,
     s_stream_mode = STREAM_MODE_0x30, s_timer = 0, s_stream_enabled = False, g_esp32_mac = replicate 6 0,
     link = bt_link_boot, last_state = 0, linked = False, tag_loaded = False, tag_crc = 0, answers = []\<rparr>"

inductive bt_reachable :: "'j cjson \<Rightarrow> ('q \<Rightarrow> (bytes \<times> 'q) option) \<Rightarrow> btstack_link pc_dev \<Rightarrow> bool"
  for api recv where
  boot: "bt_reachable api recv bt_boot"
| start: "btstack_hid_init st mac hid_len id_len pc bt_boot = Some (ESP_OK, d) \<Longrightarrow> length mac = 6
    \<Longrightarrow> bt_reachable api recv d"
| step: "bt_reachable api recv d \<Longrightarrow> bt_event_ok ev \<Longrightarrow> bt_step api recv ev d = Some d'
    \<Longrightarrow> bt_reachable api recv d'"

lemma bt_inv_boot: "bt_inv bt_boot"
  by (simp add: bt_inv_def bt_boot_def bt_link_boot_def pc_inv_def dev_ok_def nfc_inv_boot link_ok_def)
     (simp add: nfc_boot_def)

lemma btstack_hid_init_state:
  assumes "btstack_hid_init st mac hid_len id_len pc d = Some (ESP_OK, d')" and "length mac = 6"
    and "length (g_esp32_mac d) = 6"
  shows "d' = upd_link (call_stack (StartTimer PcTimer 10)) (d\<lparr>g_esp32_mac := mac\<rparr>)"
  using assms
  by (auto simp: btstack_hid_init_def btstack_main_def ESP_OK_def ESP_FAIL_def bind_eq_Some_conv split: if_splits)

lemma bt_step_wild:
  assumes "bt_event_ok ev" and "wild_event ev"
  shows "bt_step api recv ev d = None"
proof -
  from assms(2) show ?thesis
  proof (cases ev rule: wild_event.cases)
    case (1 now i n r)
    with assms have rr: "report_readable n (Some r)" "0 < n" by simp_all
    obtain p k where pk: "output_packet i n r = (p, k)" by (cases "output_packet i n r")
    with callback_packets(3) [OF rr, of i] assms(2) 1 show ?thesis
      by (simp add: track_output_wild callback_packets(1) [OF rr])
  next
    case (2 now n r)
    with assms have rr: "report_readable n (Some r)" "0 < n" by simp_all
    obtain p k where pk: "set_packet n r = (p, k)" by (cases "set_packet n r")
    with callback_packets(4) [OF rr] assms(2) 2 show ?thesis
      by (simp add: track_output_wild callback_packets(2) [OF rr])
  qed simp_all
qed

lemma bt_reachable_inv: "bt_reachable api recv d \<Longrightarrow> bt_inv d"
proof (induction rule: bt_reachable.induct)
  case boot
  show ?case by (rule bt_inv_boot)
next
  case (start st mac hid_len id_len pc d)
  then have "d = upd_link (call_stack (StartTimer PcTimer 10)) (bt_boot\<lparr>g_esp32_mac := mac\<rparr>)"
    by (intro btstack_hid_init_state) (simp_all add: bt_boot_def)
  with bt_inv_boot start(2) show ?case
    by (auto simp: bt_inv_def pc_inv_def dev_ok_def link_ok_def call_stack_def)
next
  case (step d ev d')
  have "\<not> wild_event ev" using bt_step_wild [OF step.hyps(2), of api recv d] step.hyps(3) by auto
  with bt_step_total [OF step.IH step.hyps(2), of api recv] step.hyps(3) show ?case by auto
qed

text \<open>A connected state for the witnesses, and one that streams NFC reports.\<close>

definition bt_open :: "btstack_link pc_dev" where
  "bt_open = on_connection_opened 5 0x40 bt_boot"

lemma bt_open_reachable: "bt_reachable api recv bt_open"
  by (rule bt_reachable.step [OF bt_reachable.boot, of "Packet 5 0 (HidConnectionOpened 0 0x40)"])
     (simp_all add: packet_handler_def bt_open_def)

lemma bt_open_simps [simp]:
  "is_connected (link bt_open)" "queued (link bt_open) = []" "hid_cid (link bt_open) = 0x40"
  "send_pending (link bt_open) = False" "s_stream_mode bt_open = STREAM_MODE_0x30" "s_timer bt_open = 0"
  "ctrl bt_open = controller_state_init controller_static" "linked bt_open"
  by (simp_all add: bt_open_def on_connection_opened_def Let_def queued_def switch_proto_init_def
      pc_control_connection_def release_def upd_link_def bt_boot_def controller_state_init_def call_stack_def)

section \<open>The reply queue under retransmission\<close>

text \<open>The interrupt messages that were handed to BTstack, oldest first.\<close>

definition frames_sent :: "'m bt_of \<Rightarrow> bytes list" where
  "frames_sent d = concat (map (\<lambda>c. case c of SendInterrupt cid m \<Rightarrow> [m] | _ \<Rightarrow> []) (stack_calls (link d)))"

lemma frames_sent_next [simp]: "frames_sent (sent_next st m d) = frames_sent d @ [m]"
  by (simp add: frames_sent_def)

text \<open>
  A run of the transport: replies are queued, and CAN_SEND_NOW events try to send, each with the
  status that BTstack returns.  The run collects the messages that BTstack was given and accepted
  while replies were waiting; with none waiting, an attempt sends a stream report instead.
\<close>

datatype reply_event = Reply bytes | TrySend int

fun reply_run :: "reply_event list \<Rightarrow> 'm bt_of \<Rightarrow> (bytes list \<times> 'm bt_of) option" where
  "reply_run [] d = Some ([], d)"
| "reply_run (Reply r # es) d =
     do { l \<leftarrow> btstack_hid_send_input_report r (length r) (link d); reply_run es (d\<lparr>link := l\<rparr>) }"
| "reply_run (TrySend st # es) d =
     do {
       d1 \<leftarrow> send_next_report st d;
       let given = drop (length (frames_sent d)) (frames_sent d1);
       (ms, d2) \<leftarrow> reply_run es d1;
       Some (if st = 0 \<and> \<not> streaming d then given @ ms else ms, d2)
     }"

fun reply_ops :: "reply_event list \<Rightarrow> bytes qop list" where
  "reply_ops [] = []"
| "reply_ops (Reply r # es) = Enq r # reply_ops es"
| "reply_ops (TrySend st # es) = (if st = 0 then [Deq] else []) @ reply_ops es"

lemma reply_run_fifo:
  assumes "bt_inv d" and "is_connected (link d)"
    and "\<forall>r. Reply r \<in> set es \<longrightarrow> 0 < length r \<and> length r \<le> 49"
  shows "\<exists>d'. reply_run es d = Some (map ((#) 0xA1) (fifo_out 8 (queued (link d)) (reply_ops es)), d')
    \<and> queued (link d') = foldl (fifo_step 8) (queued (link d)) (reply_ops es) \<and> bt_inv d'"
  using assms
proof (induction es arbitrary: d)
  case Nil
  then show ?case by simp
next
  case (Cons e es)
  have ok: "rq_ok (link d)" "dev_ok d" "link_ok (link d)"
    using Cons.prems(1,2) by (simp_all add: bt_inv_def rq_ok_def pc_inv_def)
  show ?case
  proof (cases e)
    case (Reply r)
    then have r: "0 < length r" "length r \<le> 49" using Cons.prems(3) by auto
    let ?d = "d\<lparr>link := enq_reply r (link d)\<rparr>"
    note er = enq_reply_result [OF ok(1) r]
    have "bt_inv ?d" "is_connected (link ?d)"
      using Cons.prems(1,2) er(2) by (simp_all add: bt_inv_def rq_ok_def pc_inv_def dev_ok_def)
    from Cons.IH [OF this] Cons.prems(3) Reply er show ?thesis
      by (simp del: fifo_step.simps)
  next
    case (TrySend st)
    from send_next_total [OF Cons.prems(1), of st] obtain d1 where
      d1: "send_next_report st d = Some d1" "bt_inv d1" by blast
    note sent = send_next_result [OF ok(3,2), of st, unfolded d1(1)]
    have rest: "\<forall>r. Reply r \<in> set es \<longrightarrow> 0 < length r \<and> length r \<le> 49" using Cons.prems(3) by auto
    have c1: "is_connected (link d1)"
      using sent Cons.prems(2) by (auto split: option.splits)
    note IH = Cons.IH [OF d1(2) c1 rest]
    show ?thesis
    proof (cases "streaming d")
      case True
      then have e: "queued (link d) = []" by (simp add: streaming_def)
      then have "queued (link d1) = []"
        using sent sent_next_queue(1) [OF ok(3), of st]
        by (auto simp: True split: option.splits)
      with IH d1(1) e True TrySend show ?thesis by (auto simp: Let_def)
    next
      case False
      then have ne: "queued (link d) \<noteq> []" by (simp add: streaming_def)
      then have d1e: "d1 = sent_next st (0xA1 # hd (queued (link d))) d"
        using sent by (simp add: next_message_def)
      then have "drop (length (frames_sent d)) (frames_sent d1) = [0xA1 # hd (queued (link d))]"
        "queued (link d1) = (if st = 0 then tl (queued (link d)) else queued (link d))"
        by (simp_all add: sent_next_queue(1) [OF ok(3)])
      with IH d1(1) ne False TrySend show ?thesis by (auto simp: Let_def)
    qed
  qed
qed

section \<open>What the report descriptor declares\<close>

definition declared_bits :: "u8 \<Rightarrow> nat" where
  "declared_bits rid = input_bits hid_descriptor rid 0 0 0 hid_descriptor"

lemma declared:
  "declared_bits 0x21 = 8 * 48" "declared_bits 0x30 = 8 * 48" "declared_bits 0x31 = 8 * 361"
  "declared_bits 0x3F = 8 * 11"
  by (simp_all add: declared_bits_def hid_descriptor_def)

definition reply_shape :: "'m bt_of \<Rightarrow> bool" where
  "reply_shape d \<longleftrightarrow> (\<forall>r \<in> set (queued (link d)). length r = 49 \<and> r ! 0 = 0x21)"

lemma reply_shape_same: "queued (link d') = queued (link d) \<Longrightarrow> reply_shape d \<Longrightarrow> reply_shape d'"
  by (simp add: reply_shape_def)

lemma reply_shape_track:
  assumes "bt_inv d" and "reply_shape d" and "len \<le> length p" and "track_output now p len d = Some d'"
  shows "reply_shape d'"
proof -
  have "\<not> wild_request p len"
    using track_output_wild [OF _ assms(3), of now d] assms(4) by auto
  from track_output_total [OF assms(1,3) this, of now] assms(2,4) show ?thesis
    by (auto simp: reply_shape_def)
qed

lemma reply_shape_input_timer: "reply_shape d \<Longrightarrow> reply_shape (input_timer_handler now d)"
  by (simp add: reply_shape_def input_timer_handler_def Let_def) (simp add: queued_def)

lemma queued_connection:
  "queued (link (on_connection_opened now cid d)) = []" "queued (link (on_connection_closed d)) = []"
  by (simp_all add: on_connection_opened_def on_connection_closed_def Let_def queued_def)

lemma reply_shape_packet:
  assumes "bt_inv d" and "reply_shape d" and "packet_handler now st e d = Some d'"
  shows "reply_shape d'"
proof (cases e)
  case (HidConnectionOpened st' cid)
  with assms(2,3) queued_connection(1) [of now cid d] show ?thesis
    by (auto simp: packet_handler_def reply_shape_def split: if_splits)
next
  case HidConnectionClosed
  with assms(3) queued_connection(2) [of d] show ?thesis
    by (auto simp: packet_handler_def reply_shape_def)
next
  case HidCanSendNow
  have l: "link_ok (link d)" "dev_ok d" using assms(1) by (simp_all add: bt_inv_def pc_inv_def)
  have sent: "reply_shape (sent_next st m d)" for m
    using assms(2) by (auto simp: reply_shape_def sent_next_queue(1) [OF l(1)] dest: in_set_tlD)
  have skip: "reply_shape (upd_link (\<lambda>l. l\<lparr>send_pending := False\<rparr>) (if streaming d then advanced d else d))"
    using assms(2) by (simp add: reply_shape_def)
  show ?thesis
  proof (cases "is_connected (link d) \<and> send_pending (link d)")
    case True
    with HidCanSendNow assms(3) have "send_next_report st d = Some d'" by (simp add: packet_handler_def)
    with sent skip show ?thesis by (auto simp: send_next_result [OF l] split: option.splits)
  next
    case False
    with HidCanSendNow assms(2,3) show ?thesis by (auto simp: packet_handler_def)
  qed
qed (use assms(2,3) in \<open>auto simp: packet_handler_def reply_shape_def\<close>)

lemma reply_shape_poll:
  assumes "bt_inv d" and "\<forall>k. now k \<noteq> 0" and "reply_shape d"
    and "pc_control_poll api recv now q d = Some (q', d')"
  shows "reply_shape d'"
proof -
  have "pc_inv d" using assms(1) by (simp add: bt_inv_def)
  from poll_commands_total [OF this assms(2), of api recv 4 q] obtain q1 d1 where
    "poll_commands api recv now 4 q d = Some (q1, d1)" "link d1 = link d" by blast
  with assms(3,4) show ?thesis by (auto simp: pc_control_poll_def reply_shape_def split: if_splits)
qed

lemma reply_shape_step:
  assumes "bt_inv d" and "reply_shape d" and "bt_event_ok ev" and "bt_step api recv ev d = Some d'"
  shows "reply_shape d'"
proof (cases ev)
  case (Packet now st e)
  with assms show ?thesis by (simp add: reply_shape_packet)
next
  case (InputTimerTick now)
  with assms show ?thesis by (auto simp: reply_shape_input_timer)
next
  case (PcTimerTick now q)
  with assms(4) obtain q1 d1 where
    "pc_control_poll api recv now q d = Some (q1, d1)" "d' = upd_link (call_stack (StartTimer PcTimer 10)) d1"
    by (auto simp: pc_timer_handler_def bind_eq_Some_conv)
  with reply_shape_poll [OF assms(1) _ assms(2), of now api recv q q1 d1] assms(3) PcTimerTick
  show ?thesis by (simp add: reply_shape_def)
next
  case (OutputReport now i n r)
  show ?thesis
  proof (cases "r = None \<or> n \<le> 0")
    case True
    with OutputReport assms show ?thesis by (simp add: callback_skip(1) [OF True])
  next
    case False
    then obtain b where b: "r = Some b" "0 < n" by auto
    then have rr: "report_readable n (Some b)" using assms(3) OutputReport by simp
    obtain p k where pk: "output_packet i n b = (p, k)" by (cases "output_packet i n b")
    with callback_packets(3) [OF rr b(2), of i] have "k \<le> length p" by simp
    from reply_shape_track [OF assms(1,2) this, of now d'] assms(4) OutputReport b pk show ?thesis
      by (simp add: callback_packets(1) [OF rr b(2)])
  qed
next
  case (SetReport now n r)
  show ?thesis
  proof (cases "r = None \<or> n \<le> 0")
    case True
    with SetReport assms show ?thesis by (simp add: callback_skip(2) [OF True])
  next
    case False
    then obtain b where b: "r = Some b" "0 < n" by auto
    then have rr: "report_readable n (Some b)" using assms(3) SetReport by simp
    obtain p k where pk: "set_packet n b = (p, k)" by (cases "set_packet n b")
    with callback_packets(4) [OF rr b(2)] have "k \<le> length p" by simp
    from reply_shape_track [OF assms(1,2) this, of now d'] assms(4) SetReport b pk show ?thesis
      by (simp add: callback_packets(2) [OF rr b(2)])
  qed
qed

lemma reply_shape_reachable: "bt_reachable api recv d \<Longrightarrow> reply_shape d"
proof (induction rule: bt_reachable.induct)
  case boot
  show ?case by (simp add: reply_shape_def bt_boot_def bt_link_boot_def queued_def)
next
  case (start st mac hid_len id_len pc d)
  then have "d = upd_link (call_stack (StartTimer PcTimer 10)) (bt_boot\<lparr>g_esp32_mac := mac\<rparr>)"
    by (intro btstack_hid_init_state) (simp_all add: bt_boot_def)
  then show ?case by (simp add: reply_shape_def bt_boot_def bt_link_boot_def queued_def call_stack_def)
next
  case (step d ev d')
  with reply_shape_step [OF bt_reachable_inv [OF step.hyps(1)] step.IH] show ?case by blast
qed

end
