(* ===== verification/NfcProtocol.thy ===== *)
theory NfcProtocol
  imports NfcMcu
begin

text \<open>
  What a console sees of the NFC microcontroller: the properties of \<open>main/nfc_mcu.c\<close> that
  span several of its operations.  \<open>transmit\<close> is the transport's side of the queue (it reads
  the front packet with \<open>nfc_peek\<close> and, after a successful transfer, takes it off with
  \<open>nfc_commit\<close>); \<open>tag_of_fragments\<close> is the reader's side of the whole-tag read.
\<close>

definition transmit :: "nfc_state \<Rightarrow> (bytes \<times> nfc_state) option" where
  "transmit s = do { out \<leftarrow> nfc_peek (replicate NFC_MCU_SIZE 0) s; Some (out, nfc_commit s) }"

text \<open>The first fragment carries 245 tag bytes after a 67-byte header, the second 295 after 7.\<close>

definition tag_of_fragments :: "bytes \<Rightarrow> bytes \<Rightarrow> bytes" where
  "tag_of_fragments p1 p2 = take 245 (drop 67 p1) @ take 295 (drop 7 p2)"

text \<open>A whole-tag read command with its thirteen setup bytes, as the console sends it.\<close>

definition read_command :: bytes where
  "read_command = [0x11, 0, 0, 0, 0, 0, 0, 0, 0, 0, 2, 6] @ replicate 13 0"

definition status_command :: bytes where
  "status_command = [0x11, 0, 0, 0, 0, 0, 0, 0, 0, 0, 1]"

definition start_command :: bytes where
  "start_command = [0x11, 0, 0, 0, 0, 0, 0, 0, 0, 0, 2, 1]"

definition poll_command :: bytes where
  "poll_command = [0x11, 0, 0, 0, 0, 0, 0, 0, 0, 0, 2, 4]"

text \<open>Driving the queue with status requests and transmissions; the packets sent are collected.\<close>

datatype traffic = StatusRequest | Transmit

fun traffic_run :: "traffic list \<Rightarrow> nfc_state \<Rightarrow> (bytes list \<times> nfc_state) option" where
  "traffic_run [] s = Some ([], s)"
| "traffic_run (StatusRequest # ts) s =
     do { (ok, s) \<leftarrow> nfc_command (Some status_command) 11 s; traffic_run ts s }"
| "traffic_run (Transmit # ts) s =
     (if q_count s = 0 then traffic_run ts s
      else do { (p, s) \<leftarrow> transmit s; (ps, s) \<leftarrow> traffic_run ts s; Some (p # ps, s) })"

fun traffic_op :: "u8 \<Rightarrow> traffic \<Rightarrow> bytes qop" where
  "traffic_op pw StatusRequest = Enq (status_packet pw)"
| "traffic_op pw Transmit = Deq"

section \<open>Lemmas\<close>

lemma transmit_eq: "nfc_wf s \<Longrightarrow> transmit s = Some (front_packet s, nfc_commit s)"
  by (simp add: transmit_def NFC_MCU_SIZE_def peek_eq)

lemma crc8_of_valid: "valid_packet p \<Longrightarrow> crc8_of p = 0"
proof -
  assume v: "valid_packet p"
  then have "p = take 312 p @ [p ! 312]"
    using id_take_nth_drop [of 312 p] by (simp add: valid_packet_def)
  then have "p = take 312 p @ [crc8_of (take 312 p)]"
    using v by (simp add: valid_packet_def)
  then show ?thesis by (metis crc8_of_append_self)
qed

lemma tag_of_fragments_eq:
  assumes "length t = 540"
  shows "tag_of_fragments (fragment1 t) (fragment2 t) = t"
proof -
  have u: "length (uid_bytes t) = 7" using assms by (simp add: length_uid_bytes)
  have "take 245 (drop 67 (fragment1 t)) = take 245 t"
    using assms u by (simp add: fragment1_def seal_def pad_body_def)
  moreover have "take 295 (drop 7 (fragment2 t)) = take 295 (drop 245 t)"
    using assms by (simp add: fragment2_def seal_def pad_body_def)
  moreover have "take 245 t @ take 295 (drop 245 t) = t"
    using assms by (simp add: take_add [symmetric])
  ultimately show ?thesis by (simp add: tag_of_fragments_def)
qed

lemma contents_tag_queued:
  assumes "nfc_wf s"
  shows "contents (tag_queued s) = [fragment1 (tag s), fragment2 (tag s), fragment_end (tag s)]"
proof -
  have "nfc_wf (push (fragment1 (tag s)) (flush s))"
       "nfc_wf (push (fragment2 (tag s)) (push (fragment1 (tag s)) (flush s)))"
    using assms by (auto simp: nfc_wf_push length_fragments nfc_wf_def [of s])
  with assms show ?thesis by (simp add: tag_queued_def contents_push q_count_push)
qed

lemma command_accept:
  assumes "nfc_wf s" and "command_ok p len s" and "len \<le> length p"
  shows "nfc_command (Some p) len s = Some (True, command_effect p (counted (Some p) len s))"
  using assms nfc_command_eq [of s "Some p" len] by simp

lemma status_request:
  assumes "nfc_wf s"
  shows "nfc_command (Some status_command) 11 s
    = Some (True, push (status_packet (power_state s)) (counted (Some status_command) 11 s))"
  using command_accept [of s status_command 11] assms
  by (simp add: status_command_def command_ok_def command_effect_def)

lemma poll_request:
  assumes "nfc_wf s" and "power_state s = 4" and "contents s = []"
  shows "nfc_command (Some poll_command) 12 s
    = Some (True, push (poll_answer s) (polled (counted (Some poll_command) 12 s)))"
proof -
  have "poll_command ! 0 = 0x11" "poll_command ! 10 = 2" "poll_command ! 11 = 4"
    "12 \<le> length poll_command" by (simp_all add: poll_command_def)
  moreover have "q_count s = 0" using assms(3) by (simp add: contents_def)
  moreover have "poll_answer (counted (Some poll_command) 12 s) = poll_answer s"
    by (simp add: poll_answer_def polled_def)
  ultimately show ?thesis
    using command_accept [of s poll_command 12] assms
    by (simp add: command_ok_def command_effect_def)
qed

lemma poll_packet_view:
  assumes "length u = 7"
  shows "take 8 (poll_packet st (Some u)) = [0x2a, 0, 5, 0, 0, 9, 0x31, st]"
    "take 7 (drop 16 (poll_packet st (Some u))) = u" "length (poll_packet st (Some u)) = 313"
    "take 8 (poll_packet st None) = [0x2a, 0, 5, 0, 0, 9, 0x31, st]"
    "take 304 (drop 8 (poll_packet st None)) = replicate 304 0" "length (poll_packet st None) = 313"
  using assms by (simp_all add: poll_packet_def seal_def pad_body_def)

lemma traffic_run_fifo:
  assumes "nfc_wf s"
  shows "\<exists>s'. traffic_run ts s
        = Some (fifo_out 4 (contents s) (map (traffic_op (power_state s)) ts), s')
      \<and> nfc_wf s'
      \<and> contents s' = foldl (fifo_step 4) (contents s) (map (traffic_op (power_state s)) ts)"
  using assms
proof (induction ts arbitrary: s)
  case Nil
  then show ?case by simp
next
  case (Cons t ts)
  show ?case
  proof (cases t)
    case StatusRequest
    let ?p = "status_packet (power_state s)"
    let ?s = "push ?p (counted (Some status_command) 11 s)"
    have "length ?p = 313" by (rule valid_packet_length) simp
    then have "nfc_wf ?s" and "contents ?s = fifo_step 4 (contents s) (Enq ?p)"
      using Cons.prems nq.contents_enq [of "counted (Some status_command) 11 s" ?p]
      by (simp_all add: nfc_wf_push del: fifo_step.simps)
    with Cons.IH [OF this(1)] StatusRequest Cons.prems show ?thesis
      by (simp add: status_request del: fifo_step.simps)
  next
    case Transmit
    show ?thesis
    proof (cases "q_count s = 0")
      case True
      then have "contents s = []" by (simp add: contents_def)
      with Cons.IH [OF Cons.prems] Transmit True show ?thesis by simp
    next
      case False
      then have "contents s \<noteq> []" by (simp add: contents_def)
      with Cons.IH [OF nq.inv_deq [OF Cons.prems]] Cons.prems Transmit False show ?thesis
        by (auto simp: transmit_eq nq.contents_deq front_packet_def)
    qed
  qed
qed

text \<open>Two reachable states for the witnesses: after boot, and with the reader mode selected.\<close>

definition nfc_ready :: nfc_state where
  "nfc_ready = powered 4 (powered 1 nfc_boot)"

lemma nfc_boot_simps:
  "contents nfc_boot = []" "power_state nfc_boot = 0" "poll_state nfc_boot = 0" "q_count nfc_boot = 0"
  "present nfc_boot = False" "seen nfc_boot = False"
  by (simp_all add: nfc_boot_def contents_def)

lemma nfc_ready_reachable: "nfc_reachable nfc_ready" "power_state nfc_ready = 4"
proof -
  have "nfc_step (NfcPower 1) nfc_boot = Some (powered 1 nfc_boot)"
    using nfc_power_eq [OF nfc_inv_wf [OF nfc_inv_boot]] by simp
  then have r: "nfc_reachable (powered 1 nfc_boot)"
    by (intro nfc_reachable.step [OF nfc_reachable.boot, of "NfcPower 1"]) simp_all
  have "nfc_step (NfcConfig (Some [0, 0, 4]) 3 (replicate 34 0)) (powered 1 nfc_boot) = Some nfc_ready"
    using nfc_config_eq [OF nfc_inv_wf [OF nfc_reachable_inv [OF r]],
        of "replicate 34 0" "Some [0, 0, 4]" 3] by (simp add: nfc_ready_def)
  then show "nfc_reachable nfc_ready"
    by (intro nfc_reachable.step [OF r, of "NfcConfig (Some [0, 0, 4]) 3 (replicate 34 0)"]) simp_all
  show "power_state nfc_ready = 4" by (simp add: nfc_ready_def)
qed

definition nfc_discovering :: nfc_state where
  "nfc_discovering = (counted (Some start_command) 12 nfc_ready)\<lparr>poll_state := 1\<rparr>"

lemma nfc_discovering_reachable:
  "nfc_reachable nfc_discovering" "power_state nfc_discovering = 4" "poll_state nfc_discovering \<noteq> 0"
proof -
  have "start_command ! 0 = 0x11" "start_command ! 10 = 2" "start_command ! 11 = 1"
    and len: "12 \<le> length start_command" by (simp_all add: start_command_def)
  then have "nfc_step (NfcCommand (Some start_command) 12) nfc_ready = Some nfc_discovering"
    using command_accept [of nfc_ready start_command 12] nfc_ready_reachable
    by (simp add: command_ok_def command_effect_def nfc_discovering_def nfc_reachable_inv nfc_inv_wf)
  then show "nfc_reachable nfc_discovering"
    using len
    by (intro nfc_reachable.step [OF nfc_ready_reachable(1), of "NfcCommand (Some start_command) 12"])
       simp_all
qed (simp_all add: nfc_discovering_def nfc_ready_reachable)

section \<open>Properties\<close>

text \<open>Property C1: memory safety of the NFC controller.  In a state that any sequence of the ten calls
  of \<open>nfc_mcu.h\<close> reaches, each of them, \<open>nfc_peek\<close>'s copy out of the queue included, returns without
  leaving a buffer, and the variables keep their ranges.\<close>

theorem nfc_safe:
  assumes "nfc_reachable s" and "nfc_args_ok op"
  shows "\<exists>s'. nfc_step op s = Some s' \<and> nfc_reachable s' \<and> length (tag s') = 540
    \<and> q_head s' < 4 \<and> q_count s' \<le> 4 \<and> power_state s' \<in> {0, 1, 4} \<and> poll_state s' \<in> {0, 1, 9}
    \<and> (poll_state s' \<noteq> 0 \<longrightarrow> power_state s' = 4) \<and> (poll_state s' = 9 \<longrightarrow> present s')"
proof -
  from nfc_step_total [OF nfc_reachable_inv [OF assms(1)] assms(2)]
  obtain s' where "nfc_step op s = Some s'" and "nfc_inv s'" by auto
  with assms show ?thesis
    by (auto simp: nfc_inv_def nfc_wf_def intro: nfc_reachable.step)
qed

theorem nfc_safe_witness:
  "\<exists>s'. nfc_step (NfcCommand (Some [0x11, 2]) 2) nfc_boot = Some s' \<and> q_count s' \<le> 4"
  using nfc_safe [OF nfc_reachable.boot, of "NfcCommand (Some [0x11, 2]) 2"] by auto

text \<open>The packet on offer is always well formed.\<close>

theorem nfc_peek_checksum:
  assumes "nfc_reachable s" and "313 \<le> length out"
  shows "\<exists>p. nfc_peek out s = Some (p @ drop 313 out) \<and> length p = 313
    \<and> nfc_crc8 p 312 = Some (p ! 312) \<and> nfc_crc8 p 313 = Some 0"
proof -
  have v: "valid_packet (front_packet s)" and "nfc_wf s"
    using nfc_reachable_inv [OF assms(1)] by (simp_all add: front_packet_valid nfc_inv_wf)
  with assms(2) show ?thesis
    using crc8_of_valid [OF v] valid_packet_length [OF v]
    by (intro exI [of _ "front_packet s"])
       (simp add: peek_eq nfc_crc8_eq, simp add: valid_packet_def)
qed

theorem nfc_peek_checksum_witness:
  "\<exists>p. nfc_peek (replicate 363 0) nfc_boot = Some (p @ replicate 50 0) \<and> length p = 313
    \<and> nfc_crc8 p 312 = Some (p ! 312)"
  using nfc_peek_checksum [OF nfc_reachable.boot, of "replicate 363 0"] by auto

text \<open>Property C3: the queue between commands and transport is first-in first-out.\<close>

theorem nfc_queue_fifo:
  assumes "nfc_reachable s"
  shows "\<exists>sent s'. traffic_run ts s = Some (sent, s')
    \<and> sent @ contents s' = contents s @ fifo_accepted 4 (contents s) (map (traffic_op (power_state s)) ts)
    \<and> length (contents s') \<le> 4"
proof -
  have wf: "nfc_wf s" using assms by (simp add: nfc_reachable_inv nfc_inv_wf)
  from traffic_run_fifo [OF wf, of ts] obtain s' where s': "traffic_run ts s
      = Some (fifo_out 4 (contents s) (map (traffic_op (power_state s)) ts), s')" "nfc_wf s'"
      "contents s' = foldl (fifo_step 4) (contents s) (map (traffic_op (power_state s)) ts)"
    by auto
  with nq.bounded [OF s'(2)] show ?thesis
    by (auto simp: fifo_conservation simp del: length_contents)
qed

theorem nfc_queue_fifo_witness:
  "\<exists>sent s'. traffic_run [StatusRequest, StatusRequest, Transmit] nfc_boot = Some (sent, s')
    \<and> sent @ contents s' = [status_packet 0, status_packet 0]"
  using nfc_queue_fifo [OF nfc_reachable.boot, of "[StatusRequest, StatusRequest, Transmit]"]
  by (auto simp: nfc_boot_simps simp del: traffic_run.simps)

text \<open>Property C2: a tag that is loaded is read back whole.\<close>

theorem nfc_load_read_roundtrip:
  assumes "nfc_reachable s" and "power_state s = 4" and "length d = 540"
    and "nfc_load (Some d) 540 s = Some (ok, s0)"
  shows "ok \<and> (\<exists>s1 s2 s3 s4 p1 p2 p3. nfc_command (Some read_command) 25 s0 = Some (True, s1)
    \<and> transmit s1 = Some (p1, s2) \<and> transmit s2 = Some (p2, s3) \<and> transmit s3 = Some (p3, s4)
    \<and> tag_of_fragments p1 p2 = d \<and> take 16 p3 = wire_tail \<and> contents s4 = [])"
proof -
  have inv: "nfc_inv s" and wf: "nfc_wf s"
    using assms(1) by (simp_all add: nfc_reachable_inv nfc_inv_wf)
  have s0: "ok" "tag s0 = d" "present s0" "power_state s0 = 4"
    using assms(2,4) nfc_load_eq [OF wf assms(3)] by (auto simp: loaded_def split: if_splits)
  have wf0: "nfc_wf s0" by (rule nfc_inv_wf) (rule nfc_inv_load [OF inv assms(3,4)])
  have "command_ok read_command 25 s0"
    using s0 by (simp add: command_ok_def read_command_def)
  moreover have "command_effect read_command s = tag_queued s" for s
    by (simp add: command_effect_def read_command_def)
  moreover define s1 where "s1 = tag_queued (counted (Some read_command) 25 s0)"
  ultimately have cmd: "nfc_command (Some read_command) 25 s0 = Some (True, s1)"
    using command_accept [OF wf0, of read_command 25] by (simp add: read_command_def)
  have wf1: "nfc_wf s1"
    using wf0 s0 assms(3) by (simp add: s1_def tag_queued_def nfc_wf_push length_fragments)
  have q1: "contents s1 = [fragment1 d, fragment2 d, fragment_end d]"
    using wf0 s0 by (simp add: s1_def contents_tag_queued)
  have "take 16 (fragment_end d) = wire_tail"
    by (simp add: fragment_end_def seal_def pad_body_def)
  then show ?thesis
    using s0(1) cmd wf1 q1 tag_of_fragments_eq [OF assms(3)]
    by (auto simp: transmit_eq nq.inv_deq nq.contents_deq front_packet_def)
qed

theorem nfc_load_read_roundtrip_witness:
  "\<exists>s0 s1 s2 s3 p1 p2. nfc_load (Some (replicate 540 7)) 540 nfc_ready = Some (True, s0)
    \<and> nfc_command (Some read_command) 25 s0 = Some (True, s1)
    \<and> transmit s1 = Some (p1, s2) \<and> transmit s2 = Some (p2, s3)
    \<and> tag_of_fragments p1 p2 = replicate 540 7"
proof -
  have "nfc_wf nfc_ready"
    using nfc_ready_reachable(1) by (simp add: nfc_reachable_inv nfc_inv_wf)
  then obtain s0 where s0: "nfc_load (Some (replicate 540 7)) 540 nfc_ready = Some (True, s0)"
    using nfc_load_eq [of nfc_ready "replicate 540 7"] by simp
  from nfc_load_read_roundtrip [OF nfc_ready_reachable _ s0] s0 show ?thesis by force
qed

text \<open>Which commands the controller accepts, and that a refused one changes nothing.\<close>

theorem nfc_command_accepts:
  assumes "nfc_reachable s" and "readable packet len"
  shows "\<exists>ok s'. nfc_command packet len s = Some (ok, s') \<and> received s' = received s + 1
    \<and> (ok \<longleftrightarrow> (\<exists>p. packet = Some p \<and> 11 \<le> len \<and> p ! 0 = 0x11 \<and>
         (p ! 10 = 1 \<or> (p ! 10 = 2 \<and> 12 \<le> len \<and> power_state s = 4 \<and>
           (p ! 11 \<in> {1, 2, 4} \<or> (p ! 11 = 6 \<and> 25 \<le> len \<and> present s
              \<and> (\<forall>b \<in> set (take 7 (drop 18 p)). b = 0)))))))
    \<and> (if ok then rejected s' = rejected s
       else rejected s' = rejected s + 1 \<and> contents s' = contents s \<and> tag s' = tag s
         \<and> power_state s' = power_state s \<and> poll_state s' = poll_state s
         \<and> present s' = present s \<and> seen s' = seen s)"
proof (cases packet)
  case None
  with nfc_command_eq [OF nfc_inv_wf [OF nfc_reachable_inv [OF assms(1)]], of packet len]
  show ?thesis by (intro exI [of _ False] exI) (auto simp: None)
next
  case (Some p)
  have "rejected (command_effect p t) = rejected t \<and> received (command_effect p t) = received t" for t
    by (simp add: command_effect_def tag_queued_def polled_def)
  with nfc_command_eq [OF nfc_inv_wf [OF nfc_reachable_inv [OF assms(1)]], of packet len]
    assms(2) Some
  have "\<exists>ok s'. nfc_command packet len s = Some (ok, s') \<and> received s' = received s + 1
    \<and> (ok \<longleftrightarrow> command_ok p len s)
    \<and> (if ok then rejected s' = rejected s
       else rejected s' = rejected s + 1 \<and> contents s' = contents s \<and> tag s' = tag s
         \<and> power_state s' = power_state s \<and> poll_state s' = poll_state s
         \<and> present s' = present s \<and> seen s' = seen s)"
    by (cases "command_ok p len s") auto
  then show ?thesis unfolding Some command_ok_def by simp
qed

theorem nfc_command_accepts_witness:
  "\<exists>ok s'. nfc_command (Some [0x11, 0, 0, 0, 0, 0, 0, 0, 0, 0, 2, 4]) 12 nfc_boot = Some (ok, s')
    \<and> \<not> ok \<and> rejected s' = 1"
proof -
  have "power_state nfc_boot = 0" "rejected nfc_boot = 0" by (simp_all add: nfc_boot_def)
  with nfc_command_accepts [OF nfc_reachable.boot,
      of "Some [0x11, 0, 0, 0, 0, 0, 0, 0, 0, 0, 2, 4]" 12]
  show ?thesis by fastforce
qed

text \<open>How a tag that is put on the reader is reported: found, then stable.\<close>

theorem nfc_tag_arrival:
  assumes "nfc_reachable s" and "power_state s = 4" and "poll_state s \<noteq> 0" and "length d = 540"
  shows "\<exists>s1 s2 s3 s4 p1 p2. nfc_load (Some d) 540 s = Some (True, s1)
    \<and> transmit s1 = Some (p1, s2)
    \<and> take 8 p1 = [0x2a, 0, 5, 0, 0, 9, 0x31, 1] \<and> take 7 (drop 16 p1) = take 3 d @ take 4 (drop 4 d)
    \<and> nfc_command (Some poll_command) 12 s2 = Some (True, s3)
    \<and> transmit s3 = Some (p2, s4)
    \<and> take 8 p2 = [0x2a, 0, 5, 0, 0, 9, 0x31, 9] \<and> take 7 (drop 16 p2) = take 3 d @ take 4 (drop 4 d)"
proof -
  have wf: "nfc_wf s" using assms(1) by (simp add: nfc_reachable_inv nfc_inv_wf)
  have u: "length (uid_bytes d) = 7" using assms(4) by (simp add: length_uid_bytes)
  define t where "t = (loaded d s)\<lparr>poll_state := 1, seen := True\<rparr>"
  have t: "contents t = []" "power_state t = 4" "poll_state t = 1" "seen t" "present t" "tag t = d"
    "nfc_wf t"
    using wf assms(2,4) by (simp_all add: t_def loaded_def nfc_wf_def flush_def contents_def)
  define s1 where "s1 = push (poll_packet 1 (Some (uid_bytes d))) t"
  have load: "nfc_load (Some d) 540 s = Some (True, s1)"
    using nfc_load_eq [OF wf assms(4)] assms(2,3) by (simp add: s1_def t_def)
  have s1: "nfc_wf s1" "contents s1 = [poll_packet 1 (Some (uid_bytes d))]"
    using t poll_packet_view(3) [OF u] by (simp_all add: s1_def nfc_wf_push nq.contents_enq)
  define s2 where "s2 = nfc_commit s1"
  have s2: "nfc_wf s2" "contents s2 = []" "power_state s2 = 4" "poll_state s2 = 1" "seen s2"
    "present s2" "tag s2 = d"
    using t s1 by (simp_all add: s2_def nq.inv_deq nq.contents_deq) (simp_all add: s1_def)
  define s3 where "s3 = push (poll_answer s2) (polled (counted (Some poll_command) 12 s2))"
  have answer: "poll_answer s2 = poll_packet 9 (Some (uid_bytes d))"
    using s2 by (simp add: poll_answer_def polled_def)
  then have s3: "nfc_wf s3" "contents s3 = [poll_packet 9 (Some (uid_bytes d))]"
    using s2 poll_packet_view(3) [OF u] by (simp_all add: s3_def nfc_wf_push nq.contents_enq)
  show ?thesis
    using load poll_request [OF s2(1,3,2)] s1 s3 poll_packet_view [OF u]
    by (auto simp: transmit_eq front_packet_def s2_def s3_def uid_bytes_def)
qed

theorem nfc_tag_arrival_witness:
  "\<exists>s1 s2 p1. nfc_load (Some (replicate 540 7)) 540 nfc_discovering = Some (True, s1)
    \<and> transmit s1 = Some (p1, s2) \<and> take 8 p1 = [0x2a, 0, 5, 0, 0, 9, 0x31, 1]
    \<and> take 7 (drop 16 p1) = take 3 (replicate 540 7) @ take 4 (drop 4 (replicate 540 7))"
  using nfc_tag_arrival [OF nfc_discovering_reachable length_replicate, of 7] by blast

text \<open>Taking the tag off erases it and is reported, and reading is refused from then on.\<close>

theorem nfc_tag_departure:
  assumes "nfc_reachable s" and "power_state s = 4" and "poll_state s \<noteq> 0"
  shows "\<exists>s1 p. nfc_unload s = Some s1 \<and> tag s1 = replicate 540 0 \<and> \<not> present s1
    \<and> transmit s1 = Some (p, nfc_commit s1)
    \<and> take 8 p = [0x2a, 0, 5, 0, 0, 9, 0x31, 1] \<and> take 304 (drop 8 p) = replicate 304 0
    \<and> (\<exists>s2. nfc_command (Some read_command) 25 s1 = Some (False, s2) \<and> contents s2 = contents s1)"
proof -
  have inv: "nfc_inv s" and wf: "nfc_wf s"
    using assms(1) by (simp_all add: nfc_reachable_inv nfc_inv_wf)
  let ?t = "(unloaded s)\<lparr>poll_state := 1\<rparr>"
  let ?s1 = "push (poll_packet 1 None) ?t"
  have un: "nfc_unload s = Some ?s1"
    using nfc_unload_eq [OF wf] assms(2,3) by simp
  have t: "nfc_wf ?t" "contents ?t = []" "tag ?t = replicate 540 0" "\<not> present ?t"
    using wf by (simp_all add: unloaded_def) (simp_all add: nfc_wf_def)
  have len: "length (poll_packet 1 None) = 313"
    by (rule valid_packet_length) simp
  have s1: "nfc_wf ?s1" "contents ?s1 = [poll_packet 1 None]"
    using t len by (simp_all add: nfc_wf_push nq.contents_enq)
  have "\<not> command_ok read_command 25 ?s1"
    using t(4) by (simp add: command_ok_def read_command_def)
  then have cmd: "nfc_command (Some read_command) 25 ?s1
      = Some (False, (counted (Some read_command) 25 ?s1)\<lparr>rejected := rejected ?s1 + 1\<rparr>)"
    using nfc_command_eq [OF s1(1), of "Some read_command" 25] by (simp add: read_command_def)
  show ?thesis
    using un t cmd s1 poll_packet_view(4,5) [of "replicate 7 0"]
    by (auto simp: transmit_eq front_packet_def)
qed

theorem nfc_tag_departure_witness:
  "\<exists>s1 p. nfc_unload nfc_discovering = Some s1 \<and> tag s1 = replicate 540 0
    \<and> transmit s1 = Some (p, nfc_commit s1) \<and> take 8 p = [0x2a, 0, 5, 0, 0, 9, 0x31, 1]"
  using nfc_tag_departure [OF nfc_discovering_reachable] by blast

text \<open>The two mode requests, with every rejected value.\<close>

theorem nfc_mode_requests:
  assumes "nfc_reachable s" and "3 \<le> length a" and "length reply = 34"
  shows "(\<exists>r s'. nfc_config (Some a) (length a) reply s = Some (a ! 2 \<in> {0, 1, 4}, r, s') \<and> length r = 34
      \<and> (if a ! 2 \<in> {0, 1, 4} then take 8 r = [1, 0, 0xff, 0, 8, 0, 0x1b, 1] \<and> crc8_of r = 0
         else r = reply)
      \<and> (if a ! 2 \<in> {1, 4} \<and> power_state s \<noteq> 0
         then power_state s' = a ! 2 \<and> poll_state s' = 0 \<and> contents s' = [status_packet (a ! 2)]
         else s' = s))
    \<and> (\<exists>s'. nfc_power v s = Some (v \<in> {0, 1}, s')
      \<and> (if v \<in> {0, 1} then power_state s' = v \<and> poll_state s' = 0 \<and> contents s' = [status_packet v]
         else s' = s))"
proof (rule conjI)
  have wf: "nfc_wf s" using assms(1) by (simp add: nfc_reachable_inv nfc_inv_wf)
  have len: "length (status_packet m) = 313" for m by (rule valid_packet_length) simp
  have p: "contents (powered m s) = [status_packet m]" for m
    using wf len by (simp add: powered_def nq.contents_enq)
  have r: "length config_reply = 34" "take 8 config_reply = [1, 0, 0xff, 0, 8, 0, 0x1b, 1]"
    by (simp_all add: config_reply_def)
  have c: "crc8_of config_reply = 0"
    using crc8_of_append_self [of "[1, 0, 0xff, 0, 8, 0, 0x1b, 1] @ replicate 25 0"]
    by (simp add: config_reply_def)
  show "\<exists>r s'. nfc_config (Some a) (length a) reply s = Some (a ! 2 \<in> {0, 1, 4}, r, s') \<and> length r = 34
      \<and> (if a ! 2 \<in> {0, 1, 4} then take 8 r = [1, 0, 0xff, 0, 8, 0, 0x1b, 1] \<and> crc8_of r = 0
         else r = reply)
      \<and> (if a ! 2 \<in> {1, 4} \<and> power_state s \<noteq> 0
         then power_state s' = a ! 2 \<and> poll_state s' = 0 \<and> contents s' = [status_packet (a ! 2)]
         else s' = s)"
    using nfc_config_eq [OF wf assms(3), of "Some a" "length a"] assms(2,3) p r c
    by (cases "a ! 2 \<in> {0, 1, 4}") auto
  have v: "1 < v \<longleftrightarrow> v \<notin> {0, 1}" using u8_le_1 [of v] by (auto simp: not_less [symmetric])
  show "\<exists>s'. nfc_power v s = Some (v \<in> {0, 1}, s')
      \<and> (if v \<in> {0, 1} then power_state s' = v \<and> poll_state s' = 0 \<and> contents s' = [status_packet v]
         else s' = s)"
    using nfc_power_eq [OF wf, of v] p by (auto simp: v)
qed

theorem nfc_mode_requests_witness:
  "\<exists>r s'. nfc_config (Some [0, 0, 4]) (length [0, 0, 4 :: u8]) (replicate 34 0) nfc_ready = Some (True, r, s')
    \<and> crc8_of r = 0 \<and> power_state s' = 4"
proof -
  have "3 \<le> length [0, 0, 4 :: u8]" "[0, 0, 4 :: u8] ! 2 = 4" by simp_all
  with nfc_mode_requests [OF nfc_ready_reachable(1) this(1) length_replicate, of 0 0]
    nfc_ready_reachable(2) show ?thesis by simp blast
qed

end
