(* ===== verification/BtstackProtocol.thy ===== *)
theory BtstackProtocol
  imports BtstackHid NfcProtocol
begin

text \<open>
  The properties of the BTstack transport (\<open>main/btstack_hid.c\<close>) over the whole device: what
  reaches the console, in which order, and what a failed transmission or a lost connection does.
\<close>

section \<open>Messages on the air\<close>

lemma reachable_parts:
  assumes "bt_reachable api recv d"
  shows "bt_inv d" "pc_inv d" "dev_ok d" "link_ok (link d)" "reply_shape d" "sticks_12bit (ctrl d)"
  using bt_reachable_inv [OF assms] reply_shape_reachable [OF assms]
  by (simp_all add: bt_inv_def pc_inv_def)

lemma next_message_streaming:
  assumes "streaming d"
  shows "next_message d = (case s_stream_mode d of
        STREAM_MODE_0x3F \<Rightarrow> Some (0xA1 # simple_bytes False (ctrl d))
      | STREAM_MODE_0x30 \<Rightarrow> Some (0xA1 # full_bytes False 0x30 (s_timer d) (ctrl d))
      | STREAM_MODE_0x31 \<Rightarrow>
          Some (0xA1 # full_bytes False 0x31 (s_timer d) (ctrl d) @ front_packet (nfc d))
      | STREAM_MODE_NONE \<Rightarrow> None)"
  using assms by (simp add: next_message_def streaming_def)

text \<open>A failed transmission in streaming mode, and a series of them.\<close>

lemma sent_next_failed:
  assumes "st \<noteq> 0"
  shows "nfc (sent_next st m d) = nfc d" "queued (link (sent_next st m d)) = queued (link d)"
    "streaming (sent_next st m d) = streaming d" "hid_cid (link (sent_next st m d)) = hid_cid (link d)"
  using assms by (simp_all add: sent_next_def Let_def streaming_def)

lemma nfc_retries:
  assumes "bt_inv d" and "streaming d" and "s_stream_mode d = STREAM_MODE_0x31" and "\<forall>st \<in> set sts. st \<noteq> 0"
  shows "\<exists>d' fs. foldM send_next_report sts d = Some d' \<and> bt_inv d' \<and> streaming d'
    \<and> s_stream_mode d' = STREAM_MODE_0x31 \<and> nfc d' = nfc d \<and> frames_sent d' = frames_sent d @ fs
    \<and> length fs = length sts \<and> (\<forall>m \<in> set fs. m ! 1 = 0x31 \<and> drop 50 m = front_packet (nfc d))"
  using assms
proof (induction sts arbitrary: d)
  case Nil
  then show ?case by simp
next
  case (Cons st sts)
  define m where "m = 0xA1 # full_bytes False 0x31 (s_timer d) (ctrl d) @ front_packet (nfc d)"
  have ok: "link_ok (link d)" "dev_ok d" using Cons.prems(1) by (simp_all add: bt_inv_def pc_inv_def)
  have m: "next_message d = Some m"
    using Cons.prems(2,3) by (simp add: next_message_streaming m_def)
  have shape: "m ! 1 = 0x31 \<and> drop 50 m = front_packet (nfc d)"
    by (simp add: m_def nth_append full_bytes_id)
  let ?d = "sent_next st m d"
  have st: "st \<noteq> 0" using Cons.prems(4) by simp
  from send_next_total [OF Cons.prems(1), of st] m have "bt_inv ?d" by (simp add: send_next_result [OF ok])
  from Cons.IH [OF this] Cons.prems(2-4) sent_next_failed [OF st, of m d] obtain d' fs where
    "foldM send_next_report sts ?d = Some d'" "bt_inv d'" "streaming d'"
    "s_stream_mode d' = STREAM_MODE_0x31" "nfc d' = nfc d" "frames_sent d' = frames_sent ?d @ fs"
    "length fs = length sts" "\<forall>m \<in> set fs. m ! 1 = 0x31 \<and> drop 50 m = front_packet (nfc d)" by auto
  with m shape show ?case
    by (intro exI [of _ d'] exI [of _ "m # fs"]) (simp add: send_next_result [OF ok])
qed

text \<open>A subcommand that arrives as an output report, as one step of the device.\<close>

definition subcmd_report :: "u8 \<Rightarrow> bytes \<Rightarrow> bytes" where
  "subcmd_report i args = [0, 0, 0, 0, 0, 0, 0, 0, 0, i] @ args"

lemma subcmd_step:
  assumes "bt_reachable api recv d" and "is_connected (link d)" and "length args \<le> 54"
    and "\<not> spi_zero i (args @ replicate (54 - length args) 0) (length args)"
    and "subcmd_payload i (args @ replicate (54 - length args) 0) (length args) d = Some pl"
    and "reply_count (link d) < 8"
  shows "\<exists>d' r. bt_reachable api recv d' \<and> is_connected (link d') \<and> queued (link d') = queued (link d) @ [r]
    \<and> nfc d' = nfc (subcmd_effect i (args @ replicate (54 - length args) 0) (length args) d)
    \<and> s_stream_mode d' = s_stream_mode (subcmd_effect i (args @ replicate (54 - length args) 0) (length args) d)"
proof -
  let ?a = "args @ replicate (54 - length args) 0"
  let ?n = "length args"
  define p where "p = [0x01, 0, 0, 0, 0, 0, 0, 0, 0, 0, i] @ ?a"
  have sub: "subcmd_packet p (11 + ?n)" "11 + ?n \<le> length p" "p ! 10 = i" "drop 11 p = ?a" "11 + ?n - 11 = ?n"
    by (simp_all add: subcmd_packet_def p_def)
  from track_output_eq [OF sub(2), of 9 d] obtain f where
    f: "track_output 9 p (11 + ?n) d
        = switch_proto_handle_output btstack_hid_send_input_report (Some p) (11 + ?n) (upd_link f d)"
    "\<forall>l. link_ok (f l) = link_ok l \<and> is_connected (f l) = is_connected l \<and> queued (f l) = queued l" by blast
  let ?d = "upd_link f d"
  let ?e = "subcmd_effect i ?a ?n ?d"
  have ok: "dev_ok ?d" "link_ok (link ?d)" "is_connected (link ?d)" "queued (link ?d) = queued (link d)"
    using reachable_parts(3,4) [OF assms(1)] f(2) assms(2) by simp_all
  have "subcmd_payload i ?a ?n ?d = subcmd_payload i ?a ?n d"
    unfolding subcmd_payload_def upd_link_fields ..
  then have pl: "subcmd_payload i ?a ?n ?d = Some pl" using assms(5) by simp
  have eff: "nfc ?e = nfc (subcmd_effect i ?a ?n d)" "s_stream_mode ?e = s_stream_mode (subcmd_effect i ?a ?n d)"
    unfolding subcmd_effect_def upd_link_fields by (auto split: option.split)
  let ?r = "reply_bytes (virtual_grip d) (s_timer d) (ctrl d) i pl"
  from send_reply_result [OF ok(2), of 49 ?r] ok(3,4) assms(6) obtain l where
    l: "btstack_hid_send_input_report ?r 49 (link ?d) = Some l" "queued l = queued (link d) @ [?r]" "is_connected l"
    by auto
  let ?d' = "?e\<lparr>s_timer := s_timer ?d + 1, link := l\<rparr>"
  have le: "?n \<le> length ?a" by simp
  have "track_output 9 p (11 + ?n) d = Some ?d'"
    unfolding f(1) handle_output_subcmd [OF sub(1,2)] sub(3-5) dispatch_eq [OF ok(1) le assms(4)] pl
    using l(1) by (simp add: post_reply_def)
  moreover have "output_packet 1 (10 + int ?n) (subcmd_report i args) = (p, 11 + ?n)"
    using assms(3)
    by (simp add: output_packet_def subcmd_report_def p_def Let_def min_def nat_add_distrib)
  moreover have "report_readable (10 + int ?n) (Some (subcmd_report i args))"
    by (simp add: report_readable_def subcmd_report_def)
  ultimately have "bt_step api recv (OutputReport 9 1 (10 + int ?n) (Some (subcmd_report i args))) d = Some ?d'"
    and "bt_event_ok (OutputReport 9 1 (10 + int ?n) (Some (subcmd_report i args)))"
    by (simp_all add: callback_packets(1))
  from bt_reachable.step [OF assms(1) this(2,1)] l eff show ?thesis
    by (intro exI [of _ ?d'] exI [of _ ?r]) simp
qed

text \<open>Sending everything that waits.\<close>

lemma drain_replies:
  assumes "bt_reachable api recv d" and "is_connected (link d)"
  shows "\<exists>d'. bt_reachable api recv d' \<and> is_connected (link d') \<and> streaming d' \<and> nfc d' = nfc d
    \<and> s_stream_mode d' = s_stream_mode d"
  using assms
proof (induction "length (queued (link d))" arbitrary: d)
  case 0
  then show ?case by (intro exI [of _ d]) (simp add: streaming_def queued_empty)
next
  case (Suc n)
  let ?t = "input_timer_handler 1 d"
  have t: "bt_reachable api recv ?t"
    using bt_reachable.step [OF Suc.prems(1), of "InputTimerTick 1"] by simp
  note p = reachable_parts [OF t]
  from Suc.hyps(2) obtain r rs where r: "queued (link d) = r # rs" by (metis length_Suc_conv)
  have q: "queued (link ?t) = r # rs" "is_connected (link ?t)" "send_pending (link ?t)"
    "s_stream_mode ?t = s_stream_mode d" "nfc ?t = nfc d"
    using Suc.prems(2) r by (simp_all add: input_timer_handler_def Let_def queued_def)
  then have m: "next_message ?t = Some (0xA1 # r)" "\<not> streaming ?t"
    by (simp_all add: next_message_def streaming_def)
  let ?s = "sent_next 0 (0xA1 # r) ?t"
  have "bt_step api recv (Packet 2 0 HidCanSendNow) ?t = Some ?s"
    using q m by (simp add: packet_handler_def send_next_result [OF p(4,3)])
  then have s: "bt_reachable api recv ?s" by (intro bt_reachable.step [OF t, of "Packet 2 0 HidCanSendNow"]) simp_all
  have "queued (link ?s) = rs" using q(1) by (simp add: sent_next_queue(1) [OF p(4)])
  with Suc.hyps(2) r have "n = length (queued (link ?s))" by simp
  from Suc.hyps(1) [OF this s] q m(2) show ?case by simp
qed

text \<open>
  Two more reachable states for the witnesses: asked for NFC reports, the device owes the reply
  to the mode request; and, asked for the reader mode as well, it streams NFC reports.
\<close>

lemma bt_owing:
  "\<exists>d r. bt_reachable api recv d \<and> is_connected (link d) \<and> s_stream_mode d = STREAM_MODE_0x31
    \<and> queued (link d) = [r]"
proof -
  have "reply_count (link bt_open) = 0" using bt_open_simps(2) by (simp only: queued_empty)
  then show ?thesis
    using subcmd_step [OF bt_open_reachable [of api recv], of "[0x31]" 3]
    by (auto simp: spi_zero_def subcmd_payload_def subcmd_effect_def mode_of_def)
qed

lemma bt_reader_mode:
  "\<exists>d. bt_reachable api recv d \<and> is_connected (link d) \<and> streaming d \<and> s_stream_mode d = STREAM_MODE_0x31
    \<and> power_state (nfc d) = 4"
proof -
  obtain d1 r1 where d1: "bt_reachable api recv d1" "is_connected (link d1)" "s_stream_mode d1 = STREAM_MODE_0x31"
    "queued (link d1) = [r1]" using bt_owing by blast
  then have c1: "reply_count (link d1) = 1" by (metis One_nat_def length_Cons length_queued list.size(3))
  obtain d2 r2 where d2: "bt_reachable api recv d2" "is_connected (link d2)" "s_stream_mode d2 = STREAM_MODE_0x31"
    "queued (link d2) = [r1, r2]" "power_state (nfc d2) = 1"
    using subcmd_step [OF d1(1,2), of "[1]" "0x22"] d1(3,4) c1
    by (auto simp: spi_zero_def subcmd_payload_def subcmd_effect_def)
  then have c2: "reply_count (link d2) = 2" by (metis One_nat_def Suc_1 length_Cons length_queued list.size(3))
  obtain d3 where d3: "bt_reachable api recv d3" "is_connected (link d3)" "s_stream_mode d3 = STREAM_MODE_0x31"
    "power_state (nfc d3) = 4"
    using subcmd_step [OF d2(1,2), of "[0, 0, 4]" "0x21"] d2(3,5) c2
    by (auto simp: spi_zero_def subcmd_payload_def subcmd_effect_def)
  from drain_replies [OF d3(1,2)] d3(3,4) show ?thesis by auto
qed

lemma bt_streaming_nfc:
  "\<exists>d. bt_reachable api recv d \<and> streaming d \<and> s_stream_mode d = STREAM_MODE_0x31"
  using bt_reader_mode by blast

section \<open>Properties\<close>

text \<open>
  Property C7: no event sequence makes the device leave a buffer, except for exactly one kind of
  event: an output report or SET_REPORT that carries a flash read of zero bytes at address 0.
\<close>

theorem bt_memory_safe:
  assumes "bt_reachable api recv d" and "bt_event_ok ev"
  shows "(bt_step api recv ev d = None) \<longleftrightarrow> wild_event ev"
  using bt_step_wild [OF assms(2), of api recv d]
    bt_step_total [OF bt_reachable_inv [OF assms(1)] assms(2), of api recv]
  by (cases "wild_event ev") auto

theorem bt_memory_safe_witness:
  "bt_step demo_api list_recv (OutputReport 9 1 15 (Some ([0, 0, 0, 0, 0, 0, 0, 0, 0, 0x10, 0, 0, 0, 0, 0]))) bt_open = None
   \<and> bt_step demo_api list_recv (OutputReport 9 1 15 (Some ([0, 0, 0, 0, 0, 0, 0, 0, 0, 0x10, 0, 0, 0, 0, 1]))) bt_open \<noteq> None"
proof -
  let ?a = "OutputReport 9 1 15 (Some ([0, 0, 0, 0, 0, 0, 0, 0, 0, 0x10, 0, 0, 0, 0, 0])) :: bytes list bt_event"
  let ?b = "OutputReport 9 1 15 (Some ([0, 0, 0, 0, 0, 0, 0, 0, 0, 0x10, 0, 0, 0, 0, 1])) :: bytes list bt_event"
  have "wild_event ?a" "\<not> wild_event ?b" "bt_event_ok ?a" "bt_event_ok ?b"
    by (simp_all add: output_packet_def wild_request_def subcmd_packet_def spi_zero_def report_readable_def Let_def)
  with bt_memory_safe [OF bt_open_reachable [of demo_api list_recv], of ?a]
    bt_memory_safe [OF bt_open_reachable [of demo_api list_recv], of ?b] show ?thesis by simp
qed

text \<open>
  Property C9: what the console decodes from a full report is the controller state that the PC
  set, in either full mode; the virtual grip never presses a button.
\<close>

theorem bt_stream_shows_state:
  assumes "bt_reachable api recv d" and "streaming d" and "s_stream_mode d \<in> {STREAM_MODE_0x30, STREAM_MODE_0x31}"
  shows "\<exists>d' m. send_next_report st d = Some d' \<and> frames_sent d' = frames_sent d @ [m]
    \<and> m ! 0 = 0xA1 \<and> m ! 2 = s_timer d \<and> decode_state (drop 1 m) = ctrl d \<and> s_timer d' = s_timer d + 1"
proof -
  note p = reachable_parts [OF assms(1)]
  have timer: "full_bytes False i t c ! 1 = t" for i t c
    by (simp add: full_bytes_def header_bytes_def)
  have dec: "decode_state (full_bytes False i t (ctrl d)) = ctrl d" for i t
    using decode_full_bytes [OF p(6), of i t "[]"] by simp
  obtain m where m: "next_message d = Some m" "m ! 0 = 0xA1" "m ! 2 = s_timer d" "decode_state (drop 1 m) = ctrl d"
    using assms(2,3) dec decode_full_bytes [OF p(6)] timer
    by (auto simp: next_message_streaming nth_append)
  have "s_timer (sent_next st m d) = s_timer d + 1"
    using assms(2,3) by (auto simp: sent_next_def Let_def advanced_def)
  with m show ?thesis by (simp add: send_next_result [OF p(4,3)])
qed

theorem bt_stream_shows_state_witness:
  "\<exists>d' m. send_next_report 0 bt_open = Some d' \<and> frames_sent d' = frames_sent bt_open @ [m]
    \<and> decode_state (drop 1 m) = controller_state_init controller_static"
  using bt_stream_shows_state [OF bt_open_reachable [of demo_api list_recv], where st = 0]
  by (auto simp: streaming_def)

text \<open>
  Property C8: while the device is connected, the messages that carry replies (of 1 to 49 bytes; those of
  \<open>switch_proto.c\<close> have 49) reach BTstack in the order in which the replies were
  made and exactly once, whatever transmissions fail in between: the messages that
  \<open>hid_device_send_interrupt_message\<close> took while replies waited, followed by those of the replies
  still waiting, are the queue at the start followed by the replies that found room among the eight
  places, each with the transport header 0xA1 in front.
\<close>

theorem bt_reply_fifo:
  assumes "bt_reachable api recv d" and "is_connected (link d)"
    and "\<forall>r. Reply r \<in> set es \<longrightarrow> 0 < length r \<and> length r \<le> 49"
  shows "\<exists>sent d'. reply_run es d = Some (sent, d')
    \<and> sent @ map ((#) 0xA1) (queued (link d'))
      = map ((#) 0xA1) (queued (link d) @ fifo_accepted 8 (queued (link d)) (reply_ops es))
    \<and> length (queued (link d')) \<le> 8"
proof -
  from reply_run_fifo [OF reachable_parts(1) [OF assms(1)] assms(2,3)] obtain d' where
    d': "reply_run es d = Some (map ((#) 0xA1) (fifo_out 8 (queued (link d)) (reply_ops es)), d')"
      "queued (link d') = foldl (fifo_step 8) (queued (link d)) (reply_ops es)" "bt_inv d'" by blast
  have "length (queued (link d')) \<le> 8" using d'(3) by (simp add: bt_inv_def link_ok_def)
  with d' show ?thesis
    by (auto simp: fifo_conservation map_append [symmetric] simp del: length_queued map_append)
qed

theorem bt_reply_fifo_witness:
  "\<exists>sent d'. reply_run [Reply [1], Reply [2], TrySend 7, TrySend 0] bt_open = Some (sent, d')
    \<and> sent @ map ((#) 0xA1) (queued (link d')) = [[0xA1, 1], [0xA1, 2]]"
  using bt_reply_fifo [OF bt_open_reachable [of demo_api list_recv],
      of "[Reply [1], Reply [2], TrySend 7, TrySend 0]"] by auto

text \<open>
  Property C10: every interrupt message has the transport header 0xA1, a report ID of the
  descriptor, and exactly the number of bytes that the report descriptor declares for that ID.
\<close>

theorem bt_message_lengths:
  assumes "bt_reachable api recv d" and "next_message d = Some m"
  shows "\<exists>d'. send_next_report st d = Some d' \<and> frames_sent d' = frames_sent d @ [m] \<and> m ! 0 = 0xA1
    \<and> m ! 1 \<in> {0x21, 0x30, 0x31, 0x3F} \<and> 8 * (length m - 2) = declared_bits (m ! 1)"
proof -
  note p = reachable_parts [OF assms(1)]
  have "m ! 0 = 0xA1 \<and> m ! 1 \<in> {0x21, 0x30, 0x31, 0x3F} \<and> 8 * (length m - 2) = declared_bits (m ! 1)"
  proof (cases "streaming d")
    case True
    have "length (front_packet (nfc d)) = 313"
      using p(3) by (simp add: dev_ok_def front_packet_valid valid_packet_length)
    with True assms(2) show ?thesis
      by (auto simp: next_message_streaming declared nth_append full_bytes_id simple_bytes_id
          split: stream_mode_t.splits)
  next
    case False
    then have ne: "queued (link d) \<noteq> []" and m: "m = 0xA1 # hd (queued (link d))"
      using assms(2) by (auto simp: streaming_def next_message_def)
    then have "length (hd (queued (link d))) = 49 \<and> hd (queued (link d)) ! 0 = 0x21"
      using p(5) by (simp add: reply_shape_def)
    with m show ?thesis by (simp add: declared)
  qed
  with assms(2) show ?thesis by (simp add: send_next_result [OF p(4,3)])
qed

theorem bt_message_lengths_witness:
  "\<exists>d'. send_next_report 0 bt_open = Some d'
    \<and> frames_sent d' = frames_sent bt_open @ [0xA1 # full_bytes False 0x30 0 (controller_state_init controller_static)]"
proof -
  have "next_message bt_open = Some (0xA1 # full_bytes False 0x30 0 (controller_state_init controller_static))"
    by (simp add: next_message_def)
  from bt_message_lengths [OF bt_open_reachable [of demo_api list_recv] this, where st = 0] show ?thesis by blast
qed

text \<open>
  NFC packets are sent transactionally: however many attempts BTstack refuses, each
  repeats the same packet, and the packet leaves the queue with the attempt that succeeds.
\<close>

theorem bt_nfc_transactional:
  assumes "bt_reachable api recv d" and "streaming d" and "s_stream_mode d = STREAM_MODE_0x31"
    and "\<forall>st \<in> set sts. st \<noteq> 0"
  shows "\<exists>d' fs. foldM send_next_report (sts @ [0]) d = Some d' \<and> frames_sent d' = frames_sent d @ fs
    \<and> length fs = Suc (length sts) \<and> (\<forall>m \<in> set fs. m ! 1 = 0x31 \<and> drop 50 m = front_packet (nfc d))
    \<and> contents (nfc d') = tl (contents (nfc d))"
proof -
  from nfc_retries [OF reachable_parts(1) [OF assms(1)] assms(2-4)] obtain d1 fs where
    d1: "foldM send_next_report sts d = Some d1" "bt_inv d1" "streaming d1"
    "s_stream_mode d1 = STREAM_MODE_0x31" "nfc d1 = nfc d" "frames_sent d1 = frames_sent d @ fs"
    "length fs = length sts" "\<forall>m \<in> set fs. m ! 1 = 0x31 \<and> drop 50 m = front_packet (nfc d)" by blast
  define m where "m = 0xA1 # full_bytes False 0x31 (s_timer d1) (ctrl d1) @ front_packet (nfc d)"
  have ok: "link_ok (link d1)" "dev_ok d1" using d1(2) by (simp_all add: bt_inv_def pc_inv_def)
  then have wf: "nfc_wf (nfc d1)" by (simp add: dev_ok_def nfc_inv_wf)
  have "next_message d1 = Some m" using d1(3-5) by (simp add: next_message_streaming m_def)
  then have "send_next_report 0 d1 = Some (sent_next 0 m d1)" by (simp add: send_next_result [OF ok])
  moreover have "contents (nfc (sent_next 0 m d1)) = tl (contents (nfc d))"
    using d1(3-5) nq.contents_deq [OF wf] by simp
  moreover have "m ! 1 = 0x31 \<and> drop 50 m = front_packet (nfc d)"
    by (simp add: m_def nth_append full_bytes_id)
  ultimately show ?thesis
    using d1 by (intro exI [of _ "sent_next 0 m d1"] exI [of _ "fs @ [m]"]) (auto simp: foldM_append)
qed

theorem bt_nfc_transactional_witness:
  "\<exists>(d :: btstack_link pc_dev) d' fs. foldM send_next_report [1, 87, 0] d = Some d' \<and> frames_sent d' = frames_sent d @ fs
    \<and> length fs = 3 \<and> (\<forall>m \<in> set fs. drop 50 m = front_packet (nfc d))"
proof -
  obtain d where d: "bt_reachable demo_api list_recv d" "streaming d" "s_stream_mode d = STREAM_MODE_0x31"
    using bt_streaming_nfc by blast
  have "\<forall>st \<in> set [1, 87 :: int]. st \<noteq> 0" by simp
  from bt_nfc_transactional [OF d this] obtain d' fs where
    "foldM send_next_report ([1, 87] @ [0]) d = Some d'" "frames_sent d' = frames_sent d @ fs"
    "length fs = Suc (length [1, 87 :: int])"
    "\<forall>m \<in> set fs. m ! 1 = 0x31 \<and> drop 50 m = front_packet (nfc d)" by blast
  then show ?thesis
    by (intro exI [of _ d] exI [of _ d'] exI [of _ fs]) simp
qed

text \<open>
  A reply is never stuck: even after a failed attempt has dropped the send request,
  the next tick of the input timer asks again, and the following CAN_SEND_NOW hands the oldest
  reply to BTstack.
\<close>

theorem bt_reply_progress:
  assumes "bt_reachable api recv d" and "is_connected (link d)" and "queued (link d) = r # rs"
  shows "\<exists>d'. packet_handler now2 0 HidCanSendNow (input_timer_handler now d) = Some d'
    \<and> frames_sent d' = frames_sent d @ [0xA1 # r] \<and> queued (link d') = rs"
proof -
  let ?t = "input_timer_handler now d"
  have q: "queued (link ?t) = queued (link d)" "is_connected (link ?t)" "send_pending (link ?t)"
    "frames_sent ?t = frames_sent d"
    using assms(2) by (simp_all add: input_timer_handler_def Let_def queued_def frames_sent_def)
  have inv: "bt_inv ?t" by (rule bt_inv_input_timer [OF reachable_parts(1) [OF assms(1)]])
  then have ok: "link_ok (link ?t)" "dev_ok ?t" by (simp_all add: bt_inv_def pc_inv_def)
  have "next_message ?t = Some (0xA1 # r)" using q(1) assms(3) by (simp add: next_message_def)
  then show ?thesis
    using q assms(3) sent_next_queue(1) [OF ok(1), of 0 "0xA1 # r"]
    by (simp add: packet_handler_def send_next_result [OF ok])
qed

theorem bt_reply_progress_witness:
  "\<exists>(d :: btstack_link pc_dev) d' r. packet_handler 2 0 HidCanSendNow (input_timer_handler 1 d) = Some d'
    \<and> frames_sent d' = frames_sent d @ [0xA1 # r] \<and> queued (link d') = []"
proof -
  obtain d r where d: "bt_reachable demo_api list_recv d" "is_connected (link d)" "queued (link d) = [r]"
    using bt_owing by blast
  from bt_reply_progress [OF d, of 2 1] show ?thesis by blast
qed

text \<open>
  Losing the connection releases everything: the controller is neutral, no reply
  and no send request survives, and the control channel reports the console as absent; buttons
  are never held without a connection in any reachable state.
\<close>

theorem bt_disconnect_releases:
  assumes "bt_reachable api recv d"
  shows "(\<not> neutral (ctrl d) \<longrightarrow> is_connected (link d))
    \<and> (\<exists>d'. packet_handler now st HidConnectionClosed d = Some d' \<and> neutral (ctrl d')
       \<and> queued (link d') = [] \<and> \<not> send_pending (link d') \<and> hid_cid (link d') = 0
       \<and> \<not> is_connected (link d') \<and> \<not> linked d')"
proof (intro conjI)
  show "\<not> neutral (ctrl d) \<longrightarrow> is_connected (link d)"
    using reachable_parts(1,2) [OF assms] by (auto simp: bt_inv_def pc_inv_def)
  have "neutral (ctrl (on_connection_closed d))" "\<not> linked (on_connection_closed d)"
    by (simp_all add: on_connection_closed_def Let_def)
  moreover have "\<not> send_pending (link (on_connection_closed d))" "hid_cid (link (on_connection_closed d)) = 0"
    "\<not> is_connected (link (on_connection_closed d))"
    by (simp_all add: on_connection_closed_def Let_def)
  ultimately show "\<exists>d'. packet_handler now st HidConnectionClosed d = Some d' \<and> neutral (ctrl d')
       \<and> queued (link d') = [] \<and> \<not> send_pending (link d') \<and> hid_cid (link d') = 0
       \<and> \<not> is_connected (link d') \<and> \<not> linked d'"
    by (simp add: packet_handler_def queued_connection)
qed

theorem bt_disconnect_releases_witness:
  "\<exists>d'. packet_handler 9 0 HidConnectionClosed bt_open = Some d' \<and> neutral (ctrl d') \<and> queued (link d') = []"
  using bt_disconnect_releases [OF bt_open_reachable [of demo_api list_recv], of 9 0] by blast

end
