(* ===== verification/BtHid.thy ===== *)
theory BtHid
  imports SwitchProto EspCalls HidDescriptor
begin

text \<open>
  \<open>main/bt_hid.c\<close>: the Bluetooth Classic transport over ESP-IDF's Bluedroid.  Its static variables
  are the record \<open>bt_link\<close>; a timer handle is only compared with \<open>NULL\<close>, so it is the fact that
  the timer exists.  The calls into ESP-IDF are recorded in \<open>bt_calls\<close>; what they return, the list
  of bonded devices and the indeterminate contents of an uninitialised local array are in \<open>bt_env\<close>.
  \<open>None\<close> is undefined behaviour or the abort of a failed \<open>ESP_ERROR_CHECK\<close>.

  Bluetooth addresses are arrays of six bytes by their type, so \<open>memcmp\<close> over six bytes is equality.
\<close>

section \<open>The code: state and calls\<close>

datatype bt_timer = HidInput | HidPairing
datatype report_type = Intrdata | ReportType nat

record bt_qos =
  service_type :: nat
  token_rate :: nat
  token_bucket_size :: nat
  peak_bandwidth :: nat
  access_latency :: nat
  delay_variation :: nat

datatype bt_call =
    ReadBtMac
  | ControllerInit
  | ControllerEnableClassic
  | BluedroidInit
  | BluedroidEnable
  | GapRegisterCallback
  | GapSetDeviceName string
  | GapConfigEir
  | GapSetCod u32 u32 u32
  | GapSetIocapNone
  | HiddRegisterCallback
  | HiddDeviceInit
  | HiddRegisterApp string string string nat bytes bt_qos
  | GapStartDiscovery nat
  | GapCancelDiscovery
  | GapSetScanMode bool
  | GapReadRemoteName bytes
  | GapPinReply bytes bytes
  | GapSspConfirm bytes
  | HidConnect bytes
  | HidSendReport report_type u8 bytes
  | EspTimerCreate bt_timer
  | EspTimerStart bt_timer nat
  | EspTimerStop bt_timer
  | EspTimerDelete bt_timer

record bt_env =
  env_rc :: "bt_call \<Rightarrow> int"
  env_bond_count :: int
  env_bond_malloc :: bool
  env_bond_list :: "int \<times> bytes list"
  env_stack :: bytes

record bt_link =
  bt_connected :: bool
  s_send_in_progress :: bool
  s_input_timer :: bool
  s_pairing_timer :: bool
  s_disc_active :: bool
  s_connect_in_progress :: bool
  s_name_candidate_pending :: bool
  s_switch_candidate :: bytes
  s_switch_bd_addr :: bytes
  bt_calls :: "bt_call list"

type_synonym 'm bth_of = "(bt_link, 'm) dev_of"

definition bt_call :: "bt_call \<Rightarrow> bt_link \<Rightarrow> bt_link" where
  "bt_call c l = l\<lparr>bt_calls := bt_calls l @ [c]\<rparr>"

definition DEVICE_NAME :: string where "DEVICE_NAME = ''Pro Controller''"
definition DEVICE_COD :: u32 where "DEVICE_COD = 0x002508"

definition s_hid_descriptor :: bytes where
  "s_hid_descriptor =
    [0x05, 0x01, 0x09, 0x05, 0xA1, 0x01, 0x06, 0x01, 0xFF,
     0x85, 0x21, 0x09, 0x21, 0x75, 0x08, 0x95, 0x30, 0x81, 0x02,
     0x85, 0x30, 0x09, 0x30, 0x75, 0x08, 0x95, 0x30, 0x81, 0x02,
     0x85, 0x31, 0x09, 0x31, 0x75, 0x08, 0x96, 0x69, 0x01, 0x81, 0x02,
     0x85, 0x32, 0x09, 0x32, 0x75, 0x08, 0x96, 0x69, 0x01, 0x81, 0x02,
     0x85, 0x33, 0x09, 0x33, 0x75, 0x08, 0x96, 0x69, 0x01, 0x81, 0x02,
     0x85, 0x3F, 0x05, 0x09, 0x19, 0x01, 0x29, 0x10, 0x15, 0x00,
     0x25, 0x01, 0x75, 0x01, 0x95, 0x10, 0x81, 0x02, 0x05, 0x01,
     0x09, 0x39, 0x15, 0x00, 0x25, 0x07, 0x75, 0x04, 0x95, 0x01,
     0x81, 0x42, 0x05, 0x09, 0x75, 0x04, 0x95, 0x01, 0x81, 0x01,
     0x05, 0x01, 0x09, 0x30, 0x09, 0x31, 0x09, 0x33, 0x09, 0x34,
     0x16, 0x00, 0x00, 0x27, 0xFF, 0xFF, 0x00, 0x00, 0x75, 0x10,
     0x95, 0x04, 0x81, 0x02, 0x06, 0x01, 0xFF,
     0x85, 0x01, 0x09, 0x01, 0x75, 0x08, 0x95, 0x30, 0x91, 0x02,
     0x85, 0x10, 0x09, 0x10, 0x75, 0x08, 0x95, 0x30, 0x91, 0x02,
     0x85, 0x11, 0x09, 0x11, 0x75, 0x08, 0x95, 0x30, 0x91, 0x02,
     0x85, 0x12, 0x09, 0x12, 0x75, 0x08, 0x95, 0x30, 0x91, 0x02,
     0xC0]"

section \<open>The code: sending and timers\<close>

definition bt_hid_send_input_report :: "(bt_call \<Rightarrow> int) \<Rightarrow> bt_link sender" where
  "bt_hid_send_input_report rc b len l =
     (if \<not> bt_connected l then Some l
      else if s_send_in_progress l then Some l
      else
        let l = l\<lparr>s_send_in_progress := True\<rparr> in
        if len < 1 then Some l
        else do {
          report_id \<leftarrow> rd b 0;
          payload \<leftarrow> rd_range b 1 (len - 1);
          let c = HidSendReport Intrdata report_id payload;
          let l = bt_call c l;
          Some (if rc c \<noteq> ESP_OK then l\<lparr>s_send_in_progress := False\<rparr> else l)
        })"

definition send_built :: "(bt_call \<Rightarrow> int) \<Rightarrow> bytes \<Rightarrow> nat \<Rightarrow> 'm bth_of \<Rightarrow> 'm bth_of option" where
  "send_built rc buf len d = do { l \<leftarrow> bt_hid_send_input_report rc buf len (link d); Some (d\<lparr>link := l\<rparr>) }"

definition input_report_timer_cb :: "(bt_call \<Rightarrow> int) \<Rightarrow> 'm bth_of \<Rightarrow> 'm bth_of option" where
  "input_report_timer_cb rc d =
     (if \<not> bt_connected (link d) then Some d
      else
        let mode = switch_proto_get_stream_mode d;
            buf = replicate INPUT_REPORT_SIZE 0;
            (timer, d) = switch_proto_next_timer d in
        case mode of
          STREAM_MODE_0x3F \<Rightarrow>
            do { buf \<leftarrow> input_report_build_0x3F (virtual_grip d) buf (ctrl d); send_built rc buf 12 d }
        | STREAM_MODE_0x30 \<Rightarrow>
            do { buf \<leftarrow> input_report_build_0x30 (virtual_grip d) buf timer (ctrl d);
                 send_built rc buf INPUT_REPORT_SIZE d }
        | STREAM_MODE_0x31 \<Rightarrow>
            do { buf \<leftarrow> input_report_build_0x30 (virtual_grip d) buf timer (ctrl d);
                 send_built rc buf INPUT_REPORT_SIZE d }
        | STREAM_MODE_NONE \<Rightarrow> Some d)"

definition start_input_timer :: "(bt_call \<Rightarrow> int) \<Rightarrow> bt_link \<Rightarrow> bt_link option" where
  "start_input_timer rc l =
     (if s_input_timer l then Some l
      else if rc (EspTimerCreate HidInput) \<noteq> ESP_OK \<or> rc (EspTimerStart HidInput 15000) \<noteq> ESP_OK then None
      else Some (bt_call (EspTimerStart HidInput 15000)
             (bt_call (EspTimerCreate HidInput) (l\<lparr>s_input_timer := True\<rparr>))))"

definition stop_input_timer :: "bt_link \<Rightarrow> bt_link" where
  "stop_input_timer l =
     (if s_input_timer l
      then (bt_call (EspTimerDelete HidInput) (bt_call (EspTimerStop HidInput) l))\<lparr>s_input_timer := False\<rparr>
      else l)"

definition pairing_window_cb :: "bt_link \<Rightarrow> bt_link" where
  "pairing_window_cb l = (if \<not> bt_connected l then bt_call (GapSetScanMode True) l else l)"

definition start_pairing_window :: "(bt_call \<Rightarrow> int) \<Rightarrow> bt_link \<Rightarrow> bt_link option" where
  "start_pairing_window rc l =
     (if s_pairing_timer l then Some l
      else if rc (EspTimerCreate HidPairing) \<noteq> ESP_OK \<or> rc (EspTimerStart HidPairing 2000000) \<noteq> ESP_OK then None
      else Some (pairing_window_cb (bt_call (EspTimerStart HidPairing 2000000)
             (bt_call (EspTimerCreate HidPairing) (l\<lparr>s_pairing_timer := True\<rparr>)))))"

definition stop_pairing_window :: "bt_link \<Rightarrow> bt_link" where
  "stop_pairing_window l =
     (if s_pairing_timer l
      then (bt_call (EspTimerDelete HidPairing) (bt_call (EspTimerStop HidPairing) l))\<lparr>s_pairing_timer := False\<rparr>
      else l)"

section \<open>The code: GAP events\<close>

text \<open>
  C strings: \<open>cstr\<close> reads the array up to its NUL (\<open>None\<close>: there is none, so the read leaves the
  array), \<open>strncpy\<close> yields the string that the zeroed destination of \<open>n + 1\<close> bytes then holds, and
  \<open>strstr\<close> is the search of a literal.
\<close>

definition cstr :: "bytes \<Rightarrow> bytes option" where
  "cstr b = (if 0 \<in> set b then Some (takeWhile (\<lambda>c. c \<noteq> 0) b) else None)"

definition strncpy :: "nat \<Rightarrow> bytes \<Rightarrow> bytes option" where
  "strncpy n src =
     (let s = takeWhile (\<lambda>c. c \<noteq> 0) (take n src) in
      if length s < n \<and> length s = length src then None else Some s)"

fun strstr :: "bytes \<Rightarrow> string \<Rightarrow> bool" where
  "strstr [] needle \<longleftrightarrow> needle = []"
| "strstr (c # cs) needle \<longleftrightarrow> take (length needle) (c # cs) = map of_char needle \<or> strstr cs needle"

definition rd_le32 :: "bytes \<Rightarrow> u32 option" where
  "rd_le32 b = do { b0 \<leftarrow> rd b 0; b1 \<leftarrow> rd b 1; b2 \<leftarrow> rd b 2; b3 \<leftarrow> rd b 3;
     Some (ucast b0 OR push_bit 8 (ucast b1) OR push_bit 16 (ucast b2) OR push_bit 24 (ucast b3)) }"

text \<open>
  The properties of an inquiry result and the GAP events with the fields that the code reads;
  248 is \<open>ESP_BT_GAP_MAX_BDNAME_LEN\<close>.  The signal strength is read but only printed.
\<close>

datatype gap_prop = PropBdname bytes | PropCod bytes | PropRssi bytes | PropOther

datatype gap_event =
    AuthComplete
  | PinRequest bytes
  | ConfirmRequest bytes
  | KeyNotification
  | ModeChange
  | DiscStateChanged bool
  | DiscResult bytes "gap_prop list"
  | RemoteName bytes bool bytes
  | OtherGapEvent

definition disc_prop :: "gap_prop \<Rightarrow> bytes \<times> u32 \<Rightarrow> (bytes \<times> u32) option" where
  "disc_prop p nc =
     (case p of
        PropBdname v \<Rightarrow> do { name \<leftarrow> strncpy 248 v; Some (name, snd nc) }
      | PropCod v \<Rightarrow> do { cod \<leftarrow> rd_le32 v; Some (fst nc, cod) }
      | PropRssi v \<Rightarrow> do { _ \<leftarrow> rd v 0; Some nc }
      | PropOther \<Rightarrow> Some nc)"

definition looks_switch :: "u32 \<Rightarrow> bool" where
  "looks_switch cod =
     (let major = drop_bit 8 cod AND 0x1F; minor = drop_bit 2 cod AND 0x3F in
      (major = 0x05 \<and> minor = 0x02) \<or> major = 0x06)"

definition disc_result :: "(bt_call \<Rightarrow> int) \<Rightarrow> bytes \<Rightarrow> gap_prop list \<Rightarrow> 'm bth_of \<Rightarrow> 'm bth_of option" where
  "disc_result rc bda props d =
     do {
       (name, cod) \<leftarrow> foldM disc_prop props ([], 0);
       Some (if name = [] \<and> cod = 0 then d
         else if bda = g_esp32_mac d then d
         else if looks_switch cod \<and> \<not> s_name_candidate_pending (link d) then
           let d = upd_link (\<lambda>l. bt_call (GapReadRemoteName bda)
                     (l\<lparr>s_name_candidate_pending := True, s_switch_candidate := bda\<rparr>)) d
           in if rc (GapReadRemoteName bda) \<noteq> ESP_OK
              then upd_link (\<lambda>l. l\<lparr>s_name_candidate_pending := False\<rparr>) d else d
         else d)
     }"

definition console_name :: "bytes \<Rightarrow> bool" where
  "console_name name \<longleftrightarrow> strstr name ''Switch'' \<or> strstr name ''Nintendo'' \<or> strstr name ''Joy-Con''
     \<or> strstr name ''Pro Controller''"

definition remote_name :: "(bt_call \<Rightarrow> int) \<Rightarrow> bytes \<Rightarrow> bool \<Rightarrow> bytes \<Rightarrow> 'm bth_of \<Rightarrow> 'm bth_of option" where
  "remote_name rc bda success rmt_name d =
     (if bda \<noteq> s_switch_candidate (link d)
      then Some (upd_link (\<lambda>l. l\<lparr>s_name_candidate_pending := False\<rparr>) d)
      else
        let d = upd_link (\<lambda>l. l\<lparr>s_name_candidate_pending := False\<rparr>) d in
        if \<not> success then Some d
        else do {
          name \<leftarrow> cstr rmt_name;
          Some (if name = [] \<or> \<not> console_name name then d
            else
              let d = upd_link (\<lambda>l. (bt_call GapCancelDiscovery l)\<lparr>s_disc_active := False,
                        s_connect_in_progress := True, s_switch_bd_addr := bda\<rparr>) d;
                  d = upd_link (bt_call (HidConnect bda)) d
              in if rc (HidConnect bda) \<noteq> ESP_OK
                 then upd_link (\<lambda>l. l\<lparr>s_connect_in_progress := False\<rparr>) d else d)
        })"

definition bt_gap_cb :: "(bt_call \<Rightarrow> int) \<Rightarrow> gap_event \<Rightarrow> 'm bth_of \<Rightarrow> 'm bth_of option" where
  "bt_gap_cb rc ev d =
     (case ev of
        PinRequest bda \<Rightarrow> Some (upd_link (bt_call (GapPinReply bda [0x30, 0x30, 0x30, 0x30])) d)
      | ConfirmRequest bda \<Rightarrow> Some (upd_link (bt_call (GapSspConfirm bda)) d)
      | DiscStateChanged stopped \<Rightarrow>
          Some (if stopped then upd_link (\<lambda>l. l\<lparr>s_disc_active := False\<rparr>) d else d)
      | DiscResult bda props \<Rightarrow> disc_result rc bda props d
      | RemoteName bda success name \<Rightarrow> remote_name rc bda success name d
      | AuthComplete \<Rightarrow> Some d
      | KeyNotification \<Rightarrow> Some d
      | ModeChange \<Rightarrow> Some d
      | OtherGapEvent \<Rightarrow> Some d)"

section \<open>The code: HID device events\<close>

datatype conn_state = ConnConnected | ConnConnecting | ConnOther

datatype hidd_event =
    InitEvt bool
  | RegisterAppEvt bool
  | OpenEvt conn_state
  | CloseEvt
  | SendReportEvt
  | IntrDataEvt u8 nat "bytes option"
  | SetReportEvt u8 nat bytes
  | GetReportEvt nat u8
  | OtherHiddEvt

definition s_hid_qos :: bt_qos where
  "s_hid_qos = \<lparr>service_type = 0x02, token_rate = length s_hid_descriptor * 100,
     token_bucket_size = length s_hid_descriptor, peak_bandwidth = length s_hid_descriptor * 100,
     access_latency = 10, delay_variation = 10\<rparr>"

definition on_hidd_init :: "'m bth_of \<Rightarrow> 'm bth_of" where
  "on_hidd_init d =
     upd_link (bt_call (HiddRegisterApp DEVICE_NAME ''Gamepad'' ''Nintendo'' 0x08 s_hid_descriptor s_hid_qos)) d"

definition set_cod_call :: bt_call where
  "set_cod_call = GapSetCod (drop_bit 13 DEVICE_COD AND 0x07FF) (drop_bit 8 DEVICE_COD AND 0x1F)
     (drop_bit 2 DEVICE_COD AND 0x3F)"

text \<open>The reconnection to the first bonded device, which \<open>register_app\<close> tries.\<close>

definition reconnect_bonded :: "bt_env \<Rightarrow> bt_link \<Rightarrow> bt_link" where
  "reconnect_bonded env l =
     (if env_bond_count env > 0 \<and> env_bond_malloc env then
        (case env_bond_list env of
           (list_err, bonded) \<Rightarrow>
             if list_err = ESP_OK \<and> bonded \<noteq> [] then bt_call (HidConnect (hd bonded)) l else l)
      else l)"

definition on_app_registered :: "bt_env \<Rightarrow> 'm bth_of \<Rightarrow> 'm bth_of option" where
  "on_app_registered env d =
     do {
       let l = bt_call (GapStartDiscovery 24) (bt_call set_cod_call (link d));
       let l = bt_call (GapSetScanMode True) (bt_call (GapSetDeviceName DEVICE_NAME) l);
       let l = bt_call (GapStartDiscovery 24) l;
       l \<leftarrow> start_pairing_window (env_rc env) l;
       Some (d\<lparr>link := reconnect_bonded env l\<rparr>)
     }"

definition on_open :: "bt_env \<Rightarrow> conn_state \<Rightarrow> 'm bth_of \<Rightarrow> 'm bth_of option" where
  "on_open env st d =
     (if st = ConnConnected then
        do {
          let d = upd_link (\<lambda>l. stop_pairing_window (l\<lparr>bt_connected := True, s_send_in_progress := False,
                    s_connect_in_progress := False\<rparr>)) d;
          let d = upd_link (\<lambda>l. (bt_call GapCancelDiscovery l)\<lparr>s_disc_active := False\<rparr>) d;
          let d = switch_proto_init d;
          let d = d\<lparr>ctrl := controller_state_init (ctrl d)\<rparr>;
          let d = upd_link (bt_call (GapSetScanMode False)) d;
          l \<leftarrow> start_input_timer (env_rc env) (link d);
          Some (d\<lparr>link := l\<rparr>)
        }
      else Some d)"

definition on_close :: "bt_env \<Rightarrow> 'm bth_of \<Rightarrow> 'm bth_of option" where
  "on_close env d =
     do {
       let l = (link d)\<lparr>bt_connected := False, s_send_in_progress := False, s_connect_in_progress := False,
                 s_disc_active := False, s_name_candidate_pending := False\<rparr>;
       l \<leftarrow> start_pairing_window (env_rc env) (stop_input_timer l);
       Some (d\<lparr>link := bt_call (GapSetScanMode True) l\<rparr>)
     }"

definition on_intr_data :: "bt_env \<Rightarrow> u8 \<Rightarrow> nat \<Rightarrow> bytes option \<Rightarrow> 'm bth_of \<Rightarrow> 'm bth_of option" where
  "on_intr_data env report_id len payload d =
     (let report = take 65 (env_stack env);
          payload_len = (if len > 65 - 1 then 65 - 1 else len) in
      do {
        report \<leftarrow> wr report 0 report_id;
        report \<leftarrow> (case payload of
             Some p \<Rightarrow> if payload_len > 0 then memcpy report 1 p payload_len else Some report
           | None \<Rightarrow> Some report);
        switch_proto_handle_output (bt_hid_send_input_report (env_rc env)) (Some report) (payload_len + 1) d
      })"

definition on_set_report :: "bt_env \<Rightarrow> u8 \<Rightarrow> nat \<Rightarrow> bytes \<Rightarrow> 'm bth_of \<Rightarrow> 'm bth_of option" where
  "on_set_report env report_id set_len p d =
     (let report = take 64 (env_stack env);
          len = (if set_len > 64 - 1 then 64 - 1 else set_len) in
      do {
        report \<leftarrow> wr report 0 report_id;
        report \<leftarrow> (if len > 0 then memcpy report 1 p len else Some report);
        switch_proto_handle_output (bt_hid_send_input_report (env_rc env)) (Some report) (len + 1) d
      })"

definition on_get_report :: "nat \<Rightarrow> u8 \<Rightarrow> 'm bth_of \<Rightarrow> 'm bth_of option" where
  "on_get_report rtype report_id d =
     do {
       buf \<leftarrow> input_report_build_0x3F (virtual_grip d) (replicate 12 0) (ctrl d);
       payload \<leftarrow> rd_range buf 1 (12 - 1);
       Some (upd_link (bt_call (HidSendReport (ReportType rtype) report_id payload)) d)
     }"

definition bt_hidd_cb :: "bt_env \<Rightarrow> hidd_event \<Rightarrow> 'm bth_of \<Rightarrow> 'm bth_of option" where
  "bt_hidd_cb env ev d =
     (case ev of
        InitEvt ok \<Rightarrow> Some (if ok then on_hidd_init d else d)
      | RegisterAppEvt ok \<Rightarrow> (if ok then on_app_registered env d else Some d)
      | OpenEvt st \<Rightarrow> on_open env st d
      | CloseEvt \<Rightarrow> on_close env d
      | SendReportEvt \<Rightarrow> Some (upd_link (\<lambda>l. l\<lparr>s_send_in_progress := False\<rparr>) d)
      | IntrDataEvt i n p \<Rightarrow> on_intr_data env i n p d
      | SetReportEvt i n p \<Rightarrow> on_set_report env i n p d
      | GetReportEvt t i \<Rightarrow> on_get_report t i d
      | OtherHiddEvt \<Rightarrow> Some d)"

section \<open>The code: initialisation\<close>

definition bt_init_calls :: "(bool \<times> bt_call) list" where
  "bt_init_calls =
     [(True, ReadBtMac), (True, ControllerInit), (True, ControllerEnableClassic), (True, BluedroidInit),
      (True, BluedroidEnable), (True, GapRegisterCallback), (True, GapSetDeviceName DEVICE_NAME),
      (False, GapConfigEir), (True, set_cod_call), (False, GapSetIocapNone), (True, HiddRegisterCallback),
      (True, HiddDeviceInit)]"

definition bt_hid_init :: "(bt_call \<Rightarrow> int) \<Rightarrow> bool \<Rightarrow> bytes \<Rightarrow> 'm bth_of \<Rightarrow> int \<times> 'm bth_of" where
  "bt_hid_init rc mutex_created mac d =
     (if \<not> mutex_created then (ESP_ERR_NO_MEM, d)
      else
        let (err, made) = run_calls rc bt_init_calls;
            d = d\<lparr>g_esp32_mac := (if rc ReadBtMac = ESP_OK then mac else g_esp32_mac d)\<rparr>
        in (err, upd_link (\<lambda>l. l\<lparr>bt_calls := bt_calls l @ made\<rparr>) d))"

section \<open>The transport contract\<close>

text \<open>The interrupt reports that were handed to Bluedroid, report ID first.\<close>

definition interrupts :: "bt_call list \<Rightarrow> bytes list" where
  "interrupts cs = [i # p. HidSendReport Intrdata i p \<leftarrow> cs]"

definition bt_flags :: "bt_link \<Rightarrow> bt_link" where
  "bt_flags l = l\<lparr>bt_calls := [], s_send_in_progress := False\<rparr>"

lemma bt_call_fields [simp]:
  "bt_connected (bt_call c l) = bt_connected l" "s_send_in_progress (bt_call c l) = s_send_in_progress l"
  "s_input_timer (bt_call c l) = s_input_timer l" "s_pairing_timer (bt_call c l) = s_pairing_timer l"
  "s_disc_active (bt_call c l) = s_disc_active l" "s_connect_in_progress (bt_call c l) = s_connect_in_progress l"
  "s_name_candidate_pending (bt_call c l) = s_name_candidate_pending l"
  "s_switch_candidate (bt_call c l) = s_switch_candidate l" "s_switch_bd_addr (bt_call c l) = s_switch_bd_addr l"
  "bt_calls (bt_call c l) = bt_calls l @ [c]" "bt_flags (bt_call c l) = bt_flags l"
  by (simp_all add: bt_call_def bt_flags_def)

lemma bt_flags_fields:
  assumes "bt_flags l' = bt_flags l"
  shows "bt_connected l' = bt_connected l" "s_input_timer l' = s_input_timer l"
    "s_switch_candidate l' = s_switch_candidate l" "s_pairing_timer l' = s_pairing_timer l"
  using assms by (cases l; cases l'; simp add: bt_flags_def)+

lemma interrupts_append [simp]: "interrupts (xs @ ys) = interrupts xs @ interrupts ys"
  by (simp add: interrupts_def)

lemma interrupts_Cons [simp]:
  "interrupts [] = []"
  "interrupts (c # cs) = (case c of HidSendReport Intrdata i p \<Rightarrow> [i # p] | _ \<Rightarrow> []) @ interrupts cs"
  by (auto simp: interrupts_def split: bt_call.split report_type.split)

lemma bt_send_result:
  assumes "0 < len" and "len \<le> length b"
  shows "bt_hid_send_input_report rc b len l =
    Some (if bt_connected l \<and> \<not> s_send_in_progress l
          then (let c = HidSendReport Intrdata (b ! 0) (take (len - 1) (drop 1 b))
                in bt_call c (l\<lparr>s_send_in_progress := (rc c = ESP_OK)\<rparr>))
          else l)"
proof -
  have "rd b 0 = Some (b ! 0)" using assms by (intro rd_Some) linarith
  with assms show ?thesis by (auto simp: bt_hid_send_input_report_def Let_def bt_call_def)
qed

interpretation bth: transport "bt_hid_send_input_report rc" "\<lambda>l. bt_flags l = fl" "\<lambda>l. interrupts (bt_calls l)" for rc fl
proof
  fix l :: bt_link and len and b :: bytes
  assume a: "bt_flags l = fl" "0 < len" "len \<le> length b"
  then have "b ! 0 # take (len - 1) (drop 1 b) = take len b"
    by (cases b; cases len) auto
  with a show "\<exists>l'. bt_hid_send_input_report rc b len l = Some l' \<and> bt_flags l' = fl
      \<and> interrupts (bt_calls l') \<in> {interrupts (bt_calls l), interrupts (bt_calls l) @ [take len b]}"
    by (auto simp: bt_send_result Let_def) (simp add: bt_flags_def)
qed

section \<open>Runs\<close>

datatype bt_input = GapEv gap_event | HiddEv hidd_event | InputReportTick | PairingTick

fun bth_step :: "bt_env \<Rightarrow> bt_input \<Rightarrow> 'm bth_of \<Rightarrow> 'm bth_of option" where
  "bth_step env (GapEv ev) d = bt_gap_cb (env_rc env) ev d"
| "bth_step env (HiddEv ev) d = bt_hidd_cb env ev d"
| "bth_step env InputReportTick d = input_report_timer_cb (env_rc env) d"
| "bth_step env PairingTick d = Some (upd_link pairing_window_cb d)"

text \<open>
  What ESP-IDF delivers: readable data of the announced length, names that end, timers that can be
  created.  \<open>bth_wild\<close> is the flash read of nothing, in an interrupt or a SET\_REPORT packet.
\<close>

definition prop_ok :: "gap_prop \<Rightarrow> bool" where
  "prop_ok p \<longleftrightarrow> (case p of PropBdname v \<Rightarrow> strncpy 248 v \<noteq> None | PropCod v \<Rightarrow> 4 \<le> length v
     | PropRssi v \<Rightarrow> v \<noteq> [] | PropOther \<Rightarrow> True)"

definition bt_env_ok :: "bt_env \<Rightarrow> bool" where
  "bt_env_ok env \<longleftrightarrow> length (env_stack env) = 65
     \<and> (\<forall>t \<in> {HidInput, HidPairing}. env_rc env (EspTimerCreate t) = ESP_OK)
     \<and> env_rc env (EspTimerStart HidInput 15000) = ESP_OK
     \<and> env_rc env (EspTimerStart HidPairing 2000000) = ESP_OK"

fun bt_input_ok :: "bt_input \<Rightarrow> bool" where
  "bt_input_ok (GapEv (DiscResult bda props)) \<longleftrightarrow> list_all prop_ok props"
| "bt_input_ok (GapEv (RemoteName bda ok name)) \<longleftrightarrow> 0 \<in> set name"
| "bt_input_ok (HiddEv (IntrDataEvt i n (Some p))) \<longleftrightarrow> min n 64 \<le> length p"
| "bt_input_ok (HiddEv (SetReportEvt i n p)) \<longleftrightarrow> min n 63 \<le> length p"
| "bt_input_ok _ \<longleftrightarrow> True"

definition intr_packet :: "bt_env \<Rightarrow> u8 \<Rightarrow> nat \<Rightarrow> bytes option \<Rightarrow> bytes \<times> nat" where
  "intr_packet env i n p =
     (i # (case p of None \<Rightarrow> drop 1 (env_stack env)
           | Some q \<Rightarrow> take (min n 64) q @ drop (1 + min n 64) (env_stack env)), min n 64 + 1)"

definition ctrl_packet :: "bt_env \<Rightarrow> u8 \<Rightarrow> nat \<Rightarrow> bytes \<Rightarrow> bytes \<times> nat" where
  "ctrl_packet env i n p = (i # take (min n 63) p @ drop (1 + min n 63) (take 64 (env_stack env)), min n 63 + 1)"

fun bt_packet :: "bt_env \<Rightarrow> bt_input \<Rightarrow> (bytes \<times> nat) option" where
  "bt_packet env (HiddEv (IntrDataEvt i n p)) = Some (intr_packet env i n p)"
| "bt_packet env (HiddEv (SetReportEvt i n p)) = Some (ctrl_packet env i n p)"
| "bt_packet env _ = None"

definition bth_wild :: "bt_env \<Rightarrow> bt_input \<Rightarrow> bool" where
  "bth_wild env i \<longleftrightarrow> (case bt_packet env i of None \<Rightarrow> False | Some (p, k) \<Rightarrow> wild_request p k)"

lemma take_len_prefix: "0 < length s \<Longrightarrow> s[0 := i] = i # drop 1 s"
  by (cases s) auto

lemma packet_step:
  assumes "bt_env_ok env" and "bt_input_ok i" and "bt_packet env i = Some (p, k)"
  shows "bth_step env i d = switch_proto_handle_output (bt_hid_send_input_report (env_rc env)) (Some p) k d"
    and "k \<le> length p"
proof -
  have l: "length (env_stack env) = 65" using assms(1) by (simp add: bt_env_ok_def)
  then obtain x xs where stack: "env_stack env = x # xs" and xs: "length xs = 64"
    by (cases "env_stack env") auto
  have m: "(if n > 64 then 64 else n) = min n 64" "(if n > 63 then 63 else n) = min n 63" for n :: nat by auto
  have "bth_step env i d = switch_proto_handle_output (bt_hid_send_input_report (env_rc env)) (Some p) k d
      \<and> k \<le> length p"
  proof (cases "(env, i)" rule: bt_packet.cases)
    case (1 env j n q)
    with assms stack xs show ?thesis
      by (cases q) (auto simp: bt_hidd_cb_def on_intr_data_def intr_packet_def Let_def m take_Cons')
  next
    case (2 env j n q)
    with assms stack xs show ?thesis
      by (auto simp: bt_hidd_cb_def on_set_report_def ctrl_packet_def Let_def m take_Cons')
  qed (use assms in auto)
  then show "bth_step env i d = switch_proto_handle_output (bt_hid_send_input_report (env_rc env)) (Some p) k d"
    and "k \<le> length p" by simp_all
qed

definition bth_inv :: "'m bth_of \<Rightarrow> bool" where
  "bth_inv d \<longleftrightarrow> dev_ok d \<and> (s_input_timer (link d) \<longleftrightarrow> bt_connected (link d)) \<and> \<not> virtual_grip d
     \<and> sticks_12bit (ctrl d)"

lemma input_tick_eq:
  "input_report_timer_cb rc d = Some (if \<not> bt_connected (link d) then d
     else let d' = d\<lparr>s_timer := s_timer d + 1\<rparr>;
              msg = (if s_stream_mode d = STREAM_MODE_0x3F then simple_bytes (virtual_grip d) (ctrl d)
                     else full_bytes (virtual_grip d) 0x30 (s_timer d) (ctrl d));
              c = HidSendReport Intrdata (msg ! 0) (drop 1 msg)
          in if s_stream_mode d = STREAM_MODE_NONE \<or> s_send_in_progress (link d) then d'
             else upd_link (\<lambda>l. bt_call c (l\<lparr>s_send_in_progress := (rc c = ESP_OK)\<rparr>)) d')"
  by (cases "s_stream_mode d")
     (simp_all add: input_report_timer_cb_def switch_proto_get_stream_mode_def switch_proto_next_timer_def
         build_0x30_eq build_0x3F_eq report_sizes send_built_def bt_send_result Let_def upd_link_def nth_append)

section \<open>What one step does\<close>

text \<open>
  \<open>accepted\<close> counts the interrupt reports among the calls that Bluedroid took; \<open>completes\<close> are the
  events that end a transmission.  \<open>flow\<close> is the protocol of the flag \<open>s_send_in_progress\<close>,
  \<open>console_result\<close> an inquiry result that the code takes for a console.
\<close>

fun is_interrupt :: "bt_call \<Rightarrow> bool" where
  "is_interrupt (HidSendReport Intrdata i p) \<longleftrightarrow> True"
| "is_interrupt _ \<longleftrightarrow> False"

definition accepted :: "(bt_call \<Rightarrow> int) \<Rightarrow> bt_call list \<Rightarrow> nat" where
  "accepted rc cs = length (filter (\<lambda>c. is_interrupt c \<and> rc c = ESP_OK) cs)"

definition completes :: "bt_input \<Rightarrow> bool" where
  "completes i \<longleftrightarrow> i \<in> {HiddEv SendReportEvt, HiddEv (OpenEvt ConnConnected), HiddEv CloseEvt}"

definition flow :: "(bt_call \<Rightarrow> int) \<Rightarrow> bool \<Rightarrow> bool \<Rightarrow> bt_call list \<Rightarrow> bool \<Rightarrow> bool" where
  "flow rc done f cs f' \<longleftrightarrow>
     (if done then \<not> f' \<and> interrupts cs = []
      else if f then f' \<and> interrupts cs = []
      else (f' \<longleftrightarrow> accepted rc cs = 1) \<and> length (interrupts cs) \<le> 1)"

definition console_result :: "bytes \<Rightarrow> bytes \<Rightarrow> bt_input \<Rightarrow> bool" where
  "console_result mac a i \<longleftrightarrow> (\<exists>props name cod. i = GapEv (DiscResult a props) \<and> a \<noteq> mac
     \<and> foldM disc_prop props ([], 0) = Some (name, cod) \<and> looks_switch cod)"

definition connect_cause :: "bt_env \<Rightarrow> bt_input \<Rightarrow> bt_link \<Rightarrow> bytes \<Rightarrow> bool" where
  "connect_cause env i l a \<longleftrightarrow> a = s_switch_candidate l
     \<or> i = HiddEv (RegisterAppEvt True) \<and> snd (env_bond_list env) \<noteq> [] \<and> a = hd (snd (env_bond_list env))"

text \<open>The summary of a step from \<open>d\<close> to \<open>d'\<close>, with the calls that it makes.\<close>

definition bth_effect :: "bt_env \<Rightarrow> bt_input \<Rightarrow> 'm bth_of \<Rightarrow> 'm bth_of \<Rightarrow> bool" where
  "bth_effect env i d d' \<longleftrightarrow> bth_inv d' \<and> g_esp32_mac d' = g_esp32_mac d
     \<and> (\<exists>cs. bt_calls (link d') = bt_calls (link d) @ cs
          \<and> flow (env_rc env) (completes i) (s_send_in_progress (link d)) cs (s_send_in_progress (link d'))
          \<and> (\<forall>a. HidConnect a \<in> set cs \<longrightarrow> connect_cause env i (link d) a))
     \<and> (s_switch_candidate (link d') = s_switch_candidate (link d)
        \<or> console_result (g_esp32_mac d) (s_switch_candidate (link d')) i)"

lemma length_interrupts: "length (interrupts cs) = length (filter is_interrupt cs)"
  by (induction cs) (auto split: bt_call.splits report_type.splits)

lemma accepted_le: "accepted rc cs \<le> length (interrupts cs)"
  unfolding accepted_def length_interrupts
  by (metis filter_filter length_filter_le)

lemma flow_idle: "interrupts cs = [] \<Longrightarrow> \<not> done \<Longrightarrow> flow rc done f cs f"
proof -
  assume i: "interrupts cs = []" and d: "\<not> done"
  have "accepted rc cs = 0"
    using i accepted_le [of rc cs] by simp
  with i d show ?thesis by (simp add: flow_def)
qed

lemma disc_props_total:
  "list_all prop_ok props \<Longrightarrow> \<exists>nc. foldM disc_prop props nc0 = Some nc"
proof (induction props arbitrary: nc0)
  case Nil
  then show ?case by simp
next
  case (Cons p props)
  have "\<exists>nc. disc_prop p nc0 = Some nc"
    using Cons.prems by (cases p) (auto simp: disc_prop_def prop_ok_def rd_le32_def rd_def)
  with Cons show ?case by auto
qed

lemma bth_effect_link:
  assumes "bth_inv d" and "bt_connected l = bt_connected (link d)" and "s_input_timer l = s_input_timer (link d)"
    and "bt_calls l = bt_calls (link d) @ cs" and "interrupts cs = []" and "\<not> completes i"
    and "s_send_in_progress l = s_send_in_progress (link d)"
    and "\<forall>a. HidConnect a \<in> set cs \<longrightarrow> connect_cause env i (link d) a"
    and "s_switch_candidate l = s_switch_candidate (link d) \<or> console_result (g_esp32_mac d) (s_switch_candidate l) i"
  shows "bth_effect env i d (d\<lparr>link := l\<rparr>)"
  using assms flow_idle [OF assms(5,6), of "env_rc env" "s_send_in_progress (link d)"]
  by (auto simp: bth_effect_def bth_inv_def dev_ok_def)

lemma bth_effect_calls:
  assumes "bth_inv d" and "interrupts cs = []" and "\<forall>c \<in> set cs. \<forall>a. c \<noteq> HidConnect a" and "\<not> completes i"
  shows "bth_effect env i d (upd_link (\<lambda>l. l\<lparr>bt_calls := bt_calls l @ cs\<rparr>) d)"
  unfolding upd_link_def using assms by (intro bth_effect_link [where cs = cs]) auto

lemma gap_effect:
  assumes "bth_inv d" and "bt_input_ok (GapEv ev)"
  shows "\<exists>d'. bt_gap_cb (env_rc env) ev d = Some d' \<and> bth_effect env (GapEv ev) d d'"
proof (cases ev)
  case (DiscResult bda props)
  from assms(2) DiscResult obtain name cod where nc: "foldM disc_prop props ([], 0) = Some (name, cod)"
    using disc_props_total [of props "([], 0)"] by force
  show ?thesis
  proof (cases "\<not> (name = [] \<and> cod = 0) \<and> bda \<noteq> g_esp32_mac d \<and> looks_switch cod \<and> \<not> s_name_candidate_pending (link d)")
    case True
    with nc have c: "console_result (g_esp32_mac d) bda (GapEv (DiscResult bda props))"
      by (auto simp: console_result_def)
    show ?thesis
      using True c
      by (auto simp: DiscResult bt_gap_cb_def disc_result_def nc upd_link_def completes_def bt_call_def Let_def
          intro!: bth_effect_link [OF assms(1), where cs = "[GapReadRemoteName bda]"])
  next
    case False
    then have "disc_result (env_rc env) bda props d = Some d" by (auto simp: disc_result_def nc)
    with bth_effect_link [OF assms(1), of "link d" "[]" "GapEv ev" env] DiscResult show ?thesis
      by (simp add: bt_gap_cb_def completes_def)
  qed
next
  case (RemoteName bda ok name)
  from assms(2) RemoteName have n: "cstr name = Some (takeWhile (\<lambda>c. c \<noteq> 0) name)" by (simp add: cstr_def)
  let ?n = "takeWhile (\<lambda>c. c \<noteq> 0) name"
  show ?thesis
  proof (cases "bda = s_switch_candidate (link d) \<and> ok \<and> ?n \<noteq> [] \<and> console_name ?n")
    case True
    then show ?thesis
      by (auto simp: RemoteName bt_gap_cb_def remote_name_def n upd_link_def Let_def completes_def
          connect_cause_def bt_call_def
          intro!: bth_effect_link [OF assms(1), where cs = "[GapCancelDiscovery, HidConnect bda]"])
  next
    case False
    then have "remote_name (env_rc env) bda ok name d = Some (upd_link (\<lambda>l. l\<lparr>s_name_candidate_pending := False\<rparr>) d)"
      by (auto simp: remote_name_def n Let_def)
    then show ?thesis
      by (auto simp: RemoteName bt_gap_cb_def upd_link_def completes_def
          intro!: bth_effect_link [OF assms(1), where cs = "[]"])
  qed
next
  case (PinRequest bda)
  then show ?thesis
    by (auto simp: bt_gap_cb_def upd_link_def completes_def bt_call_def
        intro!: bth_effect_link [OF assms(1), where cs = "[GapPinReply bda [0x30, 0x30, 0x30, 0x30]]"])
next
  case (ConfirmRequest bda)
  then show ?thesis
    by (auto simp: bt_gap_cb_def upd_link_def completes_def bt_call_def
        intro!: bth_effect_link [OF assms(1), where cs = "[GapSspConfirm bda]"])
next
  case (DiscStateChanged b)
  then show ?thesis
    by (auto simp: bt_gap_cb_def upd_link_def completes_def intro!: bth_effect_link [OF assms(1), where cs = "[]"]
        bth_effect_link [OF assms(1), of "link d" "[]", simplified])
qed (use bth_effect_link [OF assms(1), of "link d" "[]"] in \<open>simp_all add: bt_gap_cb_def completes_def\<close>)

lemma packet_effect:
  assumes "bth_inv d" and "k \<le> length p" and "\<not> wild_request p k" and "\<not> completes i"
  shows "\<exists>d'. switch_proto_handle_output (bt_hid_send_input_report (env_rc env)) (Some p) k d = Some d'
    \<and> bth_effect env i d d'"
proof -
  have d: "dev_ok d" using assms(1) by (simp add: bth_inv_def)
  from bth.handle_output_total [OF d refl assms(2,3), of "env_rc env"] obtain d' where
    run: "switch_proto_handle_output (bt_hid_send_input_report (env_rc env)) (Some p) k d = Some d'"
    and ok: "dev_ok d'" "bt_flags (link d') = bt_flags (link d)" "proto_frame d d'" by blast
  have same: "ctrl d' = ctrl d" "virtual_grip d' = virtual_grip d" "g_esp32_mac d' = g_esp32_mac d"
    using ok(3) by (auto simp: proto_frame_def)
  note fl = bt_flags_fields [OF ok(2)]
  have inv: "bth_inv d'" using assms(1) ok(1) fl same by (simp add: bth_inv_def)
  from handle_output_link [OF d assms(2,3) run] have "\<exists>cs. bt_calls (link d') = bt_calls (link d) @ cs
      \<and> flow (env_rc env) False (s_send_in_progress (link d)) cs (s_send_in_progress (link d'))
      \<and> (\<forall>a. HidConnect a \<notin> set cs)"
  proof
    assume "link d' = link d"
    then show ?thesis by (intro exI [of _ "[]"]) (simp add: flow_idle)
  next
    assume "\<exists>pl. subcmd_packet p k \<and> subcmd_payload (p ! 10) (drop 11 p) (k - 11) d = Some pl
      \<and> bt_hid_send_input_report (env_rc env) (reply_bytes (virtual_grip d) (s_timer d) (ctrl d) (p ! 10) pl) 49 (link d)
          = Some (link d')"
    then obtain pl where s: "bt_hid_send_input_report (env_rc env)
        (reply_bytes (virtual_grip d) (s_timer d) (ctrl d) (p ! 10) pl) 49 (link d) = Some (link d')" by blast
    let ?c = "HidSendReport Intrdata (reply_bytes (virtual_grip d) (s_timer d) (ctrl d) (p ! 10) pl ! 0)
       (take 48 (drop 1 (reply_bytes (virtual_grip d) (s_timer d) (ctrl d) (p ! 10) pl)))"
    show ?thesis
    proof (cases "bt_connected (link d) \<and> \<not> s_send_in_progress (link d)")
      case True
      with s have "link d' = bt_call ?c ((link d)\<lparr>s_send_in_progress := (env_rc env ?c = ESP_OK)\<rparr>)"
        by (simp add: bt_send_result Let_def)
      with True show ?thesis
        by (intro exI [of _ "[?c]"]) (simp add: flow_def accepted_def)
    next
      case False
      with s have "link d' = link d" by (simp add: bt_send_result split: if_splits)
      then show ?thesis by (intro exI [of _ "[]"]) (simp add: flow_idle)
    qed
  qed
  with inv same fl run assms(4) show ?thesis by (auto simp: bth_effect_def)
qed

lemma tick_effect:
  assumes "bth_inv d"
  shows "\<exists>d'. input_report_timer_cb (env_rc env) d = Some d' \<and> bth_effect env InputReportTick d d'"
proof -
  let ?d = "d\<lparr>s_timer := s_timer d + 1\<rparr>"
  have step: "bth_effect env InputReportTick d ?d"
    using assms flow_idle [of "[]" False "env_rc env" "s_send_in_progress (link d)"]
    by (auto simp: bth_effect_def bth_inv_def completes_def dev_ok_def intro!: exI [of _ "[]"])
  have idle: "bth_effect env InputReportTick d d"
    using bth_effect_link [OF assms, of "link d" "[]" InputReportTick env] by (simp add: completes_def)
  have send: "bth_effect env InputReportTick d
      (upd_link (\<lambda>l. bt_call c (l\<lparr>s_send_in_progress := (env_rc env c = ESP_OK)\<rparr>)) ?d)"
    if "c = HidSendReport Intrdata x y" "\<not> s_send_in_progress (link d)" for c x y
    using assms that by (auto simp: bth_effect_def bth_inv_def completes_def dev_ok_def flow_def accepted_def)
  show ?thesis
    using step idle send by (simp add: input_tick_eq Let_def)
qed

lemma start_pairing_effect:
  assumes "bt_env_ok env"
  shows "\<exists>cs. start_pairing_window (env_rc env) l = Some (l\<lparr>s_pairing_timer := True, bt_calls := bt_calls l @ cs\<rparr>)
    \<and> interrupts cs = [] \<and> (\<forall>a. HidConnect a \<notin> set cs)"
proof (cases "s_pairing_timer l")
  case True
  then show ?thesis by (intro exI [of _ "[]"]) (simp add: start_pairing_window_def)
next
  case False
  with assms show ?thesis
    by (intro exI [of _ "[EspTimerCreate HidPairing, EspTimerStart HidPairing 2000000]
          @ (if bt_connected l then [] else [GapSetScanMode True])"])
       (simp add: start_pairing_window_def pairing_window_cb_def bt_env_ok_def bt_call_def)
qed

lemma registered_effect:
  assumes "bth_inv d" and "bt_env_ok env"
  shows "\<exists>d'. on_app_registered env d = Some d' \<and> bth_effect env (HiddEv (RegisterAppEvt True)) d d'"
proof -
  let ?pre = "[set_cod_call, GapStartDiscovery 24, GapSetDeviceName DEVICE_NAME, GapSetScanMode True, GapStartDiscovery 24]"
  let ?l = "(link d)\<lparr>bt_calls := bt_calls (link d) @ ?pre\<rparr>"
  obtain cs where cs: "start_pairing_window (env_rc env) ?l
      = Some (?l\<lparr>s_pairing_timer := True, bt_calls := bt_calls ?l @ cs\<rparr>)"
    "interrupts cs = []" "\<forall>a. HidConnect a \<notin> set cs"
    using start_pairing_effect [OF assms(2)] by blast
  let ?m = "?l\<lparr>s_pairing_timer := True, bt_calls := bt_calls ?l @ cs\<rparr>"
  have run: "on_app_registered env d = Some (d\<lparr>link := reconnect_bonded env ?m\<rparr>)"
    using cs(1) by (simp add: on_app_registered_def bt_call_def)
  obtain ds where ds: "reconnect_bonded env ?m = ?m\<lparr>bt_calls := bt_calls ?m @ ds\<rparr>"
    "interrupts ds = []" "\<forall>a. HidConnect a \<in> set ds \<longrightarrow> snd (env_bond_list env) \<noteq> [] \<and> a = hd (snd (env_bond_list env))"
  proof -
    show thesis
    proof (cases "env_bond_count env > 0 \<and> env_bond_malloc env \<and> fst (env_bond_list env) = ESP_OK \<and> snd (env_bond_list env) \<noteq> []")
      case True
      then show thesis
        by (intro that [of "[HidConnect (hd (snd (env_bond_list env)))]"])
           (auto simp: reconnect_bonded_def bt_call_def split: prod.split)
    next
      case False
      then show thesis
        by (intro that [of "[]"]) (auto simp: reconnect_bonded_def split: prod.split)
    qed
  qed
  have "bth_effect env (HiddEv (RegisterAppEvt True)) d (d\<lparr>link := reconnect_bonded env ?m\<rparr>)"
  proof (rule bth_effect_link [OF assms(1), where cs = "?pre @ cs @ ds"])
    show "\<forall>a. HidConnect a \<in> set (?pre @ cs @ ds) \<longrightarrow> connect_cause env (HiddEv (RegisterAppEvt True)) (link d) a"
      using cs(3) ds(3) by (auto simp: connect_cause_def set_cod_call_def)
  qed (use cs(2) ds in \<open>auto simp: completes_def set_cod_call_def\<close>)
  with run show ?thesis by blast
qed

lemma open_effect:
  assumes "bth_inv d" and "bt_env_ok env"
  shows "\<exists>d'. on_open env st d = Some d' \<and> bth_effect env (HiddEv (OpenEvt st)) d d'"
proof (cases "st = ConnConnected")
  case False
  with bth_effect_link [OF assms(1), of "link d" "[]" "HiddEv (OpenEvt st)" env] show ?thesis
    by (simp add: on_open_def completes_def)
next
  case True
  let ?cs = "(if s_pairing_timer (link d) then [EspTimerStop HidPairing, EspTimerDelete HidPairing] else [])
    @ [GapCancelDiscovery, GapSetScanMode False]
    @ (if s_input_timer (link d) then [] else [EspTimerCreate HidInput, EspTimerStart HidInput 15000])"
  let ?l = "(link d)\<lparr>bt_connected := True, s_send_in_progress := False, s_connect_in_progress := False,
    s_pairing_timer := False, s_disc_active := False, s_input_timer := True, bt_calls := bt_calls (link d) @ ?cs\<rparr>"
  have "on_open env st d = Some (switch_proto_init (d\<lparr>ctrl := controller_state_init (ctrl d), link := ?l\<rparr>))"
    using True assms(2)
    by (cases "s_pairing_timer (link d)"; cases "s_input_timer (link d)")
       (simp_all add: on_open_def start_input_timer_def stop_pairing_window_def bt_env_ok_def bt_call_def
         switch_proto_init_def upd_link_def)
  moreover have "bth_effect env (HiddEv (OpenEvt st)) d
      (switch_proto_init (d\<lparr>ctrl := controller_state_init (ctrl d), link := ?l\<rparr>))"
    using assms(1) True
    by (auto simp: bth_effect_def bth_inv_def switch_proto_init_def dev_ok_def nfc_inv_reset sticks_12bit_def
        controller_state_init_def completes_def flow_def intro!: exI [of _ ?cs])
  ultimately show ?thesis by blast
qed

lemma close_effect:
  assumes "bth_inv d" and "bt_env_ok env"
  shows "\<exists>d'. on_close env d = Some d' \<and> bth_effect env (HiddEv CloseEvt) d d'"
proof -
  let ?pre = "if s_input_timer (link d) then [EspTimerStop HidInput, EspTimerDelete HidInput] else []"
  let ?l = "(link d)\<lparr>bt_connected := False, s_send_in_progress := False, s_connect_in_progress := False,
    s_disc_active := False, s_name_candidate_pending := False, s_input_timer := False,
    bt_calls := bt_calls (link d) @ ?pre\<rparr>"
  have stop: "stop_input_timer ((link d)\<lparr>bt_connected := False, s_send_in_progress := False,
      s_connect_in_progress := False, s_disc_active := False, s_name_candidate_pending := False\<rparr>) = ?l"
    by (simp add: stop_input_timer_def bt_call_def)
  obtain cs where cs: "start_pairing_window (env_rc env) ?l
      = Some (?l\<lparr>s_pairing_timer := True, bt_calls := bt_calls ?l @ cs\<rparr>)"
    "interrupts cs = []" "\<forall>a. HidConnect a \<notin> set cs"
    using start_pairing_effect [OF assms(2)] by blast
  let ?d = "d\<lparr>link := bt_call (GapSetScanMode True) (?l\<lparr>s_pairing_timer := True, bt_calls := bt_calls ?l @ cs\<rparr>)\<rparr>"
  have "on_close env d = Some ?d"
    unfolding on_close_def Let_def stop using cs(1) by simp
  moreover have "bth_effect env (HiddEv CloseEvt) d ?d"
    using assms(1) cs(2,3)
    by (auto simp: bth_effect_def bth_inv_def dev_ok_def completes_def flow_def
        intro!: exI [of _ "?pre @ cs @ [GapSetScanMode True]"])
  ultimately show ?thesis by blast
qed

lemma hidd_effect:
  assumes "bth_inv d" and "bt_env_ok env" and "bt_packet env (HiddEv ev) = None"
  shows "\<exists>d'. bt_hidd_cb env ev d = Some d' \<and> bth_effect env (HiddEv ev) d d'"
proof -
  have idle: "bth_effect env (HiddEv ev) d d" if "\<not> completes (HiddEv ev)"
    using bth_effect_link [OF assms(1), of "link d" "[]" "HiddEv ev" env] that by simp
  show ?thesis
  proof (cases ev)
    case (InitEvt ok)
    let ?c = "HiddRegisterApp DEVICE_NAME ''Gamepad'' ''Nintendo'' 0x08 s_hid_descriptor s_hid_qos"
    have "bth_effect env (HiddEv ev) d (upd_link (bt_call ?c) d)"
      unfolding upd_link_def InitEvt
      by (rule bth_effect_link [OF assms(1), where cs = "[?c]"]) (simp_all add: completes_def)
    with InitEvt idle show ?thesis
      by (cases ok) (simp_all add: bt_hidd_cb_def on_hidd_init_def completes_def)
  next
    case (RegisterAppEvt ok)
    with registered_effect [OF assms(1,2)] idle show ?thesis
      by (cases ok) (simp_all add: bt_hidd_cb_def completes_def)
  next
    case (OpenEvt st)
    with open_effect [OF assms(1,2)] show ?thesis by (simp add: bt_hidd_cb_def)
  next
    case CloseEvt
    with close_effect [OF assms(1,2)] show ?thesis by (simp add: bt_hidd_cb_def)
  next
    case SendReportEvt
    with assms(1) show ?thesis
      by (auto simp: bt_hidd_cb_def bth_effect_def bth_inv_def completes_def flow_def)
  next
    case (GetReportEvt t j)
    let ?c = "HidSendReport (ReportType t) j (drop 1 (simple_bytes (virtual_grip d) (ctrl d)))"
    have "bth_effect env (HiddEv ev) d (upd_link (bt_call ?c) d)"
      unfolding upd_link_def GetReportEvt
      by (rule bth_effect_link [OF assms(1), where cs = "[?c]"]) (simp_all add: completes_def)
    with GetReportEvt show ?thesis by (simp add: bt_hidd_cb_def on_get_report_def build_0x3F_eq)
  next
    case OtherHiddEvt
    with idle show ?thesis by (simp add: bt_hidd_cb_def completes_def)
  qed (use assms(3) in auto)
qed

lemma bth_step_total:
  assumes "bth_inv d" and "bt_env_ok env" and "bt_input_ok i" and "\<not> bth_wild env i"
  shows "\<exists>d'. bth_step env i d = Some d' \<and> bth_effect env i d d'"
proof (cases "bt_packet env i")
  case (Some pk)
  obtain p k where pk: "pk = (p, k)" by (cases pk)
  note step = packet_step [OF assms(2,3) Some [unfolded pk]]
  have "\<not> completes i" using Some by (auto simp: completes_def)
  moreover have "\<not> wild_request p k" using assms(4) Some pk by (simp add: bth_wild_def)
  ultimately show ?thesis
    using packet_effect [OF assms(1) step(2), of i env] by (simp add: step(1))
next
  case None
  show ?thesis
  proof (cases i)
    case (GapEv ev)
    with gap_effect [OF assms(1), of ev env] assms(3) show ?thesis by simp
  next
    case (HiddEv ev)
    with hidd_effect [OF assms(1,2), of ev] None show ?thesis by simp
  next
    case InputReportTick
    with tick_effect [OF assms(1)] show ?thesis by simp
  next
    case PairingTick
    have "bth_effect env i d (upd_link pairing_window_cb d)"
      unfolding PairingTick upd_link_def
      by (rule bth_effect_link [OF assms(1), where cs = "if bt_connected (link d) then [] else [GapSetScanMode True]"])
         (simp_all add: pairing_window_cb_def completes_def)
    with PairingTick show ?thesis by simp
  qed
qed

lemma bth_step_wild:
  assumes "bt_env_ok env" and "bt_input_ok i" and "bth_wild env i"
  shows "bth_step env i d = None"
proof -
  from assms(3) obtain p k where pk: "bt_packet env i = Some (p, k)" "wild_request p k"
    by (auto simp: bth_wild_def split: option.splits)
  note step = packet_step [OF assms(1,2) pk(1)]
  from step(1) [of d] handle_output_wild [OF pk(2) step(2), of "bt_hid_send_input_report (env_rc env)" d]
  show ?thesis by simp
qed

section \<open>Histories\<close>

text \<open>
  A history lists the events since a successful \<open>bt_hid_init\<close>, latest first, the state they lead to,
  and how many interrupt reports Bluedroid has accepted since the last event of the three that clear
  \<open>s_send_in_progress\<close> (a report was sent, the connection was opened, it was closed).  The count is taken
  from the calls and what they returned, not from the flag.
\<close>

definition bth_boot :: "bt_link dev" where
  "bth_boot = \<lparr>ctrl = controller_state_init controller_static, virtual_grip = False, nfc = nfc_boot,
     s_stream_mode = STREAM_MODE_0x30, s_timer = 0, s_stream_enabled = False, g_esp32_mac = replicate 6 0,
     link = \<lparr>bt_connected = False, s_send_in_progress = False, s_input_timer = False, s_pairing_timer = False,
       s_disc_active = False, s_connect_in_progress = False, s_name_candidate_pending = False,
       s_switch_candidate = replicate 6 0, s_switch_bd_addr = replicate 6 0, bt_calls = []\<rparr>\<rparr>"

inductive bth_history :: "(bt_env \<times> bt_input) list \<Rightarrow> bt_link dev \<Rightarrow> nat \<Rightarrow> bool" where
  init: "bt_hid_init rc created mac bth_boot = (ESP_OK, d) \<Longrightarrow> length mac = 6 \<Longrightarrow> bth_history [] d 0"
| step: "bth_history h d n \<Longrightarrow> bt_env_ok env \<Longrightarrow> bt_input_ok i \<Longrightarrow> bth_step env i d = Some d' \<Longrightarrow>
    bth_history ((env, i) # h) d' ((if completes i then 0 else n)
      + accepted (env_rc env) (drop (length (bt_calls (link d))) (bt_calls (link d'))))"

lemma init_calls_no_connect: "HidConnect a \<notin> set (snd (run_calls rc bt_init_calls))"
  by (auto simp: bt_init_calls_def set_cod_call_def)

lemma bth_init_state:
  assumes "bt_hid_init rc created mac bth_boot = (ESP_OK, d)" and "length mac = 6"
  shows "bth_inv d" "\<not> s_send_in_progress (link d)" "s_switch_candidate (link d) = replicate 6 0"
    "HidConnect a \<notin> set (bt_calls (link d))"
  using assms init_calls_no_connect [of a rc]
  by (auto simp: bt_hid_init_def bth_boot_def bth_inv_def dev_ok_def nfc_inv_boot sticks_12bit_def
      controller_state_init_def ESP_OK_def ESP_ERR_NO_MEM_def split: if_splits prod.splits)

definition seen_console :: "(bt_env \<times> bt_input) list \<Rightarrow> bytes \<Rightarrow> bytes \<Rightarrow> bool" where
  "seen_console h mac a \<longleftrightarrow> (\<exists>(env, i) \<in> set h. console_result mac a i)"

definition first_bonded :: "(bt_env \<times> bt_input) list \<Rightarrow> bytes \<Rightarrow> bool" where
  "first_bonded h a \<longleftrightarrow> (\<exists>(env, i) \<in> set h. i = HiddEv (RegisterAppEvt True) \<and> snd (env_bond_list env) \<noteq> []
     \<and> a = hd (snd (env_bond_list env)))"

lemma bth_history_effect:
  assumes "bth_inv d" and "bt_env_ok env" and "bt_input_ok i" and "bth_step env i d = Some d'"
  shows "bth_effect env i d d'"
proof -
  have "\<not> bth_wild env i" using bth_step_wild [OF assms(2,3), of d] assms(4) by auto
  from bth_step_total [OF assms(1-3) this] assms(4) show ?thesis by auto
qed

lemma bth_history_inv:
  assumes "bth_history h d n"
  shows "bth_inv d \<and> n \<le> 1 \<and> (s_send_in_progress (link d) \<longleftrightarrow> n = 1)
    \<and> (s_switch_candidate (link d) = replicate 6 0 \<or> seen_console h (g_esp32_mac d) (s_switch_candidate (link d)))
    \<and> (\<forall>a. HidConnect a \<in> set (bt_calls (link d)) \<longrightarrow>
         a = replicate 6 0 \<or> seen_console h (g_esp32_mac d) a \<or> first_bonded h a)"
  using assms
proof (induction rule: bth_history.induct)
  case (init rc created mac d)
  note i = bth_init_state [OF init]
  show ?case by (intro conjI) (use i in simp_all)
next
  case (step h d n env i d')
  have e: "bth_effect env i d d'"
    using bth_history_effect step by blast
  then obtain cs where cs: "bt_calls (link d') = bt_calls (link d) @ cs"
    "flow (env_rc env) (completes i) (s_send_in_progress (link d)) cs (s_send_in_progress (link d'))"
    "\<forall>a. HidConnect a \<in> set cs \<longrightarrow> connect_cause env i (link d) a"
    by (auto simp: bth_effect_def)
  have inv: "bth_inv d'" and mac: "g_esp32_mac d' = g_esp32_mac d"
    and cand: "s_switch_candidate (link d') = s_switch_candidate (link d)
      \<or> console_result (g_esp32_mac d) (s_switch_candidate (link d')) i"
    using e by (auto simp: bth_effect_def)
  have new: "drop (length (bt_calls (link d))) (bt_calls (link d')) = cs" using cs(1) by simp
  have n: "n \<le> 1" "s_send_in_progress (link d) \<longleftrightarrow> n = 1" using step.IH by auto
  have count: "(if completes i then 0 else n) + accepted (env_rc env) cs \<le> 1"
    "s_send_in_progress (link d') \<longleftrightarrow> (if completes i then 0 else n) + accepted (env_rc env) cs = 1"
    using cs(2) n accepted_le [of "env_rc env" cs] by (auto simp: flow_def split: if_splits)
  have mono: "seen_console ((env, i) # h) m a" if "seen_console h m a" for m a
    using that by (auto simp: seen_console_def)
  have mono': "first_bonded ((env, i) # h) a" if "first_bonded h a" for a
    using that by (auto simp: first_bonded_def)
  have now: "seen_console ((env, i) # h) m a" if "console_result m a i" for m a
    using that by (auto simp: seen_console_def)
  have cand': "s_switch_candidate (link d') = replicate 6 0
      \<or> seen_console ((env, i) # h) (g_esp32_mac d') (s_switch_candidate (link d'))"
    using cand step.IH mono now mac by metis
  have "a = replicate 6 0 \<or> seen_console ((env, i) # h) (g_esp32_mac d') a \<or> first_bonded ((env, i) # h) a"
    if "HidConnect a \<in> set (bt_calls (link d'))" for a
  proof -
    from that cs(1,3) consider "HidConnect a \<in> set (bt_calls (link d))" | "connect_cause env i (link d) a"
      by auto
    then show ?thesis
    proof cases
      case 1
      with step.IH mono mono' mac show ?thesis by auto
    next
      case 2
      with step.IH mono mac show ?thesis by (auto simp: connect_cause_def first_bonded_def)
    qed
  qed
  with inv count cand' show ?case by (auto simp: new)
qed

end
