(* ===== verification/BtHidProtocol.thy ===== *)
theory BtHidProtocol
  imports BtHid
begin

text \<open>
  The properties of the Bluedroid transport over whole histories of events (\<open>BtHid\<close>), and the runs
  that the witnesses use.
\<close>

section \<open>Runs for the witnesses\<close>

definition demo_env :: bt_env where
  "demo_env = \<lparr>env_rc = (\<lambda>c. ESP_OK), env_bond_count = 0, env_bond_malloc = True,
     env_bond_list = (ESP_OK, []), env_stack = replicate 65 0\<rparr>"

definition demo_console :: bytes where "demo_console = [7, 7, 7, 7, 7, 7]"

text \<open>An inquiry result with the class of device 0x2508, the name that follows, and the connection.\<close>

definition demo_found :: bt_input where
  "demo_found = GapEv (DiscResult demo_console [PropOther, PropCod [0x08, 0x25, 0, 0]])"

definition demo_named :: bt_input where
  "demo_named = GapEv (RemoteName demo_console True (map of_char ''Nintendo Switch'' @ [0]))"

lemma demo_env_ok: "bt_env_ok demo_env"
  by (simp add: demo_env_def bt_env_ok_def)

lemma demo_start: "\<exists>d. bth_history [] d 0 \<and> g_esp32_mac d = [1, 2, 3, 4, 5, 6] \<and> link d = (link bth_boot)\<lparr>bt_calls := bt_calls (link d)\<rparr>"
proof (intro exI conjI)
  let ?d = "snd (bt_hid_init (\<lambda>c. ESP_OK) True [1, 2, 3, 4, 5, 6] bth_boot)"
  have "bt_hid_init (\<lambda>c. ESP_OK) True [1, 2, 3, 4, 5, 6] bth_boot = (ESP_OK, ?d)"
    by (simp add: bt_hid_init_def bt_init_calls_def Let_def)
  then show "bth_history [] ?d 0" by (rule bth_history.init) simp
  show "g_esp32_mac ?d = [1, 2, 3, 4, 5, 6]" "link ?d = (link bth_boot)\<lparr>bt_calls := bt_calls (link ?d)\<rparr>"
    by (simp_all add: bt_hid_init_def bt_init_calls_def Let_def)
qed

lemma history_step:
  assumes "bth_history h d n" and "bt_input_ok i" and "\<not> bth_wild demo_env i"
  shows "\<exists>d' n'. bth_step demo_env i d = Some d' \<and> bth_history ((demo_env, i) # h) d' n'"
proof -
  have "bth_inv d" using bth_history_inv [OF assms(1)] by simp
  from bth_step_total [OF this demo_env_ok assms(2,3)] obtain d' where "bth_step demo_env i d = Some d'" by blast
  with bth_history.step [OF assms(1) demo_env_ok assms(2) this] show ?thesis by blast
qed

lemma demo_open:
  "\<exists>h d. bth_history h d 0 \<and> bt_connected (link d) \<and> s_stream_mode d = STREAM_MODE_0x30"
proof -
  from demo_start obtain d where d: "bth_history [] d 0" by blast
  from history_step [OF d, of "HiddEv (OpenEvt ConnConnected)"] obtain d' n where
    s: "bth_step demo_env (HiddEv (OpenEvt ConnConnected)) d = Some d'"
       "bth_history [(demo_env, HiddEv (OpenEvt ConnConnected))] d' n" by (auto simp: bth_wild_def)
  have "bth_inv d" using bth_history_inv [OF d] by simp
  from open_effect [OF this demo_env_ok, of ConnConnected] s(1)
  have "flow (env_rc demo_env) True (s_send_in_progress (link d)) cs (s_send_in_progress (link d')) \<Longrightarrow> \<not> s_send_in_progress (link d')" for cs
    by (simp add: flow_def)
  with bth_history_effect [OF \<open>bth_inv d\<close> demo_env_ok _ s(1)] have "\<not> s_send_in_progress (link d')"
    by (auto simp: bth_effect_def completes_def flow_def)
  then have "n = 0" using bth_history_inv [OF s(2)] by auto
  moreover have "bt_connected (link d')" "s_stream_mode d' = STREAM_MODE_0x30"
    using s(1) demo_env_ok
    by (auto simp: bt_hidd_cb_def on_open_def start_input_timer_def stop_pairing_window_def bt_env_ok_def
        switch_proto_init_def Let_def split: if_splits)
  ultimately show ?thesis using s(2) by blast
qed

section \<open>Properties\<close>

text \<open>
  No event makes the Bluedroid transport leave a buffer or abort, except for exactly the
  interrupt or SET\_REPORT packet that carries a flash read of zero bytes at address 0; and the
  input timer exists exactly while the console is connected.
\<close>

theorem bt_hid_memory_safe:
  assumes "bth_history h d n" and "bt_env_ok env" and "bt_input_ok i"
  shows "(bth_step env i d = None \<longleftrightarrow> bth_wild env i) \<and> (s_input_timer (link d) \<longleftrightarrow> bt_connected (link d))"
proof -
  have inv: "bth_inv d" using bth_history_inv [OF assms(1)] by simp
  with bth_step_wild [OF assms(2,3), of d] bth_step_total [OF inv assms(2,3)] show ?thesis
    by (cases "bth_wild env i") (auto simp: bth_inv_def)
qed

theorem bt_hid_memory_safe_witness:
  "\<exists>d :: bt_link dev. bth_step demo_env (HiddEv (IntrDataEvt 1 15 (Some [0, 0, 0, 0, 0, 0, 0, 0, 0, 0x10, 0, 0, 0, 0, 0]))) d = None
     \<and> bth_step demo_env (HiddEv (IntrDataEvt 1 15 (Some [0, 0, 0, 0, 0, 0, 0, 0, 0, 0x10, 0, 0, 0, 0, 1]))) d \<noteq> None"
proof -
  let ?a = "HiddEv (IntrDataEvt 1 15 (Some [0, 0, 0, 0, 0, 0, 0, 0, 0, 0x10, 0, 0, 0, 0, 0]))"
  let ?b = "HiddEv (IntrDataEvt 1 15 (Some [0, 0, 0, 0, 0, 0, 0, 0, 0, 0x10, 0, 0, 0, 0, 1]))"
  from demo_start obtain d where d: "bth_history [] d 0" by blast
  have "bth_wild demo_env ?a" "\<not> bth_wild demo_env ?b" "bt_input_ok ?a" "bt_input_ok ?b"
    by (simp_all add: bth_wild_def intr_packet_def demo_env_def wild_request_def subcmd_packet_def spi_zero_def)
  with bt_hid_memory_safe [OF d demo_env_ok, of ?a] bt_hid_memory_safe [OF d demo_env_ok, of ?b]
  show ?thesis by blast
qed

text \<open>
  Property C16: flow control.  Between two events that clear the flag \<open>s_send_in_progress\<close>
  (SEND\_REPORT, connection opened, connection closed) the transport gets at most one interrupt
  report accepted by Bluedroid, and the flag is set exactly when it has got one accepted since the
  last such event.  Nothing is assumed about when Bluedroid raises these events.
\<close>

theorem bt_hid_one_in_flight:
  assumes "bth_history h d n"
  shows "n \<le> 1 \<and> (s_send_in_progress (link d) \<longleftrightarrow> n = 1)"
  using bth_history_inv [OF assms] by blast

theorem bt_hid_one_in_flight_witness:
  "\<exists>h d. bth_history h d 1 \<and> s_send_in_progress (link d)"
proof -
  from demo_open obtain h d where d: "bth_history h d 0" "bt_connected (link d)" "s_stream_mode d = STREAM_MODE_0x30"
    by blast
  from bt_hid_one_in_flight [OF d(1)] have idle: "\<not> s_send_in_progress (link d)" by simp
  from history_step [OF d(1), of InputReportTick] obtain d' n where
    s: "bth_step demo_env InputReportTick d = Some d'" "bth_history ((demo_env, InputReportTick) # h) d' n"
    by (auto simp: bth_wild_def)
  have "s_send_in_progress (link d')"
    using s(1) d idle by (auto simp: input_tick_eq Let_def demo_env_def)
  with bt_hid_one_in_flight [OF s(2)] s(2) show ?thesis by auto
qed

text \<open>
  What flow control does not give: the answer to GET\_REPORT does not set the flag, but the SEND\_REPORT
  event that it ends with clears it.  Then a second interrupt report follows the first although no
  event has reported the first one as sent.
\<close>

lemma tick_sends:
  assumes "bt_connected (link d)" and "\<not> s_send_in_progress (link d)" and "s_stream_mode d = STREAM_MODE_0x30"
  shows "\<exists>d' m. bth_step demo_env InputReportTick d = Some d' \<and> bt_connected (link d')
    \<and> s_send_in_progress (link d') \<and> s_stream_mode d' = STREAM_MODE_0x30
    \<and> interrupts (bt_calls (link d')) = interrupts (bt_calls (link d)) @ [m]"
  using assms by (auto simp: input_tick_eq Let_def demo_env_def)

lemma get_report_clears:
  assumes "bt_connected (link d)" and "s_stream_mode d = STREAM_MODE_0x30"
  shows "\<exists>d1 d2. bth_step demo_env (HiddEv (GetReportEvt 1 0x3F)) d = Some d1
    \<and> bth_step demo_env (HiddEv SendReportEvt) d1 = Some d2 \<and> bt_connected (link d2)
    \<and> \<not> s_send_in_progress (link d2) \<and> s_stream_mode d2 = STREAM_MODE_0x30
    \<and> interrupts (bt_calls (link d2)) = interrupts (bt_calls (link d))"
  using assms by (simp add: bt_hidd_cb_def on_get_report_def build_0x3F_eq)

lemma get_report_ends_flow_control:
  "\<exists>h d0 d n. bth_history h d0 0
    \<and> bth_history ((demo_env, InputReportTick) # (demo_env, HiddEv SendReportEvt)
        # (demo_env, HiddEv (GetReportEvt 1 0x3F)) # (demo_env, InputReportTick) # h) d n
    \<and> length (interrupts (bt_calls (link d))) = length (interrupts (bt_calls (link d0))) + 2"
proof -
  from demo_open obtain h d0 where h: "bth_history h d0 0" "bt_connected (link d0)" "s_stream_mode d0 = STREAM_MODE_0x30"
    by blast
  have idle: "\<not> s_send_in_progress (link d0)" using bth_history_inv [OF h(1)] by simp
  from tick_sends [OF h(2) idle h(3)] obtain d1 m1 where
    d1: "bth_step demo_env InputReportTick d0 = Some d1" "bt_connected (link d1)" "s_stream_mode d1 = STREAM_MODE_0x30"
      "interrupts (bt_calls (link d1)) = interrupts (bt_calls (link d0)) @ [m1]" by blast
  from get_report_clears [OF d1(2,3)] obtain d2 d3 where
    d2: "bth_step demo_env (HiddEv (GetReportEvt 1 0x3F)) d1 = Some d2"
      "bth_step demo_env (HiddEv SendReportEvt) d2 = Some d3" "bt_connected (link d3)"
      "\<not> s_send_in_progress (link d3)" "s_stream_mode d3 = STREAM_MODE_0x30"
      "interrupts (bt_calls (link d3)) = interrupts (bt_calls (link d1))" by blast
  from tick_sends [OF d2(3,4,5)] obtain d4 m2 where
    d4: "bth_step demo_env InputReportTick d3 = Some d4"
      "interrupts (bt_calls (link d4)) = interrupts (bt_calls (link d3)) @ [m2]" by blast
  note step = bth_history.step [OF _ demo_env_ok]
  have ok: "bt_input_ok InputReportTick" "bt_input_ok (HiddEv (GetReportEvt 1 0x3F))" "bt_input_ok (HiddEv SendReportEvt)"
    by simp_all
  from step [OF step [OF step [OF step [OF h(1) ok(1) d1(1)] ok(2) d2(1)] ok(3) d2(2)] ok(1) d4(1)]
  obtain n where "bth_history ((demo_env, InputReportTick) # (demo_env, HiddEv SendReportEvt)
        # (demo_env, HiddEv (GetReportEvt 1 0x3F)) # (demo_env, InputReportTick) # h) d4 n" by blast
  with h(1) d1(4) d2(6) d4(2) show ?thesis
    by (intro exI [of _ h] exI [of _ d0] exI [of _ d4] exI [of _ n]) simp
qed

text \<open>
  A subcommand is answered only when Bluedroid is idle: with a report in flight the
  reply is dropped without a trace, although the timer advances as if it had been sent.
\<close>

theorem bt_hid_reply_needs_idle:
  assumes "bth_history h d n" and "bt_env_ok env" and "bt_input_ok i" and "bt_connected (link d)"
    and "bt_packet env i = Some (p, k)" and "subcmd_packet p k" and "\<not> wild_request p k"
    and "subcmd_payload (p ! 10) (drop 11 p) (k - 11) d = Some pl"
  shows "\<exists>d'. bth_step env i d = Some d' \<and> s_timer d' = s_timer d + 1
    \<and> interrupts (bt_calls (link d')) = interrupts (bt_calls (link d))
        @ (if n = 0 then [reply_bytes (virtual_grip d) (s_timer d) (ctrl d) (p ! 10) pl] else [])"
proof -
  let ?r = "reply_bytes (virtual_grip d) (s_timer d) (ctrl d) (p ! 10) pl"
  from bth_history_inv [OF assms(1)] have inv: "bth_inv d" and n: "s_send_in_progress (link d) \<longleftrightarrow> n \<noteq> 0" by auto
  note st = packet_step [OF assms(2,3,5)]
  have d: "dev_ok d" using inv by (simp add: bth_inv_def)
  have "?r ! 0 # take 48 (drop 1 ?r) = ?r" by (cases ?r) (simp_all add: reply_bytes_def header_bytes_def)
  then show ?thesis
    using n assms(4) handle_output_reply [OF d assms(6) st(2) assms(7,8), of "bt_hid_send_input_report (env_rc env)"]
    by (simp add: st(1) post_reply_def bt_send_result Let_def)
qed

theorem bt_hid_reply_needs_idle_witness:
  "\<exists>h d d'. bth_history h d 1 \<and> bth_step demo_env (HiddEv (IntrDataEvt 1 10 (Some [0, 0, 0, 0, 0, 0, 0, 0, 0, 0x02]))) d = Some d'
     \<and> s_timer d' = s_timer d + 1 \<and> interrupts (bt_calls (link d')) = interrupts (bt_calls (link d))"
proof -
  let ?i = "HiddEv (IntrDataEvt 1 10 (Some [0, 0, 0, 0, 0, 0, 0, 0, 0, 0x02]))"
  from demo_open obtain h d where d: "bth_history h d 0" "bt_connected (link d)" "s_stream_mode d = STREAM_MODE_0x30"
    by blast
  have idle: "\<not> s_send_in_progress (link d)" using bth_history_inv [OF d(1)] by simp
  from history_step [OF d(1), of InputReportTick] obtain d' n where
    s: "bth_step demo_env InputReportTick d = Some d'" "bth_history ((demo_env, InputReportTick) # h) d' n"
    by (auto simp: bth_wild_def)
  have busy: "s_send_in_progress (link d')" "bt_connected (link d')"
    using s(1) d idle by (auto simp: input_tick_eq Let_def demo_env_def)
  then have h: "bth_history ((demo_env, InputReportTick) # h) d' 1" using s(2) bth_history_inv [OF s(2)] by simp
  obtain p k where pk: "intr_packet demo_env 1 10 (Some [0, 0, 0, 0, 0, 0, 0, 0, 0, 0x02]) = (p, k)"
    by (cases "intr_packet demo_env 1 10 (Some [0, 0, 0, 0, 0, 0, 0, 0, 0, 0x02])")
  then have p: "subcmd_packet p k" "p ! 10 = 0x02"
    by (auto simp: intr_packet_def subcmd_packet_def demo_env_def)
  then have "\<not> wild_request p k" by (simp add: wild_request_def spi_zero_def)
  moreover have "\<exists>pl. subcmd_payload (p ! 10) (drop 11 p) (k - 11) d' = Some pl"
    by (simp add: p subcmd_payload_def)
  ultimately show ?thesis
    using bt_hid_reply_needs_idle [OF h demo_env_ok _ busy(2) _ p(1), of ?i] h pk by fastforce
qed

text \<open>
  The device opens HID connections only to an address that an inquiry showed with the
  class of a console and that is not its own, to the first bonded device after registration, or
  to the all-zero address that the candidate variable starts with.
\<close>

theorem bt_hid_connect_targets:
  assumes "bth_history h d n" and "HidConnect a \<in> set (bt_calls (link d))"
  shows "seen_console h (g_esp32_mac d) a \<or> first_bonded h a \<or> a = replicate 6 0"
  using bth_history_inv [OF assms(1)] assms(2) by blast

theorem bt_hid_connect_targets_witness:
  "\<exists>d n. bth_history [(demo_env, demo_named), (demo_env, demo_found)] d n
     \<and> HidConnect demo_console \<in> set (bt_calls (link d))
     \<and> seen_console [(demo_env, demo_named), (demo_env, demo_found)] (g_esp32_mac d) demo_console"
proof -
  from demo_start obtain d where d: "bth_history [] d 0" "g_esp32_mac d = [1, 2, 3, 4, 5, 6]"
    "link d = (link bth_boot)\<lparr>bt_calls := bt_calls (link d)\<rparr>" by blast
  from history_step [OF d(1), of demo_found] obtain d1 n1 where
    s1: "bth_step demo_env demo_found d = Some d1" "bth_history [(demo_env, demo_found)] d1 n1"
    by (auto simp: demo_found_def bth_wild_def prop_ok_def)
  have idle: "\<not> s_name_candidate_pending (link d)" by (subst d(3)) (simp add: bth_boot_def)
  have c1: "s_switch_candidate (link d1) = demo_console"
    using s1(1) idle d(2)
    by (auto simp: demo_found_def demo_console_def bt_gap_cb_def disc_result_def disc_prop_def rd_le32_def looks_switch_def
        demo_env_def Let_def bt_call_def)
  from history_step [OF s1(2), of demo_named] obtain d2 n2 where
    s2: "bth_step demo_env demo_named d1 = Some d2" "bth_history [(demo_env, demo_named), (demo_env, demo_found)] d2 n2"
    by (auto simp: demo_named_def bth_wild_def)
  have "HidConnect demo_console \<in> set (bt_calls (link d2))"
    using s2(1) c1
    by (auto simp: demo_named_def bt_gap_cb_def remote_name_def cstr_def console_name_def demo_env_def Let_def)
  moreover have "demo_console ! 0 \<noteq> replicate 6 0 ! 0" by (simp add: demo_console_def)
  then have "demo_console \<noteq> replicate 6 0" by metis
  with bt_hid_connect_targets [OF s2(2) \<open>HidConnect demo_console \<in> set (bt_calls (link d2))\<close>]
  have "seen_console [(demo_env, demo_named), (demo_env, demo_found)] (g_esp32_mac d2) demo_console"
    by (auto simp: first_bonded_def demo_named_def demo_found_def)
  ultimately show ?thesis using s2(2) by blast
qed

end
