(* ===== verification/BleHid.thy ===== *)
theory BleHid
  imports SwitchProto EspCalls HidDescriptor
begin

text \<open>
  \<open>main/ble_hid.c\<close>: the Bluetooth LE transport over ESP-IDF's \<open>esp_hidd\<close>.  Its static variables
  are the record \<open>ble_link\<close>; the handles \<open>s_dev\<close> and \<open>s_timer\<close> are only compared with \<open>NULL\<close>, so
  each is the fact that it is set.  The calls into ESP-IDF are recorded in \<open>ble_calls\<close>, and \<open>rc\<close>
  says what they return.  \<open>None\<close> is undefined behaviour or the abort of a failed
  \<open>ESP_ERROR_CHECK\<close>.
\<close>

section \<open>The code\<close>

datatype ble_call =
    ReadMac
  | GapInit nat
  | GapAdvInitGamepad string
  | GattsRegisterCallback
  | HiddDevInit
  | GapAdvStart
  | InputSet u8 bytes
  | TimerCreate
  | TimerStartPeriodic nat
  | TimerStop
  | TimerDelete

record ble_link =
  s_dev :: bool
  ble_timer :: bool
  s_connected :: bool
  ble_calls :: "ble_call list"

type_synonym 'm ble_of = "(ble_link, 'm) dev_of"

definition ble_call :: "ble_call \<Rightarrow> ble_link \<Rightarrow> ble_link" where
  "ble_call c l = l\<lparr>ble_calls := ble_calls l @ [c]\<rparr>"

definition s_report_map :: bytes where
  "s_report_map =
    [0x05, 0x01, 0x09, 0x05, 0xA1, 0x01,
     0x85, 0x30, 0x09, 0x30, 0x75, 0x08, 0x95, 0x30, 0x81, 0x02,
     0x85, 0x21, 0x09, 0x21, 0x75, 0x08, 0x95, 0x30, 0x81, 0x02,
     0x85, 0x3F, 0x09, 0x3F, 0x75, 0x08, 0x95, 0x0C, 0x81, 0x02,
     0x85, 0x01, 0x09, 0x01, 0x75, 0x08, 0x95, 0x30, 0x91, 0x02,
     0x85, 0x10, 0x09, 0x10, 0x75, 0x08, 0x95, 0x30, 0x91, 0x02,
     0x85, 0x11, 0x09, 0x11, 0x75, 0x08, 0x95, 0x30, 0x91, 0x02,
     0x85, 0x12, 0x09, 0x12, 0x75, 0x08, 0x95, 0x30, 0x91, 0x02,
     0xC0]"

definition send_current_report :: "'m ble_of \<Rightarrow> 'm ble_of option" where
  "send_current_report d =
     (if \<not> s_connected (link d) \<or> \<not> s_dev (link d) then Some d
      else do {
        let (timer, d) = switch_proto_next_timer d;
        report \<leftarrow> input_report_build_0x30 (virtual_grip d) (replicate INPUT_REPORT_SIZE 0) timer (ctrl d);
        payload \<leftarrow> rd_range report 1 (INPUT_REPORT_SIZE - 1);
        Some (upd_link (ble_call (InputSet 0x30 payload)) d)
      })"

definition ble_hid_send_input_report :: "ble_link sender" where
  "ble_hid_send_input_report b len l =
     (if \<not> s_connected l \<or> \<not> s_dev l \<or> len < 2 then Some l
      else do {
        report_id \<leftarrow> rd b 0;
        payload \<leftarrow> rd_range b 1 (len - 1);
        Some (ble_call (InputSet report_id payload) l)
      })"

text \<open>The events of \<open>esp_hidd\<close>; an output event carries the report ID, the length and the data.\<close>

datatype ble_event =
    HiddStart
  | HiddConnect
  | HiddOutput u16 nat bytes
  | HiddDisconnect
  | HiddOther

definition start_report_timer :: "(ble_call \<Rightarrow> int) \<Rightarrow> 'm ble_of \<Rightarrow> 'm ble_of option" where
  "start_report_timer rc d =
     (if ble_timer (link d) then Some d
      else if rc TimerCreate \<noteq> ESP_OK \<or> rc (TimerStartPeriodic 15000) \<noteq> ESP_OK then None
      else Some (upd_link (\<lambda>l. ble_call (TimerStartPeriodic 15000) (ble_call TimerCreate (l\<lparr>ble_timer := True\<rparr>))) d))"

definition ble_hid_event :: "(ble_call \<Rightarrow> int) \<Rightarrow> ble_event \<Rightarrow> 'm ble_of \<Rightarrow> 'm ble_of option" where
  "ble_hid_event rc ev d =
     (case ev of
        HiddStart \<Rightarrow> Some (upd_link (ble_call GapAdvStart) d)
      | HiddConnect \<Rightarrow>
          let d = upd_link (\<lambda>l. l\<lparr>s_connected := True\<rparr>) d;
              d = switch_proto_init d
          in start_report_timer rc d
      | HiddOutput report_id event_length event_data \<Rightarrow>
          let len = (if event_length > 64 then 64 else event_length) in
          do {
            report \<leftarrow> wr (replicate (1 + 64) 0) 0 (ucast report_id);
            report \<leftarrow> memcpy report 1 event_data len;
            switch_proto_handle_output ble_hid_send_input_report (Some report) (len + 1) d
          }
      | HiddDisconnect \<Rightarrow>
          let d = upd_link (\<lambda>l. l\<lparr>s_connected := False\<rparr>) d;
              d = (if ble_timer (link d)
                   then upd_link (\<lambda>l. (ble_call TimerDelete (ble_call TimerStop l))\<lparr>ble_timer := False\<rparr>) d
                   else d)
          in Some (upd_link (ble_call GapAdvStart) d)
      | HiddOther \<Rightarrow> Some d)"

text \<open>
  \<open>esp_read_mac\<close> fills the address and \<open>esp_hidd_dev_init\<close> the device handle, each when it succeeds.
  0x01 is \<open>HIDD_BLE_MODE\<close>.
\<close>

definition ble_init_calls :: "(bool \<times> ble_call) list" where
  "ble_init_calls = [(False, ReadMac), (True, GapInit 0x01), (True, GapAdvInitGamepad ''Pro Controller 2''),
     (True, GattsRegisterCallback), (True, HiddDevInit)]"

definition ble_hid_init :: "(ble_call \<Rightarrow> int) \<Rightarrow> bytes \<Rightarrow> 'm ble_of \<Rightarrow> int \<times> 'm ble_of" where
  "ble_hid_init rc mac d =
     (let (err, made) = run_calls rc ble_init_calls;
          d = d\<lparr>g_esp32_mac := (if rc ReadMac = ESP_OK then mac else g_esp32_mac d)\<rparr>;
          d = upd_link (\<lambda>l. l\<lparr>ble_calls := ble_calls l @ made, s_dev := (err = ESP_OK)\<rparr>) d
      in (err, d))"

section \<open>The transport contract\<close>

text \<open>What the host receives: the messages given to \<open>esp_hidd\<close>, report ID first.\<close>

definition ble_sent :: "ble_link \<Rightarrow> bytes list" where
  "ble_sent l = [i # p. InputSet i p \<leftarrow> ble_calls l]"

lemma ble_sent_call [simp]:
  "ble_sent (ble_call c l) = ble_sent l @ (case c of InputSet i p \<Rightarrow> [i # p] | _ \<Rightarrow> [])"
  by (cases c) (simp_all add: ble_sent_def ble_call_def)

lemma ble_sent_flags [simp]:
  "ble_sent (l\<lparr>s_connected := b\<rparr>) = ble_sent l" "ble_sent (l\<lparr>ble_timer := b\<rparr>) = ble_sent l"
  by (simp_all add: ble_sent_def)

lemma ble_call_flags [simp]:
  "s_connected (ble_call c l) = s_connected l" "ble_timer (ble_call c l) = ble_timer l"
  "s_dev (ble_call c l) = s_dev l"
  by (simp_all add: ble_call_def)

definition ble_flags :: "ble_link \<Rightarrow> bool \<times> bool \<times> bool" where
  "ble_flags l = (s_connected l, ble_timer l, s_dev l)"

lemma ble_send_result:
  assumes "0 < len" and "len \<le> length b"
  shows "ble_hid_send_input_report b len l =
    Some (if s_connected l \<and> s_dev l \<and> 2 \<le> len then ble_call (InputSet (b ! 0) (take (len - 1) (drop 1 b))) l else l)"
proof -
  have "rd b 0 = Some (b ! 0)" using assms by (intro rd_Some) linarith
  with assms show ?thesis by (simp add: ble_hid_send_input_report_def)
qed

interpretation ble: transport ble_hid_send_input_report "\<lambda>l. ble_flags l = fl" ble_sent for fl
proof
  fix l :: ble_link and len and b :: bytes
  assume a: "ble_flags l = fl" "0 < len" "len \<le> length b"
  then have "b ! 0 # take (len - 1) (drop 1 b) = take len b"
    by (cases b; cases len) auto
  with a show "\<exists>l'. ble_hid_send_input_report b len l = Some l' \<and> ble_flags l' = fl
      \<and> ble_sent l' \<in> {ble_sent l, ble_sent l @ [take len b]}"
    by (auto simp: ble_send_result ble_flags_def)
qed

section \<open>Runs\<close>

text \<open>
  What can happen to the transport: an event of \<open>esp_hidd\<close> or a tick of the report timer.  A run
  starts after a successful \<open>ble_hid_init\<close>; the controller has been initialised by \<open>app_main\<close>.
\<close>

datatype ble_input = HiddEvent ble_event | ReportTimerTick

fun ble_step :: "(ble_call \<Rightarrow> int) \<Rightarrow> ble_input \<Rightarrow> 'm ble_of \<Rightarrow> 'm ble_of option" where
  "ble_step rc (HiddEvent ev) d = ble_hid_event rc ev d"
| "ble_step rc ReportTimerTick d = send_current_report d"

definition ble_packet :: "u16 \<Rightarrow> nat \<Rightarrow> bytes \<Rightarrow> bytes \<times> nat" where
  "ble_packet i n b = (ucast i # take (min n 64) b @ replicate (64 - min n 64) 0, min n 64 + 1)"

text \<open>The data of an output event is readable; the flash read of nothing is the exception.\<close>

fun ble_input_ok :: "ble_input \<Rightarrow> bool" where
  "ble_input_ok (HiddEvent (HiddOutput i n b)) \<longleftrightarrow> min n 64 \<le> length b"
| "ble_input_ok _ \<longleftrightarrow> True"

fun ble_wild :: "ble_input \<Rightarrow> bool" where
  "ble_wild (HiddEvent (HiddOutput i n b)) \<longleftrightarrow> (case ble_packet i n b of (p, k) \<Rightarrow> wild_request p k)"
| "ble_wild _ \<longleftrightarrow> False"

definition timers_ok :: "(ble_call \<Rightarrow> int) \<Rightarrow> bool" where
  "timers_ok rc \<longleftrightarrow> rc TimerCreate = ESP_OK \<and> rc (TimerStartPeriodic 15000) = ESP_OK"

definition ble_boot :: "ble_link dev" where
  "ble_boot = \<lparr>ctrl = controller_state_init controller_static, virtual_grip = False, nfc = nfc_boot,
     s_stream_mode = STREAM_MODE_0x30, s_timer = 0, s_stream_enabled = False, g_esp32_mac = replicate 6 0,
     link = \<lparr>s_dev = False, ble_timer = False, s_connected = False, ble_calls = []\<rparr>\<rparr>"

inductive ble_reachable :: "(ble_call \<Rightarrow> int) \<Rightarrow> ble_link dev \<Rightarrow> bool" for rc where
  init: "ble_hid_init rc mac ble_boot = (ESP_OK, d) \<Longrightarrow> length mac = 6 \<Longrightarrow> ble_reachable rc d"
| step: "ble_reachable rc d \<Longrightarrow> ble_input_ok i \<Longrightarrow> ble_step rc i d = Some d' \<Longrightarrow> ble_reachable rc d'"

definition ble_inv :: "'m ble_of \<Rightarrow> bool" where
  "ble_inv d \<longleftrightarrow> dev_ok d \<and> s_dev (link d) \<and> (ble_timer (link d) \<longleftrightarrow> s_connected (link d))
     \<and> \<not> virtual_grip d \<and> ctrl d = controller_state_init controller_static"

lemma send_current_report_eq:
  "send_current_report d = Some (if s_connected (link d) \<and> s_dev (link d)
     then upd_link (ble_call (InputSet 0x30 (drop 1 (full_bytes (virtual_grip d) 0x30 (s_timer d) (ctrl d)))))
            (d\<lparr>s_timer := (s_timer d + 1) AND 0xFF\<rparr>)
     else d)"
  by (simp add: send_current_report_def switch_proto_next_timer_def build_0x30_eq Let_def report_sizes)

lemma handle_output_event:
  assumes "ble_input_ok (HiddEvent (HiddOutput i n b))"
  shows "ble_hid_event rc (HiddOutput i n b) d =
      (case ble_packet i n b of (p, k) \<Rightarrow> switch_proto_handle_output ble_hid_send_input_report (Some p) k d)"
    and "case ble_packet i n b of (p, k) \<Rightarrow> k \<le> length p"
proof -
  have m: "(if n > 64 then 64 else n) = min n 64" by auto
  have rep: "replicate 65 (0 :: u8) = 0 # replicate 64 0"
    by (simp add: replicate_Suc [symmetric] del: replicate_Suc)
  show "ble_hid_event rc (HiddOutput i n b) d =
      (case ble_packet i n b of (p, k) \<Rightarrow> switch_proto_handle_output ble_hid_send_input_report (Some p) k d)"
    using assms by (simp add: ble_hid_event_def ble_packet_def m rep Let_def)
  show "case ble_packet i n b of (p, k) \<Rightarrow> k \<le> length p"
    using assms by (simp add: ble_packet_def)
qed

lemma ble_inv_frame:
  assumes "ble_inv d" and "proto_frame d d'" and "dev_ok d'" and "ble_flags (link d') = ble_flags (link d)"
  shows "ble_inv d'"
  using assms by (auto simp: ble_inv_def proto_frame_def ble_flags_def)

lemma ble_step_total:
  assumes "ble_inv d" and "timers_ok rc" and "ble_input_ok i" and "\<not> ble_wild i"
  shows "\<exists>d'. ble_step rc i d = Some d' \<and> ble_inv d'"
proof (cases i)
  case ReportTimerTick
  with assms(1) show ?thesis by (simp add: send_current_report_eq ble_inv_def dev_ok_def)
next
  case (HiddEvent ev)
  show ?thesis
  proof (cases ev)
    case (HiddOutput j n b)
    obtain p k where p: "ble_packet j n b = (p, k)" by (cases "ble_packet j n b")
    have ok: "ble_input_ok (HiddEvent (HiddOutput j n b))" using assms(3) HiddEvent HiddOutput by simp
    from handle_output_event(2) [OF ok] p have "k \<le> length p" by simp
    moreover have "\<not> wild_request p k" using assms(4) HiddEvent HiddOutput p by simp
    moreover have "dev_ok d" using assms(1) by (simp add: ble_inv_def)
    ultimately obtain d' where "switch_proto_handle_output ble_hid_send_input_report (Some p) k d = Some d'"
      "dev_ok d'" "ble_flags (link d') = ble_flags (link d)" "proto_frame d d'"
      using ble.handle_output_total [of d "ble_flags (link d)" k p] by blast
    with handle_output_event(1) [OF ok, of rc d] p HiddEvent HiddOutput assms(1) show ?thesis
      by (simp add: ble_inv_frame)
  next
    case HiddConnect
    with HiddEvent assms show ?thesis
      by (simp add: ble_hid_event_def ble_inv_def timers_ok_def start_report_timer_def switch_proto_init_def
          dev_ok_def nfc_inv_reset Let_def)
  qed (use HiddEvent assms in \<open>auto simp: ble_hid_event_def ble_inv_def dev_ok_def Let_def\<close>)
qed

lemma ble_step_wild:
  assumes "ble_input_ok i" and "ble_wild i"
  shows "ble_step rc i d = None"
proof -
  from assms(2) obtain j n b where i: "i = HiddEvent (HiddOutput j n b)"
    by (cases i rule: ble_wild.cases) auto
  obtain p k where p: "ble_packet j n b = (p, k)" by (cases "ble_packet j n b")
  note ok = assms(1) [unfolded i]
  show ?thesis
    using handle_output_event(1) [OF ok, of rc d] handle_output_event(2) [OF ok]
      handle_output_wild [of p k ble_hid_send_input_report d] assms(2) i p by simp
qed

lemma ble_reachable_inv:
  assumes "ble_reachable rc d" and "timers_ok rc"
  shows "ble_inv d"
  using assms
proof (induction rule: ble_reachable.induct)
  case (init mac d)
  then show ?case
    by (auto simp: ble_hid_init_def ble_inv_def ble_boot_def dev_ok_def nfc_inv_boot Let_def split: prod.splits)
next
  case (step d i d')
  have "\<not> ble_wild i" using ble_step_wild [OF step.hyps(2), of rc d] step.hyps(3) by auto
  with ble_step_total [OF step.IH step.prems step.hyps(2)] step show ?case by auto
qed

lemma ble_quiet:
  assumes "ble_inv d" and "\<not> s_connected (link d)" and "ble_input_ok i" and "ble_step rc i d = Some d'"
  shows "ble_sent (link d') = ble_sent (link d)"
proof (cases i)
  case ReportTimerTick
  with assms show ?thesis by (simp add: send_current_report_eq)
next
  case (HiddEvent ev)
  have silent: "ble_hid_send_input_report b n l = Some l" if "\<not> s_connected l" for b n l
    using that by (simp add: ble_hid_send_input_report_def)
  show ?thesis
  proof (cases ev)
    case (HiddOutput j n b)
    obtain p k where p: "ble_packet j n b = (p, k)" by (cases "ble_packet j n b")
    note ok = assms(3) [unfolded HiddEvent HiddOutput]
    have run: "switch_proto_handle_output ble_hid_send_input_report (Some p) k d = Some d'"
      using assms(4) handle_output_event(1) [OF ok, of rc d] p HiddEvent HiddOutput by simp
    have k: "k \<le> length p" using handle_output_event(2) [OF ok] p by simp
    have "\<not> wild_request p k" using handle_output_wild [OF _ k, of ble_hid_send_input_report d] run by auto
    moreover have "dev_ok d" using assms(1) by (simp add: ble_inv_def)
    moreover have "transport ble_hid_send_input_report (\<lambda>l. l = link d) ble_sent"
      by unfold_locales (simp add: silent assms(2))
    ultimately have "link d' = link d"
      using transport.handle_output_total [of ble_hid_send_input_report "\<lambda>l. l = link d" ble_sent d k p] k run
      by auto
    then show ?thesis by simp
  qed (use HiddEvent assms in \<open>auto simp: ble_hid_event_def start_report_timer_def switch_proto_init_def Let_def
         split: if_splits\<close>)
qed

text \<open>A run for the witnesses: initialised, then connected.\<close>

definition ble_open :: "ble_link dev" where
  "ble_open = the (ble_step (\<lambda>c. ESP_OK) (HiddEvent HiddConnect) (snd (ble_hid_init (\<lambda>c. ESP_OK) [1, 2, 3, 4, 5, 6] ble_boot)))"

lemma ble_open_reachable: "ble_reachable (\<lambda>c. ESP_OK) ble_open"
proof (rule ble_reachable.step)
  show "ble_reachable (\<lambda>c. ESP_OK) (snd (ble_hid_init (\<lambda>c. ESP_OK) [1, 2, 3, 4, 5, 6] ble_boot))"
    by (rule ble_reachable.init [where mac = "[1, 2, 3, 4, 5, 6]"]) (simp_all add: ble_hid_init_def ble_init_calls_def Let_def)
  show "ble_input_ok (HiddEvent HiddConnect)" by simp
  show "ble_step (\<lambda>c. ESP_OK) (HiddEvent HiddConnect) (snd (ble_hid_init (\<lambda>c. ESP_OK) [1, 2, 3, 4, 5, 6] ble_boot))
      = Some ble_open"
    by (simp add: ble_open_def ble_hid_event_def start_report_timer_def Let_def)
qed

lemma ble_open_connected: "s_connected (link ble_open)"
  by (simp add: ble_open_def ble_hid_event_def start_report_timer_def switch_proto_init_def Let_def)

section \<open>Properties\<close>

text \<open>
  The LE transport never leaves a buffer, except for exactly the output event that
  carries a flash read of zero bytes at address 0; and its report timer exists exactly while
  a host is connected.
\<close>

theorem ble_memory_safe:
  assumes "ble_reachable rc d" and "timers_ok rc" and "ble_input_ok i"
  shows "(ble_step rc i d = None \<longleftrightarrow> ble_wild i) \<and> (ble_timer (link d) \<longleftrightarrow> s_connected (link d))"
  using ble_step_wild [OF assms(3), of rc d] ble_reachable_inv [OF assms(1,2)]
    ble_step_total [OF ble_reachable_inv [OF assms(1,2)] assms(2,3)]
  by (cases "ble_wild i") (auto simp: ble_inv_def)

theorem ble_memory_safe_witness:
  "ble_step (\<lambda>c. ESP_OK) (HiddEvent (HiddOutput 1 15 [0, 0, 0, 0, 0, 0, 0, 0, 0, 0x10, 0, 0, 0, 0, 0])) ble_open = None
   \<and> ble_step (\<lambda>c. ESP_OK) (HiddEvent (HiddOutput 1 15 [0, 0, 0, 0, 0, 0, 0, 0, 0, 0x10, 0, 0, 0, 0, 1])) ble_open \<noteq> None"
proof -
  let ?a = "HiddEvent (HiddOutput 1 15 [0, 0, 0, 0, 0, 0, 0, 0, 0, 0x10, 0, 0, 0, 0, 0])"
  let ?b = "HiddEvent (HiddOutput 1 15 [0, 0, 0, 0, 0, 0, 0, 0, 0, 0x10, 0, 0, 0, 0, 1])"
  have "ble_wild ?a" "\<not> ble_wild ?b" "ble_input_ok ?a" "ble_input_ok ?b" "timers_ok (\<lambda>c. ESP_OK)"
    by (simp_all add: ble_packet_def wild_request_def subcmd_packet_def spi_zero_def timers_ok_def)
  with ble_memory_safe [OF ble_open_reachable, of ?a] ble_memory_safe [OF ble_open_reachable, of ?b]
  show ?thesis by blast
qed

text \<open>
  Property C18: while connected, every tick sends one 0x30 report, with the number of bytes that the
  report map declares and from which the host decodes the controller state; while not connected
  no event sends anything.
\<close>

theorem ble_streaming:
  assumes "ble_reachable rc d" and "timers_ok rc" and "ble_input_ok i" and "ble_step rc i d = Some d'"
  shows "if \<not> s_connected (link d) then ble_sent (link d') = ble_sent (link d)
    else i = ReportTimerTick \<longrightarrow> (\<exists>m. ble_sent (link d') = ble_sent (link d) @ [m]
      \<and> 8 * (length m - 1) = input_bits s_report_map (m ! 0) 0 0 0 s_report_map
      \<and> m ! 0 = 0x30 \<and> m ! 1 = s_timer d \<and> decode_state m = ctrl d)"
proof -
  have inv: "ble_inv d" by (rule ble_reachable_inv [OF assms(1,2)])
  let ?m = "full_bytes False 0x30 (s_timer d) (ctrl d)"
  have "input_bits s_report_map 0x30 0 0 0 s_report_map = 8 * 48"
    by (simp add: s_report_map_def)
  moreover have "0x30 # drop 1 ?m = ?m" "?m ! 1 = s_timer d"
    by (simp_all add: full_bytes_def header_bytes_def)
  moreover have "decode_state ?m = ctrl d"
    using inv decode_full_bytes [of "ctrl d" "0x30" "s_timer d" "[]"]
    by (simp add: ble_inv_def sticks_12bit_def controller_state_init_def)
  ultimately show ?thesis
    using ble_quiet [OF inv _ assms(3,4)] assms(4) inv
    by (auto simp: send_current_report_eq ble_inv_def full_bytes_id)
qed

theorem ble_streaming_witness:
  "\<exists>d' m. ble_step (\<lambda>c. ESP_OK) ReportTimerTick ble_open = Some d' \<and> ble_sent (link d') = ble_sent (link ble_open) @ [m]
    \<and> m ! 0 = 0x30 \<and> decode_state m = controller_state_init controller_static"
proof -
  have t: "timers_ok (\<lambda>c. ESP_OK)" by (simp add: timers_ok_def)
  obtain d' where d': "ble_step (\<lambda>c. ESP_OK) ReportTimerTick ble_open = Some d'"
    by (simp add: send_current_report_eq)
  have "ctrl ble_open = controller_state_init controller_static"
    using ble_reachable_inv [OF ble_open_reachable t] by (simp add: ble_inv_def)
  with ble_streaming [OF ble_open_reachable t _ d'] d' ble_open_connected show ?thesis by auto
qed

end
