(* ===== verification/Firmware.thy ===== *)
theory Firmware
  imports BtstackHid BleHid BtHid
begin

text \<open>
  \<open>main/hid_transport.c\<close> and \<open>main/main.c\<close>: the choice of the transport at build time and the start
  of the program.  The build is a constructor of \<open>firmware_link\<close>, so that one model covers the
  three builds; the transport contract holds for each.
\<close>

section \<open>The code\<close>

datatype firmware_link = Ble ble_link | Btstack btstack_link | Bluedroid bt_link

definition hid_transport_send_input_report :: "(bt_call \<Rightarrow> int) \<Rightarrow> firmware_link sender" where
  "hid_transport_send_input_report rc b len l =
     (case l of
        Ble l \<Rightarrow> map_option Ble (ble_hid_send_input_report b len l)
      | Btstack l \<Rightarrow> map_option Btstack (btstack_hid_send_input_report b len l)
      | Bluedroid l \<Rightarrow> map_option Bluedroid (bt_hid_send_input_report rc b len l))"

definition ESP_ERR_NVS_NO_FREE_PAGES :: int where "ESP_ERR_NVS_NO_FREE_PAGES = 0x110d"
definition ESP_ERR_NVS_NEW_VERSION_FOUND :: int where "ESP_ERR_NVS_NEW_VERSION_FOUND = 0x1110"

datatype nvs_call = NvsFlashInit | NvsFlashErase

text \<open>The results of the first and the second \<open>nvs_flash_init\<close> and of \<open>nvs_flash_erase\<close>; \<open>None\<close> is the abort.\<close>

definition init_nvs :: "int \<Rightarrow> int \<Rightarrow> int \<Rightarrow> nvs_call list option" where
  "init_nvs first erased second =
     (if first = ESP_ERR_NVS_NO_FREE_PAGES \<or> first = ESP_ERR_NVS_NEW_VERSION_FOUND
      then if erased \<noteq> ESP_OK then None
           else if second \<noteq> ESP_OK then None else Some [NvsFlashInit, NvsFlashErase, NvsFlashInit]
      else if first \<noteq> ESP_OK then None else Some [NvsFlashInit])"

text \<open>
  \<open>init\<close> is the build's transport initialisation.  The flag of the result says whether the program
  goes on into its run loop (or waits, in the Bluedroid build) or returns after the error.
\<close>

definition app_main ::
    "nvs_call list option \<Rightarrow> (('l, 'm) dev_of \<Rightarrow> (int \<times> ('l, 'm) dev_of) option) \<Rightarrow> ('l, 'm) dev_of
      \<Rightarrow> (bool \<times> ('l, 'm) dev_of) option" where
  "app_main nvs init d =
     do {
       _ \<leftarrow> nvs;
       let d = d\<lparr>ctrl := controller_state_init (ctrl d)\<rparr>;
       (err, d) \<leftarrow> init d;
       Some (err = ESP_OK, d)
     }"

section \<open>One contract for the three builds\<close>

fun fw_ok :: "firmware_link \<Rightarrow> bool" where
  "fw_ok (Btstack l) \<longleftrightarrow> link_ok l"
| "fw_ok _ \<longleftrightarrow> True"

fun fw_outbox :: "firmware_link \<Rightarrow> bytes list" where
  "fw_outbox (Ble l) = ble_sent l"
| "fw_outbox (Btstack l) = queued l"
| "fw_outbox (Bluedroid l) = interrupts (bt_calls l)"

interpretation fw: transport "hid_transport_send_input_report rc" fw_ok fw_outbox for rc
proof
  fix l len and b :: bytes
  assume a: "fw_ok l" "0 < len" "len \<le> 49" "len \<le> length b"
  show "\<exists>l'. hid_transport_send_input_report rc b len l = Some l' \<and> fw_ok l'
      \<and> fw_outbox l' \<in> {fw_outbox l, fw_outbox l @ [take len b]}"
  proof (cases l)
    case (Ble l)
    with ble.send_total [OF refl a(2-4), of l] show ?thesis
      by (auto simp: hid_transport_send_input_report_def)
  next
    case (Btstack l)
    with bt.send_total [OF _ a(2-4), of l "is_connected l"] a(1) show ?thesis
      by (auto simp: hid_transport_send_input_report_def)
  next
    case (Bluedroid l)
    with bth.send_total [OF refl a(2-4), of rc l] show ?thesis
      by (auto simp: hid_transport_send_input_report_def)
  qed
qed

text \<open>The states before \<open>app_main\<close>: the static initialisation of each build.\<close>

definition ble_static :: "ble_link dev" where
  "ble_static = ble_boot\<lparr>ctrl := controller_static\<rparr>"

definition btstack_static :: "btstack_link pc_dev" where
  "btstack_static = bt_boot\<lparr>ctrl := controller_static\<rparr>"

definition bluedroid_static :: "bt_link dev" where
  "bluedroid_static = bth_boot\<lparr>ctrl := controller_static\<rparr>"

section \<open>Properties\<close>

text \<open>
  Property C17: over every one of the three transports, the one output report that leaves a buffer
  is the subcommand that reads zero bytes of flash at address 0 (\<open>wild_request\<close>).  Every other report is
  handled completely: the code returns, keeps the state well-formed, touches only the NFC
  controller and the protocol state, and puts at most the one reply into the transport's outbox.
\<close>

theorem output_over_any_transport:
  assumes "dev_ok d" and "fw_ok (link d)" and "len \<le> length p"
  shows "case switch_proto_handle_output (hid_transport_send_input_report rc) (Some p) len d of
      None \<Rightarrow> wild_request p len
    | Some d' \<Rightarrow> \<not> wild_request p len \<and> dev_ok d' \<and> fw_ok (link d') \<and> proto_frame d d'
        \<and> (fw_outbox (link d') = fw_outbox (link d) \<or> subcmd_packet p len \<and> (\<exists>pl.
             subcmd_payload (p ! 10) (drop 11 p) (len - 11) d = Some pl
             \<and> fw_outbox (link d') = fw_outbox (link d)
               @ [reply_bytes (virtual_grip d) (s_timer d) (ctrl d) (p ! 10) pl]))"
proof (cases "wild_request p len")
  case True
  then show ?thesis by (simp add: handle_output_wild assms(3))
next
  case False
  from fw.handle_output_total [OF assms False, of rc] False show ?thesis by auto
qed

text \<open>For the witness: two requests to the BTstack build while it is connected, with an empty reply queue.\<close>

definition fw_demo :: "firmware_link dev" where
  "fw_demo = \<lparr>ctrl = controller_state_init controller_static, virtual_grip = False, nfc = nfc_boot,
     s_stream_mode = STREAM_MODE_0x30, s_timer = 7, s_stream_enabled = False, g_esp32_mac = [1, 2, 3, 4, 5, 6],
     link = Btstack (bt_link_boot\<lparr>is_connected := True\<rparr>)\<rparr>"

theorem output_over_any_transport_witness:
  "switch_proto_handle_output (hid_transport_send_input_report (\<lambda>c. ESP_OK))
      (Some [1, 0, 0, 0, 0, 0, 0, 0, 0, 0, 0x10, 0, 0, 0, 0, 0]) 16 fw_demo = None
   \<and> (\<exists>d'. switch_proto_handle_output (hid_transport_send_input_report (\<lambda>c. ESP_OK))
        (Some [1, 0, 0, 0, 0, 0, 0, 0, 0, 0, 0x10, 0, 0, 0, 0, 1]) 16 fw_demo = Some d'
      \<and> dev_ok d' \<and> fw_ok (link d') \<and> length (fw_outbox (link d')) \<le> 1)"
proof -
  let ?a = "[1, 0, 0, 0, 0, 0, 0, 0, 0, 0, 0x10, 0, 0, 0, 0, 0] :: bytes"
  let ?b = "[1, 0, 0, 0, 0, 0, 0, 0, 0, 0, 0x10, 0, 0, 0, 0, 1] :: bytes"
  have ok: "dev_ok fw_demo" "fw_ok (link fw_demo)" "fw_outbox (link fw_demo) = []"
    by (simp_all add: fw_demo_def dev_ok_def nfc_inv_boot bt_link_boot_def link_ok_def queued_def)
  have "wild_request ?a 16" "\<not> wild_request ?b 16"
    by (simp_all add: wild_request_def subcmd_packet_def spi_zero_def)
  with output_over_any_transport [OF ok(1,2), of 16 ?a "\<lambda>c. ESP_OK"]
    output_over_any_transport [OF ok(1,2), of 16 ?b "\<lambda>c. ESP_OK"] ok(3)
  show ?thesis by (auto split: option.splits)
qed

text \<open>
  When \<open>app_main\<close> goes on into its run loop, the state is one from which the runs of the
  build's transport start, so the properties of reachable states hold from the start of the
  program.
\<close>

theorem app_main_starts:
  assumes "length mac = 6"
  shows "(app_main nvs (\<lambda>d. Some (ble_hid_init rc mac d)) ble_static = Some (True, d1) \<longrightarrow> ble_reachable rc d1)
    \<and> (app_main nvs (btstack_hid_init st mac n m pc) btstack_static = Some (True, d2) \<longrightarrow> bt_reachable api recv d2)
    \<and> (app_main nvs (\<lambda>d. Some (bt_hid_init rc' created mac d)) bluedroid_static = Some (True, d3)
         \<longrightarrow> bth_history [] d3 0)"
proof -
  have boots: "ble_static\<lparr>ctrl := controller_state_init (ctrl ble_static)\<rparr> = ble_boot"
    "btstack_static\<lparr>ctrl := controller_state_init (ctrl btstack_static)\<rparr> = bt_boot"
    "bluedroid_static\<lparr>ctrl := controller_state_init (ctrl bluedroid_static)\<rparr> = bth_boot"
    by (simp_all add: ble_static_def btstack_static_def bluedroid_static_def ble_boot_def bt_boot_def bth_boot_def)
  show ?thesis
    using assms
    by (auto simp: app_main_def boots bind_eq_Some_conv split: prod.splits
        intro: ble_reachable.init bt_reachable.start bth_history.init)
qed

theorem app_main_starts_witness:
  "\<exists>d. app_main (init_nvs ESP_OK 0 0) (\<lambda>d. Some (ble_hid_init (\<lambda>c. ESP_OK) [1, 2, 3, 4, 5, 6] d)) ble_static = Some (True, d)
     \<and> ble_reachable (\<lambda>c. ESP_OK) d"
proof -
  obtain d where d: "app_main (init_nvs ESP_OK 0 0) (\<lambda>d. Some (ble_hid_init (\<lambda>c. ESP_OK) [1, 2, 3, 4, 5, 6] d)) ble_static
      = Some (True, d)"
    by (simp add: app_main_def init_nvs_def ESP_OK_def ESP_ERR_NVS_NO_FREE_PAGES_def
        ESP_ERR_NVS_NEW_VERSION_FOUND_def ble_hid_init_def ble_init_calls_def Let_def)
  moreover have "ble_reachable (\<lambda>c. ESP_OK) d"
    using app_main_starts [of "[1, 2, 3, 4, 5, 6]", THEN conjunct1] d by (simp add: ESP_OK_def)
  ultimately show ?thesis by blast
qed

end
