(* ===== verification/HeapList.thy ===== *)
theory HeapList
  imports Prelude
begin

text \<open>
  Singly linked lists in memory, for the code that links records through a \<open>next\<close> pointer.  An
  address is a number, 0 is \<open>NULL\<close>, and \<open>nx a\<close> is the pointer stored at \<open>a\<close> (\<open>None\<close>: nothing
  readable there).  \<open>seg nx p as q\<close> says that following the pointers from \<open>p\<close> visits the cells
  \<open>as\<close> and arrives at \<open>q\<close>; \<open>links\<close> is the case of a list that ends with \<open>NULL\<close>.
\<close>

type_synonym addr = nat

primrec seg :: "(addr \<Rightarrow> addr option) \<Rightarrow> addr \<Rightarrow> addr list \<Rightarrow> addr \<Rightarrow> bool" where
  "seg nx p [] q \<longleftrightarrow> p = q"
| "seg nx p (a # as) q \<longleftrightarrow> p = a \<and> a \<noteq> 0 \<and> (case nx a of None \<Rightarrow> False | Some r \<Rightarrow> seg nx r as q)"

abbreviation links :: "(addr \<Rightarrow> addr option) \<Rightarrow> addr \<Rightarrow> addr list \<Rightarrow> bool" where
  "links nx p as \<equiv> seg nx p as 0"

lemma seg_Cons_Some: "seg nx p (a # as) q \<longleftrightarrow> p = a \<and> a \<noteq> 0 \<and> (\<exists>r. nx a = Some r \<and> seg nx r as q)"
  by (auto split: option.splits)

lemma seg_null [simp]: "seg nx 0 as q \<longleftrightarrow> as = [] \<and> q = 0"
  by (cases as) auto

lemma links_nonnull: "p \<noteq> 0 \<Longrightarrow> links nx p as \<longleftrightarrow> (\<exists>r bs. as = p # bs \<and> nx p = Some r \<and> links nx r bs)"
  by (cases as) (auto split: option.splits)

lemma seg_append: "seg nx p (as @ bs) q \<longleftrightarrow> (\<exists>r. seg nx p as r \<and> seg nx r bs q)"
  by (induction as arbitrary: p) (auto split: option.splits)

lemma seg_cong: "(\<And>a. a \<in> set as \<Longrightarrow> nx a = nx' a) \<Longrightarrow> seg nx p as q = seg nx' p as q"
  by (induction as arbitrary: p) (auto split: option.splits)

lemma seg_upd [simp]: "a \<notin> set as \<Longrightarrow> seg (nx(a := v)) p as q = seg nx p as q"
  by (rule seg_cong) auto

lemma links_unique: "links nx p as \<Longrightarrow> links nx p bs \<Longrightarrow> as = bs"
proof (induction as arbitrary: p bs)
  case Nil
  then show ?case by (cases bs) auto
next
  case (Cons a as)
  then show ?case by (cases bs) (auto split: option.splits)
qed

lemma links_not_null: "links nx p as \<Longrightarrow> 0 \<notin> set as"
  by (induction as arbitrary: p) (auto split: option.splits)

lemma links_distinct: "links nx p as \<Longrightarrow> distinct as"
proof (induction as arbitrary: p)
  case Nil
  then show ?case by simp
next
  case (Cons a as)
  then obtain r where r: "nx a = Some r" "links nx r as" by (auto split: option.splits)
  have "a \<notin> set as"
  proof
    assume "a \<in> set as"
    then obtain bs cs where as: "as = bs @ a # cs" by (auto simp: in_set_conv_decomp)
    with r have "links nx a (a # cs)" by (auto simp: seg_append)
    moreover have "links nx a (a # as)" using r Cons.prems by simp
    ultimately have "a # cs = a # as" by (rule links_unique)
    with as show False by (metis append_Cons append_Nil length_append less_add_same_cancel2
        length_greater_0_conv list.distinct(1) list.inject nat_less_le add.commute length_Cons
        add_Suc_right not_add_less2 lessI)
  qed
  with Cons.IH r show ?case by auto
qed

lemma links_readable: "links nx p as \<Longrightarrow> set as \<subseteq> {a. nx a \<noteq> None}"
  by (induction as arbitrary: p) (auto split: option.splits)

text \<open>Every cell of a list splits it; the pointer of the cell before it leads to it.\<close>

lemma links_split: "links nx p (as @ b # cs) \<longleftrightarrow> seg nx p as b \<and> links nx b (b # cs)"
  by (auto simp: seg_append)

lemma seg_snoc: "seg nx p (as @ [b]) q \<longleftrightarrow> seg nx p as b \<and> b \<noteq> 0 \<and> nx b = Some q"
  by (auto simp: seg_append split: option.splits)

end
