(* ===== verification/GapScan.thy ===== *)
theory GapScan
  imports HeapList EspCalls
begin

text \<open>
  \<open>main/esp_hid_gap.c\<close>, the scan for HID devices in the Bluedroid builds: the result lists, the
  handlers of the GAP events and \<open>esp_hid_scan\<close>.  The static variables are the record \<open>gap\<close>; the
  heap holds the scan results and their names, and \<open>malloc\<close> is an argument that gives a fresh
  address or 0.  The functions of ESP-IDF that the code calls for a value are the fields of
  \<open>gap_env\<close>; the other calls are recorded in \<open>gap_calls\<close>, and \<open>rc\<close> says what they return.
  \<open>None\<close> is an access outside of allocated memory, an operation on a semaphore that does not
  exist, or a call that never returns.
\<close>

section \<open>Scan results in memory\<close>

text \<open>\<open>esp_bt_uuid_t\<close>: the length and the bytes of the union, little-endian as in memory.\<close>

record bt_uuid =
  uuid_len :: nat
  uuid_val :: bytes

text \<open>The member of the union that is in use, with the tag \<open>transport\<close>.\<close>

datatype radio =
    Bt (bt_cod: u32) (bt_uuid: bt_uuid)
  | Ble (ble_addr_type: nat) (ble_appearance: u16)

record scan_result =
  sr_next :: addr
  sr_bda :: bytes
  sr_name :: addr
  sr_rssi :: u8
  sr_usage :: nat
  sr_radio :: radio

record gap_heap =
  recs :: "addr \<Rightarrow> scan_result option"
  strs :: "addr \<Rightarrow> bytes option"

definition get_rec :: "gap_heap \<Rightarrow> addr \<Rightarrow> scan_result option" where
  "get_rec h p = (if p = 0 then None else recs h p)"

definition put_rec :: "addr \<Rightarrow> scan_result \<Rightarrow> gap_heap \<Rightarrow> gap_heap" where
  "put_rec p r h = h\<lparr>recs := (recs h)(p \<mapsto> r)\<rparr>"

definition upd_rec :: "addr \<Rightarrow> (scan_result \<Rightarrow> scan_result) \<Rightarrow> gap_heap \<Rightarrow> gap_heap option" where
  "upd_rec p f h = do { r \<leftarrow> get_rec h p; Some (put_rec p (f r) h) }"

definition free_rec :: "addr \<Rightarrow> gap_heap \<Rightarrow> gap_heap option" where
  "free_rec p h = do { _ \<leftarrow> get_rec h p; Some (h\<lparr>recs := (recs h)(p := None)\<rparr>) }"

definition free_str :: "addr \<Rightarrow> gap_heap \<Rightarrow> gap_heap option" where
  "free_str p h = do { _ \<leftarrow> strs h p; Some (h\<lparr>strs := (strs h)(p := None)\<rparr>) }"

datatype eir_type = CMPL_16BITS_UUID | INCMPL_16BITS_UUID | CMPL_32BITS_UUID | INCMPL_32BITS_UUID
  | CMPL_128BITS_UUID | INCMPL_128BITS_UUID | CMPL_LOCAL_NAME | SHORT_LOCAL_NAME

datatype adv_type = AD_16SRV_CMPL | AD_APPEARANCE | AD_NAME_CMPL | AD_NAME_SHORT

text \<open>
  What ESP-IDF and the C library provide.  The two resolvers look for an element of a type in the
  advertised data and return where it starts and its length; \<open>cod_address\<close> is the address of the
  local variable \<open>codv\<close> of \<open>handle_bt_device_result\<close>.
\<close>

record gap_env =
  malloc_rec :: "gap_heap \<Rightarrow> addr"
  malloc_str :: "nat \<Rightarrow> gap_heap \<Rightarrow> addr"
  usage_from_cod :: "u32 \<Rightarrow> nat"
  usage_from_appearance :: "u16 \<Rightarrow> nat"
  cod_major :: "u32 \<Rightarrow> nat"
  cod_address :: u32
  resolve_eir :: "bytes \<Rightarrow> eir_type \<Rightarrow> (nat \<times> u8) option"
  resolve_adv :: "bytes \<Rightarrow> nat \<Rightarrow> adv_type \<Rightarrow> (nat \<times> u8) option"

partial_function (option) esp_hid_scan_results_free :: "addr \<Rightarrow> gap_heap \<Rightarrow> gap_heap option" where
  "esp_hid_scan_results_free results h =
     (if results = 0 then Some h
      else do {
        r \<leftarrow> get_rec h results;
        h \<leftarrow> (if sr_name r \<noteq> 0 then free_str (sr_name r) h else Some h);
        h \<leftarrow> free_rec results h;
        esp_hid_scan_results_free (sr_next r) h
      })"

partial_function (option) find_scan_result :: "bytes \<Rightarrow> gap_heap \<Rightarrow> addr \<Rightarrow> addr option" where
  "find_scan_result bda h r =
     (if r = 0 then Some 0
      else do {
        e \<leftarrow> get_rec h r;
        if bda = sr_bda e then Some r else find_scan_result bda h (sr_next e)
      })"

text \<open>The copy of a name, with its terminator; \<open>0\<close> when there is no memory for it.\<close>

definition new_name :: "gap_env \<Rightarrow> bytes \<Rightarrow> nat \<Rightarrow> gap_heap \<Rightarrow> (addr \<times> gap_heap) option" where
  "new_name env name name_len h =
     (let name_s = malloc_str env (name_len + 1) h in
      if name_s = 0 then Some (0, h)
      else do {
        buf \<leftarrow> memcpy (replicate (name_len + 1) 0) 0 name name_len;
        buf \<leftarrow> wr buf name_len 0;
        Some (name_s, h\<lparr>strs := (strs h)(name_s \<mapsto> buf)\<rparr>)
      })"

text \<open>
  A new result with its name, linked in front of \<open>head\<close>; \<open>0\<close> when there is no memory, and then
  nothing stays allocated.  \<open>name\<close> is the pointer, \<open>None\<close> for \<open>NULL\<close>.
\<close>

definition new_result ::
    "gap_env \<Rightarrow> scan_result \<Rightarrow> bytes option \<Rightarrow> nat \<Rightarrow> addr \<Rightarrow> gap_heap \<Rightarrow> (addr \<times> gap_heap) option" where
  "new_result env e name name_len head h =
     (let r = malloc_rec env h in
      if r = 0 then Some (0, h)
      else
        let h = put_rec r (e\<lparr>sr_name := 0\<rparr>) h in
        (case name of
           Some bs \<Rightarrow>
             if name_len \<noteq> 0
             then do {
               (name_s, h) \<leftarrow> new_name env bs name_len h;
               if name_s = 0 then do { h \<leftarrow> free_rec r h; Some (0, h) }
               else do { h \<leftarrow> upd_rec r (\<lambda>e. e\<lparr>sr_name := name_s, sr_next := head\<rparr>) h; Some (r, h) }
             }
             else do { h \<leftarrow> upd_rec r (\<lambda>e. e\<lparr>sr_next := head\<rparr>) h; Some (r, h) }
         | None \<Rightarrow> do { h \<leftarrow> upd_rec r (\<lambda>e. e\<lparr>sr_next := head\<rparr>) h; Some (r, h) }))"

section \<open>State and calls\<close>

datatype gap_call =
    PinReply bytes bool nat bytes
  | SspConfirmReply bytes bool
  | StartDiscovery nat
  | SetScanParams
  | StartScanning u32
  | BleConfirmReply bytes bool
  | BleSecurityRsp bytes bool
  | BleTaskStartUp

text \<open>A binary semaphore is \<open>None\<close> when it does not exist, else whether it is available.\<close>

record gap =
  heap :: gap_heap
  bt_list :: addr
  bt_num :: nat
  ble_list :: addr
  ble_num :: nat
  bt_sem :: "bool option"
  ble_sem :: "bool option"
  gap_calls :: "gap_call list"

definition gap_boot :: gap where
  "gap_boot = \<lparr>heap = \<lparr>recs = (\<lambda>_. None), strs = (\<lambda>_. None)\<rparr>, bt_list = 0, bt_num = 0, ble_list = 0, ble_num = 0,
     bt_sem = None, ble_sem = None, gap_calls = []\<rparr>"

definition gap_call :: "gap_call \<Rightarrow> gap \<Rightarrow> gap" where
  "gap_call c g = g\<lparr>gap_calls := gap_calls g @ [c]\<rparr>"

definition SEND_BT_CB :: "gap \<Rightarrow> gap option" where
  "SEND_BT_CB g = (case bt_sem g of None \<Rightarrow> None | Some _ \<Rightarrow> Some (g\<lparr>bt_sem := Some True\<rparr>))"

definition SEND_BLE_CB :: "gap \<Rightarrow> gap option" where
  "SEND_BLE_CB g = (case ble_sem g of None \<Rightarrow> None | Some _ \<Rightarrow> Some (g\<lparr>ble_sem := Some True\<rparr>))"

section \<open>Results found\<close>

definition add_bt_scan_result ::
    "gap_env \<Rightarrow> bytes \<Rightarrow> u32 \<Rightarrow> bt_uuid \<Rightarrow> bytes option \<Rightarrow> nat \<Rightarrow> u8 \<Rightarrow> gap \<Rightarrow> gap option" where
  "add_bt_scan_result env bda cod uuid name name_len rssi g =
     do {
       r \<leftarrow> find_scan_result bda (heap g) (bt_list g);
       if r \<noteq> 0
       then do {
         e \<leftarrow> get_rec (heap g) r;
         (name_s, h) \<leftarrow> (case name of
             Some bs \<Rightarrow> if sr_name e = 0 \<and> name_len \<noteq> 0 then new_name env bs name_len (heap g) else Some (sr_name e, heap g)
           | None \<Rightarrow> Some (sr_name e, heap g));
         if sr_name e = 0 \<and> name \<noteq> None \<and> name_len \<noteq> 0 \<and> name_s = 0 then Some g
         else do {
           h \<leftarrow> upd_rec r (\<lambda>e. e\<lparr>sr_name := name_s\<rparr>) h;
           h \<leftarrow> (case sr_radio e of
               Bt c u \<Rightarrow> if uuid_len u = 0 \<and> uuid_len uuid \<noteq> 0
                         then upd_rec r (\<lambda>e. e\<lparr>sr_radio := Bt c uuid\<rparr>) h else Some h
             | Ble _ _ \<Rightarrow> None);
           h \<leftarrow> (if rssi \<noteq> 0 then upd_rec r (\<lambda>e. e\<lparr>sr_rssi := rssi\<rparr>) h else Some h);
           Some (g\<lparr>heap := h\<rparr>)
         }
       }
       else do {
         (r, h) \<leftarrow> new_result env \<lparr>sr_next = 0, sr_bda = bda, sr_name = 0, sr_rssi = rssi,
             sr_usage = usage_from_cod env (cod_address env), sr_radio = Bt cod uuid\<rparr> name name_len (bt_list g) (heap g);
         if r = 0 then Some (g\<lparr>heap := h\<rparr>)
         else Some (g\<lparr>heap := h, bt_list := r, bt_num := bt_num g + 1\<rparr>)
       }
     }"

definition add_ble_scan_result ::
    "gap_env \<Rightarrow> bytes \<Rightarrow> nat \<Rightarrow> u16 \<Rightarrow> bytes option \<Rightarrow> nat \<Rightarrow> u8 \<Rightarrow> gap \<Rightarrow> gap option" where
  "add_ble_scan_result env bda addr_type appearance name name_len rssi g =
     do {
       r \<leftarrow> find_scan_result bda (heap g) (ble_list g);
       if r \<noteq> 0 then Some g
       else do {
         (r, h) \<leftarrow> new_result env \<lparr>sr_next = 0, sr_bda = bda, sr_name = 0, sr_rssi = rssi,
             sr_usage = usage_from_appearance env appearance, sr_radio = Ble addr_type appearance\<rparr>
             name name_len (ble_list g) (heap g);
         if r = 0 then Some (g\<lparr>heap := h\<rparr>)
         else Some (g\<lparr>heap := h, ble_list := r, ble_num := ble_num g + 1\<rparr>)
       }
     }"

datatype dev_prop = PropBdname bytes | PropRssi bytes | PropCod bytes | PropEir bytes | PropOther

text \<open>The local variables of \<open>handle_bt_device_result\<close>.\<close>

record disc_vars =
  dv_cod :: u32
  dv_rssi :: u8
  dv_name :: "bytes option"
  dv_name_len :: nat
  dv_uuid :: bt_uuid

definition strlen :: "bytes \<Rightarrow> nat option" where
  "strlen bs = (if 0 \<in> set bs then Some (length (takeWhile (\<lambda>b. b \<noteq> 0) bs)) else None)"

definition cod_word :: "bytes \<Rightarrow> u32" where
  "cod_word bs = ucast (bs ! 0) OR push_bit 8 (ucast (bs ! 1)) OR push_bit 16 (ucast (bs ! 2)) OR push_bit 24 (ucast (bs ! 3))"

definition resolve_first :: "gap_env \<Rightarrow> bytes \<Rightarrow> eir_type \<Rightarrow> eir_type \<Rightarrow> (nat \<times> u8) option" where
  "resolve_first env val t1 t2 = (case resolve_eir env val t1 of None \<Rightarrow> resolve_eir env val t2 | Some d \<Rightarrow> Some d)"

text \<open>The UUID of \<open>n\<close> bytes in an EIR element of one of two types, if it has that length.\<close>

definition eir_uuid :: "gap_env \<Rightarrow> bytes \<Rightarrow> eir_type \<Rightarrow> eir_type \<Rightarrow> nat \<Rightarrow> bt_uuid option option" where
  "eir_uuid env val t1 t2 n =
     (case resolve_first env val t1 t2 of
        Some (off, len) \<Rightarrow>
          if unat len = n
          then do { bs \<leftarrow> rd_range val off n; Some (Some \<lparr>uuid_len = n, uuid_val = bs\<rparr>) }
          else Some None
      | None \<Rightarrow> Some None)"

definition eir_name :: "gap_env \<Rightarrow> bytes \<Rightarrow> disc_vars \<Rightarrow> disc_vars" where
  "eir_name env val v =
     (if dv_name v \<noteq> None then v
      else (case resolve_first env val CMPL_LOCAL_NAME SHORT_LOCAL_NAME of
          Some (off, len) \<Rightarrow> if len \<noteq> 0 then v\<lparr>dv_name := Some (drop off val), dv_name_len := unat len\<rparr> else v
        | None \<Rightarrow> v))"

definition eir_prop :: "gap_env \<Rightarrow> bytes \<Rightarrow> disc_vars \<Rightarrow> disc_vars option" where
  "eir_prop env val v =
     do {
       u16 \<leftarrow> eir_uuid env val CMPL_16BITS_UUID INCMPL_16BITS_UUID 2;
       (case u16 of
          Some u \<Rightarrow> Some (v\<lparr>dv_uuid := u\<rparr>)
        | None \<Rightarrow> do {
            u32 \<leftarrow> eir_uuid env val CMPL_32BITS_UUID INCMPL_32BITS_UUID 4;
            (case u32 of
               Some u \<Rightarrow> Some (v\<lparr>dv_uuid := u\<rparr>)
             | None \<Rightarrow> do {
                 u128 \<leftarrow> eir_uuid env val CMPL_128BITS_UUID INCMPL_128BITS_UUID 16;
                 (case u128 of
                    Some u \<Rightarrow> Some (v\<lparr>dv_uuid := u\<rparr>)
                  | None \<Rightarrow> Some (eir_name env val v))
               })
          })
     }"

definition dev_prop_step :: "gap_env \<Rightarrow> dev_prop \<Rightarrow> disc_vars \<Rightarrow> disc_vars option" where
  "dev_prop_step env prop v =
     (case prop of
        PropBdname val \<Rightarrow> do { n \<leftarrow> strlen val; Some (v\<lparr>dv_name := Some val, dv_name_len := unat (word_of_nat n :: u8)\<rparr>) }
      | PropRssi val \<Rightarrow> do { b \<leftarrow> rd val 0; Some (v\<lparr>dv_rssi := b\<rparr>) }
      | PropCod val \<Rightarrow> do { bs \<leftarrow> rd_range val 0 4; Some (v\<lparr>dv_cod := cod_word bs\<rparr>) }
      | PropEir val \<Rightarrow> eir_prop env val v
      | PropOther \<Rightarrow> Some v)"

definition disc_start :: disc_vars where
  "disc_start = \<lparr>dv_cod = 0, dv_rssi = 0, dv_name = None, dv_name_len = 0, dv_uuid = \<lparr>uuid_len = 2, uuid_val = [0, 0]\<rparr>\<rparr>"

text \<open>5 is \<open>ESP_BT_COD_MAJOR_DEV_PERIPHERAL\<close>, 0x1812 \<open>ESP_GATT_UUID_HID_SVC\<close>.\<close>

definition handle_bt_device_result :: "gap_env \<Rightarrow> bytes \<Rightarrow> dev_prop list \<Rightarrow> gap \<Rightarrow> gap option" where
  "handle_bt_device_result env bda props g =
     do {
       v \<leftarrow> foldM (dev_prop_step env) props disc_start;
       known \<leftarrow> (if cod_major env (dv_cod v) = 5 then Some True
                 else do { r \<leftarrow> find_scan_result bda (heap g) (bt_list g); Some (r \<noteq> 0) });
       if known then add_bt_scan_result env bda (dv_cod v) (dv_uuid v) (dv_name v) (dv_name_len v) (dv_rssi v) g
       else Some g
     }"

text \<open>\<open>struct ble_scan_result_evt_param\<close>: \<open>rst_len\<close> is \<open>adv_data_len + scan_rsp_len\<close>.\<close>

record scan_rst =
  rst_bda :: bytes
  rst_addr_type :: nat
  rst_adv :: bytes
  rst_len :: nat
  rst_rssi :: int

definition adv_u16 :: "gap_env \<Rightarrow> scan_rst \<Rightarrow> adv_type \<Rightarrow> u16 option" where
  "adv_u16 env rst t =
     (case resolve_adv env (rst_adv rst) (rst_len rst) t of
        Some (off, len) \<Rightarrow>
          if len \<noteq> 0
          then do { a \<leftarrow> rd (rst_adv rst) off; b \<leftarrow> rd (rst_adv rst) (off + 1); Some (ucast a + push_bit 8 (ucast b)) }
          else Some 0
      | None \<Rightarrow> Some 0)"

definition handle_ble_device_result :: "gap_env \<Rightarrow> scan_rst \<Rightarrow> gap \<Rightarrow> gap option" where
  "handle_ble_device_result env rst g =
     do {
       uuid \<leftarrow> adv_u16 env rst AD_16SRV_CMPL;
       appearance \<leftarrow> adv_u16 env rst AD_APPEARANCE;
       let adv_name = (case resolve_adv env (rst_adv rst) (rst_len rst) AD_NAME_CMPL of
           Some d \<Rightarrow> Some d | None \<Rightarrow> resolve_adv env (rst_adv rst) (rst_len rst) AD_NAME_SHORT);
       name \<leftarrow> (case adv_name of
           Some (off, len) \<Rightarrow>
             if len \<noteq> 0
             then do {
               n \<leftarrow> memcpy (replicate 64 0) 0 (drop off (rst_adv rst)) (unat len);
               wr n (unat len) 0
             }
             else Some (replicate 64 0)
         | None \<Rightarrow> Some (replicate 64 0));
       if uuid = 0x1812
       then add_ble_scan_result env (rst_bda rst) (rst_addr_type rst) appearance
              (map_option (\<lambda>d. drop (fst d) (rst_adv rst)) adv_name)
              (case adv_name of Some (off, len) \<Rightarrow> unat len | None \<Rightarrow> 0) (word_of_int (rst_rssi rst)) g
       else Some g
     }"

section \<open>Event handlers\<close>

datatype bt_gap_event =
    DiscStateChanged bool
  | DiscRes bytes "dev_prop list"
  | PinReq bytes bool
  | CfmReq bytes u32
  | KeyNotif u32
  | KeyReq
  | ModeChg nat
  | BtOther u8

text \<open>\<open>ssp\<close> is \<open>CONFIG_EXAMPLE_SSP_ENABLED\<close>; \<open>DiscStateChanged True\<close> is a discovery that stopped.\<close>

definition bt_gap_event_handler :: "bool \<Rightarrow> gap_env \<Rightarrow> bt_gap_event \<Rightarrow> gap \<Rightarrow> gap option" where
  "bt_gap_event_handler ssp env event g =
     (case event of
        DiscStateChanged stopped \<Rightarrow> if stopped then SEND_BT_CB g else Some g
      | DiscRes bda props \<Rightarrow> handle_bt_device_result env bda props g
      | PinReq bda min_16_digit \<Rightarrow>
          if min_16_digit then Some (gap_call (PinReply bda True 16 (replicate 16 0)) g)
          else Some (gap_call (PinReply bda True 4 [0x31, 0x32, 0x33, 0x34]) g)
      | CfmReq bda num_val \<Rightarrow> if ssp then Some (gap_call (SspConfirmReply bda True) g) else Some g
      | KeyNotif passkey \<Rightarrow> Some g
      | KeyReq \<Rightarrow> Some g
      | ModeChg mode \<Rightarrow> Some g
      | BtOther event \<Rightarrow> Some g)"

datatype ble_gap_event =
    ScanParamSetComplete
  | ScanInqRes scan_rst
  | ScanInqCmpl
  | ScanSearchOther
  | ScanStopComplete
  | AdvDataSetComplete
  | AdvStartComplete
  | AuthCmpl bool
  | KeyEvt nat
  | PasskeyNotif u32
  | NcReq bytes u32
  | PasskeyReq
  | SecReq bytes
  | BleOther u8

definition ble_gap_event_handler :: "gap_env \<Rightarrow> ble_gap_event \<Rightarrow> gap \<Rightarrow> gap option" where
  "ble_gap_event_handler env event g =
     (case event of
        ScanParamSetComplete \<Rightarrow> SEND_BLE_CB g
      | ScanInqRes scan_rst \<Rightarrow> handle_ble_device_result env scan_rst g
      | ScanInqCmpl \<Rightarrow> SEND_BLE_CB g
      | ScanSearchOther \<Rightarrow> Some g
      | ScanStopComplete \<Rightarrow> Some g
      | AdvDataSetComplete \<Rightarrow> Some g
      | AdvStartComplete \<Rightarrow> Some g
      | AuthCmpl success \<Rightarrow> Some (gap_call BleTaskStartUp g)
      | KeyEvt key_type \<Rightarrow> Some g
      | PasskeyNotif passkey \<Rightarrow> Some g
      | NcReq bd_addr passkey \<Rightarrow> Some (gap_call (BleConfirmReply bd_addr True) g)
      | PasskeyReq \<Rightarrow> Some g
      | SecReq bd_addr \<Rightarrow> Some (gap_call (BleSecurityRsp bd_addr True) g)
      | BleOther event \<Rightarrow> Some g)"

datatype scan_event = BtEv bt_gap_event | BleEv ble_gap_event

definition handle_scan_event :: "bool \<Rightarrow> gap_env \<Rightarrow> scan_event \<Rightarrow> gap \<Rightarrow> gap option" where
  "handle_scan_event ssp env ev g =
     (case ev of BtEv e \<Rightarrow> bt_gap_event_handler ssp env e g | BleEv e \<Rightarrow> ble_gap_event_handler env e g)"

section \<open>The scan\<close>

text \<open>
  Waiting for a semaphore: while it is not available, the events that the stack's task delivers
  are handled.  A wait that no event ends does not return.
\<close>

fun WAIT_BT_CB :: "bool \<Rightarrow> gap_env \<Rightarrow> scan_event list \<Rightarrow> gap \<Rightarrow> (scan_event list \<times> gap) option" where
  "WAIT_BT_CB ssp env evs g =
     (case bt_sem g of
        None \<Rightarrow> None
      | Some True \<Rightarrow> Some (evs, g\<lparr>bt_sem := Some False\<rparr>)
      | Some False \<Rightarrow>
          (case evs of
             [] \<Rightarrow> None
           | ev # evs \<Rightarrow> do { g \<leftarrow> handle_scan_event ssp env ev g; WAIT_BT_CB ssp env evs g }))"

fun WAIT_BLE_CB :: "bool \<Rightarrow> gap_env \<Rightarrow> scan_event list \<Rightarrow> gap \<Rightarrow> (scan_event list \<times> gap) option" where
  "WAIT_BLE_CB ssp env evs g =
     (case ble_sem g of
        None \<Rightarrow> None
      | Some True \<Rightarrow> Some (evs, g\<lparr>ble_sem := Some False\<rparr>)
      | Some False \<Rightarrow>
          (case evs of
             [] \<Rightarrow> None
           | ev # evs \<Rightarrow> do { g \<leftarrow> handle_scan_event ssp env ev g; WAIT_BLE_CB ssp env evs g }))"

text \<open>
  \<open>(int)(seconds / 1.28)\<close>, in units of 1.28 s.  The exact quotient is a multiple of 1/32, and the
  rounding of 1.28 and of the division to \<open>double\<close> changes it by less than a part in \<open>2 ^ 52\<close>, so for 32-bit
  \<open>seconds\<close> the truncation gives the exact integer part (a whole quotient is rounded to itself).  A
  quotient that is no \<open>int\<close>, from 2748779070 seconds on, is not modelled.
\<close>

definition start_bt_scan :: "(gap_call \<Rightarrow> int) \<Rightarrow> u32 \<Rightarrow> gap \<Rightarrow> int \<times> gap" where
  "start_bt_scan rc seconds g =
     (let c = StartDiscovery (unat seconds * 100 div 128); g = gap_call c g in
      if rc c \<noteq> ESP_OK then (rc c, g) else (ESP_OK, g))"

definition start_ble_scan ::
    "(gap_call \<Rightarrow> int) \<Rightarrow> bool \<Rightarrow> gap_env \<Rightarrow> u32 \<Rightarrow> scan_event list \<Rightarrow> gap \<Rightarrow> (int \<times> scan_event list \<times> gap) option" where
  "start_ble_scan rc ssp env seconds evs g =
     (let g = gap_call SetScanParams g in
      if rc SetScanParams \<noteq> ESP_OK then Some (rc SetScanParams, evs, g)
      else do {
        (evs, g) \<leftarrow> WAIT_BLE_CB ssp env evs g;
        let g = gap_call (StartScanning seconds) g;
        Some (if rc (StartScanning seconds) \<noteq> ESP_OK then rc (StartScanning seconds) else ESP_OK, evs, g)
      })"

partial_function (option) last_result :: "gap_heap \<Rightarrow> addr \<Rightarrow> addr option" where
  "last_result h p =
     do { e \<leftarrow> get_rec h p; if sr_next e \<noteq> 0 then last_result h (sr_next e) else Some p }"

text \<open>What a scan returns: the error code and, when it is \<open>ESP_OK\<close>, \<open>num_results\<close> and \<open>results\<close>.\<close>

record scan_return =
  scan_err :: int
  scan_num :: nat
  scan_results :: addr

text \<open>The end of \<open>esp_hid_scan\<close>: the Classic results, then the LE results, in one list.\<close>

definition take_results :: "gap \<Rightarrow> (scan_return \<times> gap) option" where
  "take_results g =
     do {
       let n = bt_num g + ble_num g;
       (results, h) \<leftarrow>
         (if bt_num g \<noteq> 0
          then do {
            p \<leftarrow> last_result (heap g) (bt_list g);
            h \<leftarrow> upd_rec p (\<lambda>e. e\<lparr>sr_next := ble_list g\<rparr>) (heap g);
            Some (bt_list g, h)
          }
          else Some (ble_list g, heap g));
       Some (\<lparr>scan_err = ESP_OK, scan_num = n, scan_results = results\<rparr>,
         g\<lparr>heap := h, bt_num := 0, bt_list := 0, ble_num := 0, ble_list := 0\<rparr>)
     }"

text \<open>\<open>ble\<close> and \<open>bt\<close> are \<open>CONFIG_BT_BLE_ENABLED\<close> and \<open>CONFIG_BT_HID_DEVICE_ENABLED\<close>.\<close>

definition scan_failed :: scan_return where
  "scan_failed = \<lparr>scan_err = ESP_FAIL, scan_num = 0, scan_results = 0\<rparr>"

definition esp_hid_scan ::
    "bool \<Rightarrow> bool \<Rightarrow> bool \<Rightarrow> (gap_call \<Rightarrow> int) \<Rightarrow> gap_env \<Rightarrow> u32 \<Rightarrow> scan_event list \<Rightarrow> gap
     \<Rightarrow> (scan_return \<times> scan_event list \<times> gap) option" where
  "esp_hid_scan ble bt ssp rc env seconds evs g =
     (if bt_num g \<noteq> 0 \<or> bt_list g \<noteq> 0 \<or> ble_num g \<noteq> 0 \<or> ble_list g \<noteq> 0
      then Some (scan_failed, evs, g)
      else do {
        (err, evs, g) \<leftarrow>
          (if ble
           then do {
             (err, evs, g) \<leftarrow> start_ble_scan rc ssp env seconds evs g;
             if err = ESP_OK then do { (evs, g) \<leftarrow> WAIT_BLE_CB ssp env evs g; Some (ESP_OK, evs, g) }
             else Some (ESP_FAIL, evs, g)
           }
           else Some (ESP_OK, evs, g));
        if err \<noteq> ESP_OK then Some (scan_failed, evs, g)
        else do {
          (err, evs, g) \<leftarrow>
            (if bt
             then
               let (err, g) = start_bt_scan rc seconds g in
               if err = ESP_OK then do { (evs, g) \<leftarrow> WAIT_BT_CB ssp env evs g; Some (ESP_OK, evs, g) }
               else Some (ESP_FAIL, evs, g)
             else Some (ESP_OK, evs, g));
          if err \<noteq> ESP_OK then Some (scan_failed, evs, g)
          else do { (ret, g) \<leftarrow> take_results g; Some (ret, evs, g) }
        }
      })"

end
