(* ===== verification/GapHeap.thy ===== *)
theory GapHeap
  imports GapScan
begin

text \<open>
  The scan results of \<open>esp_hid_gap.c\<close> in memory.  \<open>heap_ok\<close> says what the heap holds, \<open>gap_lists\<close> how
  the two result lists lie in it, and \<open>found_list\<close> reads a list as values.  The lemmas say what
  adding, freeing and finding a result do to these, and that the property parsers never fail.
\<close>

section \<open>Well-formed heaps\<close>

definition nm :: "gap_heap \<Rightarrow> addr \<Rightarrow> addr" where
  "nm h a = (case recs h a of Some e \<Rightarrow> sr_name e | None \<Rightarrow> 0)"

text \<open>
  The heap holds exactly the records \<open>L\<close>, each with its own name or none, every name is a C string
  and nothing else is allocated.
\<close>

definition heap_ok :: "gap_heap \<Rightarrow> addr list \<Rightarrow> bool" where
  "heap_ok h L \<longleftrightarrow> distinct L \<and> 0 \<notin> set L \<and> dom (recs h) = set L
    \<and> inj_on (nm h) {a \<in> set L. nm h a \<noteq> 0} \<and> dom (strs h) = nm h ` set L - {0}
    \<and> (\<forall>s \<in> ran (strs h). s \<noteq> [] \<and> last s = 0)"

record found =
  f_bda :: bytes
  f_name :: "bytes option"
  f_rssi :: u8
  f_usage :: nat
  f_radio :: radio

definition found_at :: "gap_heap \<Rightarrow> addr \<Rightarrow> found" where
  "found_at h a = (let e = the (recs h a) in
     \<lparr>f_bda = sr_bda e, f_name = (if sr_name e = 0 then None else strs h (sr_name e)), f_rssi = sr_rssi e,
      f_usage = sr_usage e, f_radio = sr_radio e\<rparr>)"

definition alloc_ok :: "gap_env \<Rightarrow> bool" where
  "alloc_ok env \<longleftrightarrow> (\<forall>h. malloc_rec env h = 0 \<or> recs h (malloc_rec env h) = None)
    \<and> (\<forall>n h. malloc_str env n h = 0 \<or> strs h (malloc_str env n h) = None)"

definition plenty :: "gap_env \<Rightarrow> bool" where
  "plenty env \<longleftrightarrow> (\<forall>h. finite (dom (recs h)) \<longrightarrow> malloc_rec env h \<noteq> 0)
    \<and> (\<forall>n h. finite (dom (strs h)) \<longrightarrow> malloc_str env n h \<noteq> 0)"

lemma heap_ok_finite: "heap_ok h L \<Longrightarrow> finite (dom (recs h)) \<and> finite (dom (strs h))"
  by (simp add: heap_ok_def)

lemma heap_rec_iff: "heap_ok h L \<Longrightarrow> recs h a = None \<longleftrightarrow> a \<notin> set L"
  unfolding heap_ok_def by (metis domIff)

lemma heap_str_iff: "heap_ok h L \<Longrightarrow> strs h n = None \<longleftrightarrow> n = 0 \<or> n \<notin> nm h ` set L"
  unfolding heap_ok_def by (metis DiffE DiffI domIff empty_iff insert_iff)

lemma heap_get:
  assumes "heap_ok h L" and "a \<in> set L"
  obtains e where "recs h a = Some e" "get_rec h a = Some e" "a \<noteq> 0" "nm h a = sr_name e"
proof -
  from heap_rec_iff [OF assms(1), of a] assms(2) obtain e where e: "recs h a = Some e" by auto
  moreover have "a \<noteq> 0" using assms by (auto simp: heap_ok_def)
  ultimately show thesis using that by (simp add: get_rec_def nm_def)
qed

lemma heap_ok_perm: "set L = set L' \<Longrightarrow> distinct L' \<Longrightarrow> heap_ok h L \<Longrightarrow> heap_ok h L'"
  by (simp add: heap_ok_def)

text \<open>A record keeps its name.\<close>

lemma heap_ok_put:
  assumes "heap_ok h L" and "recs h a = Some e" and "sr_name e' = sr_name e"
  shows "heap_ok (put_rec a e' h) L"
proof -
  have "nm (put_rec a e' h) = nm h" using assms(2,3) by (auto simp: nm_def put_rec_def fun_eq_iff)
  then show ?thesis using assms by (auto simp: heap_ok_def put_rec_def dom_def)
qed

lemma heap_ok_new:
  assumes "heap_ok h L" and "recs h a = None" and "a \<noteq> 0" and "sr_name e = 0"
  shows "heap_ok (put_rec a e h) (a # L)"
proof -
  have a: "a \<notin> set L" using assms(1,2) heap_rec_iff by blast
  have n: "nm (put_rec a e h) = (nm h)(a := 0)" using assms(4) by (auto simp: nm_def put_rec_def fun_eq_iff)
  have "{b \<in> set (a # L). ((nm h)(a := 0)) b \<noteq> 0} = {b \<in> set L. nm h b \<noteq> 0}" using a by auto
  moreover have "inj_on ((nm h)(a := 0)) {b \<in> set L. nm h b \<noteq> 0} = inj_on (nm h) {b \<in> set L. nm h b \<noteq> 0}"
    by (rule inj_on_cong) (use a in auto)
  moreover have "(nm h)(a := 0) ` set (a # L) - {0} = nm h ` set L - {0}" using a by auto
  ultimately show ?thesis using assms a unfolding heap_ok_def n by (simp add: put_rec_def)
qed

lemma heap_ok_name:
  assumes "heap_ok h L" and "recs h a = Some e" and "sr_name e = 0" and "n \<noteq> 0" and "strs h n = None" and "sr_name e' = n"
    and "s \<noteq> []" and "last s = 0"
  shows "heap_ok (put_rec a e' (h\<lparr>strs := (strs h)(n \<mapsto> s)\<rparr>)) L"
proof -
  let ?h = "put_rec a e' (h\<lparr>strs := (strs h)(n \<mapsto> s)\<rparr>)"
  have a: "a \<in> set L" "nm h a = 0" using assms(1-3) heap_rec_iff [OF assms(1), of a] by (auto simp: nm_def)
  have n: "nm ?h = (nm h)(a := n)" using assms(6) by (auto simp: nm_def put_rec_def fun_eq_iff)
  have fresh: "n \<notin> nm h ` set L" using assms(4,5) heap_str_iff [OF assms(1), of n] by simp
  have d: "distinct L" "0 \<notin> set L" "dom (recs h) = set L" "inj_on (nm h) {b \<in> set L. nm h b \<noteq> 0}"
    "dom (strs h) = nm h ` set L - {0}" "\<forall>s \<in> ran (strs h). s \<noteq> [] \<and> last s = 0"
    using assms(1) unfolding heap_ok_def by blast+
  have eq: "{b \<in> set L. ((nm h)(a := n)) b \<noteq> 0} = insert a {b \<in> set L. nm h b \<noteq> 0}" using a assms(4) by auto
  show ?thesis
    unfolding heap_ok_def n
  proof (intro conjI)
    show "inj_on ((nm h)(a := n)) {b \<in> set L. ((nm h)(a := n)) b \<noteq> 0}"
      unfolding eq using d(4) fresh by (auto simp: inj_on_def)
    have "(nm h)(a := n) ` set L - {0} = insert n (nm h ` set L - {0})" using a assms(4) fresh by auto
    then show "dom (strs ?h) = (nm h)(a := n) ` set L - {0}" using d(5) by (simp add: put_rec_def)
    have "ran ((strs h)(n \<mapsto> s)) = insert s (ran (strs h))" using assms(5) by simp
    then show "\<forall>s \<in> ran (strs ?h). s \<noteq> [] \<and> last s = 0" using d(6) assms(7,8) by (simp add: put_rec_def)
    show "dom (recs ?h) = set L" using d(3) a(1) by (auto simp: put_rec_def)
  qed (rule d)+
qed

lemma heap_ok_free:
  assumes "heap_ok h (a # L)" and "recs h a = Some e"
  shows "\<exists>h'. (if sr_name e \<noteq> 0 then free_str (sr_name e) h else Some h) = Some h'
    \<and> free_rec a h' = Some (h\<lparr>recs := (recs h)(a := None), strs := (strs h)(sr_name e := None)\<rparr>)
    \<and> heap_ok (h\<lparr>recs := (recs h)(a := None), strs := (strs h)(sr_name e := None)\<rparr>) L"
proof -
  let ?h = "h\<lparr>recs := (recs h)(a := None), strs := (strs h)(sr_name e := None)\<rparr>"
  have d: "distinct (a # L)" "0 \<notin> set (a # L)" "dom (recs h) = set (a # L)"
    "inj_on (nm h) {b \<in> set (a # L). nm h b \<noteq> 0}" "dom (strs h) = nm h ` set (a # L) - {0}"
    "\<forall>s \<in> ran (strs h). s \<noteq> [] \<and> last s = 0" using assms(1) unfolding heap_ok_def by blast+
  have na: "nm h a = sr_name e" using assms(2) by (simp add: nm_def)
  have n: "nm ?h = (nm h)(a := 0)" by (auto simp: nm_def fun_eq_iff)
  have z: "strs h 0 = None" using d(5) by (auto simp: dom_def)
  have own: False if x: "sr_name e \<in> nm h ` set L - {0}"
  proof -
    from x obtain b where b: "b \<in> set L" "nm h b = nm h a" "nm h b \<noteq> 0" using na by auto
    with inj_onD [OF d(4), of b a] d(1) show False by auto
  qed
  have ok: "heap_ok ?h L"
    unfolding heap_ok_def
  proof (intro conjI)
    show "inj_on (nm ?h) {b \<in> set L. nm ?h b \<noteq> 0}" using d(1,4) unfolding n by (auto simp: inj_on_def)
    have "nm ?h ` set L = nm h ` set L" unfolding n by (rule image_cong) (use d(1) in auto)
    moreover have "dom (strs ?h) = dom (strs h) - {sr_name e}" by simp
    moreover have "sr_name e = 0 \<or> sr_name e \<notin> nm h ` set L" using own by blast
    ultimately show "dom (strs ?h) = nm ?h ` set L - {0}" unfolding d(5) using na by (simp only: set_simps image_insert) blast
    show "\<forall>s \<in> ran (strs ?h). s \<noteq> [] \<and> last s = 0" using d(6) by (auto simp: ran_def split: if_splits)
  qed (use d in auto)
  have "sr_name e \<noteq> 0 \<Longrightarrow> \<exists>s. strs h (sr_name e) = Some s"
    using d(5) na by (metis Diff_iff domD image_eqI list.set_intros(1) singletonD)
  with ok show ?thesis using assms(2) d(2) z
    by (auto simp: free_str_def free_rec_def get_rec_def fun_upd_idem)
qed

definition next_of :: "gap_heap \<Rightarrow> addr \<Rightarrow> addr option" where
  "next_of h a = map_option sr_next (recs h a)"

lemma next_of_put [simp]: "next_of (put_rec a e h) = (next_of h)(a \<mapsto> sr_next e)"
  by (auto simp: next_of_def put_rec_def fun_eq_iff)

lemma next_of_strs [simp]: "next_of (h\<lparr>strs := f\<rparr>) = next_of h"
  by (simp add: next_of_def fun_eq_iff)

lemma links_recE:
  assumes "links (next_of h) p (a # as)"
  obtains e where "p = a" "a \<noteq> 0" "recs h a = Some e" "get_rec h a = Some e" "links (next_of h) (sr_next e) as"
  using assms by (auto simp: next_of_def get_rec_def split: option.splits)

lemma free_spec:
  "links (next_of h) p as \<Longrightarrow> heap_ok h (as @ L) \<Longrightarrow>
   \<exists>h'. esp_hid_scan_results_free p h = Some h' \<and> heap_ok h' L \<and> (\<forall>a. a \<notin> set as \<longrightarrow> recs h' a = recs h a)
     \<and> (\<forall>n. n \<notin> nm h ` set as \<longrightarrow> strs h' n = strs h n)"
proof (induction as arbitrary: p h)
  case Nil
  then show ?case by (subst esp_hid_scan_results_free.simps) simp
next
  case (Cons a as)
  from Cons.prems(1) obtain e where e: "p = a" "a \<noteq> 0" "recs h a = Some e" "get_rec h a = Some e"
      "links (next_of h) (sr_next e) as" by (rule links_recE)
  let ?h = "h\<lparr>recs := (recs h)(a := None), strs := (strs h)(sr_name e := None)\<rparr>"
  have ok: "heap_ok h (a # as @ L)" using Cons.prems(2) by simp
  obtain h1 where h1: "(if sr_name e \<noteq> 0 then free_str (sr_name e) h else Some h) = Some h1"
      "free_rec a h1 = Some ?h" "heap_ok ?h (as @ L)"
    using heap_ok_free [OF ok e(3)] by blast
  have "a \<notin> set as" using ok by (simp add: heap_ok_def)
  then have l: "links (next_of ?h) (sr_next e) as"
    using e(5) by (subst seg_cong [of as "next_of ?h" "next_of h"]) (auto simp: next_of_def)
  obtain h' where h': "esp_hid_scan_results_free (sr_next e) ?h = Some h'" "heap_ok h' L"
      "\<forall>b. b \<notin> set as \<longrightarrow> recs h' b = recs ?h b" "\<forall>n. n \<notin> nm ?h ` set as \<longrightarrow> strs h' n = strs ?h n"
    using Cons.IH [OF l h1(3)] by blast
  have na: "nm h a = sr_name e" using e(3) by (simp add: nm_def)
  have nms: "nm ?h b = nm h b" if "b \<noteq> a" for b using that by (simp add: nm_def)
  have "strs h' n = strs h n" if "n \<notin> nm h ` set (a # as)" for n
  proof -
    have "nm ?h ` set as = nm h ` set as" by (rule image_cong [OF refl]) (use nms \<open>a \<notin> set as\<close> in metis)
    with that na have "n \<noteq> sr_name e" "n \<notin> nm ?h ` set as" by auto
    with h'(4) show ?thesis by simp
  qed
  with h' e h1 show ?case
    by (subst esp_hid_scan_results_free.simps) (auto simp: bind_eq_Some_conv)
qed

definition same_on :: "gap_heap \<Rightarrow> gap_heap \<Rightarrow> addr list \<Rightarrow> bool" where
  "same_on h h' X \<longleftrightarrow> (\<forall>a \<in> set X. recs h' a = recs h a \<and> strs h' (nm h a) = strs h (nm h a))"

lemma same_on_refl [simp]: "same_on h h X"
  by (simp add: same_on_def)

lemma same_on_nm: "same_on h h' X \<Longrightarrow> a \<in> set X \<Longrightarrow> nm h' a = nm h a"
  by (simp add: same_on_def nm_def)

lemma same_on_trans: "same_on h h' X \<Longrightarrow> same_on h' h'' X \<Longrightarrow> same_on h h'' X"
  using same_on_nm [of h h' X] unfolding same_on_def by metis

lemma same_on_subset: "same_on h h' X \<Longrightarrow> set Y \<subseteq> set X \<Longrightarrow> same_on h h' Y"
  by (auto simp: same_on_def)

lemma same_on_append [simp]: "same_on h h' (X @ Y) \<longleftrightarrow> same_on h h' X \<and> same_on h h' Y"
  by (auto simp: same_on_def)

lemma same_on_found: "same_on h h' X \<Longrightarrow> a \<in> set X \<Longrightarrow> recs h a \<noteq> None \<Longrightarrow> found_at h' a = found_at h a"
  by (auto simp: same_on_def found_at_def nm_def)

lemma same_on_links: "same_on h h' X \<Longrightarrow> set as \<subseteq> set X \<Longrightarrow> links (next_of h) p as \<Longrightarrow> links (next_of h') p as"
  by (subst seg_cong [where nx' = "next_of h"]) (auto simp: same_on_def next_of_def)

definition copied_name :: "bytes option \<Rightarrow> nat \<Rightarrow> bytes option" where
  "copied_name name len = (case name of Some bs \<Rightarrow> if len \<noteq> 0 then Some (take len bs @ [0]) else None | None \<Rightarrow> None)"

definition name_ok :: "bytes option \<Rightarrow> nat \<Rightarrow> bool" where
  "name_ok name len \<longleftrightarrow> (\<forall>bs. name = Some bs \<longrightarrow> len \<le> length bs)"

lemma new_name_spec:
  assumes "alloc_ok env" and "len \<le> length bs" and "heap_ok h L"
  shows "\<exists>n. new_name env bs len h = Some (n, if n = 0 then h else h\<lparr>strs := (strs h)(n \<mapsto> take len bs @ [0])\<rparr>)
    \<and> (n \<noteq> 0 \<longrightarrow> strs h n = None) \<and> (plenty env \<longrightarrow> n \<noteq> 0)"
proof -
  have "memcpy (replicate (len + 1) 0) 0 bs len = Some (take len bs @ [0])"
    using assms(2) by (simp add: replicate_append_same [symmetric])
  moreover have "wr (take len bs @ [0]) len 0 = Some (take len bs @ [0])"
    using assms(2) by (simp add: list_update_append)
  moreover have "malloc_str env (len + 1) h = 0 \<or> strs h (malloc_str env (len + 1) h) = None"
    using assms(1) by (simp add: alloc_ok_def)
  ultimately show ?thesis
    by (intro exI [of _ "malloc_str env (len + 1) h"]) (use heap_ok_finite [OF assms(3)] in \<open>auto simp: new_name_def Let_def plenty_def\<close>)
qed

lemma put_get [simp]: "recs (put_rec a e h) a = Some e" "a \<noteq> 0 \<Longrightarrow> get_rec (put_rec a e h) a = Some e"
  "b \<noteq> a \<Longrightarrow> recs (put_rec a e h) b = recs h b" "strs (put_rec a e h) = strs h"
  "put_rec a e (put_rec a e' h) = put_rec a e h"
  by (simp_all add: put_rec_def get_rec_def)

lemma same_on_put: "a \<notin> set X \<Longrightarrow> same_on h (put_rec a e h) X"
  by (auto simp: same_on_def put_rec_def)

lemma same_on_str: "heap_ok h L \<Longrightarrow> set X \<subseteq> set L \<Longrightarrow> strs h n = None \<Longrightarrow> n \<noteq> 0 \<Longrightarrow> same_on h (h\<lparr>strs := (strs h)(n \<mapsto> s)\<rparr>) X"
  using heap_str_iff [of h L n] by (auto simp: same_on_def)

lemma new_result_spec:
  assumes "heap_ok h L" and "alloc_ok env" and "name_ok name len"
  shows "\<exists>r h'. new_result env e name len head h = Some (r, h') \<and> (r = 0 \<longrightarrow> h' = h) \<and> (plenty env \<longrightarrow> r \<noteq> 0)
    \<and> (r \<noteq> 0 \<longrightarrow> r \<notin> set L \<and> heap_ok h' (r # L) \<and> same_on h h' L \<and> next_of h' r = Some head
        \<and> found_at h' r = \<lparr>f_bda = sr_bda e, f_name = copied_name name len, f_rssi = sr_rssi e, f_usage = sr_usage e,
            f_radio = sr_radio e\<rparr>)"
proof (cases "malloc_rec env h = 0")
  case True
  with heap_ok_finite [OF assms(1)] show ?thesis by (auto simp: new_result_def plenty_def)
next
  case False
  let ?r = "malloc_rec env h"
  let ?h = "put_rec ?r (e\<lparr>sr_name := 0\<rparr>) h"
  have fresh: "recs h ?r = None" using assms(2) False unfolding alloc_ok_def by metis
  have r: "?r \<notin> set L" using fresh heap_rec_iff [OF assms(1)] by simp
  have ok: "heap_ok ?h (?r # L)" using heap_ok_new [OF assms(1) fresh False, of "e\<lparr>sr_name := 0\<rparr>"] by simp
  have undo: "?h\<lparr>recs := (recs ?h)(?r := None)\<rparr> = h" using fresh by (simp add: put_rec_def fun_upd_idem)
  have plain: ?thesis if c: "copied_name name len = None"
      and eq: "new_result env e name len head h = Some (?r, put_rec ?r (e\<lparr>sr_name := 0, sr_next := head\<rparr>) h)"
  proof -
    have "heap_ok (put_rec ?r (e\<lparr>sr_name := 0, sr_next := head\<rparr>) ?h) (?r # L)"
      by (rule heap_ok_put [OF ok put_get(1)]) simp
    with eq c False r show ?thesis by (auto simp: same_on_put found_at_def)
  qed
  show ?thesis
  proof (cases "name = None \<or> len = 0")
    case True
    then have "new_result env e name len head h = Some (?r, put_rec ?r (e\<lparr>sr_name := 0, sr_next := head\<rparr>) h)"
      using False by (auto simp: new_result_def Let_def upd_rec_def split: option.splits)
    moreover have "copied_name name len = None" using True by (auto simp: copied_name_def split: option.splits)
    ultimately show ?thesis by (rule plain [rotated])
  next
    case named: False
    then obtain bs where bs: "name = Some bs" "len \<noteq> 0" "len \<le> length bs" using assms(3) by (auto simp: name_ok_def)
    obtain n where n: "new_name env bs len ?h = Some (n, if n = 0 then ?h else ?h\<lparr>strs := (strs ?h)(n \<mapsto> take len bs @ [0])\<rparr>)"
        "n \<noteq> 0 \<longrightarrow> strs ?h n = None" "plenty env \<longrightarrow> n \<noteq> 0"
      using new_name_spec [OF assms(2) bs(3) ok] by blast
    show ?thesis
    proof (cases "n = 0")
      case True
      with n bs False undo show ?thesis
        by (auto simp: new_result_def Let_def free_rec_def)
    next
      case n0: False
      let ?h1 = "?h\<lparr>strs := (strs ?h)(n \<mapsto> take len bs @ [0])\<rparr>"
      let ?e = "e\<lparr>sr_name := n, sr_next := head\<rparr>"
      have g: "get_rec ?h1 ?r = Some (e\<lparr>sr_name := 0\<rparr>)" using False by (simp add: get_rec_def put_rec_def)
      have eq: "new_result env e name len head h = Some (?r, put_rec ?r ?e ?h1)"
        using n n0 bs False g by (simp add: new_result_def Let_def upd_rec_def)
      have "heap_ok (put_rec ?r ?e ?h1) (?r # L)"
        by (rule heap_ok_name [OF ok put_get(1)]) (use n n0 in simp_all)
      moreover have "same_on h (put_rec ?r ?e ?h1) L"
        by (rule same_on_trans [OF same_on_put [OF r]], rule same_on_trans [OF same_on_str [OF ok]])
           (use n n0 r in \<open>auto intro: same_on_put\<close>)
      ultimately show ?thesis using eq r False n0 bs n(3)
        by (auto simp: found_at_def copied_name_def)
    qed
  qed
qed

lemma find_spec:
  "links (next_of h) p as \<Longrightarrow>
   find_scan_result bda h p = Some (case find (\<lambda>a. f_bda (found_at h a) = bda) as of None \<Rightarrow> 0 | Some a \<Rightarrow> a)"
proof (induction as arbitrary: p)
  case Nil
  then show ?case by (subst find_scan_result.simps) simp
next
  case (Cons a as)
  from Cons.prems show ?case
  proof (rule links_recE)
    fix e assume e: "p = a" "a \<noteq> 0" "recs h a = Some e" "get_rec h a = Some e" "links (next_of h) (sr_next e) as"
    show ?thesis
      using Cons.IH [OF e(5)] e by (subst find_scan_result.simps) (auto simp: found_at_def)
  qed
qed

section \<open>The two result lists\<close>

abbreviation found_list :: "gap_heap \<Rightarrow> addr list \<Rightarrow> found list" where
  "found_list h \<equiv> map (found_at h)"

definition bt_found_ok :: "found list \<Rightarrow> bool" where
  "bt_found_ok fs \<longleftrightarrow> distinct (map f_bda fs) \<and> (\<forall>f \<in> set fs. \<exists>c u. f_radio f = Bt c u \<and> uuid_len u \<noteq> 0)"

definition ble_found_ok :: "found list \<Rightarrow> bool" where
  "ble_found_ok fs \<longleftrightarrow> distinct (map f_bda fs) \<and> (\<forall>f \<in> set fs. \<exists>t a. f_radio f = Ble t a)"

text \<open>
  \<open>as\<close> and \<open>bs\<close> are the results in the Classic and in the LE list, \<open>cs\<close> the ones that earlier
  scans handed out and that are not freed yet; there is nothing else in the heap.
\<close>

definition gap_lists :: "gap \<Rightarrow> addr list \<Rightarrow> addr list \<Rightarrow> addr list \<Rightarrow> bool" where
  "gap_lists g as bs cs \<longleftrightarrow> heap_ok (heap g) (as @ bs @ cs)
    \<and> links (next_of (heap g)) (bt_list g) as \<and> bt_num g = length as \<and> bt_found_ok (found_list (heap g) as)
    \<and> links (next_of (heap g)) (ble_list g) bs \<and> ble_num g = length bs \<and> ble_found_ok (found_list (heap g) bs)"

text \<open>What a sighting of a Classic or an LE device makes of the results found so far.\<close>

definition later_info :: "bytes option \<Rightarrow> u8 \<Rightarrow> found \<Rightarrow> found" where
  "later_info name rssi f = f\<lparr>f_name := (case f_name f of None \<Rightarrow> name | Some n \<Rightarrow> Some n),
     f_rssi := (if rssi \<noteq> 0 then rssi else f_rssi f)\<rparr>"

definition bt_sighting :: "found \<Rightarrow> found list \<Rightarrow> found list" where
  "bt_sighting n fs =
     (if f_bda n \<in> f_bda ` set fs
      then map (\<lambda>f. if f_bda f = f_bda n then later_info (f_name n) (f_rssi n) f else f) fs
      else n # fs)"

definition ble_sighting :: "found \<Rightarrow> found list \<Rightarrow> found list" where
  "ble_sighting n fs = (if f_bda n \<in> f_bda ` set fs then fs else n # fs)"

lemma find_found:
  assumes "links (next_of h) p as" and "0 \<notin> set as"
  obtains "bda \<notin> f_bda ` set (found_list h as)" "find_scan_result bda h p = Some 0"
  | r xs ys where "as = xs @ r # ys" "f_bda (found_at h r) = bda" "r \<noteq> 0" "find_scan_result bda h p = Some r"
proof (cases "find (\<lambda>a. f_bda (found_at h a) = bda) as")
  case None
  with find_spec [OF assms(1), of bda] that(1) show thesis by (auto simp: find_None_iff)
next
  case (Some r)
  then have "r \<in> set as" "f_bda (found_at h r) = bda" by (auto simp: find_Some_iff)
  with find_spec [OF assms(1), of bda] Some assms(2) that(2) show thesis
    by (metis in_set_conv_decomp option.simps(5))
qed

lemma found_list_same:
  assumes "same_on h h' X" and "set as \<subseteq> set X" and "heap_ok h L" and "set as \<subseteq> set L"
  shows "found_list h' as = found_list h as"
  using assms heap_rec_iff [OF assms(3)] by (auto intro!: same_on_found)

lemma found_ok_Cons:
  "bt_found_ok (f # fs) \<longleftrightarrow> f_bda f \<notin> f_bda ` set fs \<and> (\<exists>c u. f_radio f = Bt c u \<and> uuid_len u \<noteq> 0) \<and> bt_found_ok fs"
  "ble_found_ok (f # fs) \<longleftrightarrow> f_bda f \<notin> f_bda ` set fs \<and> (\<exists>t a. f_radio f = Ble t a) \<and> ble_found_ok fs"
  by (auto simp: bt_found_ok_def ble_found_ok_def)

text \<open>A result that is linked in front of a list.\<close>

lemma cons_links:
  assumes "next_of h' r = Some head" and "same_on h h' L" and "set as \<subseteq> set L" and "links (next_of h) head as" and "r \<noteq> 0"
  shows "links (next_of h') r (r # as)"
  using same_on_links [OF assms(2-4)] assms(1,5) by simp

lemma add_ble_spec:
  assumes "gap_lists g as bs cs" and "alloc_ok env" and "name_ok name len"
  shows "\<exists>h' p bs'. add_ble_scan_result env bda t ap name len rssi g
      = Some (g\<lparr>heap := h', ble_list := p, ble_num := length bs'\<rparr>)
    \<and> gap_lists (g\<lparr>heap := h', ble_list := p, ble_num := length bs'\<rparr>) as bs' cs
    \<and> same_on (heap g) h' (as @ cs)
    \<and> (plenty env \<longrightarrow> found_list h' bs' = ble_sighting
         \<lparr>f_bda = bda, f_name = copied_name name len, f_rssi = rssi, f_usage = usage_from_appearance env ap, f_radio = Ble t ap\<rparr>
         (found_list (heap g) bs))"
proof -
  let ?n = "\<lparr>f_bda = bda, f_name = copied_name name len, f_rssi = rssi, f_usage = usage_from_appearance env ap, f_radio = Ble t ap\<rparr>"
  have g: "heap_ok (heap g) (as @ bs @ cs)" "links (next_of (heap g)) (bt_list g) as" "bt_num g = length as"
    "bt_found_ok (found_list (heap g) as)" "links (next_of (heap g)) (ble_list g) bs" "ble_num g = length bs"
    "ble_found_ok (found_list (heap g) bs)" using assms(1) by (auto simp: gap_lists_def)
  have keep: ?thesis if "add_ble_scan_result env bda t ap name len rssi g = Some g"
      "plenty env \<longrightarrow> bda \<in> f_bda ` set (found_list (heap g) bs)"
    using that assms(1) g(6)
    by (intro exI [of _ "heap g"] exI [of _ "ble_list g"] exI [of _ bs]) (auto simp: ble_sighting_def gap_lists_def)
  have "0 \<notin> set bs" using g(1) by (simp add: heap_ok_def)
  from g(5) this show ?thesis
  proof (cases rule: find_found [where bda = bda])
    case (2 r xs ys)
    then have "add_ble_scan_result env bda t ap name len rssi g = Some g"
      by (simp add: add_ble_scan_result_def)
    moreover have "bda \<in> f_bda ` set (found_list (heap g) bs)" using 2 by force
    ultimately show ?thesis using keep by blast
  next
    case 1
    let ?e = "\<lparr>sr_next = 0, sr_bda = bda, sr_name = 0, sr_rssi = rssi, sr_usage = usage_from_appearance env ap, sr_radio = Ble t ap\<rparr>"
    obtain r h' where n: "new_result env ?e name len (ble_list g) (heap g) = Some (r, h')" "r = 0 \<longrightarrow> h' = heap g" "plenty env \<longrightarrow> r \<noteq> 0"
        "r \<noteq> 0 \<longrightarrow> r \<notin> set (as @ bs @ cs) \<and> heap_ok h' (r # as @ bs @ cs) \<and> same_on (heap g) h' (as @ bs @ cs)
          \<and> next_of h' r = Some (ble_list g) \<and> found_at h' r = ?n"
      using new_result_spec [OF g(1) assms(2,3), of ?e "ble_list g"] by auto
    show ?thesis
    proof (cases "r = 0")
      case True
      with n 1 keep show ?thesis by (simp add: add_ble_scan_result_def)
    next
      case False
      with n have r: "r \<notin> set (as @ bs @ cs)" "heap_ok h' (r # as @ bs @ cs)" "same_on (heap g) h' (as @ bs @ cs)"
        "next_of h' r = Some (ble_list g)" "found_at h' r = ?n" by blast+
      have f: "found_list h' as = found_list (heap g) as" "found_list h' bs = found_list (heap g) bs"
        using found_list_same [OF r(3) _ g(1)] by auto
      have new: "found_list h' (r # bs) = ?n # found_list (heap g) bs" unfolding list.map(2) f(2) r(5) ..
      have "heap_ok h' (as @ (r # bs) @ cs)" by (rule heap_ok_perm [OF _ _ r(2)]) (use r(2) in \<open>auto simp: heap_ok_def\<close>)
      moreover have "links (next_of h') (bt_list g) as" by (rule same_on_links [OF r(3) _ g(2)]) auto
      moreover have "links (next_of h') r (r # bs)" by (rule cons_links [OF r(4,3) _ g(5) False]) auto
      moreover have "ble_found_ok (found_list h' (r # bs))"
        unfolding new found_ok_Cons using g(7) 1(1) by simp
      moreover have "bt_found_ok (found_list h' as)" unfolding f by (rule g(4))
      ultimately have "gap_lists (g\<lparr>heap := h', ble_list := r, ble_num := length (r # bs)\<rparr>) as (r # bs) cs"
        using g(3) by (simp add: gap_lists_def del: list.map seg.simps)
      moreover have "add_ble_scan_result env bda t ap name len rssi g = Some (g\<lparr>heap := h', ble_list := r, ble_num := length (r # bs)\<rparr>)"
        using n(1) 1(2) False g(6) by (simp add: add_ble_scan_result_def)
      moreover have "found_list h' (r # bs) = ble_sighting ?n (found_list (heap g) bs)"
        unfolding new using 1(1) by (simp add: ble_sighting_def)
      moreover have "same_on (heap g) h' (as @ cs)" using r(3) by simp
      ultimately show ?thesis by blast
    qed
  qed
qed


text \<open>A known Classic device: its record in place, with the name and the signal strength added.\<close>

lemma update_record:
  assumes "heap_ok h L" and "r \<in> set L" and "recs h r = Some e"
    and "sr_next e' = sr_next e" "sr_bda e' = sr_bda e" "sr_usage e' = sr_usage e" "sr_radio e' = sr_radio e"
    and "h1 = h \<and> sr_name e' = sr_name e \<or> sr_name e = 0 \<and> sr_name e' \<noteq> 0 \<and> strs h (sr_name e') = None
        \<and> s \<noteq> [] \<and> last s = 0 \<and> h1 = h\<lparr>strs := (strs h)(sr_name e' \<mapsto> s)\<rparr>"
  shows "heap_ok (put_rec r e' h1) L" and "next_of (put_rec r e' h1) = next_of h"
    and "same_on h (put_rec r e' h1) (removeAll r L)"
proof -
  from assms(8) show "heap_ok (put_rec r e' h1) L"
    using heap_ok_put [OF assms(1,3)] heap_ok_name [OF assms(1,3)] by metis
  show "next_of (put_rec r e' h1) = next_of h"
    using assms(3,4,8) by (auto simp: next_of_def fun_eq_iff)
  have "same_on h h1 (removeAll r L)"
    using assms(8) same_on_str [OF assms(1), of "removeAll r L"] by auto
  then show "same_on h (put_rec r e' h1) (removeAll r L)"
    by (rule same_on_trans) (rule same_on_put, simp)
qed

lemma add_bt_known:
  assumes "gap_lists g as bs cs" and "alloc_ok env" and "name_ok name len"
    and "as = xs @ r # ys" and "f_bda (found_at (heap g) r) = bda" and "r \<noteq> 0"
    and "find_scan_result bda (heap g) (bt_list g) = Some r"
  shows "\<exists>h'. add_bt_scan_result env bda cod uuid name len rssi g = Some (g\<lparr>heap := h'\<rparr>)
    \<and> heap_ok h' (as @ bs @ cs) \<and> next_of h' = next_of (heap g) \<and> same_on (heap g) h' (xs @ ys @ bs @ cs)
    \<and> (found_at h' r = found_at (heap g) r \<or> found_at h' r = later_info (copied_name name len) rssi (found_at (heap g) r))
    \<and> (plenty env \<longrightarrow> found_at h' r = later_info (copied_name name len) rssi (found_at (heap g) r))"
proof -
  let ?h = "heap g"
  have ok: "heap_ok ?h (as @ bs @ cs)" using assms(1) by (simp add: gap_lists_def)
  have mem: "r \<in> set (as @ bs @ cs)" using assms(4) by simp
  from ok mem obtain e where e: "recs ?h r = Some e" "get_rec ?h r = Some e" "nm ?h r = sr_name e"
    by (rule heap_get)
  have "f_radio (found_at ?h r) = sr_radio e" using e by (simp add: found_at_def)
  moreover have "\<exists>c u. f_radio (found_at ?h r) = Bt c u \<and> uuid_len u \<noteq> 0"
    using assms(1,4) by (simp add: gap_lists_def bt_found_ok_def)
  ultimately obtain c u where radio: "sr_radio e = Bt c u" "uuid_len u \<noteq> 0" by auto
  have others: "set (xs @ ys @ bs @ cs) \<subseteq> set (removeAll r (as @ bs @ cs))"
    using ok assms(4) by (auto simp: heap_ok_def)
  have updated: ?thesis
    if step: "add_bt_scan_result env bda cod uuid name len rssi g = Some (g\<lparr>heap := put_rec r e' h1\<rparr>)"
      and e': "e' = e\<lparr>sr_name := n, sr_rssi := (if rssi \<noteq> 0 then rssi else sr_rssi e)\<rparr>"
      and h1: "h1 = ?h \<and> n = sr_name e \<and> (sr_name e \<noteq> 0 \<or> copied_name name len = None)
        \<or> sr_name e = 0 \<and> n \<noteq> 0 \<and> strs ?h n = None \<and> copied_name name len = Some s \<and> s \<noteq> [] \<and> last s = 0
          \<and> h1 = ?h\<lparr>strs := (strs ?h)(n \<mapsto> s)\<rparr>" for n s h1 e'
  proof -
    have eq: "sr_next e' = sr_next e" "sr_bda e' = sr_bda e" "sr_usage e' = sr_usage e" "sr_radio e' = sr_radio e" "sr_name e' = n"
      using e' by simp_all
    have cond: "h1 = ?h \<and> sr_name e' = sr_name e \<or> sr_name e = 0 \<and> sr_name e' \<noteq> 0 \<and> strs ?h (sr_name e') = None
        \<and> s \<noteq> [] \<and> last s = 0 \<and> h1 = ?h\<lparr>strs := (strs ?h)(sr_name e' \<mapsto> s)\<rparr>" using h1 eq(5) by auto
    note u = update_record [OF ok mem e(1) eq(1-4) cond]
    have some: "sr_name e \<noteq> 0 \<Longrightarrow> strs ?h (sr_name e) \<noteq> None"
      using heap_str_iff [OF ok, of "sr_name e"] mem e(3) by (metis image_eqI)
    have "found_at (put_rec r e' h1) r = later_info (copied_name name len) rssi (found_at ?h r)"
      using h1 e(1) e' some by (auto simp: found_at_def later_info_def split: option.splits)
    with step u(1,2) same_on_subset [OF u(3) others] show ?thesis by blast
  qed
  show ?thesis
  proof (cases "\<exists>bs. name = Some bs \<and> sr_name e = 0 \<and> len \<noteq> 0")
    case False
    have "add_bt_scan_result env bda cod uuid name len rssi g
        = Some (g\<lparr>heap := put_rec r (e\<lparr>sr_name := sr_name e, sr_rssi := (if rssi \<noteq> 0 then rssi else sr_rssi e)\<rparr>) ?h\<rparr>)"
      using False assms(6,7) e radio
      by (cases name) (auto simp: add_bt_scan_result_def upd_rec_def)
    then show ?thesis
      by (rule updated [OF _ refl]) (use False in \<open>auto simp: copied_name_def split: option.splits\<close>)
  next
    case True
    then obtain ns where ns: "name = Some ns" "sr_name e = 0" "len \<noteq> 0" "len \<le> length ns"
      using assms(3) by (auto simp: name_ok_def)
    obtain n where n: "new_name env ns len ?h = Some (n, if n = 0 then ?h else ?h\<lparr>strs := (strs ?h)(n \<mapsto> take len ns @ [0])\<rparr>)"
        "n \<noteq> 0 \<longrightarrow> strs ?h n = None" "plenty env \<longrightarrow> n \<noteq> 0"
      using new_name_spec [OF assms(2) ns(4) ok] by blast
    show ?thesis
    proof (cases "n = 0")
      case True
      with n ns assms(6,7) e have "add_bt_scan_result env bda cod uuid name len rssi g = Some (g\<lparr>heap := ?h\<rparr>)"
        by (simp add: add_bt_scan_result_def)
      with True n(3) ok show ?thesis by (intro exI [of _ ?h]) simp
    next
      case n0: False
      let ?h1 = "?h\<lparr>strs := (strs ?h)(n \<mapsto> take len ns @ [0])\<rparr>"
      have "get_rec ?h1 r = Some e" using e(2) by (simp add: get_rec_def split: if_splits)
      then have "add_bt_scan_result env bda cod uuid name len rssi g
          = Some (g\<lparr>heap := put_rec r (e\<lparr>sr_name := n, sr_rssi := (if rssi \<noteq> 0 then rssi else sr_rssi e)\<rparr>) ?h1\<rparr>)"
        using n n0 ns assms(6,7) e radio by (simp add: add_bt_scan_result_def upd_rec_def)
      then show ?thesis
        by (rule updated [OF _ refl, where s = "take len ns @ [0]"]) (use n n0 ns in \<open>simp add: copied_name_def\<close>)
    qed
  qed
qed

lemma bt_sighting_known:
  assumes "bt_found_ok (found_list h (xs @ r # ys))" and "f_bda (found_at h r) = f_bda n"
  shows "bt_sighting n (found_list h (xs @ r # ys))
    = found_list h xs @ later_info (f_name n) (f_rssi n) (found_at h r) # found_list h ys"
proof -
  have "f_bda (found_at h a) \<noteq> f_bda n" if "a \<in> set xs \<union> set ys" for a
    using assms that by (auto simp: bt_found_ok_def image_iff)
  then show ?thesis using assms(2) by (auto simp: bt_sighting_def)
qed

lemma later_info_ok:
  assumes "bt_found_ok (fs @ f # gs)"
  shows "bt_found_ok (fs @ later_info name rssi f # gs)"
  using assms by (simp add: bt_found_ok_def later_info_def)

lemma add_bt_spec:
  assumes "gap_lists g as bs cs" and "alloc_ok env" and "name_ok name len" and "uuid_len uuid \<noteq> 0"
  shows "\<exists>h' p as'. add_bt_scan_result env bda cod uuid name len rssi g
      = Some (g\<lparr>heap := h', bt_list := p, bt_num := length as'\<rparr>)
    \<and> gap_lists (g\<lparr>heap := h', bt_list := p, bt_num := length as'\<rparr>) as' bs cs
    \<and> same_on (heap g) h' (bs @ cs)
    \<and> (plenty env \<longrightarrow> found_list h' as' = bt_sighting
         \<lparr>f_bda = bda, f_name = copied_name name len, f_rssi = rssi, f_usage = usage_from_cod env (cod_address env), f_radio = Bt cod uuid\<rparr>
         (found_list (heap g) as))"
proof -
  let ?n = "\<lparr>f_bda = bda, f_name = copied_name name len, f_rssi = rssi, f_usage = usage_from_cod env (cod_address env), f_radio = Bt cod uuid\<rparr>"
  have g: "heap_ok (heap g) (as @ bs @ cs)" "links (next_of (heap g)) (bt_list g) as" "bt_num g = length as"
    "bt_found_ok (found_list (heap g) as)" "links (next_of (heap g)) (ble_list g) bs" "ble_num g = length bs"
    "ble_found_ok (found_list (heap g) bs)" using assms(1) by (auto simp: gap_lists_def)
  have "0 \<notin> set as" using g(1) by (simp add: heap_ok_def)
  from g(2) this show ?thesis
  proof (cases rule: find_found [where bda = bda])
    case (2 r xs ys)
    from add_bt_known [OF assms(1-3) 2, of cod uuid rssi]
    obtain h' where h': "add_bt_scan_result env bda cod uuid name len rssi g = Some (g\<lparr>heap := h'\<rparr>)"
        "heap_ok h' (as @ bs @ cs)" "next_of h' = next_of (heap g)" "same_on (heap g) h' (xs @ ys @ bs @ cs)"
        "found_at h' r = found_at (heap g) r \<or> found_at h' r = later_info (copied_name name len) rssi (found_at (heap g) r)"
        "plenty env \<longrightarrow> found_at h' r = later_info (copied_name name len) rssi (found_at (heap g) r)" by blast
    have f: "found_list h' xs = found_list (heap g) xs" "found_list h' ys = found_list (heap g) ys"
        "found_list h' bs = found_list (heap g) bs"
      using found_list_same [OF h'(4) _ g(1)] 2(1) by auto
    have as: "found_list h' as = found_list (heap g) xs @ found_at h' r # found_list (heap g) ys"
      unfolding 2(1) by (simp only: list.map map_append f)
    have "bt_found_ok (found_list (heap g) xs @ found_at (heap g) r # found_list (heap g) ys)"
      using g(4) 2(1) by simp
    then have ok: "bt_found_ok (found_list h' as)"
      unfolding as using h'(5) later_info_ok by metis
    have same: "g\<lparr>heap := h', bt_list := bt_list g, bt_num := length as\<rparr> = g\<lparr>heap := h'\<rparr>" using g(3) by simp
    have "gap_lists (g\<lparr>heap := h'\<rparr>) as bs cs"
      using h'(2,3) ok g(2,3,5-7) f(3) [symmetric] by (simp add: gap_lists_def del: map_eq_conv)
    moreover have "plenty env \<longrightarrow> found_list h' as = bt_sighting ?n (found_list (heap g) as)"
    proof
      assume "plenty env"
      with h'(6) have new: "found_at h' r = later_info (f_name ?n) (f_rssi ?n) (found_at (heap g) r)" by simp
      have "bt_found_ok (found_list (heap g) (xs @ r # ys))" using g(4) unfolding 2(1) .
      then have "bt_sighting ?n (found_list (heap g) (xs @ r # ys))
          = found_list (heap g) xs @ later_info (f_name ?n) (f_rssi ?n) (found_at (heap g) r) # found_list (heap g) ys"
        by (rule bt_sighting_known) (use 2(2) in simp)
      then show "found_list h' as = bt_sighting ?n (found_list (heap g) as)"
        using as 2(1) new by simp
    qed
    ultimately show ?thesis using h'(1,4)
      by (intro exI [of _ h'] exI [of _ "bt_list g"] exI [of _ as]) (simp only: same same_on_append simp_thms)
  next
    case 1
    let ?e = "\<lparr>sr_next = 0, sr_bda = bda, sr_name = 0, sr_rssi = rssi, sr_usage = usage_from_cod env (cod_address env), sr_radio = Bt cod uuid\<rparr>"
    obtain r h' where n: "new_result env ?e name len (bt_list g) (heap g) = Some (r, h')" "r = 0 \<longrightarrow> h' = heap g" "plenty env \<longrightarrow> r \<noteq> 0"
        "r \<noteq> 0 \<longrightarrow> r \<notin> set (as @ bs @ cs) \<and> heap_ok h' (r # as @ bs @ cs) \<and> same_on (heap g) h' (as @ bs @ cs)
          \<and> next_of h' r = Some (bt_list g) \<and> found_at h' r = ?n"
      using new_result_spec [OF g(1) assms(2,3), of ?e "bt_list g"] by auto
    show ?thesis
    proof (cases "r = 0")
      case True
      with n 1 have "add_bt_scan_result env bda cod uuid name len rssi g = Some g" by (simp add: add_bt_scan_result_def)
      with True n assms(1) g(3) show ?thesis
        by (intro exI [of _ "heap g"] exI [of _ "bt_list g"] exI [of _ as]) (simp add: gap_lists_def)
    next
      case False
      with n have r: "r \<notin> set (as @ bs @ cs)" "heap_ok h' (r # as @ bs @ cs)" "same_on (heap g) h' (as @ bs @ cs)"
        "next_of h' r = Some (bt_list g)" "found_at h' r = ?n" by blast+
      have f: "found_list h' as = found_list (heap g) as" "found_list h' bs = found_list (heap g) bs"
        using found_list_same [OF r(3) _ g(1)] by auto
      have new: "found_list h' (r # as) = ?n # found_list (heap g) as" unfolding list.map(2) f(1) r(5) ..
      have "links (next_of h') (ble_list g) bs" by (rule same_on_links [OF r(3) _ g(5)]) auto
      moreover have "links (next_of h') r (r # as)" by (rule cons_links [OF r(4,3) _ g(2) False]) auto
      moreover have "bt_found_ok (found_list h' (r # as))"
        unfolding new found_ok_Cons using g(4) 1(1) assms(4) by simp
      moreover have "ble_found_ok (found_list h' bs)" unfolding f by (rule g(7))
      ultimately have "gap_lists (g\<lparr>heap := h', bt_list := r, bt_num := length (r # as)\<rparr>) (r # as) bs cs"
        using g(6) r(2) by (simp add: gap_lists_def del: list.map seg.simps)
      moreover have "add_bt_scan_result env bda cod uuid name len rssi g = Some (g\<lparr>heap := h', bt_list := r, bt_num := length (r # as)\<rparr>)"
        using n(1) 1(2) False g(3) by (simp add: add_bt_scan_result_def)
      moreover have "found_list h' (r # as) = bt_sighting ?n (found_list (heap g) as)"
        unfolding new using 1(1) by (simp add: bt_sighting_def)
      moreover have "same_on (heap g) h' (bs @ cs)" using r(3) by simp
      ultimately show ?thesis by blast
    qed
  qed
qed

section \<open>Devices and events\<close>

text \<open>
  What the stack guarantees of its arguments: a name property is a C string; the other properties
  have their size.  Nothing is assumed of the elements that the two resolvers find: the code trusts
  their offsets and lengths, and the definitions below name the elements it cannot.

  \<open>eir_overrun\<close>: the first UUID element of the length the code looks for reaches past the EIR data.
  \<open>eir_name_past\<close>: the name element does; the code takes it over without reading it yet.
\<close>

definition uuid_found :: "gap_env \<Rightarrow> bytes \<Rightarrow> eir_type \<Rightarrow> eir_type \<Rightarrow> nat \<Rightarrow> bool" where
  "uuid_found env val t1 t2 n \<longleftrightarrow>
     (case resolve_first env val t1 t2 of Some (off, len) \<Rightarrow> unat len = n | None \<Rightarrow> False)"

definition uuid_past :: "gap_env \<Rightarrow> bytes \<Rightarrow> eir_type \<Rightarrow> eir_type \<Rightarrow> nat \<Rightarrow> bool" where
  "uuid_past env val t1 t2 n \<longleftrightarrow>
     (case resolve_first env val t1 t2 of Some (off, len) \<Rightarrow> unat len = n \<and> length val < off + n | None \<Rightarrow> False)"

definition eir_overrun :: "gap_env \<Rightarrow> bytes \<Rightarrow> bool" where
  "eir_overrun env val \<longleftrightarrow>
     (if uuid_found env val CMPL_16BITS_UUID INCMPL_16BITS_UUID 2
      then uuid_past env val CMPL_16BITS_UUID INCMPL_16BITS_UUID 2
      else if uuid_found env val CMPL_32BITS_UUID INCMPL_32BITS_UUID 4
      then uuid_past env val CMPL_32BITS_UUID INCMPL_32BITS_UUID 4
      else uuid_past env val CMPL_128BITS_UUID INCMPL_128BITS_UUID 16)"

definition eir_name_past :: "gap_env \<Rightarrow> bytes \<Rightarrow> bool" where
  "eir_name_past env val \<longleftrightarrow>
     (case resolve_first env val CMPL_LOCAL_NAME SHORT_LOCAL_NAME of
        Some (off, len) \<Rightarrow> length val < off + unat len | None \<Rightarrow> False)"

definition prop_overrun :: "gap_env \<Rightarrow> dev_prop \<Rightarrow> bool" where
  "prop_overrun env p \<longleftrightarrow> (case p of PropEir val \<Rightarrow> eir_overrun env val | _ \<Rightarrow> False)"

definition prop_name_past :: "gap_env \<Rightarrow> dev_prop \<Rightarrow> bool" where
  "prop_name_past env p \<longleftrightarrow> (case p of PropEir val \<Rightarrow> eir_name_past env val | _ \<Rightarrow> False)"

definition dev_prop_ok :: "dev_prop \<Rightarrow> bool" where
  "dev_prop_ok p = (case p of PropBdname val \<Rightarrow> 0 \<in> set val | PropRssi val \<Rightarrow> val \<noteq> [] | PropCod val \<Rightarrow> 4 \<le> length val
     | PropEir val \<Rightarrow> True | PropOther \<Rightarrow> True)"

text \<open>\<open>ble_adv\<close> is an array of 62 bytes.\<close>

definition rst_ok :: "scan_rst \<Rightarrow> bool" where
  "rst_ok rst \<longleftrightarrow> length (rst_adv rst) = 62 \<and> rst_len rst \<le> 62"

definition vars_ok :: "disc_vars \<Rightarrow> bool" where
  "vars_ok v \<longleftrightarrow> name_ok (dv_name v) (dv_name_len v) \<and> uuid_len (dv_uuid v) \<noteq> 0"

lemma eir_uuid_cases:
  "eir_uuid env val t1 t2 n =
     (if \<not> uuid_found env val t1 t2 n then Some None
      else if uuid_past env val t1 t2 n then None
      else Some (Some \<lparr>uuid_len = n, uuid_val = take n (drop (fst (the (resolve_first env val t1 t2))) val)\<rparr>))"
  by (auto simp: eir_uuid_def uuid_found_def uuid_past_def rd_range_def split: option.split)

lemma eir_name_ok:
  assumes "\<not> eir_name_past env val" and "vars_ok v"
  shows "vars_ok (eir_name env val v)"
proof -
  have fits: "m \<le> n - k" if "\<not> n < k + m" for n k m :: nat using that by linarith
  show ?thesis
    using assms fits
    by (cases "resolve_first env val CMPL_LOCAL_NAME SHORT_LOCAL_NAME")
       (auto simp: eir_name_def eir_name_past_def vars_ok_def name_ok_def)
qed

lemma eir_prop_overrun: "eir_overrun env val \<Longrightarrow> eir_prop env val v = None"
  by (auto simp: eir_prop_def eir_overrun_def eir_uuid_cases uuid_past_def uuid_found_def split: option.splits if_splits)

lemma eir_prop_total:
  assumes "\<not> eir_overrun env val" and "\<not> eir_name_past env val" and "vars_ok v"
  shows "\<exists>v'. eir_prop env val v = Some v' \<and> vars_ok v'"
proof -
  have put: "vars_ok (v\<lparr>dv_uuid := w\<rparr>)" if "uuid_len w \<noteq> 0" for w
    using that assms(3) by (simp add: vars_ok_def)
  consider "uuid_found env val CMPL_16BITS_UUID INCMPL_16BITS_UUID 2"
    | "\<not> uuid_found env val CMPL_16BITS_UUID INCMPL_16BITS_UUID 2" "uuid_found env val CMPL_32BITS_UUID INCMPL_32BITS_UUID 4"
    | "\<not> uuid_found env val CMPL_16BITS_UUID INCMPL_16BITS_UUID 2" "\<not> uuid_found env val CMPL_32BITS_UUID INCMPL_32BITS_UUID 4"
    by blast
  then show ?thesis
    by cases (use assms(1) eir_name_ok [OF assms(2,3)] put in
      \<open>auto simp: eir_prop_def eir_uuid_cases eir_overrun_def\<close>)
qed

lemma word_of_nat_le: "unat (word_of_nat n :: 'a::len word) \<le> n"
  by (simp add: unsigned_of_nat take_bit_nat_less_eq_self)

lemma dev_prop_total:
  assumes "dev_prop_ok p" and "\<not> prop_overrun env p" and "\<not> prop_name_past env p" and "vars_ok v"
  shows "\<exists>v'. dev_prop_step env p v = Some v' \<and> vars_ok v'"
proof (cases p)
  case (PropBdname val)
  with assms(1) have "strlen val = Some (length (takeWhile (\<lambda>b. b \<noteq> 0) val))" by (simp add: dev_prop_ok_def strlen_def)
  moreover have "length (takeWhile (\<lambda>b. b \<noteq> 0) val) \<le> length val" by (rule length_takeWhile_le)
  ultimately show ?thesis
    using assms(4) PropBdname word_of_nat_le [of "length (takeWhile (\<lambda>b. b \<noteq> 0) val)", where 'a = 8]
    by (auto simp: dev_prop_step_def vars_ok_def name_ok_def)
next
  case (PropRssi val)
  with assms(1,4) show ?thesis by (simp add: dev_prop_step_def dev_prop_ok_def vars_ok_def)
next
  case (PropCod val)
  with assms(1,4) show ?thesis by (simp add: dev_prop_step_def dev_prop_ok_def vars_ok_def)
next
  case (PropEir val)
  with eir_prop_total [OF _ _ assms(4), of env val] assms(2,3) show ?thesis
    by (simp add: dev_prop_step_def prop_overrun_def prop_name_past_def)
qed (use assms in \<open>simp add: dev_prop_step_def\<close>)

lemma disc_vars_total:
  assumes "\<forall>p \<in> set props. dev_prop_ok p \<and> \<not> prop_overrun env p \<and> \<not> prop_name_past env p"
  shows "\<exists>v. foldM (dev_prop_step env) props disc_start = Some v \<and> vars_ok v"
  by (rule foldM_total) (use assms dev_prop_total in \<open>auto simp: disc_start_def vars_ok_def name_ok_def\<close>)

lemma disc_vars_overrun:
  assumes "p \<in> set props" and "prop_overrun env p"
  shows "foldM (dev_prop_step env) props v = None"
  using assms(1)
proof (induction props arbitrary: v)
  case (Cons q props)
  show ?case
  proof (cases "p = q")
    case True
    with assms(2) show ?thesis
      by (cases q) (simp_all add: dev_prop_step_def prop_overrun_def eir_prop_overrun)
  next
    case False
    with Cons show ?thesis by (cases "dev_prop_step env q v") simp_all
  qed
qed simp

end
