(* ===== verification/GapProtocol.thy ===== *)
theory GapProtocol
  imports GapHeap
begin

text \<open>
  The events and the scan of \<open>esp_hid_gap.c\<close>: what each event makes of the lists, what a whole scan
  returns and frees, the failure that blocks later scans, and exactly when an advertisement makes
  the code leave a buffer.
\<close>

section \<open>The effect of an event\<close>

definition cut_u16 :: "gap_env \<Rightarrow> scan_rst \<Rightarrow> adv_type \<Rightarrow> bool" where
  "cut_u16 env rst t =
     (case resolve_adv env (rst_adv rst) (rst_len rst) t of Some (off, len) \<Rightarrow> len \<noteq> 0 \<and> 61 \<le> off | None \<Rightarrow> False)"

definition adv_name_element :: "gap_env \<Rightarrow> scan_rst \<Rightarrow> (nat \<times> u8) option" where
  "adv_name_element env rst =
     (case resolve_adv env (rst_adv rst) (rst_len rst) AD_NAME_CMPL of
        Some d \<Rightarrow> Some d | None \<Rightarrow> resolve_adv env (rst_adv rst) (rst_len rst) AD_NAME_SHORT)"

definition cut_name :: "gap_env \<Rightarrow> scan_rst \<Rightarrow> bool" where
  "cut_name env rst =
     (case adv_name_element env rst of Some (off, len) \<Rightarrow> len \<noteq> 0 \<and> 62 < off + unat len | None \<Rightarrow> False)"

text \<open>
  The events that make a handler leave its buffers, \<open>gap_overrun\<close>: an LE advertisement whose service or
  appearance element starts in its last byte (number 61) or later, or whose name element reaches past
  byte 61; and a Classic result with an EIR UUID that reaches past its data.  \<open>gap_wild\<close> adds the Classic
  results with an EIR name that reaches past its data: whether it is copied, and so read, depends on
  the list and on the memory that is left.  Each is a condition on what ESP-IDF's resolvers answer.
\<close>

definition gap_overrun :: "gap_env \<Rightarrow> scan_event \<Rightarrow> bool" where
  "gap_overrun env ev =
     (case ev of
        BleEv (ScanInqRes rst) \<Rightarrow> cut_u16 env rst AD_16SRV_CMPL \<or> cut_u16 env rst AD_APPEARANCE \<or> cut_name env rst
      | BtEv (DiscRes bda props) \<Rightarrow> (\<exists>p \<in> set props. prop_overrun env p)
      | _ \<Rightarrow> False)"

definition gap_wild :: "gap_env \<Rightarrow> scan_event \<Rightarrow> bool" where
  "gap_wild env ev \<longleftrightarrow> gap_overrun env ev
     \<or> (case ev of BtEv (DiscRes bda props) \<Rightarrow> (\<exists>p \<in> set props. prop_name_past env p) | _ \<Rightarrow> False)"

definition scan_event_ok :: "scan_event \<Rightarrow> bool" where
  "scan_event_ok ev =
     (case ev of BtEv (DiscRes bda props) \<Rightarrow> (\<forall>p \<in> set props. dev_prop_ok p) | BleEv (ScanInqRes rst) \<Rightarrow> rst_ok rst | _ \<Rightarrow> True)"

text \<open>The results as values: what an event makes of the two lists.\<close>

definition bt_seen :: "gap_env \<Rightarrow> bytes \<Rightarrow> dev_prop list \<Rightarrow> found list \<Rightarrow> found list" where
  "bt_seen env bda props fs =
     (case foldM (dev_prop_step env) props disc_start of
        None \<Rightarrow> fs
      | Some v \<Rightarrow>
          if cod_major env (dv_cod v) = 5 \<or> bda \<in> f_bda ` set fs
          then bt_sighting \<lparr>f_bda = bda, f_name = copied_name (dv_name v) (dv_name_len v), f_rssi = dv_rssi v,
                 f_usage = usage_from_cod env (cod_address env), f_radio = Bt (dv_cod v) (dv_uuid v)\<rparr> fs
          else fs)"

definition adv_name :: "gap_env \<Rightarrow> scan_rst \<Rightarrow> bytes option" where
  "adv_name env rst =
     (case adv_name_element env rst of
        Some (off, len) \<Rightarrow> copied_name (Some (drop off (rst_adv rst))) (unat len) | None \<Rightarrow> None)"

definition ble_seen :: "gap_env \<Rightarrow> scan_rst \<Rightarrow> found list \<Rightarrow> found list" where
  "ble_seen env rst fs =
     (case (adv_u16 env rst AD_16SRV_CMPL, adv_u16 env rst AD_APPEARANCE) of
        (Some uuid, Some ap) \<Rightarrow>
          if uuid = 0x1812
          then ble_sighting \<lparr>f_bda = rst_bda rst, f_name = adv_name env rst, f_rssi = word_of_int (rst_rssi rst),
                 f_usage = usage_from_appearance env ap, f_radio = Ble (rst_addr_type rst) ap\<rparr> fs
          else fs
      | _ \<Rightarrow> fs)"

definition seen :: "gap_env \<Rightarrow> scan_event \<Rightarrow> found list \<times> found list \<Rightarrow> found list \<times> found list" where
  "seen env ev fs =
     (case ev of
        BtEv (DiscRes bda props) \<Rightarrow> (bt_seen env bda props (fst fs), snd fs)
      | BleEv (ScanInqRes rst) \<Rightarrow> (fst fs, ble_seen env rst (snd fs))
      | _ \<Rightarrow> fs)"

text \<open>What every event keeps.\<close>

definition scan_effect :: "gap_env \<Rightarrow> scan_event \<Rightarrow> gap \<Rightarrow> addr list \<Rightarrow> addr list \<Rightarrow> addr list \<Rightarrow> gap \<Rightarrow> bool" where
  "scan_effect env ev g as bs cs g' \<longleftrightarrow>
     (\<exists>as' bs'. gap_lists g' as' bs' cs \<and> same_on (heap g) (heap g') cs
       \<and> (plenty env \<longrightarrow> (found_list (heap g') as', found_list (heap g') bs')
            = seen env ev (found_list (heap g) as, found_list (heap g) bs)))
     \<and> bt_sem g' = (if ev = BtEv (DiscStateChanged True) then Some True else bt_sem g)
     \<and> ble_sem g' = (if ev \<in> {BleEv ScanParamSetComplete, BleEv ScanInqCmpl} then Some True else ble_sem g)"

lemma gap_lists_cong:
  "heap g' = heap g \<Longrightarrow> bt_list g' = bt_list g \<Longrightarrow> bt_num g' = bt_num g \<Longrightarrow> ble_list g' = ble_list g \<Longrightarrow> ble_num g' = ble_num g
   \<Longrightarrow> gap_lists g' as bs cs = gap_lists g as bs cs"
  by (simp add: gap_lists_def)

lemma scan_effectI:
  assumes "gap_lists g' as' bs' cs" and "same_on (heap g) (heap g') cs"
    and "plenty env \<Longrightarrow> seen env ev (found_list (heap g) as, found_list (heap g) bs)
      = (found_list (heap g') as', found_list (heap g') bs')"
    and "bt_sem g' = (if ev = BtEv (DiscStateChanged True) then Some True else bt_sem g)"
    and "ble_sem g' = (if ev \<in> {BleEv ScanParamSetComplete, BleEv ScanInqCmpl} then Some True else ble_sem g)"
  shows "scan_effect env ev g as bs cs g'"
  unfolding scan_effect_def using assms by auto

text \<open>An event that does not show a device.\<close>

lemma scan_effect_quiet:
  assumes "gap_lists g as bs cs" and "seen env ev (found_list (heap g) as, found_list (heap g) bs) = (found_list (heap g) as, found_list (heap g) bs)"
    and "heap g' = heap g" "bt_list g' = bt_list g" "bt_num g' = bt_num g" "ble_list g' = ble_list g" "ble_num g' = ble_num g"
    and "bt_sem g' = (if ev = BtEv (DiscStateChanged True) then Some True else bt_sem g)"
    and "ble_sem g' = (if ev \<in> {BleEv ScanParamSetComplete, BleEv ScanInqCmpl} then Some True else ble_sem g)"
  shows "scan_effect env ev g as bs cs g'"
proof -
  have "gap_lists g' as bs cs" using gap_lists_cong [OF assms(3-7)] assms(1) by simp
  then show ?thesis unfolding scan_effect_def assms(8,9) using assms(2) unfolding assms(3) by auto
qed

lemma handle_bt_spec:
  assumes "gap_lists g as bs cs" and "alloc_ok env" and "\<forall>p \<in> set props. dev_prop_ok p"
    and "\<not> gap_wild env (BtEv (DiscRes bda props))"
  shows "\<exists>g'. handle_bt_device_result env bda props g = Some g' \<and> scan_effect env (BtEv (DiscRes bda props)) g as bs cs g'"
proof -
  obtain v where v: "foldM (dev_prop_step env) props disc_start = Some v" "vars_ok v"
    using disc_vars_total [of props env] assms(3,4) by (auto simp: gap_wild_def gap_overrun_def)
  have l: "links (next_of (heap g)) (bt_list g) as" "0 \<notin> set as"
    using assms(1) by (auto simp: gap_lists_def heap_ok_def)
  have find: "\<exists>r. find_scan_result bda (heap g) (bt_list g) = Some r \<and> (r \<noteq> 0 \<longleftrightarrow> bda \<in> f_bda ` set (found_list (heap g) as))"
    using l
  proof (cases rule: find_found [where bda = bda])
    case (2 r xs ys)
    then show ?thesis by force
  qed simp
  let ?known = "cod_major env (dv_cod v) = 5 \<or> bda \<in> f_bda ` set (found_list (heap g) as)"
  have eq: "handle_bt_device_result env bda props g =
      (if ?known then add_bt_scan_result env bda (dv_cod v) (dv_uuid v) (dv_name v) (dv_name_len v) (dv_rssi v) g else Some g)"
    using find v(1) by (auto simp: handle_bt_device_result_def)
  show ?thesis
  proof (cases ?known)
    case True
    have ok: "name_ok (dv_name v) (dv_name_len v)" "uuid_len (dv_uuid v) \<noteq> 0" using v(2) by (auto simp: vars_ok_def)
    from add_bt_spec [OF assms(1,2) ok, of bda "dv_cod v" "dv_rssi v"] obtain h' p as' where a:
      "add_bt_scan_result env bda (dv_cod v) (dv_uuid v) (dv_name v) (dv_name_len v) (dv_rssi v) g
        = Some (g\<lparr>heap := h', bt_list := p, bt_num := length as'\<rparr>)"
      "gap_lists (g\<lparr>heap := h', bt_list := p, bt_num := length as'\<rparr>) as' bs cs" "same_on (heap g) h' (bs @ cs)"
      "plenty env \<longrightarrow> found_list h' as' = bt_sighting
         \<lparr>f_bda = bda, f_name = copied_name (dv_name v) (dv_name_len v), f_rssi = dv_rssi v,
          f_usage = usage_from_cod env (cod_address env), f_radio = Bt (dv_cod v) (dv_uuid v)\<rparr> (found_list (heap g) as)" by blast
    have "heap_ok (heap g) (as @ bs @ cs)" using assms(1) by (simp add: gap_lists_def)
    then have "found_list h' bs = found_list (heap g) bs"
      by (rule found_list_same [OF a(3), rotated]) auto
    then have "scan_effect env (BtEv (DiscRes bda props)) g as bs cs (g\<lparr>heap := h', bt_list := p, bt_num := length as'\<rparr>)"
      by (intro scan_effectI [OF a(2)]) (use a(3,4) True v(1) in \<open>simp_all add: seen_def bt_seen_def del: map_eq_conv\<close>)
    with a(1) True eq show ?thesis by auto
  next
    case False
    with eq v(1) show ?thesis
      by (auto intro!: scan_effect_quiet [OF assms(1)] simp: seen_def bt_seen_def)
  qed
qed

lemma handle_bt_overrun:
  assumes "gap_overrun env (BtEv (DiscRes bda props))"
  shows "handle_bt_device_result env bda props g = None"
  using assms disc_vars_overrun [of _ props env disc_start]
  by (auto simp: gap_overrun_def handle_bt_device_result_def)

lemma adv_u16_total:
  assumes "length (rst_adv rst) = 62"
  shows "adv_u16 env rst t = None \<longleftrightarrow> cut_u16 env rst t"
proof (cases "resolve_adv env (rst_adv rst) (rst_len rst) t")
  case None
  then show ?thesis by (simp add: adv_u16_def cut_u16_def)
next
  case (Some d)
  obtain off len where d: "d = (off, len)" by (cases d)
  show ?thesis
  proof (cases "len \<noteq> 0 \<and> off < 61")
    case True
    then have "off + 1 < 62" "off < 62" by simp_all
    with Some d assms True show ?thesis by (simp add: adv_u16_def cut_u16_def)
  next
    case False
    then have "len = 0 \<or> 62 \<le> off + 1" by auto
    with Some d assms show ?thesis
      by (auto simp: adv_u16_def cut_u16_def rd_def bind_eq_None_conv)
  qed
qed

text \<open>The copy of the name on the stack of \<open>handle_ble_device_result\<close>, a buffer of 64 bytes.\<close>

lemma name_copy:
  fixes n :: u8
  assumes "length adv = 62" and "n \<noteq> 0"
  shows "(do { b \<leftarrow> memcpy (replicate 64 (0 :: u8)) 0 (drop off adv) (unat n); wr b (unat n) 0 } = None)
    \<longleftrightarrow> 62 < off + unat n"
proof (cases "62 < off + unat n")
  case True
  have "0 < unat n" using assms(2) by (simp add: unat_gt_0)
  with True assms(1) have "length (drop off adv) < unat n" by simp
  then have "memcpy (replicate 64 (0 :: u8)) 0 (drop off adv) (unat n) = None"
    by (simp add: memcpy_def rd_range_def)
  with True show ?thesis by simp
next
  case False
  then have le: "unat n \<le> 62 - off" "off + unat n \<le> 62" by simp_all
  with assms(1) have "memcpy (replicate 64 (0 :: u8)) 0 (drop off adv) (unat n)
      = Some (take (unat n) (drop off adv) @ replicate (64 - unat n) 0)" by simp
  with False le assms(1) show ?thesis by simp
qed

lemma handle_ble_spec:
  assumes "gap_lists g as bs cs" and "alloc_ok env" and "rst_ok rst"
  shows "if gap_wild env (BleEv (ScanInqRes rst)) then handle_ble_device_result env rst g = None
    else \<exists>g'. handle_ble_device_result env rst g = Some g' \<and> scan_effect env (BleEv (ScanInqRes rst)) g as bs cs g'"
proof -
  have adv: "length (rst_adv rst) = 62" using assms(3) by (simp add: rst_ok_def)
  note u16 = adv_u16_total [OF adv]
  define d where "d = adv_name_element env rst"
  define name where "name = map_option (\<lambda>d. drop (fst d) (rst_adv rst)) d"
  define len where "len = (case d of Some (off, len) \<Rightarrow> unat len | None \<Rightarrow> 0)"
  define buf where "buf = (case d of
           Some (off, len) \<Rightarrow>
             if len \<noteq> 0
             then do {
               n \<leftarrow> memcpy (replicate 64 0) 0 (drop off (rst_adv rst)) (unat len);
               wr n (unat len) 0
             }
             else Some (replicate 64 0)
         | None \<Rightarrow> Some (replicate 64 (0::u8)))"
  have buf: "buf = None \<longleftrightarrow> cut_name env rst"
    using name_copy [OF adv] by (auto simp: buf_def cut_name_def d_def split: option.split)
  have eq: "handle_ble_device_result env rst g = do {
      uuid \<leftarrow> adv_u16 env rst AD_16SRV_CMPL;
      ap \<leftarrow> adv_u16 env rst AD_APPEARANCE;
      _ \<leftarrow> buf;
      if uuid = 0x1812
      then add_ble_scan_result env (rst_bda rst) (rst_addr_type rst) ap name len (word_of_int (rst_rssi rst)) g
      else Some g }"
    unfolding handle_ble_device_result_def adv_name_element_def [symmetric] d_def [symmetric] buf_def name_def len_def
    by (simp add: Let_def)
  show ?thesis
  proof (cases "gap_wild env (BleEv (ScanInqRes rst))")
    case True
    then have "adv_u16 env rst AD_16SRV_CMPL = None \<or> adv_u16 env rst AD_APPEARANCE = None \<or> buf = None"
      using u16 buf by (simp add: gap_wild_def gap_overrun_def)
    with True show ?thesis
      by (cases "adv_u16 env rst AD_16SRV_CMPL"; cases "adv_u16 env rst AD_APPEARANCE") (auto simp: eq)
  next
    case False
    then have fine: "\<not> cut_u16 env rst AD_16SRV_CMPL" "\<not> cut_u16 env rst AD_APPEARANCE" "\<not> cut_name env rst"
      by (simp_all add: gap_wild_def gap_overrun_def)
    then obtain uuid ap b where u: "adv_u16 env rst AD_16SRV_CMPL = Some uuid" "adv_u16 env rst AD_APPEARANCE = Some ap"
        "buf = Some b" using u16 buf by fastforce
    have ok: "name_ok name len"
    proof (cases d)
      case (Some e)
      obtain off n where e: "e = (off, n)" by (cases e)
      have "unat n \<le> 62 - off"
      proof (cases "n = 0")
        case nz: False
        then have "off + unat n \<le> 62" using fine(3) Some e by (simp add: cut_name_def d_def)
        then show ?thesis by simp
      qed simp
      with Some e adv show ?thesis by (simp add: name_ok_def name_def len_def)
    qed (simp add: name_ok_def name_def)
    have nm: "copied_name name len = adv_name env rst"
      unfolding adv_name_def d_def [symmetric] name_def len_def by (cases d) (auto simp: copied_name_def)
    show ?thesis
    proof (cases "uuid = 0x1812")
      case True
      from add_ble_spec [OF assms(1,2) ok, of "rst_bda rst" "rst_addr_type rst" ap "word_of_int (rst_rssi rst)"]
      obtain h' p bs' where a:
        "add_ble_scan_result env (rst_bda rst) (rst_addr_type rst) ap name len (word_of_int (rst_rssi rst)) g
          = Some (g\<lparr>heap := h', ble_list := p, ble_num := length bs'\<rparr>)"
        "gap_lists (g\<lparr>heap := h', ble_list := p, ble_num := length bs'\<rparr>) as bs' cs" "same_on (heap g) h' (as @ cs)"
        "plenty env \<longrightarrow> found_list h' bs' = ble_sighting
           \<lparr>f_bda = rst_bda rst, f_name = copied_name name len, f_rssi = word_of_int (rst_rssi rst),
            f_usage = usage_from_appearance env ap, f_radio = Ble (rst_addr_type rst) ap\<rparr> (found_list (heap g) bs)" by blast
      have "heap_ok (heap g) (as @ bs @ cs)" using assms(1) by (simp add: gap_lists_def)
      then have "found_list h' as = found_list (heap g) as"
        by (rule found_list_same [OF a(3), rotated]) auto
      then have "scan_effect env (BleEv (ScanInqRes rst)) g as bs cs (g\<lparr>heap := h', ble_list := p, ble_num := length bs'\<rparr>)"
        by (intro scan_effectI [OF a(2)]) (use a(3,4) True u nm in \<open>simp_all add: seen_def ble_seen_def del: map_eq_conv\<close>)
      with a(1) True u eq False show ?thesis by auto
    next
      case other: False
      with eq u False show ?thesis
        by (auto intro!: scan_effect_quiet [OF assms(1)] simp: seen_def ble_seen_def)
    qed
  qed
qed

text \<open>The semaphores exist: \<open>esp_hid_gap_init\<close> has succeeded.\<close>

definition gap_ready :: "gap \<Rightarrow> bool" where
  "gap_ready g \<longleftrightarrow> bt_sem g \<noteq> None \<and> ble_sem g \<noteq> None"

text \<open>All that is assumed of the environment: \<open>malloc\<close> returns NULL or memory that is not in use.\<close>

definition env_ok :: "gap_env \<Rightarrow> bool" where
  "env_ok env \<longleftrightarrow> alloc_ok env"

lemma gap_call_fields [simp]:
  "heap (gap_call c g) = heap g" "bt_list (gap_call c g) = bt_list g" "bt_num (gap_call c g) = bt_num g"
  "ble_list (gap_call c g) = ble_list g" "ble_num (gap_call c g) = ble_num g"
  "bt_sem (gap_call c g) = bt_sem g" "ble_sem (gap_call c g) = ble_sem g"
  by (simp_all add: gap_call_def)

lemma scan_event_step:
  assumes "gap_lists g as bs cs" and "env_ok env" and "scan_event_ok ev" and "gap_ready g" and "\<not> gap_wild env ev"
  shows "\<exists>g'. handle_scan_event ssp env ev g = Some g' \<and> scan_effect env ev g as bs cs g'"
proof -
  have env: "alloc_ok env" using assms(2) by (simp add: env_ok_def)
  note quiet = scan_effect_quiet [OF assms(1)]
  show ?thesis
  proof (cases ev)
    case (BtEv e)
    show ?thesis
    proof (cases e)
      case (DiscRes bda props)
      with BtEv handle_bt_spec [OF assms(1) env, of props bda] assms(3,5) show ?thesis
        by (auto simp: handle_scan_event_def bt_gap_event_handler_def scan_event_ok_def)
    qed (use BtEv assms(4) in \<open>auto simp: handle_scan_event_def bt_gap_event_handler_def SEND_BT_CB_def gap_ready_def
           seen_def intro!: quiet split: option.splits\<close>)
  next
    case (BleEv e)
    show ?thesis
    proof (cases e)
      case (ScanInqRes rst)
      with BleEv handle_ble_spec [OF assms(1) env, of rst] assms(3,5) show ?thesis
        by (simp add: handle_scan_event_def ble_gap_event_handler_def scan_event_ok_def)
    qed (use BleEv assms(4) in \<open>auto simp: handle_scan_event_def ble_gap_event_handler_def SEND_BLE_CB_def gap_ready_def
           seen_def intro!: quiet split: option.splits\<close>)
  qed
qed

text \<open>An overrun happens whatever the state is.\<close>

lemma handle_ble_overrun:
  assumes "rst_ok rst" and "gap_overrun env (BleEv (ScanInqRes rst))"
  shows "handle_ble_device_result env rst g = None"
proof -
  have adv: "length (rst_adv rst) = 62" using assms(1) by (simp add: rst_ok_def)
  show ?thesis
  proof (cases "cut_u16 env rst AD_16SRV_CMPL \<or> cut_u16 env rst AD_APPEARANCE")
    case True
    then show ?thesis
      unfolding adv_u16_total [OF adv, symmetric]
      by (cases "adv_u16 env rst AD_16SRV_CMPL") (auto simp: handle_ble_device_result_def)
  next
    case False
    then obtain off len where n: "adv_name_element env rst = Some (off, len)" "len \<noteq> 0" "62 < off + unat len"
      using assms(2) by (auto simp: gap_overrun_def cut_name_def split: option.splits)
    from False obtain uuid ap where u: "adv_u16 env rst AD_16SRV_CMPL = Some uuid" "adv_u16 env rst AD_APPEARANCE = Some ap"
      using adv_u16_total [OF adv, of env] by fastforce
    have "do { b \<leftarrow> memcpy (replicate 64 (0 :: u8)) 0 (drop off (rst_adv rst)) (unat len); wr b (unat len) 0 } = None"
      using name_copy [OF adv n(2), of off] n(3) by simp
    then show ?thesis
      unfolding handle_ble_device_result_def adv_name_element_def [symmetric] by (simp add: u n Let_def)
  qed
qed

lemma scan_event_overrun:
  assumes "scan_event_ok ev" and "gap_overrun env ev"
  shows "handle_scan_event ssp env ev g = None"
proof (cases ev)
  case (BtEv e)
  with assms(2) show ?thesis
    by (cases e, simp_all add: handle_scan_event_def bt_gap_event_handler_def handle_bt_overrun,
        simp_all add: gap_overrun_def)
next
  case (BleEv e)
  with assms show ?thesis
    by (cases e, simp_all add: handle_scan_event_def ble_gap_event_handler_def handle_ble_overrun scan_event_ok_def,
        simp_all add: gap_overrun_def)
qed

section \<open>Waiting and collecting\<close>

text \<open>The events that give a semaphore.\<close>

definition gives :: "scan_event \<Rightarrow> bool" where
  "gives ev \<longleftrightarrow> ev \<in> {BleEv ScanParamSetComplete, BleEv ScanInqCmpl, BtEv (DiscStateChanged True)}"

definition plain_event :: "gap_env \<Rightarrow> scan_event \<Rightarrow> bool" where
  "plain_event env ev \<longleftrightarrow> scan_event_ok ev \<and> \<not> gap_wild env ev \<and> \<not> gives ev"

text \<open>\<open>g'\<close> with the lists \<open>as'\<close> and \<open>bs'\<close> has collected what the events \<open>p\<close> show.\<close>

definition collected ::
    "gap_env \<Rightarrow> scan_event list \<Rightarrow> gap \<Rightarrow> addr list \<Rightarrow> addr list \<Rightarrow> addr list \<Rightarrow> gap \<Rightarrow> addr list \<Rightarrow> addr list \<Rightarrow> bool" where
  "collected env p g as bs cs g' as' bs' \<longleftrightarrow>
     gap_lists g' as' bs' cs \<and> same_on (heap g) (heap g') cs
     \<and> (plenty env \<longrightarrow> (found_list (heap g') as', found_list (heap g') bs')
          = fold (seen env) p (found_list (heap g) as, found_list (heap g) bs))"

lemma collected_Nil:
  assumes "gap_lists g as bs cs" and "heap g' = heap g" "bt_list g' = bt_list g" "bt_num g' = bt_num g"
    "ble_list g' = ble_list g" "ble_num g' = ble_num g"
  shows "collected env [] g as bs cs g' as bs"
  using gap_lists_cong [OF assms(2-6)] assms(1,2) by (simp add: collected_def)

lemma collected_append:
  assumes "collected env p g as bs cs g1 as1 bs1" and "collected env q g1 as1 bs1 cs g2 as2 bs2"
  shows "collected env (p @ q) g as bs cs g2 as2 bs2"
  using assms same_on_trans unfolding collected_def by (auto simp: fold_append)

lemma collected_same:
  assumes "collected env p g as bs cs g1 as1 bs1" and "heap g' = heap g1" "bt_list g' = bt_list g1" "bt_num g' = bt_num g1"
    "ble_list g' = ble_list g1" "ble_num g' = ble_num g1"
  shows "collected env p g as bs cs g' as1 bs1"
proof -
  have "gap_lists g1 as1 bs1 cs" using assms(1) by (simp add: collected_def)
  from collected_append [OF assms(1) collected_Nil [OF this assms(2-6)]] show ?thesis by simp
qed

lemma event_collected:
  assumes "gap_lists g as bs cs" and "env_ok env" and "scan_event_ok ev" and "\<not> gap_wild env ev" and "gap_ready g"
  shows "\<exists>g' as' bs'. handle_scan_event ssp env ev g = Some g' \<and> collected env [ev] g as bs cs g' as' bs'
    \<and> bt_sem g' = (if ev = BtEv (DiscStateChanged True) then Some True else bt_sem g)
    \<and> ble_sem g' = (if ev \<in> {BleEv ScanParamSetComplete, BleEv ScanInqCmpl} then Some True else ble_sem g)"
proof -
  obtain g' where g': "handle_scan_event ssp env ev g = Some g'" "scan_effect env ev g as bs cs g'"
    using scan_event_step [OF assms(1,2,3,5,4), of ssp] by blast
  then obtain as' bs' where "gap_lists g' as' bs' cs" "same_on (heap g) (heap g') cs"
    "plenty env \<longrightarrow> (found_list (heap g') as', found_list (heap g') bs')
       = seen env ev (found_list (heap g) as, found_list (heap g) bs)"
    unfolding scan_effect_def by blast
  then have "collected env [ev] g as bs cs g' as' bs'" by (simp add: collected_def)
  with g' show ?thesis unfolding scan_effect_def by blast
qed

lemma wait_ble_spec:
  assumes "gap_lists g as bs cs" and "env_ok env" and "\<forall>ev \<in> set p. plain_event env ev"
    and "e \<in> {BleEv ScanParamSetComplete, BleEv ScanInqCmpl}" and "gap_ready g" and "ble_sem g = Some False"
  shows "\<exists>g' as' bs'. WAIT_BLE_CB ssp env (p @ e # rest) g = Some (rest, g') \<and> collected env (p @ [e]) g as bs cs g' as' bs'
    \<and> bt_sem g' = bt_sem g \<and> ble_sem g' = Some False"
  using assms(1,3,5,6)
proof (induction p arbitrary: g as bs)
  case Nil
  have "scan_event_ok e" "\<not> gap_wild env e" using assms(4) by (auto simp: scan_event_ok_def gap_wild_def gap_overrun_def)
  from event_collected [OF Nil(1) assms(2) this Nil(3), of ssp] obtain g' as' bs' where g':
    "handle_scan_event ssp env e g = Some g'" "collected env [e] g as bs cs g' as' bs'" "bt_sem g' = bt_sem g" "ble_sem g' = Some True"
    using assms(4) by auto
  have "WAIT_BLE_CB ssp env ([] @ e # rest) g = Some (rest, g'\<lparr>ble_sem := Some False\<rparr>)"
    using Nil(4) g'(1,4) by simp
  with collected_same [OF g'(2), of "g'\<lparr>ble_sem := Some False\<rparr>"] g'(3) show ?case by (auto simp del: WAIT_BLE_CB.simps)
next
  case (Cons ev p)
  have ok: "scan_event_ok ev" "\<not> gap_wild env ev" "\<not> gives ev" using Cons.prems(2) by (auto simp: plain_event_def)
  from event_collected [OF Cons.prems(1) assms(2) ok(1,2) Cons.prems(3), of ssp] obtain g1 as1 bs1 where g1:
    "handle_scan_event ssp env ev g = Some g1" "collected env [ev] g as bs cs g1 as1 bs1" "bt_sem g1 = bt_sem g" "ble_sem g1 = ble_sem g"
    using ok(3) by (auto simp: gives_def)
  have "gap_lists g1 as1 bs1 cs" "gap_ready g1" "ble_sem g1 = Some False"
    using g1 Cons.prems(3,4) by (auto simp: collected_def gap_ready_def)
  with Cons.IH [of g1 as1 bs1] Cons.prems(2) obtain g' as' bs' where g':
    "WAIT_BLE_CB ssp env (p @ e # rest) g1 = Some (rest, g')" "collected env (p @ [e]) g1 as1 bs1 cs g' as' bs'"
    "bt_sem g' = bt_sem g1" "ble_sem g' = Some False" by auto
  have "WAIT_BLE_CB ssp env ((ev # p) @ e # rest) g = Some (rest, g')" using Cons.prems(4) g1(1) g'(1) by simp
  with collected_append [OF g1(2) g'(2)] g'(3,4) g1(3) show ?case by (auto simp del: WAIT_BLE_CB.simps)
qed

lemma wait_bt_spec:
  assumes "gap_lists g as bs cs" and "env_ok env" and "\<forall>ev \<in> set p. plain_event env ev"
    and "gap_ready g" and "bt_sem g = Some False"
  shows "\<exists>g' as' bs'. WAIT_BT_CB ssp env (p @ BtEv (DiscStateChanged True) # rest) g = Some (rest, g')
    \<and> collected env (p @ [BtEv (DiscStateChanged True)]) g as bs cs g' as' bs'
    \<and> bt_sem g' = Some False \<and> ble_sem g' = ble_sem g"
  using assms(1,3-5)
proof (induction p arbitrary: g as bs)
  case Nil
  let ?e = "BtEv (DiscStateChanged True)"
  have "scan_event_ok ?e" "\<not> gap_wild env ?e" by (auto simp: scan_event_ok_def gap_wild_def gap_overrun_def)
  from event_collected [OF Nil(1) assms(2) this Nil(3), of ssp] obtain g' as' bs' where g':
    "handle_scan_event ssp env ?e g = Some g'" "collected env [?e] g as bs cs g' as' bs'" "ble_sem g' = ble_sem g" "bt_sem g' = Some True"
    by auto
  have "WAIT_BT_CB ssp env ([] @ ?e # rest) g = Some (rest, g'\<lparr>bt_sem := Some False\<rparr>)"
    using Nil(4) g'(1,4) by simp
  with collected_same [OF g'(2), of "g'\<lparr>bt_sem := Some False\<rparr>"] g'(3) show ?case by (auto simp del: WAIT_BT_CB.simps)
next
  case (Cons ev p)
  have ok: "scan_event_ok ev" "\<not> gap_wild env ev" "\<not> gives ev" using Cons.prems(2) by (auto simp: plain_event_def)
  from event_collected [OF Cons.prems(1) assms(2) ok(1,2) Cons.prems(3), of ssp] obtain g1 as1 bs1 where g1:
    "handle_scan_event ssp env ev g = Some g1" "collected env [ev] g as bs cs g1 as1 bs1" "bt_sem g1 = bt_sem g" "ble_sem g1 = ble_sem g"
    using ok(3) by (auto simp: gives_def)
  have "gap_lists g1 as1 bs1 cs" "gap_ready g1" "bt_sem g1 = Some False"
    using g1 Cons.prems(3,4) by (auto simp: collected_def gap_ready_def)
  with Cons.IH [of g1 as1 bs1] Cons.prems(2) obtain g' as' bs' where g':
    "WAIT_BT_CB ssp env (p @ BtEv (DiscStateChanged True) # rest) g1 = Some (rest, g')"
    "collected env (p @ [BtEv (DiscStateChanged True)]) g1 as1 bs1 cs g' as' bs'"
    "ble_sem g' = ble_sem g1" "bt_sem g' = Some False" by auto
  have "WAIT_BT_CB ssp env ((ev # p) @ BtEv (DiscStateChanged True) # rest) g = Some (rest, g')"
    using Cons.prems(4) g1(1) g'(1) by simp
  with collected_append [OF g1(2) g'(2)] g'(3,4) g1(4) show ?case by (auto simp del: WAIT_BT_CB.simps)
qed

section \<open>Handing out the results\<close>

lemma last_result_spec: "links (next_of h) p (a # as) \<Longrightarrow> last_result h p = Some (last (a # as))"
proof (induction as arbitrary: p a)
  case Nil
  then show ?case by (elim links_recE, subst last_result.simps) simp
next
  case (Cons b as)
  from Cons.prems obtain e where e: "p = a" "a \<noteq> 0" "get_rec h a = Some e" "links (next_of h) (sr_next e) (b # as)"
    by (rule links_recE) auto
  moreover have "sr_next e = b" "b \<noteq> 0" using e(4) by auto
  ultimately show ?case using Cons.IH [of b b] by (subst last_result.simps) simp
qed

lemma take_results_spec:
  assumes "gap_lists g as bs cs"
  shows "\<exists>ret g'. take_results g = Some (ret, g') \<and> scan_err ret = ESP_OK \<and> scan_num ret = length as + length bs
    \<and> links (next_of (heap g')) (scan_results ret) (as @ bs) \<and> gap_lists g' [] [] (as @ bs @ cs)
    \<and> found_list (heap g') (as @ bs) = found_list (heap g) (as @ bs) \<and> same_on (heap g) (heap g') cs
    \<and> bt_sem g' = bt_sem g \<and> ble_sem g' = ble_sem g"
proof -
  have g: "heap_ok (heap g) (as @ bs @ cs)" "links (next_of (heap g)) (bt_list g) as" "bt_num g = length as"
    "links (next_of (heap g)) (ble_list g) bs" "ble_num g = length bs" using assms by (auto simp: gap_lists_def)
  show ?thesis
  proof (cases "as = []")
    case True
    with g show ?thesis by (simp add: take_results_def gap_lists_def bt_found_ok_def ble_found_ok_def)
  next
    case False
    then obtain xs r where as: "as = xs @ [r]" by (metis rev_exhaust)
    have last: "last_result (heap g) (bt_list g) = Some r"
      using last_result_spec [of "heap g" "bt_list g" "hd as" "tl as"] g(2) False as by simp
    from g(1) obtain e where e: "recs (heap g) r = Some e" "get_rec (heap g) r = Some e" "nm (heap g) r = sr_name e"
      by (rule heap_get [of _ _ r]) (use as in auto)
    let ?h = "put_rec r (e\<lparr>sr_next := ble_list g\<rparr>) (heap g)"
    let ?g = "g\<lparr>heap := ?h, bt_num := 0, bt_list := 0, ble_num := 0, ble_list := 0\<rparr>"
    have eq: "take_results g = Some (\<lparr>scan_err = ESP_OK, scan_num = length as + length bs, scan_results = bt_list g\<rparr>, ?g)"
      using last e g(3,5) as by (simp add: take_results_def upd_rec_def Let_def)
    have ok: "heap_ok ?h (as @ bs @ cs)" by (rule heap_ok_put [OF g(1) e(1)]) simp
    have d: "r \<notin> set xs" "r \<notin> set bs" "r \<notin> set cs" using g(1) as by (auto simp: heap_ok_def)
    have "links (next_of ?h) (bt_list g) (as @ bs)"
      using g(2,4) d(1,2) unfolding as by (auto simp: seg_append split: option.splits)
    moreover have "found_at ?h a = found_at (heap g) a" for a
      by (cases "a = r") (use e in \<open>simp_all add: found_at_def Let_def\<close>)
    moreover have "same_on (heap g) ?h cs" using d(3) by (rule same_on_put)
    ultimately show ?thesis using eq ok by (simp add: gap_lists_def bt_found_ok_def ble_found_ok_def)
  qed
qed

lemma seen_gives: "gives ev \<Longrightarrow> seen env ev fs = fs"
  by (auto simp: gives_def seen_def)

lemma fold_seen_gives: "gives e \<Longrightarrow> fold (seen env) (p @ [e]) fs = fold (seen env) p fs"
  by (simp add: fold_append seen_gives)

lemma free_collected:
  assumes "gap_lists g [] [] (rs @ cs)" and "links (next_of (heap g)) p rs"
  shows "\<exists>h. esp_hid_scan_results_free p (heap g) = Some h \<and> gap_lists (g\<lparr>heap := h\<rparr>) [] [] cs \<and> same_on (heap g) h cs"
proof -
  have ok: "heap_ok (heap g) (rs @ cs)" using assms(1) by (simp add: gap_lists_def)
  obtain h where h: "esp_hid_scan_results_free p (heap g) = Some h" "heap_ok h cs" "\<forall>a. a \<notin> set rs \<longrightarrow> recs h a = recs (heap g) a"
      "\<forall>n. n \<notin> nm (heap g) ` set rs \<longrightarrow> strs h n = strs (heap g) n"
    using free_spec [OF assms(2) ok] by blast
  have "recs h a = recs (heap g) a \<and> strs h (nm (heap g) a) = strs (heap g) (nm (heap g) a)" if a: "a \<in> set cs" for a
  proof
    have "a \<notin> set rs" using ok a by (auto simp: heap_ok_def)
    with h(3) show "recs h a = recs (heap g) a" by blast
    show "strs h (nm (heap g) a) = strs (heap g) (nm (heap g) a)"
    proof (cases "nm (heap g) a = 0")
      case True
      with heap_str_iff [OF h(2), of 0] heap_str_iff [OF ok, of 0] show ?thesis by simp
    next
      case False
      have "nm (heap g) a \<notin> nm (heap g) ` set rs"
      proof
        assume "nm (heap g) a \<in> nm (heap g) ` set rs"
        then obtain b where b: "b \<in> set rs" "nm (heap g) b = nm (heap g) a" by auto
        have inj: "inj_on (nm (heap g)) {c \<in> set (rs @ cs). nm (heap g) c \<noteq> 0}" using ok unfolding heap_ok_def by blast
        have "b = a" by (rule inj_onD [OF inj b(2)]) (use b False a in auto)
        with b(1) \<open>a \<notin> set rs\<close> show False by simp
      qed
      with h(4) show ?thesis by blast
    qed
  qed
  then have "same_on (heap g) h cs" by (simp add: same_on_def)
  with h assms(1) show ?thesis by (auto simp: gap_lists_def bt_found_ok_def ble_found_ok_def)
qed

text \<open>The LE half of a scan.\<close>

lemma le_half:
  assumes "gap_lists g [] [] cs" and "env_ok env" and "bt_sem g = Some False" and "ble_sem g = Some False"
    and "rc SetScanParams = ESP_OK" and "rc (StartScanning seconds) = ESP_OK" and "\<forall>ev \<in> set (p1 @ p2). plain_event env ev"
  shows "\<exists>g1 g2 as bs. start_ble_scan rc ssp env seconds (p1 @ BleEv ScanParamSetComplete # p2 @ BleEv ScanInqCmpl # rest) g
      = Some (ESP_OK, p2 @ BleEv ScanInqCmpl # rest, g1)
    \<and> WAIT_BLE_CB ssp env (p2 @ BleEv ScanInqCmpl # rest) g1 = Some (rest, g2)
    \<and> collected env (p1 @ p2) g [] [] cs g2 as bs \<and> bt_sem g2 = Some False \<and> ble_sem g2 = Some False"
proof -
  let ?e1 = "BleEv ScanParamSetComplete" and ?e2 = "BleEv ScanInqCmpl"
  have p: "\<forall>ev \<in> set p1. plain_event env ev" "\<forall>ev \<in> set p2. plain_event env ev" using assms(7) by auto
  have call: "gap_lists (gap_call c g) as bs cs = gap_lists g as bs cs" for c g as bs
    by (rule gap_lists_cong) simp_all
  let ?g0 = "gap_call SetScanParams g"
  have 0: "gap_lists ?g0 [] [] cs" "gap_ready ?g0" "ble_sem ?g0 = Some False"
    using assms(1,3,4) by (simp_all add: call gap_ready_def)
  obtain g1 as1 bs1 where g1: "WAIT_BLE_CB ssp env (p1 @ ?e1 # p2 @ ?e2 # rest) ?g0 = Some (p2 @ ?e2 # rest, g1)"
      "collected env (p1 @ [?e1]) ?g0 [] [] cs g1 as1 bs1" "bt_sem g1 = Some False" "ble_sem g1 = Some False"
    using wait_ble_spec [OF 0(1) assms(2) p(1) _ 0(2,3), of ?e1 ssp "p2 @ ?e2 # rest"] assms(3) by auto
  let ?g1 = "gap_call (StartScanning seconds) g1"
  have 1: "gap_lists ?g1 as1 bs1 cs" "gap_ready ?g1" "ble_sem ?g1 = Some False"
    using g1 by (simp_all add: call gap_ready_def collected_def)
  obtain g2 as2 bs2 where g2: "WAIT_BLE_CB ssp env (p2 @ ?e2 # rest) ?g1 = Some (rest, g2)"
      "collected env (p2 @ [?e2]) ?g1 as1 bs1 cs g2 as2 bs2" "bt_sem g2 = Some False" "ble_sem g2 = Some False"
    using wait_ble_spec [OF 1(1) assms(2) p(2) _ 1(2,3), of ?e2 ssp rest] g1(3) by auto
  have gv: "gives ?e1" "gives ?e2" by (auto simp: gives_def)
  have "same_on (heap g) (heap g2) cs"
    using g1(2) g2(2) unfolding collected_def by (metis gap_call_fields(1) same_on_trans)
  then have "collected env (p1 @ p2) g [] [] cs g2 as2 bs2"
    using g1(2) g2(2) fold_seen_gives [OF gv(1)] fold_seen_gives [OF gv(2)]
    unfolding collected_def by (simp add: fold_append)
  moreover have "start_ble_scan rc ssp env seconds (p1 @ ?e1 # p2 @ ?e2 # rest) g = Some (ESP_OK, p2 @ ?e2 # rest, ?g1)"
    using g1(1) assms(5,6) by (simp add: start_ble_scan_def Let_def del: WAIT_BLE_CB.simps)
  ultimately show ?thesis using g2(1,3,4) by blast
qed

text \<open>
  Property C19.  A scan collects what the events show, as long as there is memory.  Suppose that \<open>malloc\<close>
  never fails (\<open>plenty\<close>), the stack accepts the three calls and reports, after any other events none of
  which leaves a buffer (\<open>\<not> gap_wild\<close>, see C21), that the scan parameters are set, that the LE scan and
  then the Classic inquiry have ended.  Then \<open>esp_hid_scan\<close> returns \<open>ESP_OK\<close> and one list: the Classic
  devices, then the LE devices, each once, with the data of the sightings; \<open>num_results\<close> is its length.
  The scanner is then ready for the next scan, and \<open>esp_hid_scan_results_free\<close> on the list frees all
  that the scan allocated, while results of earlier scans that the caller still holds stay as they
  are.  (Without memory for a result the code drops the device and still returns \<open>ESP_OK\<close>.)
\<close>

theorem scan_collects:
  assumes "gap_lists g [] [] cs" and "env_ok env" and "plenty env" and "bt_sem g = Some False" and "ble_sem g = Some False"
    and "\<forall>c. rc c = ESP_OK" and "\<forall>ev \<in> set (p1 @ p2 @ p3). plain_event env ev"
  shows "\<exists>ret rs g' h.
    esp_hid_scan True True ssp rc env seconds
      (p1 @ BleEv ScanParamSetComplete # p2 @ BleEv ScanInqCmpl # p3 @ BtEv (DiscStateChanged True) # rest) g
      = Some (ret, rest, g')
    \<and> scan_err ret = ESP_OK \<and> links (next_of (heap g')) (scan_results ret) rs \<and> scan_num ret = length rs
    \<and> found_list (heap g') rs = (let (fs, hs) = fold (seen env) (p1 @ p2 @ p3) ([], []) in fs @ hs)
    \<and> gap_lists g' [] [] (rs @ cs) \<and> bt_sem g' = Some False \<and> ble_sem g' = Some False
    \<and> esp_hid_scan_results_free (scan_results ret) (heap g') = Some h
    \<and> gap_lists (g'\<lparr>heap := h\<rparr>) [] [] cs \<and> same_on (heap g) h cs"
proof -
  let ?e1 = "BleEv ScanParamSetComplete" and ?e2 = "BleEv ScanInqCmpl" and ?e3 = "BtEv (DiscStateChanged True)"
  have p: "\<forall>ev \<in> set (p1 @ p2). plain_event env ev" "\<forall>ev \<in> set p3. plain_event env ev"
    using assms(7) by auto
  have idle: "bt_num g = 0" "bt_list g = 0" "ble_num g = 0" "ble_list g = 0" using assms(1) by (auto simp: gap_lists_def)
  have call: "gap_lists (gap_call c g) as bs cs = gap_lists g as bs cs" for c g as bs
    by (rule gap_lists_cong) simp_all
  obtain g1 g2 as2 bs2 where le: "start_ble_scan rc ssp env seconds (p1 @ ?e1 # p2 @ ?e2 # p3 @ ?e3 # rest) g
      = Some (ESP_OK, p2 @ ?e2 # p3 @ ?e3 # rest, g1)"
    and g2: "WAIT_BLE_CB ssp env (p2 @ ?e2 # p3 @ ?e3 # rest) g1 = Some (p3 @ ?e3 # rest, g2)"
      "collected env (p1 @ p2) g [] [] cs g2 as2 bs2" "bt_sem g2 = Some False" "ble_sem g2 = Some False"
    using le_half [where rc = rc, OF assms(1,2,4,5) _ _ p(1), of seconds ssp "p3 @ ?e3 # rest"] assms(6) by auto
  let ?g2 = "gap_call (StartDiscovery (unat seconds * 100 div 128)) g2"
  have 2: "gap_lists ?g2 as2 bs2 cs" "gap_ready ?g2" "bt_sem ?g2 = Some False"
    using g2 by (simp_all add: call gap_ready_def collected_def)
  obtain g3 as3 bs3 where g3: "WAIT_BT_CB ssp env (p3 @ ?e3 # rest) ?g2 = Some (rest, g3)"
      "collected env (p3 @ [?e3]) ?g2 as2 bs2 cs g3 as3 bs3" "bt_sem g3 = Some False" "ble_sem g3 = Some False"
    using wait_bt_spec [OF 2(1) assms(2) p(2) 2(2,3), of ssp rest] g2(4) by auto
  have l3: "gap_lists g3 as3 bs3 cs" using g3(2) by (simp add: collected_def)
  obtain ret g' where t: "take_results g3 = Some (ret, g')" "scan_err ret = ESP_OK" "scan_num ret = length as3 + length bs3"
      "links (next_of (heap g')) (scan_results ret) (as3 @ bs3)" "gap_lists g' [] [] (as3 @ bs3 @ cs)"
      "found_list (heap g') (as3 @ bs3) = found_list (heap g3) (as3 @ bs3)" "same_on (heap g3) (heap g') cs"
      "bt_sem g' = bt_sem g3" "ble_sem g' = ble_sem g3"
    using take_results_spec [OF l3] by blast
  have scan: "esp_hid_scan True True ssp rc env seconds (p1 @ ?e1 # p2 @ ?e2 # p3 @ ?e3 # rest) g = Some (ret, rest, g')"
    using idle le g2(1) g3(1) t(1) assms(6)
    by (simp add: esp_hid_scan_def start_bt_scan_def Let_def del: WAIT_BLE_CB.simps WAIT_BT_CB.simps)
  have gv: "gives ?e3" by (auto simp: gives_def)
  have "(found_list (heap g3) as3, found_list (heap g3) bs3) = fold (seen env) (p1 @ p2 @ p3) ([], [])"
    using g2(2) g3(2) assms(3) fold_seen_gives [OF gv]
    unfolding collected_def by (simp add: fold_append)
  then have found: "found_list (heap g') (as3 @ bs3) = (let (fs, hs) = fold (seen env) (p1 @ p2 @ p3) ([], []) in fs @ hs)"
    unfolding t(6) by (metis (mono_tags) case_prod_conv map_append Let_def)
  have "same_on (heap g) (heap g3) cs"
    using g2(2) g3(2) unfolding collected_def by (metis gap_call_fields(1) same_on_trans)
  with t(7) have same: "same_on (heap g) (heap g') cs" by (rule same_on_trans [rotated])
  have l': "gap_lists g' [] [] ((as3 @ bs3) @ cs)" using t(5) by simp
  obtain h where h: "esp_hid_scan_results_free (scan_results ret) (heap g') = Some h"
      "gap_lists (g'\<lparr>heap := h\<rparr>) [] [] cs" "same_on (heap g') h cs"
    using free_collected [OF l' t(4)] by blast
  have n: "scan_num ret = length (as3 @ bs3)" using t(3) by simp
  show ?thesis
    using scan t(2,4) n found l' t(8,9) g3(3,4) h(1,2) same_on_trans [OF same h(3)] by (metis (no_types, lifting))
qed


text \<open>What can happen after a scan: events, other scans, and results being freed.\<close>

inductive gap_later :: "gap \<Rightarrow> gap \<Rightarrow> bool" where
  now: "gap_later g g"
| event: "gap_later g g1 \<Longrightarrow> handle_scan_event ssp env ev g1 = Some g2 \<Longrightarrow> gap_later g g2"
| scan: "gap_later g g1 \<Longrightarrow> esp_hid_scan ble bt ssp rc env seconds evs g1 = Some (ret, rest, g2) \<Longrightarrow> gap_later g g2"
| free: "gap_later g g1 \<Longrightarrow> esp_hid_scan_results_free p (heap g1) = Some h \<Longrightarrow> gap_later g (g1\<lparr>heap := h\<rparr>)"

lemma add_keeps_ble:
  "add_bt_scan_result env bda cod uuid name len rssi g = Some g' \<Longrightarrow> ble_list g' = ble_list g"
  "add_ble_scan_result env bda t ap name len rssi g = Some g' \<Longrightarrow> ble_list g \<noteq> 0 \<Longrightarrow> ble_list g' \<noteq> 0"
  by (auto simp: add_bt_scan_result_def add_ble_scan_result_def bind_eq_Some_conv split: if_splits)

lemma event_keeps_ble:
  assumes "handle_scan_event ssp env ev g = Some g'" and "ble_list g \<noteq> 0" shows "ble_list g' \<noteq> 0"
proof (cases ev)
  case (BtEv e)
  have "ble_list g' = ble_list g"
    using assms(1) BtEv
    by (cases e) (auto simp: handle_scan_event_def bt_gap_event_handler_def handle_bt_device_result_def SEND_BT_CB_def
        bind_eq_Some_conv dest!: add_keeps_ble(1) split: if_splits option.splits)
  with assms(2) show ?thesis by simp
next
  case (BleEv e)
  with assms add_keeps_ble(2) show ?thesis
    by (cases e) (fastforce simp: handle_scan_event_def ble_gap_event_handler_def handle_ble_device_result_def SEND_BLE_CB_def
        Let_def bind_eq_Some_conv split: if_splits option.splits)+
qed

lemma scan_blocked: "ble_list g \<noteq> 0 \<Longrightarrow> esp_hid_scan ble bt ssp rc env seconds evs g = Some (scan_failed, evs, g)"
  by (simp add: esp_hid_scan_def)

lemma later_keeps_ble: "gap_later g g' \<Longrightarrow> ble_list g \<noteq> 0 \<Longrightarrow> ble_list g' \<noteq> 0"
  by (induction rule: gap_later.induct) (auto simp: scan_blocked dest: event_keeps_ble)

text \<open>
  Property C20.  A scan whose second half cannot start makes every later scan fail.  When the LE
  half has found a device and \<open>esp_bt_gap_start_discovery\<close> is refused, \<open>esp_hid_scan\<close> returns
  \<open>ESP_FAIL\<close> and gives no results to the caller, but keeps them in its own list, which nothing
  frees: whatever events, scans and \<open>esp_hid_scan_results_free\<close> calls follow, every scan returns
  \<open>ESP_FAIL\<close> without looking for a device.
\<close>

theorem scan_failure_is_permanent:
  assumes "gap_lists g [] [] cs" and "env_ok env" and "plenty env" and "bt_sem g = Some False" and "ble_sem g = Some False"
    and "rc SetScanParams = ESP_OK" and "rc (StartScanning seconds) = ESP_OK"
    and "rc (StartDiscovery (unat seconds * 100 div 128)) \<noteq> ESP_OK"
    and "\<forall>ev \<in> set (p1 @ p2). plain_event env ev" and "snd (fold (seen env) (p1 @ p2) ([], [])) \<noteq> []"
  shows "\<exists>g'. esp_hid_scan True True ssp rc env seconds
      (p1 @ BleEv ScanParamSetComplete # p2 @ BleEv ScanInqCmpl # rest) g = Some (scan_failed, rest, g')
    \<and> (\<forall>g''. gap_later g' g'' \<longrightarrow> (\<forall>ble bt ssp rc env seconds evs.
          esp_hid_scan ble bt ssp rc env seconds evs g'' = Some (scan_failed, evs, g'')))"
proof -
  let ?e1 = "BleEv ScanParamSetComplete" and ?e2 = "BleEv ScanInqCmpl"
  have idle: "bt_num g = 0" "bt_list g = 0" "ble_num g = 0" "ble_list g = 0" using assms(1) by (auto simp: gap_lists_def)
  obtain g1 g2 as bs where le: "start_ble_scan rc ssp env seconds (p1 @ ?e1 # p2 @ ?e2 # rest) g = Some (ESP_OK, p2 @ ?e2 # rest, g1)"
      "WAIT_BLE_CB ssp env (p2 @ ?e2 # rest) g1 = Some (rest, g2)" "collected env (p1 @ p2) g [] [] cs g2 as bs"
    using le_half [where rc = rc, OF assms(1,2,4-7,9)] by blast
  let ?g2 = "gap_call (StartDiscovery (unat seconds * 100 div 128)) g2"
  have "found_list (heap g2) bs = snd (fold (seen env) (p1 @ p2) ([], []))"
    using le(3) assms(3) unfolding collected_def by (metis list.map(1) snd_conv)
  with assms(10) have "bs \<noteq> []" by auto
  moreover have "links (next_of (heap g2)) (ble_list g2) bs" using le(3) by (simp add: collected_def gap_lists_def)
  ultimately have "ble_list ?g2 \<noteq> 0" by (cases bs) auto
  moreover have "esp_hid_scan True True ssp rc env seconds (p1 @ ?e1 # p2 @ ?e2 # rest) g = Some (scan_failed, rest, ?g2)"
    using idle le(1,2) assms(8) by (simp add: esp_hid_scan_def start_bt_scan_def Let_def ESP_FAIL_def ESP_OK_def del: WAIT_BLE_CB.simps)
  ultimately show ?thesis using later_keeps_ble scan_blocked by blast
qed


text \<open>
  Property C21.  Handling GAP events stays inside the memory unless ESP-IDF's resolvers report an element
  past the data.  When no event of the sequence is \<open>gap_wild\<close> (a service or appearance element that
  starts in the last of the 62 advertised bytes or later, a name that reaches past them, an EIR UUID
  or name that reaches past its data), every handler returns, the two lists stay well-formed, nothing
  is lost or freed twice, and results that the caller holds are not touched, whether or not there is
  memory for new results.  When one is \<open>gap_overrun\<close> (all of these but the EIR name), its handler
  leaves a buffer, whatever the state.  The only thing assumed of the environment is that \<open>malloc\<close>
  returns NULL or unused memory.
\<close>

theorem gap_events_memory_safe:
  assumes "gap_lists g as bs cs" and "env_ok env" and "gap_ready g" and "\<forall>ev \<in> set evs. scan_event_ok ev"
  shows "((\<forall>ev \<in> set evs. \<not> gap_wild env ev) \<longrightarrow>
      (\<exists>g' as' bs'. foldM (handle_scan_event ssp env) evs g = Some g' \<and> gap_lists g' as' bs' cs
         \<and> same_on (heap g) (heap g') cs \<and> gap_ready g'))
    \<and> ((\<exists>ev \<in> set evs. gap_overrun env ev) \<longrightarrow> foldM (handle_scan_event ssp env) evs g = None)"
proof (intro conjI impI)
  assume "\<forall>ev \<in> set evs. \<not> gap_wild env ev"
  with assms(1,3,4) show "\<exists>g' as' bs'. foldM (handle_scan_event ssp env) evs g = Some g' \<and> gap_lists g' as' bs' cs
         \<and> same_on (heap g) (heap g') cs \<and> gap_ready g'"
  proof (induction evs arbitrary: g as bs)
    case Nil
    then show ?case by auto
  next
    case (Cons ev evs)
    from event_collected [OF Cons.prems(1) assms(2) _ _ Cons.prems(2), of ev ssp] Cons.prems(3,4)
    obtain g1 as1 bs1 where g1: "handle_scan_event ssp env ev g = Some g1" "collected env [ev] g as bs cs g1 as1 bs1"
        "bt_sem g1 = (if ev = BtEv (DiscStateChanged True) then Some True else bt_sem g)"
        "ble_sem g1 = (if ev \<in> {BleEv ScanParamSetComplete, BleEv ScanInqCmpl} then Some True else ble_sem g)" by auto
    have l1: "gap_lists g1 as1 bs1 cs" and r1: "gap_ready g1" and s1: "same_on (heap g) (heap g1) cs"
      using g1 Cons.prems(2) by (auto simp: collected_def gap_ready_def)
    show ?case using Cons.IH [OF l1 r1] Cons.prems(3,4) g1(1) same_on_trans [OF s1] by auto
  qed
next
  assume "\<exists>ev \<in> set evs. gap_overrun env ev"
  with assms(4) show "foldM (handle_scan_event ssp env) evs g = None"
  proof (induction evs arbitrary: g)
    case (Cons ev evs)
    then show ?case
      using scan_event_overrun [of ev env ssp] by (cases "handle_scan_event ssp env ev g") auto
  qed simp
qed

text \<open>
  With resolvers that report only elements inside the data one case is left: a service or appearance
  element of one byte in the last of the 62 bytes.
\<close>

definition resolve_inside :: "gap_env \<Rightarrow> bool" where
  "resolve_inside env \<longleftrightarrow> (\<forall>val t off len. resolve_eir env val t = Some (off, len) \<longrightarrow> off + unat len \<le> length val)
    \<and> (\<forall>adv n t off len. resolve_adv env adv n t = Some (off, len) \<longrightarrow> off + unat len \<le> n)"

lemma gap_wild_inside:
  assumes "resolve_inside env" and "scan_event_ok ev"
  shows "gap_wild env ev \<longleftrightarrow> (\<exists>rst t. ev = BleEv (ScanInqRes rst) \<and> t \<in> {AD_16SRV_CMPL, AD_APPEARANCE}
    \<and> resolve_adv env (rst_adv rst) (rst_len rst) t = Some (61, 1))"
proof -
  have first: "off + unat len \<le> length val" if "resolve_first env val t1 t2 = Some (off, len)" for val t1 t2 off len
    using that assms(1) by (auto simp: resolve_first_def resolve_inside_def split: option.splits)
  have uuid: "\<not> uuid_past env val t1 t2 n" for val t1 t2 n
  proof
    assume "uuid_past env val t1 t2 n"
    then obtain off len where "resolve_first env val t1 t2 = Some (off, len)" "unat len = n" "length val < off + n"
      by (auto simp: uuid_past_def split: option.splits)
    with first [of val t1 t2 off len] show False by simp
  qed
  have eir: "\<not> eir_overrun env val" "\<not> eir_name_past env val" for val
    using first [of val CMPL_LOCAL_NAME SHORT_LOCAL_NAME]
    by (auto simp: eir_overrun_def uuid eir_name_past_def not_less split: option.splits)
  have adv: "off + unat len \<le> 62" if "rst_ok rst" "resolve_adv env (rst_adv rst) (rst_len rst) t = Some (off, len)" for rst t off len
    using that assms(1) unfolding resolve_inside_def rst_ok_def by (metis le_trans)
  have u16: "cut_u16 env rst t \<longleftrightarrow> resolve_adv env (rst_adv rst) (rst_len rst) t = Some (61, 1)" if "rst_ok rst" for rst t
  proof (cases "resolve_adv env (rst_adv rst) (rst_len rst) t")
    case (Some d)
    obtain off len where d: "d = (off, len)" by (cases d)
    have one: "unat len = 1 \<longleftrightarrow> len = 1" by (simp add: word_unat_eq_iff)
    have "len \<noteq> 0 \<and> 61 \<le> off \<longleftrightarrow> off = 61 \<and> len = 1"
      using adv [OF that Some [unfolded d]] unat_gt_0 [of len] one by auto
    with Some d show ?thesis by (simp add: cut_u16_def)
  qed (simp add: cut_u16_def)
  have name: "\<not> cut_name env rst" if "rst_ok rst" for rst
    using adv [OF that] by (auto simp: cut_name_def adv_name_element_def not_less split: option.splits)
  show ?thesis
    using assms(2) eir u16 name
    by (auto simp: gap_wild_def gap_overrun_def prop_overrun_def prop_name_past_def scan_event_ok_def
        split: scan_event.splits bt_gap_event.splits ble_gap_event.splits dev_prop.splits)
qed

text \<open>A device stays listed with its first data.\<close>

definition keeps_first :: "nat \<Rightarrow> found list \<Rightarrow> found list \<Rightarrow> bool" where
  "keeps_first usage fs fs' \<longleftrightarrow>
     (\<forall>f \<in> set fs. \<exists>f' \<in> set fs'. f_bda f' = f_bda f \<and> f_radio f' = f_radio f \<and> f_usage f' = f_usage f
        \<and> (f_name f \<noteq> None \<longrightarrow> f_name f' = f_name f))
     \<and> (\<forall>f' \<in> set fs'. f_bda f' \<notin> f_bda ` set fs \<longrightarrow> f_usage f' = usage)"

lemma keeps_first_refl: "keeps_first u fs fs"
  by (auto simp: keeps_first_def)

lemma keeps_first_trans:
  assumes "keeps_first u fs gs" and "keeps_first u gs hs" and "distinct (map f_bda hs)"
  shows "keeps_first u fs hs"
  unfolding keeps_first_def
proof (intro conjI ballI impI)
  fix f assume "f \<in> set fs"
  with assms(1) obtain g where "g \<in> set gs" "f_bda g = f_bda f" "f_radio g = f_radio f" "f_usage g = f_usage f"
    "f_name f \<noteq> None \<longrightarrow> f_name g = f_name f" unfolding keeps_first_def by blast
  moreover from this(1) assms(2) obtain h where "h \<in> set hs" "f_bda h = f_bda g" "f_radio h = f_radio g" "f_usage h = f_usage g"
    "f_name g \<noteq> None \<longrightarrow> f_name h = f_name g" unfolding keeps_first_def by blast
  ultimately show "\<exists>f' \<in> set hs. f_bda f' = f_bda f \<and> f_radio f' = f_radio f \<and> f_usage f' = f_usage f
      \<and> (f_name f \<noteq> None \<longrightarrow> f_name f' = f_name f)" by auto
next
  fix h assume h: "h \<in> set hs" "f_bda h \<notin> f_bda ` set fs"
  show "f_usage h = u"
  proof (cases "f_bda h \<in> f_bda ` set gs")
    case True
    then obtain g where g: "g \<in> set gs" "f_bda g = f_bda h" by auto
    with assms(1) h(2) have "f_usage g = u" by (simp add: keeps_first_def)
    moreover from g(1) assms(2) obtain h' where "h' \<in> set hs" "f_bda h' = f_bda g" "f_usage h' = f_usage g"
      unfolding keeps_first_def by blast
    moreover from this(1,2) g(2) h(1) have "h' = h" using assms(3) by (simp add: distinct_map inj_on_def)
    ultimately show ?thesis by simp
  next
    case False
    with assms(2) h(1) show ?thesis by (simp add: keeps_first_def)
  qed
qed

lemma bt_sighting_keeps:
  assumes "f_usage n = u" shows "keeps_first u fs (bt_sighting n fs)"
proof (cases "f_bda n \<in> f_bda ` set fs")
  case False
  then show ?thesis using assms by (auto simp: keeps_first_def bt_sighting_def)
next
  case True
  let ?u = "\<lambda>f. if f_bda f = f_bda n then later_info (f_name n) (f_rssi n) f else f"
  have u: "f_bda (?u f) = f_bda f" "f_radio (?u f) = f_radio f" "f_usage (?u f) = f_usage f"
    "f_name f \<noteq> None \<Longrightarrow> f_name (?u f) = f_name f" for f
    by (auto simp: later_info_def)
  have "bt_sighting n fs = map ?u fs" using True by (simp add: bt_sighting_def)
  then show ?thesis unfolding keeps_first_def using u by (simp only: set_map) blast
qed

lemma bt_seen_keeps: "keeps_first (usage_from_cod env (cod_address env)) fs (bt_seen env bda props fs)"
  by (auto simp: bt_seen_def keeps_first_refl bt_sighting_keeps split: option.splits)

lemma seen_keeps: "keeps_first (usage_from_cod env (cod_address env)) (fst fs) (fst (seen env ev fs))"
  using bt_seen_keeps keeps_first_refl
  by (auto simp: seen_def split: scan_event.splits bt_gap_event.splits ble_gap_event.splits)

text \<open>
  What the list says of a Classic device comes from its first sighting: the class of
  device and the UUID are never replaced, although the code means to take a UUID that comes later,
  and a name that was found stays.  The usage of every new device is the same whatever class the
  device reported, because it is computed from the address of the class in memory.
\<close>

theorem classic_device_first_data:
  assumes "gap_lists g as bs cs" and "env_ok env" and "plenty env" and "gap_ready g"
    and "\<forall>ev \<in> set evs. scan_event_ok ev \<and> \<not> gap_wild env ev"
  shows "\<exists>g' as' bs'. foldM (handle_scan_event ssp env) evs g = Some g' \<and> gap_lists g' as' bs' cs
    \<and> keeps_first (usage_from_cod env (cod_address env)) (found_list (heap g) as) (found_list (heap g') as')"
  using assms(1,4,5)
proof (induction evs arbitrary: g as bs)
  case Nil
  then show ?case using keeps_first_refl by auto
next
  case (Cons ev evs)
  let ?u = "usage_from_cod env (cod_address env)"
  from event_collected [OF Cons.prems(1) assms(2) _ _ Cons.prems(2), of ev ssp] Cons.prems(3)
  obtain g1 as1 bs1 where g1: "handle_scan_event ssp env ev g = Some g1" "collected env [ev] g as bs cs g1 as1 bs1"
      "bt_sem g1 = (if ev = BtEv (DiscStateChanged True) then Some True else bt_sem g)"
      "ble_sem g1 = (if ev \<in> {BleEv ScanParamSetComplete, BleEv ScanInqCmpl} then Some True else ble_sem g)" by auto
  have l1: "gap_lists g1 as1 bs1 cs" and r1: "gap_ready g1"
    using g1 Cons.prems(2) by (auto simp: collected_def gap_ready_def)
  from Cons.IH [OF l1 r1] Cons.prems(3) obtain g' as' bs' where g': "foldM (handle_scan_event ssp env) evs g1 = Some g'"
      "gap_lists g' as' bs' cs" "keeps_first ?u (found_list (heap g1) as1) (found_list (heap g') as')" by auto
  have "found_list (heap g1) as1 = fst (seen env ev (found_list (heap g) as, found_list (heap g) bs))"
    using g1(2) assms(3) unfolding collected_def by (metis fold_simps fst_conv)
  then have "keeps_first ?u (found_list (heap g) as) (found_list (heap g1) as1)"
    using seen_keeps [of env "(found_list (heap g) as, found_list (heap g) bs)" ev] by simp
  moreover have "distinct (map f_bda (found_list (heap g') as'))"
    using g'(2) by (simp add: gap_lists_def bt_found_ok_def)
  ultimately have "keeps_first ?u (found_list (heap g) as) (found_list (heap g') as')"
    using g'(3) keeps_first_trans by blast
  with g' g1(1) show ?case by auto
qed

section \<open>An instance\<close>

text \<open>
  A bump allocator, and the search for an element in advertising data as the Bluetooth core
  specification lays it out: length, type, data.
\<close>

definition fresh :: "(addr \<Rightarrow> 'a option) \<Rightarrow> addr" where
  "fresh m = (if finite (dom m) then Suc (Max (insert 0 (dom m))) else 0)"

primrec ad_find :: "nat \<Rightarrow> bytes \<Rightarrow> nat \<Rightarrow> u8 \<Rightarrow> nat \<Rightarrow> (nat \<times> u8) option" where
  "ad_find 0 adv n t off = None"
| "ad_find (Suc fuel) adv n t off =
     (if off + 1 < n \<and> n \<le> length adv
      then
        let l = unat (adv ! off) in
        if l = 0 \<or> n < off + 1 + l then None
        else if adv ! (off + 1) = t then Some (off + 2, word_of_nat (l - 1))
        else ad_find fuel adv n t (off + 1 + l)
      else None)"

definition ad_code :: "adv_type \<Rightarrow> u8" where
  "ad_code t = (case t of AD_16SRV_CMPL \<Rightarrow> 0x03 | AD_APPEARANCE \<Rightarrow> 0x19 | AD_NAME_CMPL \<Rightarrow> 0x09 | AD_NAME_SHORT \<Rightarrow> 0x08)"

definition gap_demo_env :: gap_env where
  "gap_demo_env = \<lparr>malloc_rec = (\<lambda>h. fresh (recs h)), malloc_str = (\<lambda>n h. fresh (strs h)), usage_from_cod = (\<lambda>c. 1),
     usage_from_appearance = (\<lambda>a. 2), cod_major = (\<lambda>c. unat (drop_bit 8 c AND 0x1F)), cod_address = 0x3FFB0000,
     resolve_eir = (\<lambda>val t. None), resolve_adv = (\<lambda>adv n t. ad_find 62 adv n (ad_code t) 0)\<rparr>"

lemma fresh_ok: "fresh m = 0 \<or> m (fresh m) = None" "finite (dom m) \<Longrightarrow> fresh m \<noteq> 0"
proof -
  have "Suc (Max (insert 0 (dom m))) \<notin> dom m" if "finite (dom m)"
  proof
    assume "Suc (Max (insert 0 (dom m))) \<in> dom m"
    then have "Suc (Max (insert 0 (dom m))) \<le> Max (insert 0 (dom m))" using that by (intro Max_ge) auto
    then show False by simp
  qed
  then show "fresh m = 0 \<or> m (fresh m) = None" unfolding fresh_def domIff by simp
qed (simp add: fresh_def)

lemma ad_find_inside: "ad_find fuel adv n t off = Some (o', len) \<Longrightarrow> o' + unat len \<le> n"
proof (induction fuel arbitrary: off)
  case (Suc fuel)
  let ?l = "unat (adv ! off)"
  have "unat (word_of_nat (?l - 1) :: u8) = ?l - 1"
    using unat_u8_lt [of "adv ! off"] by (simp add: unsigned_of_nat take_bit_nat_eq_self del: of_nat_diff)
  with Suc show ?case by (auto simp: Let_def split: if_splits)
qed simp

lemma gap_demo_env_ok: "env_ok gap_demo_env" "plenty gap_demo_env"
  by (auto simp: env_ok_def alloc_ok_def plenty_def gap_demo_env_def fresh_ok)

lemma gap_demo_env_inside: "resolve_inside gap_demo_env"
  using ad_find_inside by (auto simp: resolve_inside_def gap_demo_env_def)

definition demo_gap :: gap where
  "demo_gap = gap_boot\<lparr>bt_sem := Some False, ble_sem := Some False\<rparr>"

definition demo_rst :: scan_rst where
  "demo_rst = \<lparr>rst_bda = [1, 2, 3, 4, 5, 6], rst_addr_type = 0,
     rst_adv = [3, 0x03, 0x12, 0x18, 3, 0x09, 0x50, 0x43] @ replicate 54 0, rst_len = 8, rst_rssi = -40\<rparr>"

definition cut_rst :: scan_rst where
  "cut_rst = \<lparr>rst_bda = [1, 2, 3, 4, 5, 6], rst_addr_type = 0,
     rst_adv = [58, 0xFF] @ replicate 57 0 @ [2, 0x03, 0x12], rst_len = 62, rst_rssi = -40\<rparr>"

abbreviation gamepad_seen :: scan_event where
  "gamepad_seen \<equiv> BtEv (DiscRes [6, 5, 4, 3, 2, 1] [PropCod [0x08, 0x05, 0, 0], PropBdname [0x47, 0x50, 0]])"

lemma demo_gap_ok: "gap_lists demo_gap [] [] []" "gap_ready demo_gap" "bt_sem demo_gap = Some False" "ble_sem demo_gap = Some False"
  by (simp_all add: demo_gap_def gap_boot_def gap_lists_def heap_ok_def bt_found_ok_def ble_found_ok_def gap_ready_def nm_def)

lemma ad_find_numeral:
  "ad_find (numeral k) adv n t off =
     (if off + 1 < n \<and> n \<le> length adv
      then
        let l = unat (adv ! off) in
        if l = 0 \<or> n < off + 1 + l then None
        else if adv ! (off + 1) = t then Some (off + 2, word_of_nat (l - 1))
        else ad_find (pred_numeral k) adv n t (off + 1 + l)
      else None)"
  by (simp add: numeral_eq_Suc)

lemma demo_resolve:
  "resolve_adv gap_demo_env (rst_adv demo_rst) 8 AD_16SRV_CMPL = Some (2, 2)"
  "resolve_adv gap_demo_env (rst_adv demo_rst) 8 AD_APPEARANCE = None"
  "resolve_adv gap_demo_env (rst_adv demo_rst) 8 AD_NAME_CMPL = Some (6, 2)"
  "resolve_adv gap_demo_env (rst_adv cut_rst) 62 AD_16SRV_CMPL = Some (61, 1)"
  by (simp_all add: gap_demo_env_def ad_code_def demo_rst_def cut_rst_def ad_find_numeral nth_append)


lemma demo_seen:
  "seen gap_demo_env (BleEv (ScanInqRes demo_rst)) (fs, []) = (fs,
     [\<lparr>f_bda = [1, 2, 3, 4, 5, 6], f_name = Some [0x50, 0x43, 0], f_rssi = 216, f_usage = 2, f_radio = Ble 0 0\<rparr>])"
  "seen gap_demo_env gamepad_seen ([], hs) =
     ([\<lparr>f_bda = [6, 5, 4, 3, 2, 1], f_name = Some [0x47, 0x50, 0], f_rssi = 0, f_usage = 1,
        f_radio = Bt 0x508 \<lparr>uuid_len = 2, uuid_val = [0, 0]\<rparr>\<rparr>], hs)"
proof -
  have r: "rst_len demo_rst = 8" "length (rst_adv demo_rst) = 62" by (simp_all add: demo_rst_def)
  show "seen gap_demo_env (BleEv (ScanInqRes demo_rst)) (fs, []) = (fs,
     [\<lparr>f_bda = [1, 2, 3, 4, 5, 6], f_name = Some [0x50, 0x43, 0], f_rssi = 216, f_usage = 2, f_radio = Ble 0 0\<rparr>])"
    using demo_resolve(1-3) r
    by (simp add: seen_def ble_seen_def adv_u16_def adv_name_def adv_name_element_def ble_sighting_def copied_name_def)
       (simp add: demo_rst_def gap_demo_env_def)
  show "seen gap_demo_env gamepad_seen ([], hs) =
     ([\<lparr>f_bda = [6, 5, 4, 3, 2, 1], f_name = Some [0x47, 0x50, 0], f_rssi = 0, f_usage = 1,
        f_radio = Bt 0x508 \<lparr>uuid_len = 2, uuid_val = [0, 0]\<rparr>\<rparr>], hs)"
    by (simp add: seen_def bt_seen_def dev_prop_step_def strlen_def cod_word_def disc_start_def bt_sighting_def copied_name_def)
       (simp add: gap_demo_env_def)
qed

lemma demo_plain: "plain_event gap_demo_env (BleEv (ScanInqRes demo_rst))" "plain_event gap_demo_env gamepad_seen"
proof -
  have r: "rst_len demo_rst = 8" "length (rst_adv demo_rst) = 62" by (simp_all add: demo_rst_def)
  show "plain_event gap_demo_env (BleEv (ScanInqRes demo_rst))"
    using demo_resolve(1,2,3) r
    by (simp add: plain_event_def scan_event_ok_def gap_wild_def gap_overrun_def cut_u16_def cut_name_def adv_name_element_def
        gives_def rst_ok_def)
qed (simp add: plain_event_def scan_event_ok_def gap_wild_def gap_overrun_def prop_overrun_def prop_name_past_def gives_def dev_prop_ok_def)

lemma scan_collects_witness:
  "\<exists>ret g'. esp_hid_scan True True False (\<lambda>c. ESP_OK) gap_demo_env 5
      [BleEv ScanParamSetComplete, BleEv (ScanInqRes demo_rst), BleEv ScanInqCmpl, gamepad_seen, BtEv (DiscStateChanged True)]
      demo_gap = Some (ret, [], g') \<and> scan_err ret = ESP_OK \<and> scan_num ret = 2"
proof -
  from scan_collects [OF demo_gap_ok(1) gap_demo_env_ok demo_gap_ok(3,4), of "\<lambda>c. ESP_OK" "[]"
      "[BleEv (ScanInqRes demo_rst)]" "[gamepad_seen]" False 5 "[]"] demo_plain
  obtain ret rs g' where "esp_hid_scan True True False (\<lambda>c. ESP_OK) gap_demo_env 5
      [BleEv ScanParamSetComplete, BleEv (ScanInqRes demo_rst), BleEv ScanInqCmpl, gamepad_seen, BtEv (DiscStateChanged True)]
      demo_gap = Some (ret, [], g')" "scan_err ret = ESP_OK" "scan_num ret = length rs"
      "found_list (heap g') rs = (let (fs, hs) = fold (seen gap_demo_env) ([] @ [BleEv (ScanInqRes demo_rst)] @ [gamepad_seen]) ([], []) in fs @ hs)"
    by auto
  moreover from this(4) have "length rs = length (let (fs, hs) = fold (seen gap_demo_env) ([] @ [BleEv (ScanInqRes demo_rst)] @ [gamepad_seen]) ([], []) in fs @ hs)"
    by (metis length_map)
  then have "length rs = 2" by (simp add: demo_seen)
  ultimately show ?thesis by auto
qed

lemma scan_failure_is_permanent_witness:
  "\<exists>g'. esp_hid_scan True True False (\<lambda>c. if c = StartDiscovery 3 then ESP_FAIL else ESP_OK) gap_demo_env 5
      [BleEv ScanParamSetComplete, BleEv (ScanInqRes demo_rst), BleEv ScanInqCmpl] demo_gap = Some (scan_failed, [], g')
    \<and> esp_hid_scan True True False (\<lambda>c. ESP_OK) gap_demo_env 60 [] g' = Some (scan_failed, [], g')"
proof -
  let ?rc = "\<lambda>c. if c = StartDiscovery 3 then ESP_FAIL else ESP_OK"
  have rc: "?rc SetScanParams = ESP_OK" "?rc (StartScanning 5) = ESP_OK" "?rc (StartDiscovery (unat (5 :: u32) * 100 div 128)) \<noteq> ESP_OK"
    by (simp_all add: ESP_FAIL_def ESP_OK_def)
  have ev: "\<forall>ev \<in> set ([] @ [BleEv (ScanInqRes demo_rst)]). plain_event gap_demo_env ev"
    "snd (fold (seen gap_demo_env) ([] @ [BleEv (ScanInqRes demo_rst)]) ([], [])) \<noteq> []" using demo_plain by (simp_all add: demo_seen)
  from scan_failure_is_permanent [where rc = ?rc, OF demo_gap_ok(1) gap_demo_env_ok demo_gap_ok(3,4) rc ev, of False "[]"]
  show ?thesis using gap_later.now unfolding append_Nil append_Cons by blast
qed

lemma gap_events_memory_safe_witness:
  "foldM (handle_scan_event False gap_demo_env) [BleEv (ScanInqRes cut_rst)] demo_gap = None
   \<and> (\<exists>g'. foldM (handle_scan_event False gap_demo_env) [BleEv (ScanInqRes demo_rst), gamepad_seen] demo_gap = Some g')"
proof -
  have r: "rst_len cut_rst = 62" "length (rst_adv cut_rst) = 62" by (simp_all add: cut_rst_def)
  then have "gap_overrun gap_demo_env (BleEv (ScanInqRes cut_rst))" "scan_event_ok (BleEv (ScanInqRes cut_rst))"
    using demo_resolve(4) by (simp_all add: gap_overrun_def cut_u16_def scan_event_ok_def rst_ok_def)
  with gap_events_memory_safe [OF demo_gap_ok(1) gap_demo_env_ok(1) demo_gap_ok(2), of "[BleEv (ScanInqRes cut_rst)]" False]
    gap_events_memory_safe [OF demo_gap_ok(1) gap_demo_env_ok(1) demo_gap_ok(2), of "[BleEv (ScanInqRes demo_rst), gamepad_seen]" False]
    demo_plain show ?thesis by (auto simp: plain_event_def)
qed

lemma classic_device_first_data_witness:
  "\<exists>g' as bs. foldM (handle_scan_event False gap_demo_env) [gamepad_seen] demo_gap = Some g' \<and> gap_lists g' as bs []
    \<and> (\<forall>f \<in> set (found_list (heap g') as). f_usage f = 1)"
proof -
  from classic_device_first_data [OF demo_gap_ok(1) gap_demo_env_ok demo_gap_ok(2), of "[gamepad_seen]" False] demo_plain
  obtain g' as bs where "foldM (handle_scan_event False gap_demo_env) [gamepad_seen] demo_gap = Some g'" "gap_lists g' as bs []"
      "keeps_first (usage_from_cod gap_demo_env (cod_address gap_demo_env)) [] (found_list (heap g') as)"
    by (auto simp: plain_event_def)
  then show ?thesis by (auto simp: keeps_first_def gap_demo_env_def)
qed

end
