(* ===== verification/GapInit.thy ===== *)
theory GapInit
  imports GapProtocol BleHid "HOL-Library.Sublist"
begin

text \<open>
  \<open>main/esp_hid_gap.c\<close>, everything but the scan: the start of the controller and of the host for
  Bluedroid and for NimBLE, the advertising data, the pairing answers and the names for the log.
  The calls into ESP-IDF and NimBLE are recorded with the arguments that the code chooses; constants
  of their headers are constructors.  The configuration (\<open>CONFIG_...\<close>) is the record \<open>gap_config\<close>.
\<close>

section \<open>Names for the log\<close>

definition ble_gap_evt_names :: "string list" where
  "ble_gap_evt_names =
    [''ADV_DATA_SET_COMPLETE'', ''SCAN_RSP_DATA_SET_COMPLETE'', ''SCAN_PARAM_SET_COMPLETE'', ''SCAN_RESULT'',
     ''ADV_DATA_RAW_SET_COMPLETE'', ''SCAN_RSP_DATA_RAW_SET_COMPLETE'', ''ADV_START_COMPLETE'', ''SCAN_START_COMPLETE'',
     ''AUTH_CMPL'', ''KEY'', ''SEC_REQ'', ''PASSKEY_NOTIF'', ''PASSKEY_REQ'', ''OOB_REQ'', ''LOCAL_IR'', ''LOCAL_ER'', ''NC_REQ'',
     ''ADV_STOP_COMPLETE'', ''SCAN_STOP_COMPLETE'', ''SET_STATIC_RAND_ADDR'', ''UPDATE_CONN_PARAMS'', ''SET_PKT_LENGTH_COMPLETE'',
     ''SET_LOCAL_PRIVACY_COMPLETE'', ''REMOVE_BOND_DEV_COMPLETE'', ''CLEAR_BOND_DEV_COMPLETE'', ''GET_BOND_DEV_COMPLETE'',
     ''READ_RSSI_COMPLETE'', ''UPDATE_WHITELIST_COMPLETE'']"

definition bt_gap_evt_names :: "string list" where
  "bt_gap_evt_names =
    [''DISC_RES'', ''DISC_STATE_CHANGED'', ''RMT_SRVCS'', ''RMT_SRVC_REC'', ''AUTH_CMPL'', ''PIN_REQ'', ''CFM_REQ'', ''KEY_NOTIF'',
     ''KEY_REQ'', ''READ_RSSI_DELTA'']"

definition ble_addr_type_names :: "string list" where
  "ble_addr_type_names = [''PUBLIC'', ''RANDOM'', ''RPA_PUBLIC'', ''RPA_RANDOM'']"

text \<open>3 is \<open>BLE_ADDR_TYPE_RPA_RANDOM\<close>.\<close>

definition ble_addr_type_str :: "nat \<Rightarrow> string option" where
  "ble_addr_type_str t = (if t > 3 then Some ''UNKNOWN'' else rd ble_addr_type_names t)"

definition ble_gap_evt_str :: "u8 \<Rightarrow> string option" where
  "ble_gap_evt_str event =
     (if unat event \<ge> length ble_gap_evt_names then Some ''UNKNOWN'' else rd ble_gap_evt_names (unat event))"

definition bt_gap_evt_str :: "u8 \<Rightarrow> string option" where
  "bt_gap_evt_str event =
     (if unat event \<ge> length bt_gap_evt_names then Some ''UNKNOWN'' else rd bt_gap_evt_names (unat event))"

lemma names_in_range: "ble_addr_type_str t \<noteq> None" "ble_gap_evt_str e \<noteq> None" "bt_gap_evt_str e \<noteq> None"
  by (auto simp: ble_addr_type_str_def ble_gap_evt_str_def bt_gap_evt_str_def rd_def ble_addr_type_names_def)

section \<open>Calls\<close>

datatype security_param =
    AuthReqScMitmBond
  | IocapIo
  | InitKeyEncId
  | RspKeyEncId
  | MaxKeySize nat
  | StaticPasskey u32

text \<open>\<open>esp_ble_adv_data_t\<close>, the fields that the code sets to something.\<close>

record adv_data =
  set_scan_rsp :: bool
  include_name :: bool
  include_txpower :: bool
  min_interval :: nat
  max_interval :: nat
  adv_appearance :: u16
  manufacturer_data :: bytes
  adv_flag :: u8

text \<open>The fields of the controller's default configuration that the code replaces.\<close>

record controller_config =
  cc_mode :: "u8 option"
  bt_max_acl_conn :: "nat option"
  bt_max_sync_conn :: "nat option"

datatype gap_init_call =
    SetSecurityIocapNone
  | SetPinFixed nat bytes
  | BtRegisterCallback
  | SetScanModeConnectable
  | BleRegisterCallback
  | SetSecurityParam security_param
  | SetDeviceName string
  | ConfigAdvData adv_data
  | StartAdvertising nat nat
  | MemReleaseClassic
  | ControllerInit controller_config
  | ControllerEnable u8
  | BluedroidInitWithCfg bool
  | BluedroidEnable
  | NimbleInit

record gap_config =
  cfg_esp32 :: bool
  cfg_bt_hid :: bool
  cfg_ble :: bool
  cfg_ssp :: bool

section \<open>Start of the controller and the host\<close>

text \<open>The modes of the controller are the bits 1 (LE) and 2 (Classic), \<open>ESP_BT_MODE_BTDM\<close> is both.\<close>

definition classic_mode :: "gap_config \<Rightarrow> u8 \<Rightarrow> bool" where
  "classic_mode cfg mode \<longleftrightarrow> cfg_bt_hid cfg \<and> mode AND 2 \<noteq> 0"

definition ble_mode :: "gap_config \<Rightarrow> u8 \<Rightarrow> bool" where
  "ble_mode cfg mode \<longleftrightarrow> cfg_ble cfg \<and> mode AND 1 \<noteq> 0"

definition init_bt_gap_calls :: "gap_config \<Rightarrow> (bool \<times> gap_init_call) list" where
  "init_bt_gap_calls cfg =
     (if cfg_ssp cfg then [(False, SetSecurityIocapNone)] else [])
     @ [(False, SetPinFixed 4 [0x31, 0x32, 0x33, 0x34]), (True, BtRegisterCallback), (True, SetScanModeConnectable)]"

definition init_ble_gap_calls :: "(bool \<times> gap_init_call) list" where
  "init_ble_gap_calls = [(True, BleRegisterCallback)]"

definition init_low_level_calls :: "gap_config \<Rightarrow> u8 \<Rightarrow> (bool \<times> gap_init_call) list" where
  "init_low_level_calls cfg mode =
     (if classic_mode cfg mode then [] else [(True, MemReleaseClassic)])
     @ [(True, ControllerInit \<lparr>cc_mode = (if cfg_esp32 cfg then Some mode else None),
           bt_max_acl_conn = (if classic_mode cfg mode then Some 3 else None),
           bt_max_sync_conn = (if classic_mode cfg mode then Some 3 else None)\<rparr>),
        (True, ControllerEnable mode),
        (True, BluedroidInitWithCfg (cfg_ssp cfg)),
        (True, BluedroidEnable)]
     @ (if classic_mode cfg mode then init_bt_gap_calls cfg else [])
     @ (if ble_mode cfg mode then init_ble_gap_calls else [])"

definition init_low_level :: "gap_config \<Rightarrow> (gap_init_call \<Rightarrow> int) \<Rightarrow> u8 \<Rightarrow> int \<times> gap_init_call list" where
  "init_low_level cfg rc mode = run_calls rc (init_low_level_calls cfg mode)"

definition init_low_level_nimble :: "gap_config \<Rightarrow> (gap_init_call \<Rightarrow> int) \<Rightarrow> u8 \<Rightarrow> int \<times> gap_init_call list" where
  "init_low_level_nimble cfg rc mode = run_calls rc
     [(True, MemReleaseClassic),
      (True, ControllerInit \<lparr>cc_mode = (if cfg_esp32 cfg then Some mode else None), bt_max_acl_conn = None, bt_max_sync_conn = None\<rparr>),
      (True, ControllerEnable mode),
      (True, NimbleInit)]"

text \<open>
  \<open>low_level\<close> is the build's \<open>init_low_level\<close>; the two flags say whether the semaphores could be
  created.  A new binary semaphore is not available.
\<close>

definition esp_hid_gap_init ::
    "(u8 \<Rightarrow> int \<times> gap_init_call list) \<Rightarrow> bool \<Rightarrow> bool \<Rightarrow> u8 \<Rightarrow> gap
     \<Rightarrow> int \<times> gap_init_call list \<times> gap" where
  "esp_hid_gap_init low_level created1 created2 mode g =
     (if mode = 0 \<or> mode > 3 then (ESP_FAIL, [], g)
      else if bt_sem g \<noteq> None then (ESP_FAIL, [], g)
      else if \<not> created1 then (ESP_FAIL, [], g\<lparr>bt_sem := None\<rparr>)
      else
        let g = g\<lparr>bt_sem := Some False\<rparr> in
        if \<not> created2 then (ESP_FAIL, [], g\<lparr>ble_sem := None, bt_sem := None\<rparr>)
        else
          let g = g\<lparr>ble_sem := Some False\<rparr>;
              (ret, made) = low_level mode
          in if ret \<noteq> ESP_OK then (ret, made, g\<lparr>bt_sem := None, ble_sem := None\<rparr>) else (ESP_OK, made, g))"

section \<open>Advertising\<close>

definition switch2_manufacturer_data :: bytes where
  "switch2_manufacturer_data = [0x53, 0x05, 0x01, 0x00, 0x03, 0x7E, 0x69, 0x20]"

definition ble_adv_data :: "u16 \<Rightarrow> adv_data" where
  "ble_adv_data appearance = \<lparr>set_scan_rsp = False, include_name = False, include_txpower = False, min_interval = 0x0006,
     max_interval = 0x0010, adv_appearance = appearance, manufacturer_data = switch2_manufacturer_data, adv_flag = 0x6\<rparr>"

definition ble_scan_rsp_data :: adv_data where
  "ble_scan_rsp_data = \<lparr>set_scan_rsp = True, include_name = True, include_txpower = True, min_interval = 0, max_interval = 0,
     adv_appearance = 0, manufacturer_data = [], adv_flag = 0\<rparr>"

definition esp_hid_ble_gap_adv_init :: "(gap_init_call \<Rightarrow> int) \<Rightarrow> u16 \<Rightarrow> string \<Rightarrow> int \<times> gap_init_call list" where
  "esp_hid_ble_gap_adv_init rc appearance device_name = run_calls rc (map (Pair True)
     [SetSecurityParam AuthReqScMitmBond, SetSecurityParam IocapIo, SetSecurityParam InitKeyEncId, SetSecurityParam RspKeyEncId,
      SetSecurityParam (MaxKeySize 16), SetSecurityParam (StaticPasskey 1234), SetDeviceName device_name,
      ConfigAdvData (ble_adv_data appearance), ConfigAdvData ble_scan_rsp_data])"

text \<open>The interval of the advertisements is in units of 0.625 ms.\<close>

definition esp_hid_ble_gap_adv_start :: "(gap_init_call \<Rightarrow> int) \<Rightarrow> int \<times> gap_init_call list" where
  "esp_hid_ble_gap_adv_start rc = (rc (StartAdvertising 0x20 0x30), [StartAdvertising 0x20 0x30])"

section \<open>NimBLE\<close>

text \<open>\<open>struct ble_hs_adv_fields\<close> and the fields of \<open>ble_hs_cfg\<close> that the code sets.\<close>

record ble_hs_adv_fields =
  nf_flags :: u8
  tx_pwr_lvl_auto :: bool
  nf_name :: string
  nf_name_len :: u8
  name_is_complete :: bool
  uuids16 :: "u16 list"
  uuids16_is_complete :: bool

datatype sm_io_cap = DispOnly | OtherIoCap

record ble_hs_cfg =
  sm_io_cap :: sm_io_cap
  sm_bonding :: bool
  sm_mitm :: bool
  sm_sc :: bool
  sm_our_key_dist :: u8
  sm_their_key_dist :: u8

text \<open>
  0x02 is \<open>BLE_HS_ADV_F_DISC_GEN\<close>, 0x04 \<open>BLE_HS_ADV_F_BREDR_UNSUP\<close>; the keys that are distributed
  are the identity and the encryption key (bits 1 and 0).  \<open>uuid16\<close> is what \<open>malloc\<close> gives: without
  memory the code copies to \<open>NULL\<close>.
\<close>

definition nimble_adv_init :: "bool \<Rightarrow> string \<Rightarrow> ble_hs_cfg \<Rightarrow> (int \<times> ble_hs_adv_fields \<times> ble_hs_cfg) option" where
  "nimble_adv_init uuid16 device_name cfg =
     (if \<not> uuid16 then None
      else Some (ESP_OK,
        \<lparr>nf_flags = 0x02 OR 0x04, tx_pwr_lvl_auto = True, nf_name = device_name,
         nf_name_len = word_of_nat (length device_name), name_is_complete = True, uuids16 = [0x1812], uuids16_is_complete = True\<rparr>,
        cfg\<lparr>sm_io_cap := DispOnly, sm_bonding := True, sm_mitm := True, sm_sc := True, sm_our_key_dist := 2 OR 1,
            sm_their_key_dist := sm_their_key_dist cfg OR (2 OR 1)\<rparr>))"

datatype passkey_action = IoactDisp | IoactNumcmp | IoactOob | IoactInput | IoactOther

datatype sm_io = Passkey passkey_action u32 | NumcmpAccept passkey_action nat | OobData passkey_action bytes

datatype nimble_event =
    NConnect int
  | NDisconnect int
  | NConnUpdate int
  | NAdvComplete int
  | NSubscribe
  | NMtu
  | NEncChange u16
  | NNotifyTx
  | NRepeatPairing u16
  | NPasskeyAction u16 passkey_action
  | NOther

datatype nimble_call =
    ConnFind u16
  | StoreDeletePeer u16
  | NimbleTaskStartUp
  | InjectIo u16 sm_io
  | AdvSetFields ble_hs_adv_fields
  | NimbleAdvStart nat nat nat

datatype nimble_return = Return0 | RepeatPairingRetry

text \<open>
  The answer and the calls; \<open>None\<close> is the failed \<open>assert\<close> on a connection that the host does not
  know.
\<close>

definition nimble_hid_gap_event ::
    "(nimble_call \<Rightarrow> int) \<Rightarrow> nimble_event \<Rightarrow> (nimble_return \<times> nimble_call list) option" where
  "nimble_hid_gap_event rc event =
     (case event of
        NConnect _ \<Rightarrow> Some (Return0, [])
      | NDisconnect _ \<Rightarrow> Some (Return0, [])
      | NConnUpdate _ \<Rightarrow> Some (Return0, [])
      | NAdvComplete _ \<Rightarrow> Some (Return0, [])
      | NSubscribe \<Rightarrow> Some (Return0, [])
      | NMtu \<Rightarrow> Some (Return0, [])
      | NEncChange conn_handle \<Rightarrow>
          if rc (ConnFind conn_handle) = 0 then Some (Return0, [ConnFind conn_handle, NimbleTaskStartUp]) else None
      | NNotifyTx \<Rightarrow> Some (Return0, [])
      | NRepeatPairing conn_handle \<Rightarrow>
          if rc (ConnFind conn_handle) = 0
          then Some (RepeatPairingRetry, [ConnFind conn_handle, StoreDeletePeer conn_handle]) else None
      | NPasskeyAction conn_handle action \<Rightarrow>
          let key = 0 in
          if action = IoactDisp then Some (Return0, [InjectIo conn_handle (Passkey action 123456)])
          else if action = IoactNumcmp then Some (Return0, [InjectIo conn_handle (NumcmpAccept action key)])
          else if action = IoactOob then Some (Return0, [InjectIo conn_handle (OobData action (replicate 16 0))])
          else if action = IoactInput then Some (Return0, [InjectIo conn_handle (Passkey action 123456)])
          else Some (Return0, [])
      | NOther \<Rightarrow> Some (Return0, []))"

text \<open>The duration and the interval of the advertisements are in milliseconds.\<close>

definition nimble_adv_start :: "(nimble_call \<Rightarrow> int) \<Rightarrow> ble_hs_adv_fields \<Rightarrow> int \<times> nimble_call list" where
  "nimble_adv_start rc adv_fields = run_calls rc [(True, AdvSetFields adv_fields), (True, NimbleAdvStart 180000 30 50)]"

datatype esp_ble_key_type = ESP_LE_KEY_NONE | ESP_LE_KEY_PENC | ESP_LE_KEY_PID | ESP_LE_KEY_PCSRK | ESP_LE_KEY_PLK
  | ESP_LE_KEY_LLK | ESP_LE_KEY_LENC | ESP_LE_KEY_LID | ESP_LE_KEY_LCSRK | OtherKeyType

definition esp_ble_key_type_str :: "esp_ble_key_type \<Rightarrow> string" where
  "esp_ble_key_type_str key_type =
     (case key_type of
        ESP_LE_KEY_NONE \<Rightarrow> ''ESP_LE_KEY_NONE''
      | ESP_LE_KEY_PENC \<Rightarrow> ''ESP_LE_KEY_PENC''
      | ESP_LE_KEY_PID \<Rightarrow> ''ESP_LE_KEY_PID''
      | ESP_LE_KEY_PCSRK \<Rightarrow> ''ESP_LE_KEY_PCSRK''
      | ESP_LE_KEY_PLK \<Rightarrow> ''ESP_LE_KEY_PLK''
      | ESP_LE_KEY_LLK \<Rightarrow> ''ESP_LE_KEY_LLK''
      | ESP_LE_KEY_LENC \<Rightarrow> ''ESP_LE_KEY_LENC''
      | ESP_LE_KEY_LID \<Rightarrow> ''ESP_LE_KEY_LID''
      | ESP_LE_KEY_LCSRK \<Rightarrow> ''ESP_LE_KEY_LCSRK''
      | OtherKeyType \<Rightarrow> ''INVALID BLE KEY TYPE'')"

section \<open>Properties\<close>

text \<open>
  Property C22.  \<open>esp_hid_gap_init\<close> and its semaphores.  In the state after boot, with any results
  of the calls, it returns \<open>ESP_OK\<close> exactly when the mode is valid, both semaphores could be created
  and every checked call succeeded; then all calls of the mode were made and both semaphores exist,
  so that the scanner's events are handled.  Otherwise neither semaphore exists and the static
  variables are those of the boot; the calls that were made are the first ones of the mode, up to the
  one that failed.  They are not undone: the controller and Bluedroid stay as far as they got, so
  nothing is said of a second attempt after a failure.  A second call after a success fails and changes
  nothing.
\<close>

theorem gap_init_all_or_nothing:
  fixes cfg rc
  defines "init \<equiv> esp_hid_gap_init (init_low_level cfg rc)"
  shows "let (err, made, g) = init created1 created2 mode gap_boot in
      (err = ESP_OK \<longleftrightarrow> mode \<noteq> 0 \<and> mode \<le> 3 \<and> created1 \<and> created2
        \<and> (\<forall>(checked, c) \<in> set (init_low_level_calls cfg mode). checked \<longrightarrow> rc c = ESP_OK))
    \<and> (err = ESP_OK \<longrightarrow> made = map snd (init_low_level_calls cfg mode) \<and> gap_ready g \<and> gap_lists g [] [] []
        \<and> (\<forall>c1 c2 m. init c1 c2 m g = (ESP_FAIL, [], g)))
    \<and> (err \<noteq> ESP_OK \<longrightarrow> g = gap_boot \<and> prefix made (map snd (init_low_level_calls cfg mode)))"
proof -
  have F: "ESP_FAIL \<noteq> ESP_OK" by (simp add: ESP_FAIL_def ESP_OK_def)
  let ?cs = "init_low_level_calls cfg mode"
  have p: "prefix (snd (run_calls rc cs)) (map snd cs)" for cs :: "(bool \<times> gap_init_call) list"
    by (induction cs) auto
  note facts = F run_calls_ok [of rc ?cs] run_calls_all [of rc ?cs] p [of ?cs]
  show ?thesis
  proof (cases "mode = 0 \<or> mode > 3 \<or> \<not> created1 \<or> \<not> created2")
    case True
    with F show ?thesis by (auto simp: init_def esp_hid_gap_init_def gap_boot_def)
  next
    case False
    obtain err made where r: "run_calls rc ?cs = (err, made)" by fastforce
    show ?thesis
    proof (cases "err = ESP_OK")
      case True
      with False r facts show ?thesis
        by (auto simp: init_def esp_hid_gap_init_def init_low_level_def gap_ready_def gap_boot_def gap_lists_def
            heap_ok_def bt_found_ok_def ble_found_ok_def)
    next
      case err: False
      with False r facts show ?thesis
        by (auto simp: init_def esp_hid_gap_init_def init_low_level_def gap_boot_def)
    qed
  qed
qed


lemma gap_init_all_or_nothing_witness:
  "(let (err, made, g) = esp_hid_gap_init (init_low_level \<lparr>cfg_esp32 = True, cfg_bt_hid = True, cfg_ble = True, cfg_ssp = False\<rparr>
      (\<lambda>c. if c = BluedroidEnable then ESP_FAIL else ESP_OK)) True True 3 gap_boot in err \<noteq> ESP_OK \<and> g = gap_boot)"
  using gap_init_all_or_nothing [of "\<lparr>cfg_esp32 = True, cfg_bt_hid = True, cfg_ble = True, cfg_ssp = False\<rparr>"
      "\<lambda>c. if c = BluedroidEnable then ESP_FAIL else ESP_OK" True True 3]
  by (auto simp: init_low_level_calls_def classic_mode_def ble_mode_def ESP_FAIL_def ESP_OK_def Let_def split: prod.splits)

text \<open>
  When the LE transport reports a successful start over this GAP layer, the radio is
  what the transport needs: both semaphores exist, the controller runs in LE mode with the memory of
  Classic released, Bluedroid runs with the GAP callback registered, and the advertising data of
  the Switch 2 controller and the device name are configured.
\<close>

theorem ble_transport_radio:
  assumes "ble_hid_init rc mac d = (ESP_OK, d')" and "cfg_ble cfg"
    and "rc (GapInit 1) = fst (esp_hid_gap_init (init_low_level cfg grc) created1 created2 1 gap_boot)"
    and "rc (GapAdvInitGamepad ''Pro Controller 2'') = fst (esp_hid_ble_gap_adv_init grc ap ''Pro Controller 2'')"
  shows "let (err, made, g) = esp_hid_gap_init (init_low_level cfg grc) created1 created2 1 gap_boot;
             made' = snd (esp_hid_ble_gap_adv_init grc ap ''Pro Controller 2'')
         in gap_ready g \<and> {MemReleaseClassic, ControllerEnable 1, BluedroidEnable, BleRegisterCallback} \<subseteq> set made
           \<and> {SetDeviceName ''Pro Controller 2'', ConfigAdvData (ble_adv_data ap), ConfigAdvData ble_scan_rsp_data} \<subseteq> set made'"
proof -
  let ?init = "esp_hid_gap_init (init_low_level cfg grc) created1 created2 1 gap_boot"
  let ?adv = "esp_hid_ble_gap_adv_init grc ap ''Pro Controller 2''"
  have "fst (run_calls rc ble_init_calls) = ESP_OK" using assms(1) by (simp add: ble_hid_init_def split: prod.splits)
  then have ok: "fst ?init = ESP_OK" "fst ?adv = ESP_OK"
    using assms(3,4) unfolding run_calls_ok by (auto simp: ble_init_calls_def)
  have m: "(1 :: u8) AND 2 = 0" "(1 :: u8) AND 1 \<noteq> 0" by simp_all
  obtain err made g where i: "?init = (err, made, g)" by (metis prod_cases3)
  obtain ret m' where r: "init_low_level cfg grc 1 = (ret, m')" by fastforce
  have low: "init_low_level cfg grc 1 = (ESP_OK, made)" "gap_ready g"
    using ok(1) i r by (auto simp: esp_hid_gap_init_def gap_ready_def gap_boot_def ESP_FAIL_def ESP_OK_def Let_def split: if_splits)
  then have "made = map snd (init_low_level_calls cfg 1)"
    unfolding init_low_level_def using run_calls_all [of grc "init_low_level_calls cfg 1"] by simp
  then have "{MemReleaseClassic, ControllerEnable 1, BluedroidEnable, BleRegisterCallback} \<subseteq> set made"
    using m assms(2) by (simp add: init_low_level_calls_def classic_mode_def ble_mode_def init_ble_gap_calls_def)
  moreover have "{SetDeviceName ''Pro Controller 2'', ConfigAdvData (ble_adv_data ap), ConfigAdvData ble_scan_rsp_data} \<subseteq> set (snd ?adv)"
    using ok(2) run_calls_all unfolding esp_hid_ble_gap_adv_init_def by fastforce
  ultimately show ?thesis using i low(2) by simp
qed


lemma ble_transport_radio_witness:
  "(let (err, made, g) = esp_hid_gap_init (init_low_level \<lparr>cfg_esp32 = True, cfg_bt_hid = False, cfg_ble = True, cfg_ssp = False\<rparr>
      (\<lambda>c. ESP_OK)) True True 1 gap_boot in gap_ready g \<and> ControllerEnable 1 \<in> set made)"
proof -
  let ?cfg = "\<lparr>cfg_esp32 = True, cfg_bt_hid = False, cfg_ble = True, cfg_ssp = False\<rparr>"
  have all: "fst (run_calls (\<lambda>c. ESP_OK) cs) = ESP_OK" for cs :: "(bool \<times> 'c) list" by (induction cs) auto
  obtain d' where "ble_hid_init (\<lambda>c. ESP_OK) (replicate 6 0) ble_boot = (ESP_OK, d')"
    using all [of ble_init_calls]
    by (cases "run_calls (\<lambda>c. ESP_OK) ble_init_calls") (simp add: ble_hid_init_def)
  moreover have "fst (esp_hid_gap_init (init_low_level ?cfg (\<lambda>c. ESP_OK)) True True 1 gap_boot) = ESP_OK"
    using all [of "init_low_level_calls ?cfg 1"]
    by (cases "run_calls (\<lambda>c. ESP_OK) (init_low_level_calls ?cfg 1)")
       (simp add: esp_hid_gap_init_def init_low_level_def gap_boot_def Let_def)
  moreover have "fst (esp_hid_ble_gap_adv_init (\<lambda>c. ESP_OK) 0x3C4 ''Pro Controller 2'') = ESP_OK"
    using all by (simp add: esp_hid_ble_gap_adv_init_def)
  ultimately show ?thesis
    using ble_transport_radio [of "\<lambda>c. ESP_OK" "replicate 6 0" ble_boot d' ?cfg "\<lambda>c. ESP_OK" True True "0x3C4"]
    by (auto simp: Let_def)
qed

end
