(* ===== verification/LinkedList.thy ===== *)
theory LinkedList
  imports HeapList
begin

text \<open>
  \<open>btstack_linked_list.c\<close>: the intrusive lists of BTstack (timers, connections, service records).
  Memory is a map from the address of a cell to the pointer it holds.  A list is the address of
  its head pointer; \<open>next\<close> is the first field of an item, so the code treats the head pointer as
  an item of its own, and so does the model.  \<open>None\<close> is a read or write through a bad pointer, or a
  loop that does not end (on a cyclic list).
\<close>

section \<open>The code\<close>

type_synonym memory = "addr \<Rightarrow> addr option"

definition load :: "memory \<Rightarrow> addr \<Rightarrow> addr option" where
  "load m a = (if a = 0 then None else m a)"

definition store :: "memory \<Rightarrow> addr \<Rightarrow> addr \<Rightarrow> memory option" where
  "store m a v = (if a = 0 \<or> m a = None then None else Some (m(a \<mapsto> v)))"

definition btstack_linked_list_empty :: "memory \<Rightarrow> addr \<Rightarrow> bool option" where
  "btstack_linked_list_empty m list = do { p \<leftarrow> load m list; Some (p = 0) }"

partial_function (option) last_item_loop :: "memory \<Rightarrow> addr \<Rightarrow> addr \<Rightarrow> addr option" where
  "last_item_loop m it lastItem =
     (if it = 0 then Some lastItem else do { n \<leftarrow> load m it; last_item_loop m n it })"

definition btstack_linked_list_get_last_item :: "memory \<Rightarrow> addr \<Rightarrow> addr option" where
  "btstack_linked_list_get_last_item m list = do { it \<leftarrow> load m list; last_item_loop m it 0 }"

partial_function (option) split_loop ::
    "(addr \<Rightarrow> bool) \<Rightarrow> addr \<Rightarrow> memory \<Rightarrow> addr \<Rightarrow> addr \<Rightarrow> memory option" where
  "split_loop predicate current m last_match last_other =
     do {
       node \<leftarrow> load m current;
       if node = 0 then Some m
       else do {
         n \<leftarrow> load m node;
         m \<leftarrow> store m current n;
         m \<leftarrow> store m node 0;
         if predicate node
         then do { m \<leftarrow> store m last_match node; split_loop predicate current m node last_other }
         else do { m \<leftarrow> store m last_other node; split_loop predicate current m last_match node }
       }
     }"

definition btstack_linked_list_split ::
    "memory \<Rightarrow> addr \<Rightarrow> addr \<Rightarrow> addr \<Rightarrow> (addr \<Rightarrow> bool) \<Rightarrow> memory option" where
  "btstack_linked_list_split m input matches other predicate =
     do {
       m \<leftarrow> store m matches 0;
       m \<leftarrow> store m other 0;
       m \<leftarrow> split_loop predicate input m matches other;
       store m input 0
     }"

text \<open>\<open>temp\<close> is the address of the local variable of \<open>btstack_linked_list_filter\<close>.\<close>

definition btstack_linked_list_filter ::
    "memory \<Rightarrow> addr \<Rightarrow> addr \<Rightarrow> addr \<Rightarrow> (addr \<Rightarrow> bool) \<Rightarrow> memory option" where
  "btstack_linked_list_filter m temp input matches predicate =
     do {
       m \<leftarrow> store m temp 0;
       m \<leftarrow> btstack_linked_list_split m input matches temp predicate;
       t \<leftarrow> load m temp;
       store m input t
     }"

partial_function (option) member_loop :: "memory \<Rightarrow> addr \<Rightarrow> addr \<Rightarrow> bool option" where
  "member_loop m item it =
     (if it = 0 then Some False
      else if it = item then Some True
      else do { n \<leftarrow> load m it; member_loop m item n })"

definition btstack_linked_list_add :: "memory \<Rightarrow> addr \<Rightarrow> addr \<Rightarrow> (bool \<times> memory) option" where
  "btstack_linked_list_add m list item =
     do {
       it \<leftarrow> load m list;
       found \<leftarrow> member_loop m item it;
       if found then Some (False, m)
       else do {
         p \<leftarrow> load m list;
         m \<leftarrow> store m item p;
         m \<leftarrow> store m list item;
         Some (True, m)
       }
     }"

text \<open>The loop of \<open>add_tail\<close>: \<open>None\<close> inside is the item found, \<open>Some it\<close> the last cell.\<close>

partial_function (option) tail_loop :: "memory \<Rightarrow> addr \<Rightarrow> addr \<Rightarrow> addr option option" where
  "tail_loop m item it =
     do {
       n \<leftarrow> load m it;
       if n = 0 then Some (Some it)
       else if n = item then Some None
       else tail_loop m item n
     }"

definition btstack_linked_list_add_tail :: "memory \<Rightarrow> addr \<Rightarrow> addr \<Rightarrow> (bool \<times> memory) option" where
  "btstack_linked_list_add_tail m list item =
     do {
       last \<leftarrow> tail_loop m item list;
       (case last of
          None \<Rightarrow> Some (False, m)
        | Some it \<Rightarrow> do { m \<leftarrow> store m item 0; m \<leftarrow> store m it item; Some (True, m) })
     }"

partial_function (option) remove_loop :: "memory \<Rightarrow> addr \<Rightarrow> addr \<Rightarrow> (bool \<times> memory) option" where
  "remove_loop m item it =
     (if it = 0 then Some (False, m)
      else do {
        n \<leftarrow> load m it;
        if n = item then do { p \<leftarrow> load m item; m \<leftarrow> store m it p; Some (True, m) }
        else remove_loop m item n
      })"

definition btstack_linked_list_remove :: "memory \<Rightarrow> addr \<Rightarrow> addr \<Rightarrow> (bool \<times> memory) option" where
  "btstack_linked_list_remove m list item =
     (if item = 0 then Some (False, m) else remove_loop m item list)"

partial_function (option) count_loop :: "memory \<Rightarrow> addr \<Rightarrow> nat \<Rightarrow> nat option" where
  "count_loop m it counter =
     do { n \<leftarrow> load m it; if n = 0 then Some counter else count_loop m n (counter + 1) }"

definition btstack_linked_list_count :: "memory \<Rightarrow> addr \<Rightarrow> nat option" where
  "btstack_linked_list_count m list = count_loop m list 0"

partial_function (option) previous_loop :: "memory \<Rightarrow> addr \<Rightarrow> addr \<Rightarrow> addr option" where
  "previous_loop m item it =
     (if it = 0 then Some 0
      else do { n \<leftarrow> load m it; if n = item then Some it else previous_loop m item n })"

definition btstack_linked_list_get_previous_item :: "memory \<Rightarrow> addr \<Rightarrow> addr \<Rightarrow> addr option" where
  "btstack_linked_list_get_previous_item m list item = do { it \<leftarrow> load m list; previous_loop m item it }"

definition btstack_linked_list_get_first_item :: "memory \<Rightarrow> addr \<Rightarrow> addr option" where
  "btstack_linked_list_get_first_item m list = load m list"

definition btstack_linked_list_pop :: "memory \<Rightarrow> addr \<Rightarrow> (addr \<times> memory) option" where
  "btstack_linked_list_pop m list =
     do {
       item \<leftarrow> load m list;
       if item = 0 then Some (0, m)
       else do { n \<leftarrow> load m item; m \<leftarrow> store m list n; Some (item, m) }
     }"

record linked_iterator =
  advance_on_next :: bool
  it_prev :: addr
  it_curr :: addr

definition btstack_linked_list_iterator_init :: "memory \<Rightarrow> addr \<Rightarrow> linked_iterator option" where
  "btstack_linked_list_iterator_init m list =
     do { c \<leftarrow> load m list; Some \<lparr>advance_on_next = False, it_prev = list, it_curr = c\<rparr> }"

definition btstack_linked_list_iterator_has_next :: "memory \<Rightarrow> linked_iterator \<Rightarrow> bool option" where
  "btstack_linked_list_iterator_has_next m it =
     (if \<not> advance_on_next it then Some (it_curr it \<noteq> 0)
      else do {
        pn \<leftarrow> load m (it_prev it);
        if pn \<noteq> it_curr it then Some (pn \<noteq> 0)
        else do { cn \<leftarrow> load m (it_curr it); Some (cn \<noteq> 0) }
      })"

definition btstack_linked_list_iterator_next :: "memory \<Rightarrow> linked_iterator \<Rightarrow> (addr \<times> linked_iterator) option" where
  "btstack_linked_list_iterator_next m it =
     do {
       it \<leftarrow> (if advance_on_next it then do {
               pn \<leftarrow> load m (it_prev it);
               if pn = it_curr it
               then do { cn \<leftarrow> load m (it_curr it); Some (it\<lparr>it_prev := it_curr it, it_curr := cn\<rparr>) }
               else Some (it\<lparr>it_curr := pn\<rparr>)
             } else Some (it\<lparr>advance_on_next := True\<rparr>));
       Some (it_curr it, it)
     }"

definition btstack_linked_list_iterator_remove :: "memory \<Rightarrow> linked_iterator \<Rightarrow> (linked_iterator \<times> memory) option" where
  "btstack_linked_list_iterator_remove m it =
     do {
       pn \<leftarrow> load m (it_prev it);
       if pn \<noteq> it_curr it then None
       else do {
         cn \<leftarrow> load m (it_curr it);
         m \<leftarrow> store m (it_prev it) cn;
         Some (it\<lparr>it_curr := cn, advance_on_next := False\<rparr>, m)
       }
     }"

section \<open>Lists as sequences of addresses\<close>

text \<open>
  \<open>is_list m l as\<close>: the list at \<open>l\<close> has the items \<open>as\<close>.  Each operation is the one on sequences.
\<close>

definition is_list :: "memory \<Rightarrow> addr \<Rightarrow> addr list \<Rightarrow> bool" where
  "is_list m l as \<longleftrightarrow> links m l (l # as)"

lemma is_list_head: "is_list m l as \<longleftrightarrow> l \<noteq> 0 \<and> (\<exists>p. m l = Some p \<and> links m p as)"
  by (auto simp: is_list_def split: option.splits)

lemma load_list: "is_list m l as \<Longrightarrow> load m l = Some (case as of [] \<Rightarrow> 0 | a # _ \<Rightarrow> a)"
  by (cases as) (auto simp: is_list_def load_def split: option.splits)

lemma is_list_distinct: "is_list m l as \<Longrightarrow> distinct (l # as) \<and> 0 \<notin> set (l # as)"
  unfolding is_list_def using links_distinct links_not_null by blast

lemma load_cell: "links m p (a # as) \<Longrightarrow> load m a = Some (case as of [] \<Rightarrow> 0 | b # _ \<Rightarrow> b)"
  by (cases as) (auto simp: load_def split: option.splits)

lemma links_ConsE:
  assumes "links m p (a # as)"
  obtains "p = a" "a \<noteq> 0" "load m a = Some (case as of [] \<Rightarrow> 0 | b # _ \<Rightarrow> b)"
    "links m (case as of [] \<Rightarrow> 0 | b # _ \<Rightarrow> b) as"
  using assms load_cell [OF assms] by (cases as) (auto split: option.splits)

lemma empty_spec: "is_list m l as \<Longrightarrow> btstack_linked_list_empty m l = Some (as = [])"
  using is_list_distinct [of m l as]
  by (cases as) (auto simp: btstack_linked_list_empty_def load_list)

lemma last_item_loop_spec:
  "links m p as \<Longrightarrow> last_item_loop m p x = Some (if as = [] then x else last as)"
proof (induction as arbitrary: p x)
  case Nil
  then show ?case by (simp add: last_item_loop.simps)
next
  case (Cons a as)
  from Cons.prems show ?case
    by (rule links_ConsE) (subst last_item_loop.simps, auto simp: Cons.IH)
qed

lemma member_loop_spec: "links m p as \<Longrightarrow> member_loop m x p = Some (x \<in> set as \<and> x \<noteq> 0)"
proof (induction as arbitrary: p)
  case Nil
  then show ?case by (simp add: member_loop.simps)
next
  case (Cons a as)
  from Cons.prems show ?case
    by (rule links_ConsE) (subst member_loop.simps, auto simp: Cons.IH)
qed

lemma tail_loop_spec:
  "links m p (a # as) \<Longrightarrow> tail_loop m x a = Some (if x \<in> set as then None else Some (last (a # as)))"
proof (induction as arbitrary: p a)
  case Nil
  then show ?case by (rule links_ConsE) (subst tail_loop.simps, simp)
next
  case (Cons b as)
  from Cons.prems show ?case
  proof (rule links_ConsE)
    assume "load m a = Some (case b # as of [] \<Rightarrow> 0 | b # _ \<Rightarrow> b)" "links m (case b # as of [] \<Rightarrow> 0 | b # _ \<Rightarrow> b) (b # as)"
    moreover from this(2) have "b \<noteq> 0" by (auto split: option.splits)
    ultimately show ?thesis using Cons.IH [of b b] by (subst tail_loop.simps) auto
  qed
qed

lemma count_loop_spec: "links m p (a # as) \<Longrightarrow> count_loop m a n = Some (n + length as)"
proof (induction as arbitrary: p a n)
  case Nil
  then show ?case by (rule links_ConsE) (subst count_loop.simps, simp)
next
  case (Cons b as)
  from Cons.prems show ?case
  proof (rule links_ConsE)
    assume "load m a = Some (case b # as of [] \<Rightarrow> 0 | b # _ \<Rightarrow> b)" "links m (case b # as of [] \<Rightarrow> 0 | b # _ \<Rightarrow> b) (b # as)"
    moreover from this(2) have "b \<noteq> 0" by (auto split: option.splits)
    ultimately show ?thesis using Cons.IH [of b b] by (subst count_loop.simps) auto
  qed
qed

text \<open>Changing one pointer: appending a fresh cell and taking a cell out.\<close>

definition head_of :: "addr list \<Rightarrow> addr" where
  "head_of as = (case as of [] \<Rightarrow> 0 | a # _ \<Rightarrow> a)"

lemma links_append_cell:
  assumes "links m p (xs @ [b])" and "a \<notin> set (xs @ [b])" and "a \<noteq> 0"
  shows "links (m(a \<mapsto> 0, b \<mapsto> a)) p (xs @ [b, a])"
proof -
  have "b \<notin> set xs" using links_distinct [OF assms(1)] by simp
  with assms show ?thesis by (auto simp: seg_append split: option.splits)
qed

lemma links_head: "links m p as \<Longrightarrow> p = head_of as"
  by (cases as) (auto simp: head_of_def)

lemma links_unlink:
  assumes "links m p (xs @ [b] @ r # rs)"
  shows "load m b = Some r" and "load m r = Some (head_of rs)"
    and "links (m(b \<mapsto> head_of rs)) p (xs @ [b] @ rs)"
proof -
  from assms obtain q where q: "seg m p xs b" "b \<noteq> 0" "m b = Some r" "r \<noteq> 0" "m r = Some q" "links m q rs"
    by (auto simp: seg_append split: option.splits)
  have d: "b \<notin> set xs" "b \<notin> set rs" using links_distinct [OF assms] by auto
  show "load m b = Some r" "load m r = Some (head_of rs)"
    using q links_head [OF q(6)] by (simp_all add: load_def)
  show "links (m(b \<mapsto> head_of rs)) p (xs @ [b] @ rs)"
    using q d links_head [OF q(6)] by (simp add: seg_append)
qed

lemma store_Some: "a \<noteq> 0 \<Longrightarrow> m a \<noteq> None \<Longrightarrow> store m a v = Some (m(a \<mapsto> v))"
  by (simp add: store_def)

lemma load_Some: "load m a = Some v \<Longrightarrow> a \<noteq> 0 \<and> m a \<noteq> None"
  by (auto simp: load_def split: if_splits)

lemma add_spec:
  assumes "is_list m l as" and "item \<noteq> 0" and "m item \<noteq> None" and "item \<noteq> l"
  shows "item \<in> set as \<Longrightarrow> btstack_linked_list_add m l item = Some (False, m)"
    and "item \<notin> set as \<Longrightarrow> btstack_linked_list_add m l item = Some (True, m(item \<mapsto> head_of as, l \<mapsto> item))
      \<and> is_list (m(item \<mapsto> head_of as, l \<mapsto> item)) l (item # as)"
proof -
  from assms(1) obtain p where p: "l \<noteq> 0" "m l = Some p" "links m p as" by (auto simp: is_list_head)
  have d: "l \<notin> set as" using is_list_distinct [OF assms(1)] by simp
  note mem = member_loop_spec [OF p(3), of item] links_head [OF p(3)]
  show "item \<in> set as \<Longrightarrow> btstack_linked_list_add m l item = Some (False, m)"
    using p mem assms(2) by (simp add: btstack_linked_list_add_def load_def)
  show "item \<notin> set as \<Longrightarrow> btstack_linked_list_add m l item = Some (True, m(item \<mapsto> head_of as, l \<mapsto> item))
      \<and> is_list (m(item \<mapsto> head_of as, l \<mapsto> item)) l (item # as)"
    using p mem assms(2-4) d by (auto simp: btstack_linked_list_add_def load_def store_def is_list_head)
qed

lemma add_tail_spec:
  assumes "is_list m l as" and "item \<noteq> 0" and "m item \<noteq> None" and "item \<noteq> l"
  shows "item \<in> set as \<Longrightarrow> btstack_linked_list_add_tail m l item = Some (False, m)"
    and "item \<notin> set as \<Longrightarrow> \<exists>m'. btstack_linked_list_add_tail m l item = Some (True, m') \<and> is_list m' l (as @ [item])"
proof -
  have l: "links m l (l # as)" using assms(1) by (simp add: is_list_def)
  note t = tail_loop_spec [OF l, of item]
  show "item \<in> set as \<Longrightarrow> btstack_linked_list_add_tail m l item = Some (False, m)"
    using t by (simp add: btstack_linked_list_add_tail_def)
  assume out: "item \<notin> set as"
  obtain xs b where xs: "l # as = xs @ [b]" by (metis list.distinct(1) rev_exhaust)
  have "b \<in> set (l # as)" unfolding xs by simp
  with links_not_null [OF l] links_readable [OF l] out assms(4) have b: "b \<noteq> 0" "m b \<noteq> None" "item \<noteq> b"
    by (metis, blast, auto)
  have "item \<notin> set (xs @ [b])" using out assms(4) by (simp add: xs [symmetric])
  from links_append_cell [OF l [unfolded xs] this assms(2)]
  moreover have "l # as @ [item] = xs @ [b, item]" using arg_cong [OF xs, of "\<lambda>z. z @ [item]"] by simp
  ultimately have "is_list (m(item \<mapsto> 0, b \<mapsto> item)) l (as @ [item])"
    unfolding is_list_def by (simp only:)
  moreover have "last (l # as) = b" using xs by simp
  ultimately show "\<exists>m'. btstack_linked_list_add_tail m l item = Some (True, m') \<and> is_list m' l (as @ [item])"
    using t out b assms(2,3)
    by (simp add: btstack_linked_list_add_tail_def store_Some del: last.simps fun_upd_apply)
       (simp add: store_def)
qed

lemma remove_loop_spec:
  assumes "links m p (a # as)" and "x \<noteq> 0"
  shows "\<exists>m'. remove_loop m x a = Some (x \<in> set as, m') \<and> links m' p (a # remove1 x as)
    \<and> (\<forall>c. c \<notin> set (a # as) \<longrightarrow> m' c = m c)"
  using assms(1)
proof (induction as arbitrary: p a)
  case Nil
  then show ?case
    by (rule links_ConsE) (subst remove_loop.simps, use Nil assms(2) in \<open>simp add: remove_loop.simps\<close>)
next
  case (Cons b as)
  from links_unlink [of m p "[]" a b as] Cons.prems
  have u: "load m a = Some b" "load m b = Some (head_of as)" "links (m(a \<mapsto> head_of as)) p (a # as)" by simp_all
  have d: "a \<notin> set (b # as)" "p = a" "a \<noteq> 0" using links_distinct [OF Cons.prems] Cons.prems by auto
  have sub: "links m b (b # as)" using Cons.prems u(1) by (auto simp: load_def split: option.splits if_splits)
  show ?case
  proof (cases "b = x")
    case True
    with u d load_Some [OF u(1)] show ?thesis
      by (subst remove_loop.simps) (auto simp: store_Some)
  next
    case False
    from Cons.IH [OF sub] obtain m' where m': "remove_loop m x b = Some (x \<in> set as, m')"
      "links m' b (b # remove1 x as)" "\<forall>c. c \<notin> set (b # as) \<longrightarrow> m' c = m c" by blast
    have "m' a = Some b" using m'(3) d(1) load_Some [OF u(1)] u(1) by (auto simp: load_def split: if_splits)
    with m' d False u(1) show ?thesis
      by (subst remove_loop.simps) auto
  qed
qed

lemma remove_spec:
  assumes "is_list m l as"
  shows "\<exists>m'. btstack_linked_list_remove m l item = Some (item \<in> set as, m') \<and> is_list m' l (remove1 item as)"
proof (cases "item = 0")
  case True
  with assms is_list_distinct [OF assms] show ?thesis
    by (simp add: btstack_linked_list_remove_def remove1_idem)
next
  case False
  with remove_loop_spec [of m l l as item] assms show ?thesis
    by (auto simp: btstack_linked_list_remove_def is_list_def)
qed

lemma pop_spec:
  assumes "is_list m l as"
  shows "\<exists>m'. btstack_linked_list_pop m l = Some (head_of as, m') \<and> is_list m' l (tl as)"
proof (cases as)
  case Nil
  with assms load_list [OF assms] show ?thesis by (simp add: btstack_linked_list_pop_def head_of_def)
next
  case (Cons a bs)
  from links_unlink [of m l "[]" l a bs] assms Cons
  have u: "load m l = Some a" "load m a = Some (head_of bs)" "links (m(l \<mapsto> head_of bs)) l (l # bs)"
    by (simp_all add: is_list_def)
  with load_Some [OF u(1)] load_Some [OF u(2)] Cons show ?thesis
    by (simp add: btstack_linked_list_pop_def store_Some is_list_def head_of_def)
qed

section \<open>Splitting\<close>

lemma seg_cong_links: "links m p xs \<Longrightarrow> (\<And>a. a \<in> set xs \<Longrightarrow> m' a = m a) \<Longrightarrow> links m' p xs"
  using seg_cong [of xs m m' p 0] by auto

lemma split_loop_spec:
  assumes "is_list m c as" and "links m a (xs @ [lm])" and "links m b (ys @ [lo])"
    and "distinct (c # as @ (xs @ [lm]) @ ys @ [lo])"
  shows "\<exists>m'. split_loop P c m lm lo = Some m' \<and> m' c = Some 0
    \<and> links m' a (xs @ [lm] @ filter P as) \<and> links m' b (ys @ [lo] @ filter (\<lambda>a. \<not> P a) as)"
  using assms
proof (induction as arbitrary: m xs lm ys lo)
  case Nil
  then show ?case by (subst split_loop.simps) (auto simp: is_list_head load_def)
next
  case (Cons r as)
  from links_unlink [of m c "[]" c r as] Cons.prems(1)
  have u: "load m c = Some r" "load m r = Some (head_of as)" "is_list (m(c \<mapsto> head_of as)) c as"
    by (simp_all add: is_list_def)
  have nz: "r \<noteq> 0" "c \<noteq> 0" "m r \<noteq> None" "m c \<noteq> None" using load_Some [OF u(2)] load_Some [OF u(1)] by auto
  have l: "lm \<noteq> 0" "m lm \<noteq> None" "lo \<noteq> 0" "m lo \<noteq> None"
    using links_not_null [OF Cons.prems(2)] links_readable [OF Cons.prems(2)]
      links_not_null [OF Cons.prems(3)] links_readable [OF Cons.prems(3)] by auto
  have d: "r \<noteq> c" "r \<noteq> lm" "r \<noteq> lo" "c \<noteq> lm" "c \<noteq> lo" "lm \<noteq> lo" using Cons.prems(4) by auto
  let ?m = "m(c \<mapsto> head_of as, r \<mapsto> 0)"
  have step: "split_loop P c m lm lo =
      (if P r then split_loop P c (?m(lm \<mapsto> r)) r lo else split_loop P c (?m(lo \<mapsto> r)) lm r)"
    using u nz l d by (subst split_loop.simps) (simp add: store_Some)
  have keep: "is_list (?m(x \<mapsto> r)) c as" if "x \<notin> set (c # as)" for x
    unfolding is_list_def
    by (rule seg_cong_links [OF u(3) [unfolded is_list_def]]) (use that Cons.prems(4) in auto)
  show ?case
  proof (cases "P r")
    case True
    have "links (m(r \<mapsto> 0, lm \<mapsto> r)) a (xs @ [lm, r])"
      by (rule links_append_cell [OF Cons.prems(2)]) (use Cons.prems(4) nz in auto)
    then have "links (?m(lm \<mapsto> r)) a (xs @ [lm, r])"
      by (rule seg_cong_links) (use Cons.prems(4) in auto)
    then have "links (?m(lm \<mapsto> r)) a ((xs @ [lm]) @ [r])" by (simp only: append.assoc append_Cons append_Nil)
    moreover have "links (?m(lm \<mapsto> r)) b (ys @ [lo])"
      by (rule seg_cong_links [OF Cons.prems(3)]) (use Cons.prems(4) in auto)
    moreover have "is_list (?m(lm \<mapsto> r)) c as" by (rule keep) (use Cons.prems(4) in auto)
    moreover have "distinct (c # as @ ((xs @ [lm]) @ [r]) @ ys @ [lo])" using Cons.prems(4) by auto
    ultimately obtain m' where "split_loop P c (?m(lm \<mapsto> r)) r lo = Some m'" "m' c = Some 0"
      "links m' a ((xs @ [lm]) @ [r] @ filter P as)" "links m' b (ys @ [lo] @ filter (\<lambda>a. \<not> P a) as)"
      using Cons.IH by blast
    with step True show ?thesis by auto
  next
    case False
    have "links (m(r \<mapsto> 0, lo \<mapsto> r)) b (ys @ [lo, r])"
      by (rule links_append_cell [OF Cons.prems(3)]) (use Cons.prems(4) nz in auto)
    then have "links (?m(lo \<mapsto> r)) b (ys @ [lo, r])"
      by (rule seg_cong_links) (use Cons.prems(4) in auto)
    then have "links (?m(lo \<mapsto> r)) b ((ys @ [lo]) @ [r])" by (simp only: append.assoc append_Cons append_Nil)
    moreover have "links (?m(lo \<mapsto> r)) a (xs @ [lm])"
      by (rule seg_cong_links [OF Cons.prems(2)]) (use Cons.prems(4) in auto)
    moreover have "is_list (?m(lo \<mapsto> r)) c as" by (rule keep) (use Cons.prems(4) in auto)
    moreover have "distinct (c # as @ (xs @ [lm]) @ (ys @ [lo]) @ [r])" using Cons.prems(4) by auto
    ultimately obtain m' where "split_loop P c (?m(lo \<mapsto> r)) lm r = Some m'" "m' c = Some 0"
      "links m' a (xs @ [lm] @ filter P as)" "links m' b ((ys @ [lo]) @ [r] @ filter (\<lambda>a. \<not> P a) as)"
      using Cons.IH [where m = "?m(lo \<mapsto> r)" and xs = xs and lm = lm and ys = "ys @ [lo]" and lo = r] by blast
    with step False show ?thesis by auto
  qed
qed

lemma split_spec:
  assumes "is_list m i as" and "distinct (i # x # y # as)" and "0 \<notin> {x, y}" and "m x \<noteq> None" and "m y \<noteq> None"
  shows "\<exists>m'. btstack_linked_list_split m i x y P = Some m' \<and> is_list m' i []
    \<and> is_list m' x (filter P as) \<and> is_list m' y (filter (\<lambda>a. \<not> P a) as)"
proof -
  let ?m = "m(x \<mapsto> 0, y \<mapsto> 0)"
  have i: "is_list ?m i as"
    unfolding is_list_def
    by (rule seg_cong_links [OF assms(1) [unfolded is_list_def]]) (use assms(2) in auto)
  obtain m' where m': "split_loop P i ?m x y = Some m'" "m' i = Some 0"
      "links m' x ([] @ [x] @ filter P as)" "links m' y ([] @ [y] @ filter (\<lambda>a. \<not> P a) as)"
    using split_loop_spec [OF i, of x "[]" x y "[]" y P] assms(2,3) by auto
  have z: "i \<noteq> 0" using is_list_distinct [OF assms(1)] by auto
  have "m'(i \<mapsto> 0) = m'" using m'(2) by auto
  with m' z assms(2-5) show ?thesis
    by (auto simp: btstack_linked_list_split_def store_def is_list_def)
qed

lemma is_list_takes_over:
  assumes "is_list m t as" and "i \<notin> set as" and "i \<noteq> 0" and "m i \<noteq> None"
  shows "\<exists>p. load m t = Some p \<and> store m i p = Some (m(i \<mapsto> p)) \<and> is_list (m(i \<mapsto> p)) i as"
  using assms by (auto simp: is_list_head load_def store_def)

section \<open>Traversal with removal\<close>

text \<open>
  The loop that the stack writes around the iterator: visit every item, and remove the current one
  when a condition holds.  The result is the items visited and the memory.
\<close>

partial_function (option) sweep ::
    "(addr \<Rightarrow> bool) \<Rightarrow> memory \<Rightarrow> linked_iterator \<Rightarrow> addr list \<Rightarrow> (addr list \<times> memory) option" where
  "sweep drops m it visited =
     do {
       more \<leftarrow> btstack_linked_list_iterator_has_next m it;
       if \<not> more then Some (visited, m)
       else do {
         (item, it) \<leftarrow> btstack_linked_list_iterator_next m it;
         if drops item
         then do {
           (it, m) \<leftarrow> btstack_linked_list_iterator_remove m it;
           sweep drops m it (visited @ [item])
         }
         else sweep drops m it (visited @ [item])
       }
     }"

lemma is_list_unlink:
  assumes "is_list m l (ks @ r # rs)"
  defines "b \<equiv> last (l # ks)"
  shows "load m b = Some r" and "load m r = Some (head_of rs)" and "is_list (m(b \<mapsto> head_of rs)) l (ks @ rs)"
    and "store m b v = Some (m(b \<mapsto> v))"
proof -
  obtain xs where xs: "l # ks = xs @ [b]" unfolding b_def by (metis append_butlast_last_id list.distinct(1))
  have split: "l # ks @ zs = xs @ [b] @ zs" for zs using arg_cong [OF xs, of "\<lambda>z. z @ zs"] by simp
  from assms(1) have l: "links m l (xs @ [b] @ r # rs)" unfolding is_list_def split .
  note u = links_unlink [OF l]
  show "load m b = Some r" "load m r = Some (head_of rs)" by (rule u)+
  show "is_list (m(b \<mapsto> head_of rs)) l (ks @ rs)"
    unfolding is_list_def split by (rule u)
  show "store m b v = Some (m(b \<mapsto> v))" using load_Some [OF u(1)] by (simp add: store_Some)
qed

lemma head_of_simps [simp]: "head_of [] = 0" "head_of (a # as) = a"
  by (simp_all add: head_of_def)

lemma sweep_spec:
  "(is_list m l (ks @ rs) \<longrightarrow>
     (\<exists>m'. sweep P m \<lparr>advance_on_next = False, it_prev = last (l # ks), it_curr = head_of rs\<rparr> v = Some (v @ rs, m')
       \<and> is_list m' l (ks @ filter (\<lambda>a. \<not> P a) rs)))
   \<and> (is_list m l (ks @ c # rs) \<longrightarrow>
     (\<exists>m'. sweep P m \<lparr>advance_on_next = True, it_prev = last (l # ks), it_curr = c\<rparr> v = Some (v @ rs, m')
       \<and> is_list m' l (ks @ c # filter (\<lambda>a. \<not> P a) rs)))"
proof (induction rs arbitrary: m ks c v)
  case Nil
  have "is_list m l (ks @ [c]) \<Longrightarrow> load m (last (l # ks)) = Some c \<and> load m c = Some 0"
    using is_list_unlink(1,2) [of m l ks c "[]"] by simp
  then show ?case
    by (subst (1 2) sweep.simps) (auto simp: btstack_linked_list_iterator_has_next_def)
next
  case (Cons r rs)
  have nz: "r \<noteq> 0" if "is_list m l (xs @ r # rs)" for xs
    using is_list_distinct [OF that] by auto
  note IH1 = Cons.IH [THEN conjunct1, THEN mp] and IH2 = Cons.IH [THEN conjunct2, THEN mp]
  show ?case
  proof (intro conjI impI)
    assume a: "is_list m l (ks @ r # rs)"
    note u = is_list_unlink [OF a]
    let ?b = "last (l # ks)"
    have step: "sweep P m \<lparr>advance_on_next = False, it_prev = ?b, it_curr = head_of (r # rs)\<rparr> v =
        (if P r then sweep P (m(?b \<mapsto> head_of rs)) \<lparr>advance_on_next = False, it_prev = ?b, it_curr = head_of rs\<rparr> (v @ [r])
         else sweep P m \<lparr>advance_on_next = True, it_prev = ?b, it_curr = r\<rparr> (v @ [r]))"
      using u(1,2,4) nz [OF a]
      by (subst sweep.simps) (simp add: btstack_linked_list_iterator_has_next_def
          btstack_linked_list_iterator_next_def btstack_linked_list_iterator_remove_def)
    show "\<exists>m'. sweep P m \<lparr>advance_on_next = False, it_prev = ?b, it_curr = head_of (r # rs)\<rparr> v = Some (v @ r # rs, m')
        \<and> is_list m' l (ks @ filter (\<lambda>a. \<not> P a) (r # rs))"
    proof (cases "P r")
      case True
      from IH1 [OF u(3), of "v @ [r]"] True step show ?thesis
        by (simp add: o_def del: fun_upd_apply)
    next
      case False
      from IH2 [OF a, of "v @ [r]"] False step show ?thesis
        by (simp add: o_def del: fun_upd_apply)
    qed
  next
    assume a: "is_list m l (ks @ c # r # rs)"
    note u = is_list_unlink(1,2) [OF a]
    from a have a': "is_list m l ((ks @ [c]) @ r # rs)" by simp
    note w = is_list_unlink [OF a', simplified]
    have step: "sweep P m \<lparr>advance_on_next = True, it_prev = last (l # ks), it_curr = c\<rparr> v =
        (if P r then sweep P (m(c \<mapsto> head_of rs)) \<lparr>advance_on_next = False, it_prev = c, it_curr = head_of rs\<rparr> (v @ [r])
         else sweep P m \<lparr>advance_on_next = True, it_prev = c, it_curr = r\<rparr> (v @ [r]))"
      using u w(1,2,4) nz [OF a']
      by (subst sweep.simps) (simp add: btstack_linked_list_iterator_has_next_def
          btstack_linked_list_iterator_next_def btstack_linked_list_iterator_remove_def)
    show "\<exists>m'. sweep P m \<lparr>advance_on_next = True, it_prev = last (l # ks), it_curr = c\<rparr> v = Some (v @ r # rs, m')
        \<and> is_list m' l (ks @ c # filter (\<lambda>a. \<not> P a) (r # rs))"
    proof (cases "P r")
      case True
      from IH1 [of _ "ks @ [c]", simplified, OF w(3), of "v @ [r]"] True step show ?thesis
        by (simp add: o_def del: fun_upd_apply)
    next
      case False
      from IH2 [OF a', of "v @ [r]"] False step show ?thesis
        by (simp add: o_def del: fun_upd_apply)
    qed
  qed
qed

section \<open>Properties\<close>

lemma list_queries:
  assumes "is_list m l as"
  shows "btstack_linked_list_count m l = Some (length as)"
    and "btstack_linked_list_get_first_item m l = Some (head_of as)"
    and "btstack_linked_list_get_last_item m l = Some (last (0 # as))"
proof -
  obtain p where p: "l \<noteq> 0" "m l = Some p" "links m p as" using assms by (auto simp: is_list_head)
  show "btstack_linked_list_count m l = Some (length as)"
    using count_loop_spec [of m l l as 0] assms by (simp add: btstack_linked_list_count_def is_list_def)
  show "btstack_linked_list_get_first_item m l = Some (head_of as)"
    using p links_head [OF p(3)] by (simp add: btstack_linked_list_get_first_item_def load_def)
  show "btstack_linked_list_get_last_item m l = Some (last (0 # as))"
    using p last_item_loop_spec [OF p(3), of 0] by (simp add: btstack_linked_list_get_last_item_def load_def)
qed

text \<open>
  \<open>btstack_linked_list_filter\<close> ends and partitions the list: the items with the
  property go to the second list, the others stay, and both keep the order they had.
\<close>

lemma filter_spec:
  assumes "is_list m i as" and "distinct (i # x # t # as)" and "0 \<notin> {x, t}" and "m x \<noteq> None" and "m t \<noteq> None"
  shows "\<exists>m'. btstack_linked_list_filter m t i x P = Some m'
    \<and> is_list m' i (filter (\<lambda>a. \<not> P a) as) \<and> is_list m' x (filter P as)"
proof -
  have i: "is_list (m(t \<mapsto> 0)) i as"
    unfolding is_list_def
    by (rule seg_cong_links [OF assms(1) [unfolded is_list_def]]) (use assms(2) in auto)
  obtain m' where m': "btstack_linked_list_split (m(t \<mapsto> 0)) i x t P = Some m'" "is_list m' i []"
      "is_list m' x (filter P as)" "is_list m' t (filter (\<lambda>a. \<not> P a) as)"
    using split_spec [OF i assms(2,3), of P] assms(2,4) by auto
  have z: "i \<noteq> 0" "m' i \<noteq> None" using m'(2) by (auto simp: is_list_head)
  obtain p where p: "load m' t = Some p" "store m' i p = Some (m'(i \<mapsto> p))"
      "is_list (m'(i \<mapsto> p)) i (filter (\<lambda>a. \<not> P a) as)"
    using is_list_takes_over [OF m'(4) _ z] assms(2) by auto
  have "is_list (m'(i \<mapsto> p)) x (filter P as)"
    unfolding is_list_def
    by (rule seg_cong_links [OF m'(3) [unfolded is_list_def]]) (use assms(2) in auto)
  with p m'(1) assms(3,5) show ?thesis
    by (auto simp: btstack_linked_list_filter_def store_def)
qed

text \<open>The item in front of another one, 0 (that is, \<open>NULL\<close>) when there is none.\<close>

fun before :: "addr \<Rightarrow> addr list \<Rightarrow> addr" where
  "before x (a # b # as) = (if b = x then a else before x (b # as))"
| "before x _ = 0"

lemma previous_loop_spec: "links m p as \<Longrightarrow> x \<noteq> 0 \<Longrightarrow> previous_loop m x p = Some (before x as)"
proof (induction as arbitrary: p)
  case Nil
  then show ?case by (simp add: previous_loop.simps)
next
  case (Cons a as)
  then obtain n where n: "p = a" "a \<noteq> 0" "load m a = Some n" "links m n as"
    by (auto simp: load_def split: option.splits)
  with Cons.IH [OF n(4) Cons.prems(2)] Cons.prems(2) show ?case
    by (cases as) (auto simp: previous_loop.simps [of m x a] previous_loop.simps [of m x 0])
qed

text \<open>
  Property C23.  The intrusive lists of BTstack are sequences: on a well formed list every
  operation returns, and it is the operation on the sequence of its items.  \<open>add\<close> and \<open>add_tail\<close>
  refuse an item that is already there, \<open>remove\<close> takes out the one occurrence and says whether there
  was one, \<open>pop\<close> takes the first item and gives \<open>NULL\<close> on an empty list; \<open>count\<close>, \<open>empty\<close> and the three
  \<open>get\<close> operations read the sequence.  For two further head pointers \<open>x\<close> and \<open>t\<close>, \<open>split\<close> moves the items
  with the property to \<open>x\<close> and the others to \<open>t\<close>, and \<open>filter\<close> (\<open>t\<close> is its local variable) moves the items
  with the property to \<open>x\<close> and keeps the others, each in the order they had.  The iterator is the
  subject of the next property.
\<close>

theorem linked_list_is_sequence:
  assumes "is_list m l as" and "item \<noteq> 0" and "m item \<noteq> None" and "item \<noteq> l"
  shows "btstack_linked_list_count m l = Some (length as)
    \<and> btstack_linked_list_empty m l = Some (as = [])
    \<and> btstack_linked_list_get_first_item m l = Some (head_of as)
    \<and> btstack_linked_list_get_last_item m l = Some (last (0 # as))
    \<and> btstack_linked_list_get_previous_item m l item = Some (before item as)
    \<and> (\<exists>m'. btstack_linked_list_pop m l = Some (head_of as, m') \<and> is_list m' l (tl as))
    \<and> (\<exists>m'. btstack_linked_list_add m l item = Some (item \<notin> set as, m')
          \<and> is_list m' l (if item \<in> set as then as else item # as))
    \<and> (\<exists>m'. btstack_linked_list_add_tail m l item = Some (item \<notin> set as, m')
          \<and> is_list m' l (if item \<in> set as then as else as @ [item]))
    \<and> (\<exists>m'. btstack_linked_list_remove m l item = Some (item \<in> set as, m')
          \<and> is_list m' l (remove1 item as))
    \<and> (\<forall>x t P. distinct (l # x # t # as) \<and> 0 \<notin> {x, t} \<and> m x \<noteq> None \<and> m t \<noteq> None \<longrightarrow>
          (\<exists>m'. btstack_linked_list_split m l x t P = Some m' \<and> is_list m' l []
            \<and> is_list m' x (filter P as) \<and> is_list m' t (filter (\<lambda>a. \<not> P a) as))
        \<and> (\<exists>m'. btstack_linked_list_filter m t l x P = Some m'
            \<and> is_list m' l (filter (\<lambda>a. \<not> P a) as) \<and> is_list m' x (filter P as)))"
proof -
  have prev: "btstack_linked_list_get_previous_item m l item = Some (before item as)"
    using assms(1,2) previous_loop_spec
    by (auto simp: is_list_head btstack_linked_list_get_previous_item_def load_def)
  have parts: "(\<exists>m'. btstack_linked_list_split m l x t P = Some m' \<and> is_list m' l []
            \<and> is_list m' x (filter P as) \<and> is_list m' t (filter (\<lambda>a. \<not> P a) as))
        \<and> (\<exists>m'. btstack_linked_list_filter m t l x P = Some m'
            \<and> is_list m' l (filter (\<lambda>a. \<not> P a) as) \<and> is_list m' x (filter P as))"
    if "distinct (l # x # t # as) \<and> 0 \<notin> {x, t} \<and> m x \<noteq> None \<and> m t \<noteq> None" for x t P
    using split_spec [OF assms(1), of x t P] filter_spec [OF assms(1), of x t P] that by blast
  show ?thesis
    using list_queries [OF assms(1)] empty_spec [OF assms(1)] pop_spec [OF assms(1)] prev parts
      add_spec [OF assms] add_tail_spec [OF assms] remove_spec [OF assms(1), of item] assms(1)
    by (cases "item \<in> set as") auto
qed

text \<open>A list of two items at the head pointer 1, and a free item.\<close>

definition demo_memory :: memory where
  "demo_memory = [1 \<mapsto> 2, 2 \<mapsto> 3, 3 \<mapsto> 0, 4 \<mapsto> 0, 5 \<mapsto> 0]"

lemma demo_list: "is_list demo_memory 1 [2, 3]"
  by (simp add: is_list_def demo_memory_def)

lemma linked_list_is_sequence_witness:
  "(\<exists>m'. btstack_linked_list_add_tail demo_memory 1 4 = Some (True, m') \<and> is_list m' 1 [2, 3, 4])
   \<and> (\<exists>m'. btstack_linked_list_filter demo_memory 5 1 4 even = Some m' \<and> is_list m' 1 [3] \<and> is_list m' 4 [2])"
proof -
  have "4 \<noteq> (0 :: addr)" "demo_memory 4 \<noteq> None" "4 \<noteq> (1 :: addr)" by (simp_all add: demo_memory_def)
  note seq = linked_list_is_sequence [OF demo_list this]
  have ok: "distinct [1, 4, 5, 2, 3 :: addr] \<and> 0 \<notin> {4, 5 :: addr} \<and> demo_memory 4 \<noteq> None \<and> demo_memory 5 \<noteq> None"
    by (simp add: demo_memory_def)
  have "\<exists>m'. btstack_linked_list_add_tail demo_memory 1 4 = Some (True, m') \<and> is_list m' 1 [2, 3, 4]"
    using seq by auto
  moreover have "\<exists>m'. btstack_linked_list_filter demo_memory 5 1 4 even = Some m' \<and> is_list m' 1 [3] \<and> is_list m' 4 [2]"
    using seq [THEN conjunct2, THEN conjunct2, THEN conjunct2, THEN conjunct2, THEN conjunct2, THEN conjunct2,
        THEN conjunct2, THEN conjunct2, THEN conjunct2, rule_format, OF ok, of even, THEN conjunct2] by simp
  ultimately show ?thesis by (rule conjI)
qed

text \<open>
  Property C24.  A walk with the list iterator that removes items on the way visits every item once,
  in order, whichever items are removed, and leaves exactly the others; it always ends.
\<close>

theorem linked_list_iterator_sweep:
  assumes "is_list m l as"
  shows "\<exists>it m'. btstack_linked_list_iterator_init m l = Some it
    \<and> sweep drops m it [] = Some (as, m') \<and> is_list m' l (filter (\<lambda>a. \<not> drops a) as)"
  using sweep_spec [THEN conjunct1, THEN mp, of m l "[]" as drops "[]"] assms load_list [OF assms]
  by (simp add: btstack_linked_list_iterator_init_def head_of_def)

lemma linked_list_iterator_sweep_witness:
  "\<exists>it m'. btstack_linked_list_iterator_init demo_memory 1 = Some it
    \<and> sweep (\<lambda>a. a = 2) demo_memory it [] = Some ([2, 3], m') \<and> is_list m' 1 [3]"
  using linked_list_iterator_sweep [OF demo_list, of "\<lambda>a. a = 2"] by simp

end
