(* ===== verification/HidParser.thy ===== *)
theory HidParser
  imports Prelude
begin

text \<open>
  The reader of HID report descriptors, \<open>btstack_hid_parser.c\<close>: the descriptor iterator, which
  cuts the bytes of a descriptor into items, and the functions that look a report up in a
  descriptor.  \<open>None\<close> is undefined behaviour: an access outside the descriptor, a shift by the
  width of the type, or an \<open>int\<close> that overflows.
\<close>

section \<open>Items\<close>

text \<open>\<open>hid_descriptor_item_t\<close>; \<open>i_value\<close> is an \<open>int32_t\<close>, read with \<open>sint\<close> where its sign matters.\<close>

record hid_item =
  i_value :: u32
  i_size :: u16
  i_type :: u8
  i_tag :: u8
  i_data_size :: u8

text \<open>\<open>TagType\<close>, \<open>MainItemTag\<close>, \<open>GlobalItemTag\<close> and \<open>LocalItemTag\<close>, as far as the code names them.\<close>

abbreviation (input) "TYPE_MAIN \<equiv> (0 :: u8)"
abbreviation (input) "TYPE_GLOBAL \<equiv> (1 :: u8)"
abbreviation (input) "TYPE_LOCAL \<equiv> (2 :: u8)"
abbreviation (input) "TYPE_RESERVED \<equiv> (3 :: u8)"

abbreviation (input) "MAIN_INPUT \<equiv> (8 :: u8)"
abbreviation (input) "MAIN_OUTPUT \<equiv> (9 :: u8)"
abbreviation (input) "MAIN_FEATURE \<equiv> (11 :: u8)"

abbreviation (input) "GLOBAL_USAGE_PAGE \<equiv> (0 :: u8)"
abbreviation (input) "GLOBAL_LOGICAL_MINIMUM \<equiv> (1 :: u8)"
abbreviation (input) "GLOBAL_LOGICAL_MAXIMUM \<equiv> (2 :: u8)"
abbreviation (input) "GLOBAL_REPORT_SIZE \<equiv> (7 :: u8)"
abbreviation (input) "GLOBAL_REPORT_ID \<equiv> (8 :: u8)"
abbreviation (input) "GLOBAL_REPORT_COUNT \<equiv> (9 :: u8)"

abbreviation (input) "LOCAL_USAGE \<equiv> (0 :: u8)"
abbreviation (input) "LOCAL_USAGE_MINIMUM \<equiv> (1 :: u8)"
abbreviation (input) "LOCAL_USAGE_MAXIMUM \<equiv> (2 :: u8)"

datatype hid_report_type = REPORT_RESERVED | REPORT_INPUT | REPORT_OUTPUT | REPORT_FEATURE

abbreviation (input) "HID_REPORT_ID_UNDEFINED \<equiv> (0xffff :: u16)"

definition hid_item_sizes :: "u8 list" where
  "hid_item_sizes = [0, 1, 2, 4]"

definition signed_item :: "hid_item \<Rightarrow> bool" where
  "signed_item it \<longleftrightarrow> i_type it = TYPE_GLOBAL \<and> 0 < i_tag it \<and> i_tag it < 5"

text \<open>
  The loop over the data bytes: the value so far and the byte read last.  \<open>latest_byte << (8*i)\<close> is a
  shift of an \<open>int\<close>, so it is undefined when the result does not fit: for the fourth byte when its
  top bit is set.
\<close>

definition value_step :: "bytes \<Rightarrow> nat \<Rightarrow> nat \<Rightarrow> u32 \<times> u8 \<Rightarrow> (u32 \<times> u8) option" where
  "value_step d pos i vl = do {
     b \<leftarrow> rd d (pos + i);
     if unat b * 2 ^ (8 * i) < 2 ^ 31 then Some (push_bit (8 * i) (ucast b) OR fst vl, b) else None }"

text \<open>The sign extension; \<open>1u << 32\<close> is undefined.\<close>

definition extend_sign :: "hid_item \<Rightarrow> u32 \<times> u8 \<Rightarrow> u32 option" where
  "extend_sign it vl =
     (if signed_item it \<and> i_data_size it > 0 \<and> snd vl AND 0x80 \<noteq> 0
      then if i_data_size it * 8 \<ge> 32 then None
           else Some (fst vl - push_bit (unat (i_data_size it * 8)) 1)
      else Some (fst vl))"

definition parse_value :: "hid_item \<Rightarrow> bytes \<Rightarrow> u16 \<Rightarrow> nat \<Rightarrow> (bool \<times> hid_item) option" where
  "parse_value it0 d len pos =
     (let it = it0\<lparr>i_size := of_nat pos + ucast (i_data_size it0), i_value := 0\<rparr>
      in if len < i_size it then Some (False, it)
         else if i_data_size it > 4 then Some (False, it)
         else do {
           vl \<leftarrow> foldM (value_step d pos) [0..<unat (i_data_size it)] (0, 0);
           v \<leftarrow> extend_sign it vl;
           Some (True, it\<lparr>i_value := v\<rparr>) })"

definition parse_item :: "hid_item \<Rightarrow> bytes \<Rightarrow> u16 \<Rightarrow> (bool \<times> hid_item) option" where
  "parse_item it0 d len =
     (if len < 1 then Some (False, it0)
      else do {
        h \<leftarrow> rd d 0;
        let it = it0\<lparr>i_data_size := hid_item_sizes ! unat (h AND 0x03),
                     i_type := drop_bit 2 (h AND 0x0c), i_tag := drop_bit 4 (h AND 0xf0)\<rparr>;
        if i_data_size it = 2 \<and> i_tag it = 0x0f \<and> i_type it = 3
        then if len < 3 then Some (False, it)
             else do {
               n \<leftarrow> rd d 1;
               t \<leftarrow> rd d 2;
               parse_value (it\<lparr>i_data_size := n, i_tag := t\<rparr>) d len 3 }
        else parse_value it d len 1 })"

section \<open>The descriptor iterator\<close>

record hid_iterator =
  it_descriptor :: bytes
  it_pos :: u16
  it_len :: u16
  it_ready :: bool
  it_valid :: bool
  it_item :: hid_item

definition no_item :: hid_item where
  "no_item = \<lparr>i_value = 0, i_size = 0, i_type = 0, i_tag = 0, i_data_size = 0\<rparr>"

text \<open>
  \<open>btstack_hid_descriptor_iterator_init\<close>.  The C code leaves the item of the iterator as it is; it
  is written before it is read (\<open>iterator_has_more\<close> parses into it), so it starts as \<open>no_item\<close>.
\<close>

definition iterator_init :: "bytes \<Rightarrow> u16 \<Rightarrow> hid_iterator" where
  "iterator_init d len = \<lparr>it_descriptor = d, it_pos = 0, it_len = len, it_ready = False,
     it_valid = True, it_item = no_item\<rparr>"

definition iterator_has_more :: "hid_iterator \<Rightarrow> (bool \<times> hid_iterator) option" where
  "iterator_has_more it =
     (if \<not> it_ready it \<and> it_len it > it_pos it
      then do {
        (ok, item) \<leftarrow> parse_item (it_item it) (drop (unat (it_pos it)) (it_descriptor it))
                         (it_len it - it_pos it);
        let it = it\<lparr>it_item := item\<rparr>;
        if ok then Some (True, it\<lparr>it_ready := True\<rparr>)
        else Some (False, it\<lparr>it_valid := False\<rparr>) }
      else Some (it_ready it, it))"

definition iterator_get_item :: "hid_iterator \<Rightarrow> hid_item \<times> hid_iterator" where
  "iterator_get_item it =
     (it_item it, it\<lparr>it_pos := it_pos it + i_size (it_item it), it_ready := False\<rparr>)"

definition iterator_valid :: "hid_iterator \<Rightarrow> bool" where
  "iterator_valid it = it_valid it"

lemma unat_ucast8_16: "unat (ucast (x :: u8) :: u16) = unat x"
  using unsigned_less [of x, where ?'a = nat] by (simp add: unsigned_ucast_eq take_bit_nat_eq_self)

lemma parse_value_size:
  "parse_value it d len pos = Some (True, it') \<Longrightarrow> i_size it' \<le> len \<and> i_data_size it' \<le> 4
     \<and> i_size it' = of_nat pos + ucast (i_data_size it')"
  by (auto simp: parse_value_def Let_def bind_eq_Some_conv not_less split: if_splits)

lemma parse_item_size:
  assumes "parse_item it d len = Some (True, it')"
  shows "0 < i_size it'" and "i_size it' \<le> len"
proof -
  from assms obtain it0 pos where "parse_value it0 d len pos = Some (True, it')" "pos = 1 \<or> pos = 3"
    by (auto simp: parse_item_def Let_def bind_eq_Some_conv split: if_splits)
  from parse_value_size [OF this(1)] this(2)
  have le: "i_size it' \<le> len" "i_data_size it' \<le> 4"
    and eq: "i_size it' = of_nat pos + ucast (i_data_size it')" "pos = 1 \<or> pos = 3" by auto
  have "unat (ucast (i_data_size it') :: u16) \<le> 4"
    using le(2) by (simp add: word_le_nat_alt unat_ucast8_16)
  then have "unat (i_size it') = pos + unat (ucast (i_data_size it') :: u16)"
    using eq by (auto simp: unat_word_ariths)
  then show "0 < i_size it'" using eq(2) by (auto simp: word_gt_0 unat_gt_0)
  show "i_size it' \<le> len" by (rule le)
qed

definition items_left :: "hid_iterator \<Rightarrow> nat" where
  "items_left it = unat (it_len it) - unat (it_pos it)"

lemma iterator_progress:
  assumes "iterator_has_more it = Some (True, it1)" and "\<not> it_ready it"
  shows "unat (it_pos it) + unat (i_size (it_item it1)) \<le> unat (it_len it)"
    and "0 < unat (i_size (it_item it1))"
    and "it_pos it1 = it_pos it" and "it_len it1 = it_len it" and "it_descriptor it1 = it_descriptor it"
    and "it_valid it1 = it_valid it"
    and "parse_item (it_item it) (drop (unat (it_pos it)) (it_descriptor it)) (it_len it - it_pos it)
      = Some (True, it_item it1)"
    and "it_pos it < it_len it"
proof -
  from assms have lt: "it_pos it < it_len it"
    and eq: "parse_item (it_item it) (drop (unat (it_pos it)) (it_descriptor it)) (it_len it - it_pos it)
      = Some (True, it_item it1)" "it_pos it1 = it_pos it" "it_len it1 = it_len it"
      "it_descriptor it1 = it_descriptor it" "it_valid it1 = it_valid it"
    by (auto simp: iterator_has_more_def Let_def bind_eq_Some_conv split: if_splits)
  from parse_item_size [OF eq(1)]
  have "unat (i_size (it_item it1)) \<le> unat (it_len it - it_pos it)" "0 < unat (i_size (it_item it1))"
    by (simp_all add: word_le_nat_alt unat_gt_0 word_gt_0)
  moreover have "unat (it_len it - it_pos it) = unat (it_len it) - unat (it_pos it)"
    using lt by (intro unat_sub) simp
  ultimately show "unat (it_pos it) + unat (i_size (it_item it1)) \<le> unat (it_len it)"
    "0 < unat (i_size (it_item it1))"
    using lt by (simp_all add: word_less_nat_alt)
qed (use assms in \<open>auto simp: iterator_has_more_def Let_def bind_eq_Some_conv split: if_splits\<close>)

lemma iterator_next_pos:
  assumes "iterator_has_more it = Some (True, it1)" and "\<not> it_ready it"
  shows "unat (it_pos it1 + i_size (it_item it1)) = unat (it_pos it) + unat (i_size (it_item it1))"
  using iterator_progress [OF assms] unsigned_less [of "it_len it", where ?'a = nat]
  by (simp add: unat_word_ariths)

text \<open>
  \<open>while (has_more(&it)) { item = get_item(&it); ... }\<close>: the body sees the item and the iterator
  behind it, and says whether the loop goes on.
\<close>

function items_loop :: "(hid_item \<Rightarrow> hid_iterator \<Rightarrow> 's \<Rightarrow> (bool \<times> 's) option) \<Rightarrow> hid_iterator \<Rightarrow> 's
    \<Rightarrow> (hid_iterator \<times> 's) option" where
  "items_loop body it s =
     (case iterator_has_more it of
        None \<Rightarrow> None
      | Some (has, it1) \<Rightarrow>
          if \<not> has then Some (it1, s)
          else (case iterator_get_item it1 of (item, it2) \<Rightarrow>
            (case body item it2 s of
               None \<Rightarrow> None
             | Some (go, s') \<Rightarrow> if go then items_loop body it2 s' else Some (it2, s'))))"
  by pat_completeness auto

termination
proof (relation "measures [\<lambda>(body, it, s). if it_ready it then 1 else 0, \<lambda>(body, it, s). items_left it]",
    goal_cases)
  case 1
  then show ?case by simp
next
  case (2 body it s x has it1 item it2 z go s')
  then have more: "iterator_has_more it = Some (True, it1)" and get: "iterator_get_item it1 = (item, it2)"
    by auto
  from get have it2: "\<not> it_ready it2" "it_pos it2 = it_pos it1 + i_size (it_item it1)"
    "it_len it2 = it_len it1" by (auto simp: iterator_get_item_def)
  show ?case
  proof (cases "it_ready it")
    case True
    with it2(1) show ?thesis by simp
  next
    case False
    with it2 iterator_progress [OF more False] iterator_next_pos [OF more False]
    have "items_left it2 < items_left it" by (simp add: items_left_def)
    with it2(1) False show ?thesis by simp
  qed
qed

declare items_loop.simps [simp del]


section \<open>Looking a report up\<close>

text \<open>\<open>int\<close> arithmetic: a result outside 32 bits is undefined; division truncates.\<close>

definition int32 :: "int \<Rightarrow> int option" where
  "int32 x = (if - (2 ^ 31) \<le> x \<and> x < 2 ^ 31 then Some x else None)"

definition c_div :: "int \<Rightarrow> int \<Rightarrow> int" where
  "c_div a b = sgn a * (\<bar>a\<bar> div b)"

definition tag_matches :: "u8 \<Rightarrow> hid_report_type \<Rightarrow> bool" where
  "tag_matches tag kind =
     (if tag = MAIN_INPUT then kind = REPORT_INPUT
      else if tag = MAIN_OUTPUT then kind = REPORT_OUTPUT
      else if tag = MAIN_FEATURE then kind = REPORT_FEATURE
      else False)"

record size_scan =
  total_report_size :: int
  report_size :: int
  report_count :: int
  current_report_id :: int

definition size_body :: "u16 \<Rightarrow> hid_report_type \<Rightarrow> hid_item \<Rightarrow> size_scan
    \<Rightarrow> (bool \<times> size_scan) option" where
  "size_body rid kind item s = do {
     s \<leftarrow> (if i_type item = TYPE_GLOBAL then
            Some (if i_tag item = GLOBAL_REPORT_ID then s\<lparr>current_report_id := sint (i_value item)\<rparr>
                  else if i_tag item = GLOBAL_REPORT_COUNT then s\<lparr>report_count := sint (i_value item)\<rparr>
                  else if i_tag item = GLOBAL_REPORT_SIZE then s\<lparr>report_size := sint (i_value item)\<rparr>
                  else s)
          else if i_type item = TYPE_MAIN then
            if current_report_id s \<noteq> uint rid then Some s
            else if \<not> tag_matches (i_tag item) kind then Some s
            else do {
              n \<leftarrow> int32 (report_count s * report_size s);
              t \<leftarrow> int32 (total_report_size s + n);
              Some (s\<lparr>total_report_size := t\<rparr>) }
          else Some s);
     Some (\<not> (total_report_size s > 0 \<and> current_report_id s \<noteq> uint rid), s) }"

definition btstack_hid_get_report_size_for_id :: "u16 \<Rightarrow> hid_report_type \<Rightarrow> bytes \<Rightarrow> u16 \<Rightarrow> int option" where
  "btstack_hid_get_report_size_for_id rid kind d len = do {
     (it, s) \<leftarrow> items_loop (\<lambda>item it. size_body rid kind item) (iterator_init d len)
       \<lparr>total_report_size = 0, report_size = 0, report_count = 0,
        current_report_id = uint HID_REPORT_ID_UNDEFINED\<rparr>;
     if iterator_valid it then do {
       n \<leftarrow> int32 (total_report_size s + 7);
       Some (c_div n 8) }
     else Some 0 }"

datatype report_id_status = REPORT_ID_UNDECLARED | REPORT_ID_VALID | REPORT_ID_INVALID

text \<open>The state of the loop: the current report ID and \<open>report_id_found\<close>.\<close>

definition id_body :: "u16 \<Rightarrow> hid_item \<Rightarrow> u16 \<times> bool \<Rightarrow> (bool \<times> u16 \<times> bool) option" where
  "id_body rid item s =
     (if i_type item = TYPE_GLOBAL \<and> i_tag item = GLOBAL_REPORT_ID
      then let cur = ucast (i_value item) in Some (True, cur, snd s \<or> cur = rid)
      else Some (True, s))"

definition btstack_hid_report_id_valid :: "u16 \<Rightarrow> bytes \<Rightarrow> u16 \<Rightarrow> report_id_status option" where
  "btstack_hid_report_id_valid rid d len = do {
     (it, cur, found) \<leftarrow> items_loop (\<lambda>item it. id_body rid item) (iterator_init d len)
       (HID_REPORT_ID_UNDEFINED, False);
     Some (if iterator_valid it then
             if found then REPORT_ID_VALID
             else if rid = HID_REPORT_ID_UNDEFINED \<and> cur = HID_REPORT_ID_UNDEFINED then REPORT_ID_VALID
             else REPORT_ID_UNDECLARED
           else REPORT_ID_INVALID) }"

definition declared_body :: "hid_item \<Rightarrow> bool \<Rightarrow> (bool \<times> bool) option" where
  "declared_body item s =
     (if i_type item = TYPE_GLOBAL \<and> i_tag item = GLOBAL_REPORT_ID then Some (False, True)
      else Some (True, s))"

definition btstack_hid_report_id_declared :: "bytes \<Rightarrow> u16 \<Rightarrow> bool option" where
  "btstack_hid_report_id_declared d len =
     map_option snd (items_loop (\<lambda>item it. declared_body item) (iterator_init d len) False)"

section \<open>Descriptors made of short items\<close>

text \<open>
  The specification of the iterator: a descriptor is the concatenation of the encodings of its
  items.  \<open>short_ok\<close> is the syntax of a short item, and leaves out the items that the
  code has no defined value for: those with four data bytes whose last has its top bit set.
\<close>

record short_item =
  s_tag :: u8
  s_type :: u8
  s_data :: bytes

fun le_value :: "bytes \<Rightarrow> nat" where
  "le_value [] = 0"
| "le_value (b # bs) = unat b + 256 * le_value bs"

definition short_signed :: "short_item \<Rightarrow> bool" where
  "short_signed s \<longleftrightarrow> s_type s = TYPE_GLOBAL \<and> 0 < s_tag s \<and> s_tag s < 5"

definition negative :: "bytes \<Rightarrow> bool" where
  "negative bs \<longleftrightarrow> bs \<noteq> [] \<and> last bs AND 0x80 \<noteq> 0"

definition short_ok :: "short_item \<Rightarrow> bool" where
  "short_ok s \<longleftrightarrow> s_tag s < 16 \<and> s_type s < 4 \<and> length (s_data s) \<in> {0, 1, 2, 4}
     \<and> \<not> (s_tag s = 15 \<and> s_type s = 3 \<and> length (s_data s) = 2)
     \<and> \<not> (negative (s_data s) \<and> length (s_data s) = 4)"

definition size_code :: "bytes \<Rightarrow> u8" where
  "size_code bs = (if length bs = 4 then 3 else of_nat (length bs))"

definition encode_item :: "short_item \<Rightarrow> bytes" where
  "encode_item s = (push_bit 4 (s_tag s) OR push_bit 2 (s_type s) OR size_code (s_data s)) # s_data s"

definition item_meaning :: "short_item \<Rightarrow> int" where
  "item_meaning s = int (le_value (s_data s))
     - (if short_signed s \<and> negative (s_data s) then 2 ^ (8 * length (s_data s)) else 0)"

definition decode_item :: "short_item \<Rightarrow> hid_item" where
  "decode_item s = \<lparr>i_value = of_int (item_meaning s), i_size = of_nat (length (encode_item s)),
     i_type = s_type s, i_tag = s_tag s, i_data_size = of_nat (length (s_data s))\<rparr>"

lemma take_bit_below: "unat (w :: u8) < 2 ^ k \<Longrightarrow> take_bit k w = w"
  by (simp add: word_unat_eq_iff unsigned_take_bit_eq take_bit_nat_eq_self)

lemma header_bits:
  fixes t y c :: u8
  defines "h \<equiv> push_bit 4 (take_bit 4 t) OR push_bit 2 (take_bit 2 y) OR take_bit 2 c"
  shows "h AND 3 = take_bit 2 c" and "drop_bit 2 (h AND 0x0c) = take_bit 2 y"
    and "drop_bit 4 (h AND 0xf0) = take_bit 4 t"
proof -
  have m: "(3 :: u8) = mask 2" "(0x0c :: u8) = push_bit 2 (mask 2)" "(0xf0 :: u8) = push_bit 4 (mask 4)"
    by (simp_all add: mask_eq_exp_minus_1)
  show "h AND 3 = take_bit 2 c" "drop_bit 2 (h AND 0x0c) = take_bit 2 y"
    "drop_bit 4 (h AND 0xf0) = take_bit 4 t"
    unfolding h_def m by (rule bit_word_eqI, auto simp: bit_simps)+
qed

lemma header_fields:
  assumes "(t :: u8) < 16" and "(y :: u8) < 4" and "(c :: u8) < 4"
  defines "h \<equiv> push_bit 4 t OR push_bit 2 y OR c"
  shows "h AND 3 = c" and "drop_bit 2 (h AND 0x0c) = y" and "drop_bit 4 (h AND 0xf0) = t"
proof -
  have "take_bit 4 t = t" "take_bit 2 y = y" "take_bit 2 c = c"
    using assms by (auto intro!: take_bit_below simp: word_less_nat_alt)
  with header_bits [of t y c]
  show "h AND 3 = c" "drop_bit 2 (h AND 0x0c) = y" "drop_bit 4 (h AND 0xf0) = t"
    by (simp_all add: h_def)
qed

lemma size_code_short:
  assumes "length bs \<in> {0, 1, 2, 4}"
  shows "size_code bs < 4" and "hid_item_sizes ! unat (size_code bs) = of_nat (length bs)"
  using assms by (auto simp: size_code_def hid_item_sizes_def)

text \<open>The loop over the data bytes computes the little-endian number.\<close>

lemma push_bit_or_u32:
  assumes "n < 2 ^ k" and "k \<le> 24"
  shows "push_bit k (ucast (b :: u8)) OR of_nat n = (of_nat (n + 2 ^ k * unat b) :: u32)"
proof -
  have low: "bit n i \<Longrightarrow> i < k" for i
    using assms(1) by (metis bit_take_bit_iff take_bit_nat_eq_self)
  have "push_bit k (ucast b) OR (of_nat n :: u32) = push_bit k (ucast b) + of_nat n"
  proof (rule disjunctive_add [symmetric])
    show "\<not> bit (push_bit k (ucast b :: u32)) i \<or> \<not> bit (of_nat n :: u32) i" for i
      using low [of i] by (auto simp: bit_simps)
  qed
  also have "\<dots> = of_nat (2 ^ k * unat b) + of_nat n"
    by (simp add: push_bit_eq_mult mult.commute)
  finally show ?thesis by (simp only: of_nat_add add.commute)
qed

lemma le_value_append: "le_value (xs @ [b]) = le_value xs + 2 ^ (8 * length xs) * unat b"
  by (induction xs) (simp_all add: power_add algebra_simps)

lemma le_value_bound: "le_value bs < 2 ^ (8 * length bs)"
proof (induction bs)
  case (Cons b bs)
  then have "Suc (le_value bs) \<le> 2 ^ (8 * length bs)" by simp
  then have "256 * Suc (le_value bs) \<le> 256 * 2 ^ (8 * length bs)" by (rule mult_le_mono2)
  with unat_u8_lt [of b] show ?case by (simp add: power_add)
qed simp

lemma top_bit: "(b :: u8) AND 0x80 \<noteq> 0 \<longleftrightarrow> 128 \<le> unat b"
proof -
  have e: "(0x80 :: u8) = 2 ^ 7" by simp
  have "b AND 0x80 \<noteq> 0 \<longleftrightarrow> bit b 7"
    unfolding e and_exp_eq_0_iff_not_bit by simp
  also have "\<dots> \<longleftrightarrow> bit (unat b) 7" by (simp add: bit_unsigned_iff)
  also have "\<dots> \<longleftrightarrow> odd (unat b div 128)" by (simp add: bit_iff_odd)
  also have "\<dots> \<longleftrightarrow> 128 \<le> unat b"
  proof (cases "128 \<le> unat b")
    case True
    with unat_u8_lt [of b] have "unat b div 128 = 1" by (intro div_nat_eqI) simp_all
    with True show ?thesis by simp
  qed simp
  finally show ?thesis .
qed

lemma int_shift_defined:
  assumes "i < 4"
  shows "unat (b :: u8) * 2 ^ (8 * i) < 2 ^ 31 \<longleftrightarrow> \<not> (i = 3 \<and> 128 \<le> unat b)"
proof -
  have b: "unat b < 256" by (rule unat_u8_lt)
  consider "i = 0" | "i = 1" | "i = 2" | "i = 3" using assms by linarith
  then show ?thesis
  proof cases
    case 1 with b show ?thesis by simp
  next
    case 2 with b show ?thesis by simp
  next
    case 3 with b show ?thesis by simp
  next
    case 4 
    then show ?thesis by (simp add: not_le less_mult_imp_div_less)
  qed
qed
lemma value_steps:
  assumes "n \<le> length bs" and "n \<le> 4" and "\<And>i. i < n \<Longrightarrow> rd buf (j + i) = Some (bs ! i)"
    and "\<not> (n = 4 \<and> 128 \<le> unat (bs ! 3))"
  shows "foldM (value_step buf j) [0..<n] (0, 0)
     = Some (of_nat (le_value (take n bs)), if n = 0 then 0 else bs ! (n - 1))"
  using assms
proof (induction n)
  case (Suc n)
  have "push_bit (8 * n) (ucast (bs ! n)) OR of_nat (le_value (take n bs))
      = (of_nat (le_value (take n bs) + 2 ^ (8 * n) * unat (bs ! n)) :: u32)"
    using Suc.prems le_value_bound [of "take n bs"] by (intro push_bit_or_u32) simp_all
  moreover have "le_value (take (Suc n) bs) = le_value (take n bs) + 2 ^ (8 * n) * unat (bs ! n)"
    using Suc.prems by (simp add: take_Suc_conv_app_nth le_value_append)
  moreover have "unat (bs ! n) * 2 ^ (8 * n) < 2 ^ 31"
    using Suc.prems(2,4) by (subst int_shift_defined) auto
  ultimately show ?case
    using Suc by (simp add: foldM_append value_step_def)
qed simp

lemma short_size: "short_ok s \<Longrightarrow> length (s_data s) \<le> 4"
  by (auto simp: short_ok_def)

text \<open>The parser reads the encoding of an item back, whatever follows it.\<close>

lemma parse_encoded:
  assumes "short_ok s" and "drop k d = encode_item s @ rest" and "length (encode_item s) \<le> unat len"
  shows "parse_item it0 (drop k d) len = Some (True, decode_item s)"
proof -
  let ?n = "length (s_data s)" and ?bs = "s_data s"
  from assms(1) have ok: "s_tag s < 16" "s_type s < 4" "?n \<in> {0, 1, 2, 4}"
    "\<not> (s_tag s = 15 \<and> s_type s = 3 \<and> ?n = 2)"
    "negative ?bs \<Longrightarrow> ?n \<noteq> 4" by (auto simp: short_ok_def)
  let ?h = "push_bit 4 (s_tag s) OR push_bit 2 (s_type s) OR size_code ?bs"
  note h = header_fields [OF ok(1,2) size_code_short(1) [OF ok(3)]] size_code_short(2) [OF ok(3)]
  have n: "(of_nat ?n :: u8) = 2 \<longleftrightarrow> ?n = 2" "?n \<le> 4" "unat (of_nat ?n :: u8) = ?n"
    "unat (1 + ucast (of_nat ?n :: u8) :: u16) = Suc ?n" "\<not> (4 :: u8) < of_nat ?n"
    "unat (of_nat ?n * 8 :: u8) = 8 * ?n" "(1 :: u16) + ucast (of_nat ?n :: u8) = of_nat (Suc ?n)"
    "32 \<le> (of_nat ?n * 8 :: u8) \<longleftrightarrow> ?n = 4" "(0 :: u8) < of_nat ?n \<longleftrightarrow> ?n \<noteq> 0"
    using ok(3) by auto
  have len: "Suc ?n \<le> unat len" using assms(3) by (simp add: encode_item_def)
  then have "\<not> len < 1" "\<not> len < 1 + ucast (of_nat ?n :: u8)"
    by (auto simp: word_less_nat_alt n(4))
  moreover have "rd (drop k d) 0 = Some ?h" by (simp add: assms(2) encode_item_def)
  moreover have "rd (drop k d) (1 + i) = Some (?bs ! i)" if "i < ?n" for i
    using that by (simp add: assms(2) encode_item_def nth_append)
  moreover have "\<not> (?n = 4 \<and> 128 \<le> unat (?bs ! 3))"
    using ok(5) by (cases "?bs = []") (auto simp: negative_def top_bit last_conv_nth)
  note value_steps [of ?n ?bs, OF order.refl n(2) calculation(4) this]
  moreover have "last ?bs = ?bs ! (?n - 1)" if "?n \<noteq> 0" using that by (simp add: last_conv_nth)
  ultimately show ?thesis
    using ok(4,5) n h
    by (cases it0) (auto simp: parse_item_def parse_value_def Let_def extend_sign_def signed_item_def
        decode_item_def encode_item_def item_meaning_def short_signed_def negative_def)
qed


text \<open>A loop over the items of a descriptor, as a recursion over the list of items.\<close>

fun run_items :: "(hid_item \<Rightarrow> 's \<Rightarrow> (bool \<times> 's) option) \<Rightarrow> short_item list \<Rightarrow> 's \<Rightarrow> 's option" where
  "run_items f [] s = Some s"
| "run_items f (x # xs) s =
     (case f (decode_item x) s of
        None \<Rightarrow> None
      | Some (go, s') \<Rightarrow> if go then run_items f xs s' else Some s')"

abbreviation encode_items :: "short_item list \<Rightarrow> bytes" where
  "encode_items xs \<equiv> concat (map encode_item xs)"

lemma items_loop_encoded:
  assumes "\<forall>x \<in> set xs. short_ok x" and "\<not> it_ready it"
    and "drop (unat (it_pos it)) (it_descriptor it) = encode_items xs @ rest"
    and "unat (it_len it) = unat (it_pos it) + length (encode_items xs)"
  shows "map_option (\<lambda>(it, s). (it_valid it, s)) (items_loop (\<lambda>i it. f i) it s)
    = map_option (Pair (it_valid it)) (run_items f xs s)"
  using assms
proof (induction xs arbitrary: it s)
  case Nil
  then have "it_len it = it_pos it" by (simp add: word_unat_eq_iff)
  with Nil show ?case by (simp add: items_loop.simps iterator_has_more_def)
next
  case (Cons x xs)
  let ?e = "encode_item x" and ?p = "unat (it_pos it)"
  have pos: "0 < length ?e" by (simp add: encode_item_def)
  have lt: "it_pos it < it_len it" using Cons.prems(4) pos by (simp add: word_less_nat_alt)
  have left: "unat (it_len it - it_pos it) = length ?e + length (encode_items xs)"
    using lt Cons.prems(4) by (simp add: unat_sub)
  have parse: "parse_item (it_item it) (drop ?p (it_descriptor it)) (it_len it - it_pos it)
      = Some (True, decode_item x)"
    by (rule parse_encoded [where rest = "encode_items xs @ rest"]) (use Cons.prems left in simp_all)
  define it2 where "it2 = it\<lparr>it_item := decode_item x, it_ready := False,
    it_pos := it_pos it + of_nat (length ?e)\<rparr>"
  have step: "items_loop (\<lambda>i it. f i) it s = (case f (decode_item x) s of None \<Rightarrow> None
      | Some (go, s') \<Rightarrow> if go then items_loop (\<lambda>i it. f i) it2 s' else Some (it2, s'))"
  proof -
    have "iterator_has_more it = Some (True, it\<lparr>it_item := decode_item x, it_ready := True\<rparr>)"
      using Cons.prems(2) lt parse by (simp add: iterator_has_more_def Let_def)
    moreover have "i_size (decode_item x) = of_nat (length ?e)" by (simp add: decode_item_def)
    then have "iterator_get_item (it\<lparr>it_item := decode_item x, it_ready := True\<rparr>) = (decode_item x, it2)"
      by (simp add: iterator_get_item_def it2_def)
    ultimately show ?thesis by (subst items_loop.simps) simp
  qed
  have "?p + length ?e < 2 ^ 16"
    using unat_u16_lt [of "it_len it"] Cons.prems(4) by simp
  then have "unat (it_pos it2) = ?p + length ?e"
    by (simp add: it2_def unat_word_ariths unat_of_nat)
  moreover have "drop (?p + length ?e) (it_descriptor it) = drop (length ?e) (drop ?p (it_descriptor it))"
    by (simp add: add.commute)
  ultimately have "drop (unat (it_pos it2)) (it_descriptor it2) = encode_items xs @ rest"
    "unat (it_len it2) = unat (it_pos it2) + length (encode_items xs)"
    using Cons.prems(3,4) by (simp_all add: it2_def)
  with Cons.prems(1) have "map_option (\<lambda>(it, s). (it_valid it, s)) (items_loop (\<lambda>i it. f i) it2 s')
      = map_option (Pair (it_valid it)) (run_items f xs s')" for s'
    using Cons.IH [of it2 s'] by (simp add: it2_def)
  then show ?case by (simp add: step it2_def split: option.split prod.split)
qed

lemma descriptor_loop:
  assumes "\<forall>x \<in> set xs. short_ok x" and "length (encode_items xs) < 2 ^ 16"
  defines "d \<equiv> encode_items xs"
  shows "map_option (\<lambda>(it, s). (it_valid it, s)) (items_loop (\<lambda>i it. f i)
      (iterator_init d (of_nat (length d))) s) = map_option (Pair True) (run_items f xs s)"
  using items_loop_encoded [of xs "iterator_init d (of_nat (length d))" "[]" f s] assms
  by (simp add: iterator_init_def unat_of_nat)


section \<open>What the lookups compute\<close>

definition is_global :: "u8 \<Rightarrow> short_item \<Rightarrow> bool" where
  "is_global tag x \<longleftrightarrow> s_type x = TYPE_GLOBAL \<and> s_tag x = tag"

definition report_ids :: "short_item list \<Rightarrow> nat list" where
  "report_ids xs = map (le_value \<circ> s_data) (filter (is_global GLOBAL_REPORT_ID) xs)"

text \<open>The bits of the fields of one report: the count times the size of every main item of its kind.\<close>

fun report_bits :: "nat \<Rightarrow> hid_report_type \<Rightarrow> nat \<Rightarrow> nat \<Rightarrow> nat \<Rightarrow> short_item list \<Rightarrow> nat" where
  "report_bits rid kind cur sz cnt [] = 0"
| "report_bits rid kind cur sz cnt (x # xs) =
     (let v = le_value (s_data x)
      in if is_global GLOBAL_REPORT_ID x then report_bits rid kind v sz cnt xs
         else if is_global GLOBAL_REPORT_COUNT x then report_bits rid kind cur sz v xs
         else if is_global GLOBAL_REPORT_SIZE x then report_bits rid kind cur v cnt xs
         else if s_type x = TYPE_MAIN \<and> cur = rid \<and> tag_matches (s_tag x) kind
         then cnt * sz + report_bits rid kind cur sz cnt xs
         else report_bits rid kind cur sz cnt xs)"

text \<open>Report sizes and IDs of one byte and counts of at most two, as in practice.\<close>

definition plain_item :: "short_item \<Rightarrow> bool" where
  "plain_item x \<longleftrightarrow> short_ok x \<and>
     (is_global GLOBAL_REPORT_SIZE x \<longrightarrow> length (s_data x) \<le> 1) \<and>
     (is_global GLOBAL_REPORT_ID x \<longrightarrow> length (s_data x) \<le> 1) \<and>
     (is_global GLOBAL_REPORT_COUNT x \<longrightarrow> length (s_data x) \<le> 2)"

abbreviation field_tags :: "u8 set" where
  "field_tags \<equiv> {GLOBAL_REPORT_SIZE, GLOBAL_REPORT_ID, GLOBAL_REPORT_COUNT}"

lemma le_value_short: "length bs \<le> n \<Longrightarrow> le_value bs < 2 ^ (8 * n)"
  by (rule less_le_trans [OF le_value_bound]) (simp add: power_increasing)

lemma plain_value:
  assumes "plain_item x" and "is_global t x" and "t \<in> field_tags"
  shows "i_value (decode_item x) = of_nat (le_value (s_data x))"
    and "le_value (s_data x) < (if t = GLOBAL_REPORT_COUNT then 65536 else 256)"
proof -
  show "le_value (s_data x) < (if t = GLOBAL_REPORT_COUNT then 65536 else 256)"
    using assms le_value_short [of "s_data x" 1] le_value_short [of "s_data x" 2]
    by (auto simp: plain_item_def)
  show "i_value (decode_item x) = of_nat (le_value (s_data x))"
    using assms by (auto simp: decode_item_def item_meaning_def short_signed_def is_global_def)
qed

lemma sint_small: "n < 65536 \<Longrightarrow> sint (of_nat n :: u32) = int n"
  by (simp add: signed_of_nat signed_take_bit_int_eq_self)

lemma decode_fields [simp]:
  "i_type (decode_item x) = s_type x" "i_tag (decode_item x) = s_tag x"
  by (simp_all add: decode_item_def)

lemma int32_Some: "0 \<le> x \<Longrightarrow> x < 2 ^ 31 \<Longrightarrow> int32 x = Some x"
  by (simp add: int32_def)

lemma report_ids_Cons:
  "report_ids (x # xs) = (if is_global GLOBAL_REPORT_ID x then [le_value (s_data x)] else []) @ report_ids xs"
  by (simp add: report_ids_def)

lemma report_bits_other:
  "cur \<noteq> rid \<Longrightarrow> rid \<notin> set (report_ids xs) \<Longrightarrow> report_bits rid kind cur sz cnt xs = 0"
  by (induction xs arbitrary: cur sz cnt) (auto simp: Let_def report_ids_Cons split: if_splits)

definition scan_state :: "nat \<Rightarrow> nat \<Rightarrow> nat \<Rightarrow> nat \<Rightarrow> size_scan" where
  "scan_state t sz cnt cur = \<lparr>total_report_size = int t, report_size = int sz,
     report_count = int cnt, current_report_id = int cur\<rparr>"

lemma scan_state_simps [simp]:
  "total_report_size (scan_state t z c i) = int t" "report_size (scan_state t z c i) = int z"
  "report_count (scan_state t z c i) = int c" "current_report_id (scan_state t z c i) = int i"
  "(scan_state t z c i)\<lparr>total_report_size := int t'\<rparr> = scan_state t' z c i"
  "(scan_state t z c i)\<lparr>report_size := int z'\<rparr> = scan_state t z' c i"
  "(scan_state t z c i)\<lparr>report_count := int c'\<rparr> = scan_state t z c' i"
  "(scan_state t z c i)\<lparr>current_report_id := int i'\<rparr> = scan_state t z c i'"
  by (simp_all add: scan_state_def)

lemma size_body_plain:
  assumes "plain_item x" and "sz < 256" and "cnt < 65536" and "t + 16711425 < 2 ^ 31"
  defines "v \<equiv> le_value (s_data x)"
  shows "size_body rid kind (decode_item x) (scan_state t sz cnt cur) = Some (
      case (if is_global GLOBAL_REPORT_ID x then (t, sz, cnt, v)
            else if is_global GLOBAL_REPORT_COUNT x then (t, sz, v, cur)
            else if is_global GLOBAL_REPORT_SIZE x then (t, v, cnt, cur)
            else if s_type x = TYPE_MAIN \<and> cur = unat rid \<and> tag_matches (s_tag x) kind
            then (t + cnt * sz, sz, cnt, cur) else (t, sz, cnt, cur)) of
        (t, sz, cnt, cur) \<Rightarrow> (\<not> (0 < t \<and> cur \<noteq> unat rid), scan_state t sz cnt cur))"
proof -
  have "cnt * sz \<le> 65535 * 255" using assms(2,3) by (intro mult_mono) auto
  then have mul: "int32 (int cnt * int sz) = Some (int (cnt * sz))"
    "int32 (int t + int (cnt * sz)) = Some (int (t + cnt * sz))"
    using assms(4) by (subst int32_Some; force simp flip: of_nat_mult of_nat_add)+
  have rid: "int i = uint rid \<longleftrightarrow> i = unat rid" for i
    by (metis of_nat_eq_iff uint_nat)
  have v: "sint (i_value (decode_item x)) = int v"
    if "is_global g x" "g \<in> field_tags" for g
    using plain_value [OF assms(1) that] by (simp add: sint_small v_def split: if_splits)
  have v7: "sint (i_value (decode_item x)) = int v" if "s_type x = 1" "s_tag x = 7"
    using v [of 7] that by (simp add: is_global_def)
  have v8: "sint (i_value (decode_item x)) = int v" if "s_type x = 1" "s_tag x = 8"
    using v [of 8] that by (simp add: is_global_def)
  have v9: "sint (i_value (decode_item x)) = int v" if "s_type x = 1" "s_tag x = 9"
    using v [of 9] that by (simp add: is_global_def)
  show ?thesis
    by (auto simp: size_body_def is_global_def mul rid v7 v8 v9 Let_def simp del: of_nat_mult of_nat_add)
qed


lemma size_loop:
  assumes "\<forall>x \<in> set xs. plain_item x" and "sz < 256" and "cnt < 65536"
    and "t + 16711425 * length xs < 2 ^ 31" and "distinct (cur # report_ids xs)" and "t = 0 \<or> cur = unat rid"
  shows "\<exists>s. run_items (size_body rid kind) xs (scan_state t sz cnt cur) = Some s
    \<and> total_report_size s = int (t + report_bits (unat rid) kind cur sz cnt xs)"
  using assms
proof (induction xs arbitrary: t sz cnt cur)
  case (Cons x xs)
  let ?v = "le_value (s_data x)" and ?rid = "unat rid"
  have x: "plain_item x" using Cons.prems(1) by simp
  note v = plain_value(2) [OF x]
  have t: "t + 16711425 < 2 ^ 31" using Cons.prems(4) by simp
  note step = size_body_plain [OF x Cons.prems(2,3) t, of rid kind cur]
  consider (id) "is_global GLOBAL_REPORT_ID x"
    | (count) "is_global GLOBAL_REPORT_COUNT x" "\<not> is_global GLOBAL_REPORT_ID x"
    | (size) "is_global GLOBAL_REPORT_SIZE x" "\<not> is_global GLOBAL_REPORT_ID x" "\<not> is_global GLOBAL_REPORT_COUNT x"
    | (other) "\<not> is_global GLOBAL_REPORT_SIZE x" "\<not> is_global GLOBAL_REPORT_ID x"
        "\<not> is_global GLOBAL_REPORT_COUNT x" by blast
  then show ?case
  proof cases
    case id
    have d: "distinct (?v # report_ids xs)" "cur \<noteq> ?v" "cur \<notin> set (report_ids xs)"
      using Cons.prems(5) id by (simp_all add: report_ids_Cons)
    show ?thesis
    proof (cases "0 < t \<and> ?v \<noteq> ?rid")
      case True
      then have "report_bits ?rid kind ?v sz cnt xs = 0"
        using d Cons.prems(6) by (intro report_bits_other) auto
      with True id step show ?thesis by (simp add: Let_def)
    next
      case False
      with Cons.prems d have "t = 0 \<or> ?v = ?rid" by auto
      with Cons.IH [of sz cnt t ?v] Cons.prems d False id step show ?thesis
        by (simp add: Let_def)
    qed
  next
    case count
    with Cons.IH [of sz ?v t cur] Cons.prems v [of 9] step show ?thesis
      by (auto simp: Let_def report_ids_Cons)
  next
    case size
    with Cons.IH [of ?v cnt t cur] Cons.prems v [of 7] step show ?thesis
      by (auto simp: Let_def report_ids_Cons)
  next
    case other
    have "cnt * sz \<le> 65535 * 255" using Cons.prems(2,3) by (intro mult_mono) auto
    with other Cons.IH [of sz cnt t cur] Cons.IH [of sz cnt "t + cnt * sz" cur] Cons.prems step show ?thesis
      by (auto simp: Let_def report_ids_Cons)
  qed
qed simp

lemma encoded_length: "\<forall>x \<in> set xs. short_ok x \<Longrightarrow> length (encode_items xs) \<le> 5 * length xs"
  by (induction xs) (auto simp: encode_item_def dest!: short_size)

lemma report_bits_bound:
  "\<forall>x \<in> set xs. plain_item x \<Longrightarrow> sz < 256 \<Longrightarrow> cnt < 65536 \<Longrightarrow>
   report_bits rid kind cur sz cnt xs \<le> 16711425 * length xs"
proof (induction xs arbitrary: cur sz cnt)
  case (Cons x xs)
  have x: "plain_item x" using Cons.prems(1) by simp
  have "cnt * sz \<le> 65535 * 255" using Cons.prems(2,3) by (intro mult_mono) auto
  moreover have "report_bits rid kind cur' sz' cnt' xs \<le> 16711425 * length xs"
    if "sz' < 256" "cnt' < 65536" for cur' sz' cnt' using Cons that by simp
  ultimately show ?case using Cons.prems plain_value(2) [OF x, of 7] plain_value(2) [OF x, of 9]
    by (auto simp: Let_def intro: add_mono le_trans trans_le_add2)
qed simp

lemma id_loop:
  assumes "\<forall>x \<in> set xs. plain_item x"
  shows "\<exists>c. run_items (id_body rid) xs (cur, f) = Some (c, f \<or> unat rid \<in> set (report_ids xs))
    \<and> (c = HID_REPORT_ID_UNDEFINED \<longleftrightarrow> cur = HID_REPORT_ID_UNDEFINED \<and> report_ids xs = [])"
  using assms
proof (induction xs arbitrary: cur f)
  case (Cons x xs)
  show ?case
  proof (cases "is_global GLOBAL_REPORT_ID x")
    case True
    have "i_value (decode_item x) = of_nat (le_value (s_data x))" "le_value (s_data x) < 256"
      using plain_value [OF _ True] Cons.prems by auto
    then have v: "(ucast (i_value (decode_item x)) :: u16) = of_nat (le_value (s_data x))"
      "unat (of_nat (le_value (s_data x)) :: u16) = le_value (s_data x)"
      by (simp_all add: unsigned_of_nat take_bit_nat_eq_self)
    then have "(of_nat (le_value (s_data x)) :: u16) = rid \<longleftrightarrow> le_value (s_data x) = unat rid"
      "of_nat (le_value (s_data x)) \<noteq> HID_REPORT_ID_UNDEFINED"
      using \<open>le_value (s_data x) < 256\<close> by (auto simp: word_unat_eq_iff)
    with True Cons.IH [of "of_nat (le_value (s_data x))" "f \<or> of_nat (le_value (s_data x)) = rid"] Cons.prems v(1)
    show ?thesis by (auto simp: id_body_def is_global_def Let_def report_ids_Cons)
  next
    case False
    with Cons.IH [of cur f] Cons.prems show ?thesis
      by (auto simp: id_body_def is_global_def report_ids_Cons)
  qed
qed (auto simp: report_ids_def)

lemma declared_loop:
  "run_items declared_body xs f = Some (f \<or> report_ids xs \<noteq> [])"
  by (induction xs arbitrary: f) (auto simp: declared_body_def is_global_def report_ids_def)


lemma lookups_of_items:
  assumes "\<forall>x \<in> set xs. plain_item x" and "distinct (report_ids xs)" and "length xs \<le> 128"
  defines "d \<equiv> encode_items xs"
  shows "btstack_hid_get_report_size_for_id rid kind d (of_nat (length d))
      = Some (int ((report_bits (unat rid) kind 0xffff 0 0 xs + 7) div 8))
    \<and> btstack_hid_report_id_valid rid d (of_nat (length d))
      = Some (if unat rid \<in> set (report_ids xs) \<or> rid = HID_REPORT_ID_UNDEFINED \<and> report_ids xs = []
          then REPORT_ID_VALID else REPORT_ID_UNDECLARED)
    \<and> btstack_hid_report_id_declared d (of_nat (length d)) = Some (report_ids xs \<noteq> [])"
proof -
  have ok: "\<forall>x \<in> set xs. short_ok x" using assms(1) by (simp add: plain_item_def)
  have items: "length xs \<le> 128" by (rule assms(3))
  have len: "length (encode_items xs) < 2 ^ 16"
    using encoded_length [OF ok] items by simp
  note loop = descriptor_loop [OF ok len, folded d_def]
  have ids: "\<forall>v \<in> set (report_ids xs). v < 256"
    using assms(1) plain_value(2) [of _ 8] by (auto simp: report_ids_def)
  then have "distinct (0xffff # report_ids xs)" using assms(2) by auto
  from size_loop [OF assms(1) _ _ _ this, of 0 0 0 rid kind] items
  obtain s where s: "run_items (size_body rid kind) xs (scan_state 0 0 0 0xffff) = Some s"
    "total_report_size s = int (report_bits (unat rid) kind 0xffff 0 0 xs)" by auto
  have bits: "report_bits (unat rid) kind 0xffff 0 0 xs \<le> 16711425 * length xs"
    by (rule report_bits_bound) (use assms(1) in auto)
  have "int32 (total_report_size s + 7) = Some (total_report_size s + 7)"
    using bits items s(2) by (intro int32_Some) auto
  with loop [of "size_body rid kind" "scan_state 0 0 0 0xffff"] s
  have size: "btstack_hid_get_report_size_for_id rid kind d (of_nat (length d))
      = Some (int ((report_bits (unat rid) kind 0xffff 0 0 xs + 7) div 8))"
    by (auto simp: btstack_hid_get_report_size_for_id_def scan_state_def iterator_valid_def c_div_def
        zdiv_int)
  obtain c where c: "run_items (id_body rid) xs (0xffff, False) = Some (c, unat rid \<in> set (report_ids xs))"
    "c = HID_REPORT_ID_UNDEFINED \<longleftrightarrow> report_ids xs = []"
    using id_loop [OF assms(1), of rid "0xffff" False] by auto
  have "btstack_hid_report_id_valid rid d (of_nat (length d))
      = Some (if unat rid \<in> set (report_ids xs) \<or> rid = HID_REPORT_ID_UNDEFINED \<and> report_ids xs = []
          then REPORT_ID_VALID else REPORT_ID_UNDECLARED)"
    using loop [of "id_body rid" "(0xffff, False)"] c
    by (auto simp: btstack_hid_report_id_valid_def iterator_valid_def)
  moreover have "btstack_hid_report_id_declared d (of_nat (length d)) = Some (report_ids xs \<noteq> [])"
    using loop [of declared_body False] declared_loop [of xs False]
    by (auto simp: btstack_hid_report_id_declared_def)
  ultimately show ?thesis using size by blast
qed

section \<open>Which descriptors the parser has a meaning for\<close>

text \<open>
  The items of any bytes, well-formed or not, in terms of the bytes alone.  \<open>item_span\<close> finds the data of
  the item at the head: where they start and how many there are; it is \<open>None\<close> where the iterator
  stops, because there is no item, the item is cut off, or it is a long item with more than four
  data bytes.
\<close>

definition head_size :: "u8 \<Rightarrow> u8" where "head_size h = hid_item_sizes ! unat (h AND 0x03)"
definition head_type :: "u8 \<Rightarrow> u8" where "head_type h = drop_bit 2 (h AND 0x0c)"
definition head_tag :: "u8 \<Rightarrow> u8" where "head_tag h = drop_bit 4 (h AND 0xf0)"

definition long_head :: "u8 \<Rightarrow> bool" where
  "long_head h \<longleftrightarrow> head_size h = 2 \<and> head_tag h = 15 \<and> head_type h = 3"

definition data_span :: "nat \<Rightarrow> nat \<Rightarrow> bytes \<Rightarrow> (nat \<times> nat) option" where
  "data_span j n bs = (if n \<le> 4 \<and> j + n \<le> length bs then Some (j, n) else None)"

definition item_span :: "bytes \<Rightarrow> (nat \<times> nat) option" where
  "item_span bs =
     (if bs = [] then None
      else if long_head (bs ! 0)
      then if length bs < 3 then None else data_span 3 (unat (bs ! 1)) bs
      else data_span 1 (unat (head_size (bs ! 0))) bs)"

text \<open>
  The walk over the items, up to an item whose first byte satisfies \<open>stop\<close>: does it reach an item with
  four data bytes whose last has its top bit set?
\<close>

definition wide_data :: "nat \<Rightarrow> nat \<Rightarrow> bytes \<Rightarrow> bool" where
  "wide_data j n bs \<longleftrightarrow> n = 4 \<and> 128 \<le> unat (bs ! (j + 3))"

lemma item_span_pos: "item_span bs = Some (j, n) \<Longrightarrow> 0 < j \<and> j + n \<le> length bs \<and> n \<le> 4 \<and> bs \<noteq> []"
  by (auto simp: item_span_def data_span_def split: if_splits)

function wide_reached :: "(u8 \<Rightarrow> bool) \<Rightarrow> bytes \<Rightarrow> bool" where
  "wide_reached stop bs =
     (case item_span bs of
        None \<Rightarrow> False
      | Some (j, n) \<Rightarrow> wide_data j n bs \<or> \<not> stop (bs ! 0) \<and> wide_reached stop (drop (j + n) bs))"
  by pat_completeness auto
termination
  by (relation "measure (\<lambda>(stop, bs). length bs)") (auto dest!: item_span_pos)

declare wide_reached.simps [simp del]

definition report_id_head :: "u8 \<Rightarrow> bool" where
  "report_id_head h \<longleftrightarrow> head_type h = TYPE_GLOBAL \<and> head_tag h = GLOBAL_REPORT_ID"

lemma parse_value_cases:
  fixes it :: hid_item
  assumes "unat len \<le> length d" and "j \<le> 3"
  defines "n \<equiv> unat (i_data_size it)"
  shows "case data_span j n (take (unat len) d) of
      None \<Rightarrow> \<exists>it'. parse_value it d len j = Some (False, it')
    | Some _ \<Rightarrow> if wide_data j n d then parse_value it d len j = None
        else \<exists>v. parse_value it d len j = Some (True, it\<lparr>i_size := of_nat (j + n), i_value := v\<rparr>)"
proof -
  let ?it = "it\<lparr>i_size := of_nat j + ucast (i_data_size it), i_value := 0\<rparr>"
  have u: "(ucast (i_data_size it) :: u16) = of_nat n"
    by (simp add: n_def)
  have size: "unat (i_size ?it) = j + n"
    using assms(2) unat_u8_lt [of "i_data_size it"] by (simp add: unat_word_ariths unat_of_nat unat_ucast8_16 n_def)
  show ?thesis
  proof (cases "data_span j n (take (unat len) d)")
    case None
    then have "parse_value it d len j = Some (False, ?it)"
      using size assms(1)
      by (auto simp: parse_value_def Let_def word_less_nat_alt data_span_def n_def split: if_splits)
    with None show ?thesis by simp
  next
    case (Some jn)
    then have n: "n \<le> 4" "j + n \<le> unat len" using assms(1) by (auto simp: data_span_def split: if_splits)
    have fit: "\<not> len < i_size ?it" "\<not> i_data_size it > 4"
      using n size by (simp_all add: word_less_nat_alt not_less n_def)
    have run: "parse_value it d len j = do {
        vl \<leftarrow> foldM (value_step d j) [0..<n] (0, 0);
        v \<leftarrow> extend_sign ?it vl;
        Some (True, ?it\<lparr>i_value := v\<rparr>) }"
      using fit by (simp add: parse_value_def Let_def n_def)
    show ?thesis
    proof (cases "wide_data j n d")
      case True
      then have w: "n = 4" "128 \<le> unat (d ! (j + 3))" by (simp_all add: wide_data_def)
      have upt: "[0..<4] = [0..<3] @ [3 :: nat]" by (simp add: upt_rec)
      have "value_step d j 3 vl = None" for vl
        using w n assms(1) int_shift_defined [of 3 "d ! (j + 3)"]
        by (simp add: value_step_def rd_def)
      then have "foldM (value_step d j) [0..<n] (0, 0) = None"
        unfolding w(1) upt foldM_append
        by (cases "foldM (value_step d j) [0..<3] (0, 0)") simp_all
      with True Some run show ?thesis by simp
    next
      case False
      then have low: "\<not> (n = 4 \<and> 128 \<le> unat (drop j d ! 3))"
        using n assms(1) by (auto simp: wide_data_def)
      have loop: "foldM (value_step d j) [0..<n] (0, 0)
          = Some (of_nat (le_value (take n (drop j d))), if n = 0 then 0 else drop j d ! (n - 1))"
        by (rule value_steps) (use n assms(1) low in \<open>auto simp: rd_def\<close>)
      have "i_data_size it * 8 \<ge> 32 \<Longrightarrow> n = 4"
        using n by (auto simp: word_le_nat_alt unat_word_ariths n_def)
      then have "\<exists>v. extend_sign ?it (of_nat (le_value (take n (drop j d))), if n = 0 then 0 else drop j d ! (n - 1)) = Some v"
        using low by (auto simp: extend_sign_def top_bit)
      with False Some run loop u show ?thesis by auto
    qed
  qed
qed

lemma parse_item_cases:
  assumes "unat len \<le> length d"
  defines "bs \<equiv> take (unat len) d"
  shows "case item_span bs of
      None \<Rightarrow> \<exists>it'. parse_item it d len = Some (False, it')
    | Some (j, n) \<Rightarrow> if wide_data j n bs then parse_item it d len = None
        else \<exists>it'. parse_item it d len = Some (True, it') \<and> unat (i_size it') = j + n
          \<and> i_type it' = head_type (bs ! 0) \<and> (\<not> long_head (bs ! 0) \<longrightarrow> i_tag it' = head_tag (bs ! 0))"
proof (cases "len < 1")
  case True
  then have "len = 0" by (simp add: word_less_1)
  then show ?thesis by (simp add: parse_item_def item_span_def bs_def)
next
  case False
  then have "1 \<le> unat len" by (simp add: word_less_nat_alt)
  with assms(1) have d: "0 < length d" "0 < unat len" "bs \<noteq> []" "bs ! 0 = d ! 0" "rd d 0 = Some (d ! 0)"
    by (auto simp: bs_def rd_def)
  let ?h = "d ! 0"
  let ?it = "it\<lparr>i_data_size := head_size ?h, i_type := head_type ?h, i_tag := head_tag ?h\<rparr>"
  have parse: "parse_item it d len = (if long_head ?h then
      if len < 3 then Some (False, ?it)
      else do { n \<leftarrow> rd d 1; t \<leftarrow> rd d 2; parse_value (?it\<lparr>i_data_size := n, i_tag := t\<rparr>) d len 3 }
    else parse_value ?it d len 1)"
    unfolding parse_item_def Let_def d(5) bind.bind_lunit long_head_def head_size_def head_type_def head_tag_def
    using False by simp
  have wd: "wide_data j n bs = wide_data j n d" if "data_span j n bs = Some jn" for j n jn
    using that by (auto simp: wide_data_def bs_def data_span_def split: if_splits)
  have sz: "unat (3 + ucast w :: u16) = 3 + unat w" "unat (1 + ucast w :: u16) = Suc (unat w)"
    if "unat w \<le> 4" for w :: u8
    using that by (simp_all add: unat_word_ariths unat_ucast8_16)
  show ?thesis
  proof (cases "long_head ?h")
    case long: True
    show ?thesis
    proof (cases "length bs < 3")
      case True
      then have "unat len < 3" using assms(1) by (simp add: bs_def)
      then have "len < 3" by (simp add: word_less_nat_alt)
      with long d True parse show ?thesis by (simp add: item_span_def)
    next
      case fits: False
      then have l: "\<not> len < 3" "3 \<le> length d" using assms(1) by (auto simp: bs_def word_less_nat_alt)
      then have r: "rd d 1 = Some (d ! 1)" "rd d 2 = Some (d ! 2)" "bs ! 1 = d ! 1"
        using fits by (auto simp: rd_def bs_def)
      let ?it3 = "?it\<lparr>i_data_size := d ! 1, i_tag := d ! 2\<rparr>"
      have "parse_item it d len = parse_value ?it3 d len 3"
        using long l r parse by simp
      moreover have "item_span bs = data_span 3 (unat (d ! 1)) bs"
        using long d fits r by (simp add: item_span_def)
      ultimately show ?thesis
        using parse_value_cases [OF assms(1), of 3 ?it3, folded bs_def] wd [of 3 "unat (d ! 1)"] long d
        by (auto simp: data_span_def sz split: if_splits option.splits)
    qed
  next
    case short: False
    have "parse_item it d len = parse_value ?it d len 1"
      using short parse by simp
    moreover have "item_span bs = data_span 1 (unat (head_size ?h)) bs"
      using short d by (simp add: item_span_def)
    ultimately show ?thesis
      using parse_value_cases [OF assms(1), of 1 ?it, folded bs_def] wd [of 1 "unat (head_size ?h)"] d
      by (auto simp: data_span_def sz split: if_splits option.splits)
  qed
qed

text \<open>
  A loop over the items whose body is total and goes on until an item with the head \<open>stop\<close> has no
  value exactly when the walk reaches a wide item.
\<close>

lemma items_loop_None_iff:
  assumes "unat len \<le> length d"
    and body: "\<And>item it s. \<exists>s'. body item it s = Some (\<not> last_item item, s')"
    and last: "\<And>item h. i_type item = head_type h \<Longrightarrow> \<not> long_head h \<longrightarrow> i_tag item = head_tag h
      \<Longrightarrow> last_item item = stop h"
    and "it_descriptor it = d" and "it_len it = len" and "\<not> it_ready it"
  shows "items_loop body it s = None \<longleftrightarrow> wide_reached stop (drop (unat (it_pos it)) (take (unat len) d))"
  using assms(4-6)
proof (induction "items_left it" arbitrary: it s rule: less_induct)
  case less
  let ?p = "unat (it_pos it)"
  let ?bs = "drop ?p (take (unat len) d)"
  show ?case
  proof (cases "it_pos it < it_len it")
    case False
    then have "?bs = []" using assms(1) less.prems(2) by (simp add: not_less word_le_nat_alt)
    then have "\<not> wide_reached stop ?bs" by (simp add: wide_reached.simps item_span_def)
    moreover have "iterator_has_more it = Some (False, it)"
      using False less.prems(3) by (simp add: iterator_has_more_def)
    ultimately show ?thesis by (subst items_loop.simps) simp
  next
    case lt: True
    then have left: "unat (it_len it - it_pos it) = unat len - ?p" "?p < unat len"
      using less.prems(2) unat_sub [OF less_imp_le [OF lt]] by (simp_all add: word_less_nat_alt)
    have bs: "take (unat (it_len it - it_pos it)) (drop ?p d) = ?bs" by (simp add: left(1) drop_take)
    have "unat (it_len it - it_pos it) \<le> length (drop ?p d)" using assms(1) left by simp
    note cases = parse_item_cases [OF this, of "it_item it", unfolded bs]
    have more: "iterator_has_more it = (case parse_item (it_item it) (drop ?p d) (it_len it - it_pos it) of
        None \<Rightarrow> None | Some (ok, item) \<Rightarrow> if ok then Some (True, it\<lparr>it_item := item, it_ready := True\<rparr>)
          else Some (False, it\<lparr>it_item := item, it_valid := False\<rparr>))"
      using lt less.prems by (simp add: iterator_has_more_def Let_def split: option.split)
    show ?thesis
    proof (cases "item_span ?bs")
      case None
      with cases more have "\<exists>it1. iterator_has_more it = Some (False, it1)" by auto
      with None show ?thesis by (subst items_loop.simps, subst wide_reached.simps) auto
    next
      case (Some jn)
      obtain j n where jn: "jn = (j, n)" by (cases jn)
      show ?thesis
      proof (cases "wide_data j n ?bs")
        case True
        with cases more Some jn have "iterator_has_more it = None" by simp
        with True Some jn show ?thesis by (subst items_loop.simps, subst wide_reached.simps) simp
      next
        case False
        with cases Some jn obtain item where item:
          "parse_item (it_item it) (drop ?p d) (it_len it - it_pos it) = Some (True, item)"
          "unat (i_size item) = j + n" "last_item item = stop (?bs ! 0)"
          using last by fastforce
        define it1 where "it1 = it\<lparr>it_item := item, it_ready := True\<rparr>"
        have has: "iterator_has_more it = Some (True, it1)" using more item(1) by (simp add: it1_def)
        define it2 where "it2 = snd (iterator_get_item it1)"
        have it2: "it_descriptor it2 = d" "it_len it2 = len" "\<not> it_ready it2" "unat (it_pos it2) = ?p + (j + n)"
          using iterator_progress [OF has less.prems(3)] iterator_next_pos [OF has less.prems(3)] less.prems item(2)
          by (simp_all add: iterator_get_item_def it1_def it2_def)
        have "0 < j + n" using item_span_pos Some jn by auto
        with it2 less.prems(2) left(2) have smaller: "items_left it2 < items_left it"
          by (simp only: items_left_def)
        have ih: "items_loop body it2 s' = None \<longleftrightarrow> wide_reached stop (drop (j + n) ?bs)" for s'
          using less.hyps [OF smaller it2(1-3), of s'] it2(4) by (simp add: add.commute)
        obtain s' where "body item it2 s = Some (\<not> stop (?bs ! 0), s')"
          using body [of item it2 s] unfolding item(3) by blast
        moreover have "iterator_get_item it1 = (item, it2)" by (simp add: iterator_get_item_def it1_def it2_def)
        ultimately have "items_loop body it s
            = (if stop (?bs ! 0) then Some (it2, s') else items_loop body it2 s')"
          using has by (subst items_loop.simps) simp
        with ih [of s'] Some jn False show ?thesis by (subst wide_reached.simps) simp
      qed
    qed
  qed
qed

text \<open>
  Property C32.  The report ID lookups on any bytes whatsoever, well-formed or not: they stay inside
  the descriptor, end, and have a defined result exactly when the walk over the items does not reach
  an item with four data bytes whose last is 0x80 or more.  For such an item \<open>latest_byte << 24\<close>
  overflows an \<open>int\<close>.  \<open>report_id_declared\<close> stops at the first report ID item, \<open>report_id_valid\<close> walks
  through all items; both end at the first item that is cut off or too long.
\<close>

theorem hid_lookups_defined:
  assumes "unat len \<le> length d"
  shows "(btstack_hid_report_id_valid rid d len = None \<longleftrightarrow> wide_reached (\<lambda>_. False) (take (unat len) d))
    \<and> (btstack_hid_report_id_declared d len = None \<longleftrightarrow> wide_reached report_id_head (take (unat len) d))"
proof (rule conjI)
  let ?it = "iterator_init d len"
  have it: "it_descriptor ?it = d" "it_len ?it = len" "\<not> it_ready ?it" "unat (it_pos ?it) = 0"
    by (simp_all add: iterator_init_def)
  have "items_loop (\<lambda>item it. id_body rid item) ?it (HID_REPORT_ID_UNDEFINED, False) = None
      \<longleftrightarrow> wide_reached (\<lambda>_. False) (drop (unat (it_pos ?it)) (take (unat len) d))"
    by (rule items_loop_None_iff [OF assms, where last_item = "\<lambda>_. False", OF _ _ it(1-3)])
       (simp_all add: id_body_def Let_def)
  then show "btstack_hid_report_id_valid rid d len = None \<longleftrightarrow> wide_reached (\<lambda>_. False) (take (unat len) d)"
    by (auto simp: it(4) btstack_hid_report_id_valid_def bind_eq_None_conv split: prod.splits)
  have "items_loop (\<lambda>item it. declared_body item) ?it False = None
      \<longleftrightarrow> wide_reached report_id_head (drop (unat (it_pos ?it)) (take (unat len) d))"
  proof (rule items_loop_None_iff [OF assms, where last_item = "\<lambda>i. i_type i = TYPE_GLOBAL \<and> i_tag i = GLOBAL_REPORT_ID", OF _ _ it(1-3)])
    show "\<exists>s'. declared_body item s = Some (\<not> (i_type item = TYPE_GLOBAL \<and> i_tag item = GLOBAL_REPORT_ID), s')"
      for item s by (auto simp: declared_body_def)
    show "(i_type item = TYPE_GLOBAL \<and> i_tag item = GLOBAL_REPORT_ID) = report_id_head h"
      if "i_type item = head_type h" "\<not> long_head h \<longrightarrow> i_tag item = head_tag h" for item h
      using that by (auto simp: report_id_head_def long_head_def)
  qed
  then show "btstack_hid_report_id_declared d len = None \<longleftrightarrow> wide_reached report_id_head (take (unat len) d)"
    by (simp add: it(4) btstack_hid_report_id_declared_def)
qed

text \<open>
  A physical unit of four bytes after the report ID: the one lookup stops in front of it, the other
  does not.
\<close>

theorem hid_lookups_defined_witness:
  "btstack_hid_report_id_valid 1 [0x85, 1, 0x67, 0, 0, 0, 0xF0] 7 = None
   \<and> btstack_hid_report_id_declared [0x85, 1, 0x67, 0, 0, 0, 0xF0] 7 \<noteq> None"
proof -
  let ?d = "[0x85, 1, 0x67, 0, 0, 0, 0xF0] :: bytes"
  have "wide_reached (\<lambda>_. False) ?d" "\<not> wide_reached report_id_head ?d"
    by (simp_all add: wide_reached.simps [of _ ?d] wide_reached.simps [of _ "[0x67, 0, 0, 0, 0xF0]"] item_span_def data_span_def
        long_head_def head_size_def head_tag_def head_type_def hid_item_sizes_def wide_data_def report_id_head_def)
  with hid_lookups_defined [of 7 ?d 1] show ?thesis by simp
qed

text \<open>
  Property C31.  The lookups of the HID parser on a descriptor that is the encoding of a list of
  short items under these conditions: at most 128 items; report sizes and report IDs have at most
  one data byte, report counts at most two, and any other item four with a last byte below 0x80
  (\<open>plain_item\<close>); and no report ID occurs twice.  Then all three lookups are defined; the size of a report
  is the sum of count times size over its main items of the kind asked for, rounded up to bytes; a
  report ID is valid exactly when an item of the descriptor sets it (or it is the undefined ID and
  no item sets any), else undeclared; and a descriptor declares IDs exactly when it has a report ID
  item.
\<close>

theorem hid_report_lookups:
  assumes "\<forall>x \<in> set xs. plain_item x" and "distinct (report_ids xs)" and "length xs \<le> 128"
  defines "d \<equiv> encode_items xs"
  shows "btstack_hid_get_report_size_for_id rid kind d (of_nat (length d))
      = Some (int ((report_bits (unat rid) kind 0xffff 0 0 xs + 7) div 8))
    \<and> btstack_hid_report_id_valid rid d (of_nat (length d))
      = Some (if unat rid \<in> set (report_ids xs) \<or> rid = HID_REPORT_ID_UNDEFINED \<and> report_ids xs = []
          then REPORT_ID_VALID else REPORT_ID_UNDECLARED)
    \<and> btstack_hid_report_id_declared d (of_nat (length d)) = Some (report_ids xs \<noteq> [])"
  unfolding d_def by (rule lookups_of_items [OF assms(1-3)])

definition demo_items :: "short_item list" where
  "demo_items = [\<lparr>s_tag = 8, s_type = 1, s_data = [2]\<rparr>, \<lparr>s_tag = 7, s_type = 1, s_data = [12]\<rparr>,
     \<lparr>s_tag = 9, s_type = 1, s_data = [3]\<rparr>, \<lparr>s_tag = 8, s_type = 0, s_data = [2]\<rparr>,
     \<lparr>s_tag = 8, s_type = 1, s_data = [3]\<rparr>, \<lparr>s_tag = 8, s_type = 0, s_data = [2]\<rparr>]"

theorem hid_report_lookups_witness:
  "btstack_hid_get_report_size_for_id 2 REPORT_INPUT (encode_items demo_items) 12 = Some 5"
proof -
  have "\<forall>x \<in> set demo_items. plain_item x" "distinct (report_ids demo_items)"
    "length (encode_items demo_items) = 12" "length demo_items \<le> 128"
    by (simp_all add: demo_items_def plain_item_def short_ok_def short_signed_def report_ids_def
        is_global_def encode_item_def)
  moreover have "report_bits (unat (2 :: u16)) REPORT_INPUT 0xffff 0 0 demo_items = 36"
    by (simp add: demo_items_def is_global_def tag_matches_def)
  ultimately show ?thesis
    using hid_report_lookups [of demo_items 2 REPORT_INPUT] by simp
qed

text \<open>
  Why no ID may occur twice: the loop ends at the first item after the report's fields that leaves
  its ID, so the fields of a second collection with the same ID are not counted.
\<close>

definition split_items :: "short_item list" where
  "split_items = [\<lparr>s_tag = 7, s_type = 1, s_data = [8]\<rparr>, \<lparr>s_tag = 9, s_type = 1, s_data = [1]\<rparr>,
     \<lparr>s_tag = 8, s_type = 1, s_data = [1]\<rparr>, \<lparr>s_tag = 8, s_type = 0, s_data = [2]\<rparr>,
     \<lparr>s_tag = 8, s_type = 1, s_data = [2]\<rparr>, \<lparr>s_tag = 8, s_type = 0, s_data = [2]\<rparr>,
     \<lparr>s_tag = 8, s_type = 1, s_data = [1]\<rparr>, \<lparr>s_tag = 8, s_type = 0, s_data = [2]\<rparr>]"

lemma repeated_id_cuts_size:
  "btstack_hid_get_report_size_for_id 1 REPORT_INPUT (encode_items split_items) 16 = Some 1
   \<and> report_bits 1 REPORT_INPUT 0xffff 0 0 split_items = 16"
proof -
  have ok: "\<forall>x \<in> set split_items. plain_item x" "length (encode_items split_items) = 16"
    by (simp_all add: split_items_def plain_item_def short_ok_def is_global_def encode_item_def)
  then have "\<forall>x \<in> set split_items. short_ok x" by (simp add: plain_item_def)
  note loop = descriptor_loop [OF this, of "size_body 1 REPORT_INPUT" "scan_state 0 0 0 0xffff"]
  have body: "size_body 1 REPORT_INPUT (decode_item x) (scan_state t sz cnt cur) = Some (
      case (if is_global GLOBAL_REPORT_ID x then (t, sz, cnt, le_value (s_data x))
            else if is_global GLOBAL_REPORT_COUNT x then (t, sz, le_value (s_data x), cur)
            else if is_global GLOBAL_REPORT_SIZE x then (t, le_value (s_data x), cnt, cur)
            else if s_type x = TYPE_MAIN \<and> cur = 1 \<and> tag_matches (s_tag x) REPORT_INPUT
            then (t + cnt * sz, sz, cnt, cur) else (t, sz, cnt, cur)) of
        (t, sz, cnt, cur) \<Rightarrow> (\<not> (0 < t \<and> cur \<noteq> 1), scan_state t sz cnt cur))"
    if "x \<in> set split_items" "sz < 256" "cnt < 65536" "t + 16711425 < 2 ^ 31" for x t sz cnt cur
    using size_body_plain [OF _ that(2-4), of x 1 REPORT_INPUT cur] ok(1) that(1) by simp
  have "run_items (size_body 1 REPORT_INPUT) split_items (scan_state 0 0 0 0xffff) = Some (scan_state 8 8 1 2)"
    by (simp add: split_items_def body [unfolded split_items_def] is_global_def tag_matches_def)
  with loop ok(2) have "\<exists>it. items_loop (\<lambda>i it. size_body 1 REPORT_INPUT i) (iterator_init (encode_items split_items) 16)
      (scan_state 0 0 0 0xffff) = Some (it, scan_state 8 8 1 2) \<and> it_valid it" by auto
  moreover have "report_bits 1 REPORT_INPUT 0xffff 0 0 split_items = 16"
    by (simp add: split_items_def is_global_def tag_matches_def)
  ultimately show ?thesis
    by (auto simp: btstack_hid_get_report_size_for_id_def scan_state_def iterator_valid_def int32_def c_div_def)
qed

end
