(* ===== verification/FirmwareDescriptor.thy ===== *)
theory FirmwareDescriptor
  imports BtstackHid HidParser
begin

text \<open>
  The report descriptor that \<open>btstack_hid.c\<close> hands to the HID profile, as a list of items: which
  reports it declares, and how long they are.
\<close>

section \<open>The descriptor of the firmware\<close>

abbreviation Short :: "u8 \<Rightarrow> u8 \<Rightarrow> bytes \<Rightarrow> short_item" where
  "Short g ty d \<equiv> \<lparr>s_tag = g, s_type = ty, s_data = d\<rparr>"

definition firmware_items :: "short_item list" where
  "firmware_items =
    [Short 0 1 [1], Short 0 2 [5], Short 10 0 [1], Short 8 1 [33], Short 0 1 [1, 255],
     Short 0 2 [33], Short 1 1 [0], Short 2 1 [0], Short 7 1 [8], Short 9 1 [48], Short 8 0 [2],
     Short 8 1 [48], Short 0 2 [48], Short 1 1 [0], Short 2 1 [0], Short 7 1 [8], Short 9 1 [48],
     Short 8 0 [2], Short 8 1 [49], Short 0 2 [49], Short 7 1 [8], Short 9 1 [105, 1],
     Short 8 0 [2], Short 8 1 [63], Short 0 1 [9], Short 1 2 [1], Short 2 2 [16], Short 1 1 [0],
     Short 2 1 [1], Short 7 1 [1], Short 9 1 [16], Short 8 0 [2], Short 0 1 [1], Short 0 2 [57],
     Short 1 1 [0], Short 2 1 [7], Short 7 1 [4], Short 9 1 [1], Short 8 0 [66], Short 7 1 [4],
     Short 9 1 [1], Short 8 0 [3], Short 0 2 [48], Short 0 2 [49], Short 0 2 [51],
     Short 0 2 [52], Short 1 1 [0], Short 2 1 [255, 255, 0, 0], Short 7 1 [16], Short 9 1 [4],
     Short 8 0 [2], Short 8 1 [1], Short 0 1 [1, 255], Short 0 2 [1], Short 1 1 [0],
     Short 2 1 [255, 255, 0, 0], Short 7 1 [8], Short 9 1 [48], Short 9 0 [2], Short 8 1 [16],
     Short 0 2 [16], Short 1 1 [0], Short 2 1 [255, 255, 0, 0], Short 7 1 [8], Short 9 1 [48],
     Short 9 0 [2], Short 8 1 [17], Short 0 2 [17], Short 7 1 [8], Short 9 1 [48], Short 9 0 [2],
     Short 12 0 []]"

lemma firmware_descriptor: "encode_items firmware_items = hid_descriptor"
  by (simp add: firmware_items_def encode_item_def size_code_def hid_descriptor_def)

lemma firmware_plain: "\<forall>x \<in> set firmware_items. plain_item x"
  by (simp add: firmware_items_def plain_item_def short_ok_def short_signed_def negative_def is_global_def)

lemma firmware_ids: "report_ids firmware_items = [0x21, 0x30, 0x31, 0x3F, 0x01, 0x10, 0x11]"
  by (simp add: firmware_items_def report_ids_def is_global_def)

definition declared_size :: "hid_report_type \<Rightarrow> nat \<Rightarrow> nat" where
  "declared_size kind rid =
     (if kind = REPORT_OUTPUT \<and> rid \<in> {0x01, 0x10, 0x11} then 48
      else if kind = REPORT_INPUT \<and> rid \<in> {0x21, 0x30} then 48
      else if kind = REPORT_INPUT \<and> rid = 0x31 then 361
      else if kind = REPORT_INPUT \<and> rid = 0x3F then 11
      else 0)"

lemma firmware_bits:
  "(report_bits rid kind 0xffff 0 0 firmware_items + 7) div 8 = declared_size kind rid"
  by (cases kind) (simp_all add: firmware_items_def is_global_def tag_matches_def declared_size_def)

end
