(* ===== verification/HidDevice.thy ===== *)
theory HidDevice
  imports HidParser
begin

text \<open>
  The HID device profile of BTstack, \<open>classic/hid_device.c\<close>: the connection state machine over the two
  L2CAP channels, the HIDP requests a host makes on the control channel, the reports it sends, and the
  interface the firmware uses.  The calls the file makes into L2CAP, and the callbacks into the
  firmware, are recorded in order in \<open>h_log\<close>.  Logging is left out, apart from the counter of
  the NFC packets it is driven by.
\<close>

section \<open>State\<close>

datatype hid_state = HID_IDLE | HID_CONNECTED | W2_GET_REPORT | W2_SET_REPORT | W2_GET_PROTOCOL
  | W2_SET_PROTOCOL | W2_ANSWER_SET_PROTOCOL | W2_SEND_UNSUPPORTED_REQUEST

datatype handshake = HS_SUCCESSFUL | HS_NOT_READY | HS_ERR_INVALID_REPORT_ID
  | HS_ERR_UNSUPPORTED_REQUEST | HS_ERR_INVALID_PARAMETER

primrec handshake_code :: "handshake \<Rightarrow> u8" where
  "handshake_code HS_SUCCESSFUL = 0"
| "handshake_code HS_NOT_READY = 1"
| "handshake_code HS_ERR_INVALID_REPORT_ID = 2"
| "handshake_code HS_ERR_UNSUPPORTED_REQUEST = 3"
| "handshake_code HS_ERR_INVALID_PARAMETER = 4"

datatype protocol_mode = PROTOCOL_BOOT | PROTOCOL_REPORT

primrec protocol_code :: "protocol_mode \<Rightarrow> u8" where
  "protocol_code PROTOCOL_BOOT = 0"
| "protocol_code PROTOCOL_REPORT = 1"

primrec report_type_code :: "hid_report_type \<Rightarrow> u8" where
  "report_type_code REPORT_RESERVED = 0"
| "report_type_code REPORT_INPUT = 1"
| "report_type_code REPORT_OUTPUT = 2"
| "report_type_code REPORT_FEATURE = 3"

text \<open>The cast of the low two bits of a header to \<open>hid_report_type_t\<close>.\<close>

definition report_type_of :: "u8 \<Rightarrow> hid_report_type" where
  "report_type_of h =
     (let k = h AND 0x03 in
      if k = 1 then REPORT_INPUT else if k = 2 then REPORT_OUTPUT
      else if k = 3 then REPORT_FEATURE else REPORT_RESERVED)"

abbreviation (input) "HCI_CON_HANDLE_INVALID \<equiv> (0xffff :: u16)"
abbreviation (input) "PSM_HID_CONTROL \<equiv> (0x11 :: u16)"
abbreviation (input) "PSM_HID_INTERRUPT \<equiv> (0x13 :: u16)"
abbreviation (input) "SUBEVENT_CONNECTION_OPENED \<equiv> (0x02 :: u8)"
abbreviation (input) "SUBEVENT_CONNECTION_CLOSED \<equiv> (0x03 :: u8)"
abbreviation (input) "SUBEVENT_CAN_SEND_NOW \<equiv> (0x04 :: u8)"
abbreviation (input) "SUBEVENT_SUSPEND \<equiv> (0x05 :: u8)"
abbreviation (input) "SUBEVENT_EXIT_SUSPEND \<equiv> (0x06 :: u8)"
abbreviation (input) "SUBEVENT_VIRTUAL_CABLE_UNPLUG \<equiv> (0x07 :: u8)"

text \<open>\<open>hid_device_t\<close>\<close>

record hid_dev =
  hd_cid :: u16
  hd_bd_addr :: bytes
  hd_con_handle :: u16
  hd_control_cid :: u16
  hd_interrupt_cid :: u16
  hd_incoming :: bool
  hd_connected :: bool
  hd_state :: hid_state
  hd_report_type :: hid_report_type
  hd_report_id :: u8
  hd_expected_report_size :: u16
  hd_response_size :: u16
  hd_user_request :: bool
  hd_report_status :: handshake
  hd_protocol_mode :: protocol_mode

definition zero_dev :: hid_dev where
  "zero_dev = \<lparr>hd_cid = 0, hd_bd_addr = replicate 6 0, hd_con_handle = 0, hd_control_cid = 0,
     hd_interrupt_cid = 0, hd_incoming = False, hd_connected = False, hd_state = HID_IDLE,
     hd_report_type = REPORT_RESERVED, hd_report_id = 0, hd_expected_report_size = 0,
     hd_response_size = 0, hd_user_request = False, hd_report_status = HS_SUCCESSFUL,
     hd_protocol_mode = PROTOCOL_BOOT\<rparr>"

datatype hid_call =
    RequestCanSendNowOn u16
  | ReservePacketBuffer
  | ReleasePacketBuffer
  | SendPrepared u16 u16 bytes
  | L2capSend u16 bytes
  | L2capAccept u16
  | L2capDecline u16
  | CreateChannel bytes u16
  | DisconnectChannel u16
  | RegisterService u16
  | HidEvent u16 bytes
  | HidSetReport u16 hid_report_type int bytes
  | HidReportData u16 hid_report_type u16 int bytes

text \<open>A callback pointer: null, the dummy of the file, or the function the firmware registered.\<close>

datatype callback = CbNull | CbDummy | CbUser

record hid_mod =
  h_dev :: hid_dev
  h_callback :: callback
  h_get_report :: callback
  h_set_report :: callback
  h_report_data :: callback
  h_boot_supported :: bool
  h_descriptor :: bytes
  h_descriptor_len :: u16
  h_accept_shorter :: bool
  h_next_cid :: u16
  h_wire_count :: u32
  h_log :: "hid_call list"

text \<open>
  What the calls answer: the firmware's report callback (its status, the size it reports and what it
  leaves in the buffer), the status and the channel ID of a new L2CAP channel, the status of
  \<open>l2cap_send\<close> and the contents of the outgoing buffer.
\<close>

record hid_env =
  e_get_report :: "u16 \<Rightarrow> hid_report_type \<Rightarrow> u16 \<Rightarrow> bytes \<Rightarrow> u8 \<times> int \<times> bytes"
  e_create_channel :: "u16 \<Rightarrow> u8 \<times> u16 option"
  e_send :: "u16 \<Rightarrow> bytes \<Rightarrow> int"
  e_out_buffer :: bytes

definition hcall :: "hid_call \<Rightarrow> hid_mod \<Rightarrow> hid_mod" where
  "hcall c m = m\<lparr>h_log := h_log m @ [c]\<rparr>"

definition upd_dev :: "(hid_dev \<Rightarrow> hid_dev) \<Rightarrow> hid_mod \<Rightarrow> hid_mod" where
  "upd_dev f m = m\<lparr>h_dev := f (h_dev m)\<rparr>"

text \<open>Calling a callback: through a null pointer is undefined, the dummy does nothing.\<close>

definition call_back :: "callback \<Rightarrow> hid_call \<Rightarrow> hid_mod \<Rightarrow> hid_mod option" where
  "call_back cb c m = (case cb of CbNull \<Rightarrow> None | CbDummy \<Rightarrow> Some m | CbUser \<Rightarrow> Some (hcall c m))"

section \<open>Instances and events\<close>

definition hid_device_get_next_cid :: "hid_mod \<Rightarrow> u16 \<times> hid_mod" where
  "hid_device_get_next_cid m =
     (let c = h_next_cid m + 1; c = (if c = 0 then 1 else c) in (c, m\<lparr>h_next_cid := c\<rparr>))"

definition instance_for_l2cap_cid :: "u16 \<Rightarrow> hid_mod \<Rightarrow> bool" where
  "instance_for_l2cap_cid cid m \<longleftrightarrow> hd_control_cid (h_dev m) = cid \<or> hd_interrupt_cid (h_dev m) = cid"

definition instance_for_hid_cid :: "u16 \<Rightarrow> hid_mod \<Rightarrow> bool" where
  "instance_for_hid_cid cid m \<longleftrightarrow> hd_cid (h_dev m) = cid"

definition hid_device_setup_instance :: "bytes \<Rightarrow> hid_mod \<Rightarrow> hid_mod" where
  "hid_device_setup_instance addr m =
     (let m = m\<lparr>h_dev := zero_dev\<lparr>hd_bd_addr := addr\<rparr>\<rparr>;
          (c, m) = hid_device_get_next_cid m
      in upd_dev (\<lambda>d. d\<lparr>hd_cid := c, hd_protocol_mode := PROTOCOL_REPORT,
           hd_con_handle := HCI_CON_HANDLE_INVALID\<rparr>) m)"

definition provide_instance :: "bytes \<Rightarrow> hid_mod \<Rightarrow> hid_mod" where
  "provide_instance addr m = (if hd_cid (h_dev m) = 0 then hid_device_setup_instance addr m else m)"

definition le16_bytes :: "u16 \<Rightarrow> bytes" where
  "le16_bytes w = [ucast w, ucast (drop_bit 8 w)]"

definition read_le16 :: "bytes \<Rightarrow> nat \<Rightarrow> u16 option" where
  "read_le16 p i = do { a \<leftarrow> rd p i; b \<leftarrow> rd p (i + 1); Some (ucast a OR push_bit 8 (ucast b)) }"

text \<open>The event packets: tag, length, subevent, the HID cid and the fields.\<close>

definition connected_event :: "u8 \<Rightarrow> hid_dev \<Rightarrow> bytes" where
  "connected_event status d =
     [0xEF, 13, SUBEVENT_CONNECTION_OPENED] @ le16_bytes (hd_cid d) @ [status] @ rev (hd_bd_addr d)
     @ le16_bytes (hd_con_handle d) @ [if hd_incoming d then 1 else 0]"

definition hid_device_emit_connected_event :: "u8 \<Rightarrow> hid_mod \<Rightarrow> hid_mod option" where
  "hid_device_emit_connected_event status m =
     call_back (h_callback m) (HidEvent (hd_cid (h_dev m)) (connected_event status (h_dev m))) m"

definition subevent_packet :: "u8 \<Rightarrow> hid_dev \<Rightarrow> bytes" where
  "subevent_packet subevent d = [0xEF, 3, subevent] @ le16_bytes (hd_cid d)"

definition hid_device_emit_event :: "u8 \<Rightarrow> hid_mod \<Rightarrow> hid_mod option" where
  "hid_device_emit_event subevent m =
     call_back (h_callback m) (HidEvent (hd_cid (h_dev m)) (subevent_packet subevent (h_dev m))) m"

definition request_on_control :: "hid_mod \<Rightarrow> hid_mod" where
  "request_on_control m = hcall (RequestCanSendNowOn (hd_control_cid (h_dev m))) m"

definition hid_device_trigger_user_request_if_pending :: "hid_mod \<Rightarrow> hid_mod" where
  "hid_device_trigger_user_request_if_pending m =
     (if hd_user_request (h_dev m) then request_on_control m else m)"

definition hid_device_send_prepared_control_message :: "bytes \<Rightarrow> u16 \<Rightarrow> hid_mod \<Rightarrow> hid_mod" where
  "hid_device_send_prepared_control_message buf n m =
     hid_device_trigger_user_request_if_pending
       (hcall (SendPrepared (hd_control_cid (h_dev m)) n buf) m)"

section \<open>Validation of reports\<close>

definition hid_device_in_boot_protocol_mode :: "u16 \<Rightarrow> hid_mod \<Rightarrow> bool" where
  "hid_device_in_boot_protocol_mode cid m \<longleftrightarrow>
     instance_for_hid_cid cid m \<and> hd_protocol_mode (h_dev m) = PROTOCOL_BOOT"

definition hid_report_size_valid :: "u16 \<Rightarrow> u16 \<Rightarrow> hid_report_type \<Rightarrow> int \<Rightarrow> hid_mod \<Rightarrow> bool option" where
  "hid_report_size_valid cid rid kind n m =
     (if n = 0 then Some False
      else if hid_device_in_boot_protocol_mode cid m
      then Some (if rid = 1 then n \<ge> 8 else if rid = 2 then n \<ge> 1 else False)
      else do {
        size \<leftarrow> btstack_hid_get_report_size_for_id rid kind (h_descriptor m) (h_descriptor_len m);
        Some (size \<noteq> 0 \<and> (if h_accept_shorter m then n \<le> size else n = size)) })"

definition hid_get_report_size_for_id :: "u16 \<Rightarrow> u16 \<Rightarrow> hid_report_type \<Rightarrow> hid_mod \<Rightarrow> int option" where
  "hid_get_report_size_for_id cid rid kind m =
     (if hid_device_in_boot_protocol_mode cid m
      then Some (if rid = 1 then 8 else if rid = 2 then 3 else 0)
      else btstack_hid_get_report_size_for_id rid kind (h_descriptor m) (h_descriptor_len m))"

definition hid_report_id_status :: "u16 \<Rightarrow> u16 \<Rightarrow> hid_mod \<Rightarrow> report_id_status option" where
  "hid_report_id_status cid rid m =
     (if hid_device_in_boot_protocol_mode cid m
      then Some (if rid = 1 \<or> rid = 2 then REPORT_ID_VALID else REPORT_ID_INVALID)
      else btstack_hid_report_id_valid rid (h_descriptor m) (h_descriptor_len m))"

definition ids_declared :: "hid_mod \<Rightarrow> bool option" where
  "ids_declared m = btstack_hid_report_id_declared (h_descriptor m) (h_descriptor_len m)"

definition hid_device_set_report_cmd_is_valid :: "u16 \<Rightarrow> hid_report_type \<Rightarrow> int \<Rightarrow> bytes \<Rightarrow> hid_mod \<Rightarrow> handshake option" where
  "hid_device_set_report_cmd_is_valid cid kind n report m =
     (if n = 0 then Some HS_ERR_INVALID_PARAMETER
      else do {
        declared \<leftarrow> ids_declared m;
        (pos, rid, bad) \<leftarrow> (if declared then do {
             rid \<leftarrow> rd report 0;
             st \<leftarrow> hid_report_id_status cid (ucast rid) m;
             Some (1, ucast rid, st = REPORT_ID_INVALID) }
           else Some (0, 0, False));
        if bad then Some HS_ERR_INVALID_REPORT_ID
        else do {
          ok \<leftarrow> hid_report_size_valid cid rid kind (n - pos) m;
          Some (if ok then HS_SUCCESSFUL else HS_ERR_INVALID_PARAMETER) } })"


section \<open>Messages of the host\<close>

text \<open>\<open>packet\<close> is the whole L2CAP packet, so \<open>packet_size\<close> is its length.\<close>

definition set_status :: "handshake \<Rightarrow> hid_mod \<Rightarrow> hid_mod" where
  "set_status st m = upd_dev (\<lambda>d. d\<lparr>hd_report_status := st\<rparr>) m"

definition handle_get_report :: "bytes \<Rightarrow> hid_mod \<Rightarrow> hid_mod option" where
  "handle_get_report p m = do {
     h \<leftarrow> rd p 0;
     let m = upd_dev (\<lambda>d. d\<lparr>hd_report_type := report_type_of h, hd_report_id := 0,
               hd_report_status := HS_SUCCESSFUL, hd_state := W2_GET_REPORT\<rparr>) m;
     need_report_id \<leftarrow> (case hd_protocol_mode (h_dev m) of
         PROTOCOL_BOOT \<Rightarrow> Some True | PROTOCOL_REPORT \<Rightarrow> ids_declared m);
     (pos, m) \<leftarrow>
       (if need_report_id then
          if length p \<ge> 2 then do {
            rid \<leftarrow> rd p 1;
            let m = upd_dev (\<lambda>d. d\<lparr>hd_report_id := rid\<rparr>) m;
            st \<leftarrow> hid_report_id_status (hd_cid (h_dev m)) (ucast rid) m;
            Some (2, if st = REPORT_ID_INVALID then set_status HS_ERR_INVALID_REPORT_ID m else m) }
          else Some (1, set_status HS_ERR_INVALID_REPORT_ID m)
        else Some (1, m));
     if hd_report_status (h_dev m) \<noteq> HS_SUCCESSFUL then Some (request_on_control m)
     else do {
       size \<leftarrow> hid_get_report_size_for_id (hd_cid (h_dev m)) (ucast (hd_report_id (h_dev m)))
                 (hd_report_type (h_dev m)) m;
       let m = upd_dev (\<lambda>d. d\<lparr>hd_expected_report_size := of_int size\<rparr>) m;
       let response_size = hd_expected_report_size (h_dev m) + of_nat pos;
       if h AND 0x08 \<noteq> 0 then
         if length p \<ge> pos + 2 then do {
           host_buffer_size \<leftarrow> read_le16 p pos;
           let n = (if uint response_size < uint host_buffer_size + 1 then response_size
                    else host_buffer_size + 1);
           Some (request_on_control (upd_dev (\<lambda>d. d\<lparr>hd_response_size := n\<rparr>) m)) }
         else Some (request_on_control (set_status HS_ERR_INVALID_PARAMETER m))
       else Some (request_on_control (upd_dev (\<lambda>d. d\<lparr>hd_response_size := response_size\<rparr>) m)) } }"

definition handle_set_report :: "bytes \<Rightarrow> hid_mod \<Rightarrow> hid_mod option" where
  "handle_set_report p m = do {
     h \<leftarrow> rd p 0;
     let kind = report_type_of h;
     let n = int (length p) - 1;
     let m = upd_dev (\<lambda>d. d\<lparr>hd_state := W2_SET_REPORT, hd_report_type := kind\<rparr>) m;
     let cid = hd_cid (h_dev m);
     if length p < 1 then Some (set_status HS_ERR_INVALID_PARAMETER m)
     else do {
       m \<leftarrow> (case hd_protocol_mode (h_dev m) of
           PROTOCOL_BOOT \<Rightarrow>
             if length p < 3 then Some (set_status HS_ERR_INVALID_PARAMETER m)
             else do {
               rid \<leftarrow> rd p 1;
               let m = upd_dev (\<lambda>d. d\<lparr>hd_report_id := rid\<rparr>) m;
               st \<leftarrow> hid_device_set_report_cmd_is_valid cid kind n (drop 1 p) m;
               let m = set_status st m;
               if st \<noteq> HS_SUCCESSFUL then Some m
               else call_back (h_set_report m) (HidSetReport cid kind n (drop 1 p)) m }
         | PROTOCOL_REPORT \<Rightarrow> do {
             st \<leftarrow> hid_device_set_report_cmd_is_valid cid kind n (drop 1 p) m;
             let m = set_status st m;
             if st \<noteq> HS_SUCCESSFUL then Some m
             else if length p \<ge> 2 then call_back (h_set_report m) (HidSetReport cid kind n (drop 1 p)) m
             else call_back (h_set_report m) (HidSetReport cid kind 1 [0]) m });
       Some (request_on_control (upd_dev (\<lambda>d. d\<lparr>hd_report_type := kind\<rparr>) m)) } }"

definition handle_get_protocol :: "bytes \<Rightarrow> hid_mod \<Rightarrow> hid_mod option" where
  "handle_get_protocol p m =
     (let m = upd_dev (\<lambda>d. d\<lparr>hd_state := W2_GET_PROTOCOL\<rparr>) m
      in if length p \<noteq> 1 then Some (set_status HS_ERR_INVALID_PARAMETER m)
         else Some (request_on_control (set_status HS_SUCCESSFUL m)))"

definition handle_set_protocol :: "bytes \<Rightarrow> hid_mod \<Rightarrow> hid_mod option" where
  "handle_set_protocol p m =
     (let m = upd_dev (\<lambda>d. d\<lparr>hd_state := W2_SET_PROTOCOL\<rparr>) m
      in if length p \<noteq> 1 then Some (set_status HS_ERR_INVALID_PARAMETER m)
         else do {
           h \<leftarrow> rd p 0;
           let mode = (if h AND 0x01 = 0 then PROTOCOL_BOOT else PROTOCOL_REPORT);
           if mode = PROTOCOL_BOOT \<and> \<not> h_boot_supported m
           then Some (set_status HS_ERR_INVALID_PARAMETER m)
           else Some (request_on_control (set_status HS_SUCCESSFUL
                  (upd_dev (\<lambda>d. d\<lparr>hd_protocol_mode := mode\<rparr>) m))) })"

definition unsupported_request :: "hid_mod \<Rightarrow> hid_mod option" where
  "unsupported_request m =
     Some (request_on_control (upd_dev (\<lambda>d. d\<lparr>hd_state := W2_SEND_UNSUPPORTED_REQUEST\<rparr>) m))"

definition handle_hid_control :: "bytes \<Rightarrow> hid_mod \<Rightarrow> hid_mod option" where
  "handle_hid_control p m = do {
     h \<leftarrow> rd p 0;
     let param = h AND 0x0f;
     if param = 3 then hid_device_emit_event SUBEVENT_SUSPEND m
     else if param = 4 then hid_device_emit_event SUBEVENT_EXIT_SUSPEND m
     else if param = 5 then hid_device_emit_event SUBEVENT_VIRTUAL_CABLE_UNPLUG m
     else unsupported_request m }"

definition handle_data :: "bytes \<Rightarrow> hid_mod \<Rightarrow> hid_mod option" where
  "handle_data p m =
     (if length p < 2 then Some m
      else do {
        h \<leftarrow> rd p 0;
        let m = upd_dev (\<lambda>d. d\<lparr>hd_report_type := report_type_of h, hd_report_id := 0\<rparr>) m;
        declared \<leftarrow> ids_declared m;
        (pos, m) \<leftarrow> (if declared then do {
            rid \<leftarrow> rd p 1;
            Some (2, upd_dev (\<lambda>d. d\<lparr>hd_report_id := rid\<rparr>) m) }
          else Some (1, m));
        let d = h_dev m;
        let n = int (length p) - int pos;
        st \<leftarrow> hid_report_id_status (hd_cid d) (ucast (hd_report_id d)) m;
        if st = REPORT_ID_INVALID then Some m
        else do {
          ok \<leftarrow> hid_report_size_valid (hd_cid d) (ucast (hd_report_id d)) (hd_report_type d) n m;
          if \<not> ok then Some m
          else call_back (h_report_data m)
                 (HidReportData (hd_cid d) (hd_report_type d) (ucast (hd_report_id d)) n (drop pos p)) m } })"

definition handle_l2cap_data :: "u16 \<Rightarrow> bytes \<Rightarrow> hid_mod \<Rightarrow> hid_mod option" where
  "handle_l2cap_data channel p m =
     (if \<not> instance_for_l2cap_cid channel m then Some m
      else if length p < 1 then Some m
      else do {
        h \<leftarrow> rd p 0;
        m \<leftarrow> (if length p \<ge> 2 then do {
               b \<leftarrow> rd p 1;
               Some (if b = 0x11 then m\<lparr>h_wire_count := h_wire_count m + 1\<rparr> else m) }
             else Some m);
        let t = drop_bit 4 h;
        if t = 4 then handle_get_report p m
        else if t = 5 then handle_set_report p m
        else if t = 6 then handle_get_protocol p m
        else if t = 7 then handle_set_protocol p m
        else if t = 1 then handle_hid_control p m
        else if t = 10 then handle_data p m
        else unsupported_request m })"

section \<open>Channels\<close>

definition event_address :: "bytes \<Rightarrow> nat \<Rightarrow> bytes option" where
  "event_address p i = map_option rev (rd_range p i 6)"

definition attach_incoming :: "u16 \<Rightarrow> bytes \<Rightarrow> u16 \<Rightarrow> u16 \<Rightarrow> hid_mod \<Rightarrow> hid_mod" where
  "attach_incoming handle address psm cid m =
     (let m = upd_dev (\<lambda>d. d\<lparr>hd_con_handle := handle, hd_incoming := True, hd_bd_addr := address\<rparr>) m
      in if psm = PSM_HID_CONTROL then upd_dev (\<lambda>d. d\<lparr>hd_control_cid := cid\<rparr>) m
         else upd_dev (\<lambda>d. d\<lparr>hd_interrupt_cid := cid\<rparr>) m)"

definition handle_incoming_connection :: "u16 \<Rightarrow> bytes \<Rightarrow> hid_mod \<Rightarrow> hid_mod option" where
  "handle_incoming_connection channel p m = do {
     psm \<leftarrow> read_le16 p 10;
     if psm = PSM_HID_CONTROL \<or> psm = PSM_HID_INTERRUPT then do {
       address \<leftarrow> event_address p 2;
       let m = provide_instance address m;
       handle \<leftarrow> read_le16 p 8;
       if hd_con_handle (h_dev m) = HCI_CON_HANDLE_INVALID \<or> handle = hd_con_handle (h_dev m) then do {
         cid \<leftarrow> read_le16 p 12;
         Some (hcall (L2capAccept channel) (attach_incoming handle address psm cid m)) }
       else Some (hcall (L2capDecline channel) m) }
     else Some (hcall (L2capDecline channel) m) }"

text \<open>The handle of the connection, if it has none yet, and the ID of the channel.\<close>

definition store_channel :: "u16 \<Rightarrow> u16 \<Rightarrow> u16 \<Rightarrow> hid_mod \<Rightarrow> hid_mod" where
  "store_channel handle psm cid m =
     (let m = (if hd_con_handle (h_dev m) = HCI_CON_HANDLE_INVALID
               then upd_dev (\<lambda>d. d\<lparr>hd_con_handle := handle\<rparr>) m else m)
      in if psm = PSM_HID_CONTROL then upd_dev (\<lambda>d. d\<lparr>hd_control_cid := cid\<rparr>) m
         else if psm = PSM_HID_INTERRUPT then upd_dev (\<lambda>d. d\<lparr>hd_interrupt_cid := cid\<rparr>) m
         else m)"

definition handle_channel_opened :: "hid_env \<Rightarrow> bytes \<Rightarrow> hid_mod \<Rightarrow> hid_mod option" where
  "handle_channel_opened env p m = do {
     cid \<leftarrow> read_le16 p 13;
     if \<not> instance_for_l2cap_cid cid m then Some m
     else do {
       status \<leftarrow> rd p 2;
       if status \<noteq> 0 then
         if \<not> hd_incoming (h_dev m) then hid_device_emit_connected_event status m else Some m
       else do {
         handle \<leftarrow> read_le16 p 9;
         psm \<leftarrow> read_le16 p 11;
         let m = store_channel handle psm cid m;
         if \<not> hd_incoming (h_dev m) \<and> psm = PSM_HID_CONTROL then
           Some (let m = hcall (CreateChannel (hd_bd_addr (h_dev m)) PSM_HID_INTERRUPT) m in
             (case snd (e_create_channel env PSM_HID_INTERRUPT) of
                None \<Rightarrow> m | Some c \<Rightarrow> upd_dev (\<lambda>d. d\<lparr>hd_interrupt_cid := c\<rparr>) m))
         else if \<not> hd_connected (h_dev m) \<and> hd_control_cid (h_dev m) \<noteq> 0
                 \<and> hd_interrupt_cid (h_dev m) \<noteq> 0
         then hid_device_emit_connected_event 0 (upd_dev (\<lambda>d. d\<lparr>hd_connected := True\<rparr>) m)
         else Some m } } }"

definition handle_channel_closed :: "bytes \<Rightarrow> hid_mod \<Rightarrow> hid_mod option" where
  "handle_channel_closed p m = do {
     cid \<leftarrow> read_le16 p 2;
     if \<not> instance_for_l2cap_cid cid m then Some m
     else
       let m = upd_dev (\<lambda>d. d\<lparr>hd_incoming := False,
                 hd_interrupt_cid := if cid = hd_interrupt_cid d then 0 else hd_interrupt_cid d,
                 hd_control_cid := if cid = hd_control_cid d then 0 else hd_control_cid d\<rparr>) m
       in if hd_interrupt_cid (h_dev m) = 0 \<and> hd_control_cid (h_dev m) = 0
          then hid_device_emit_event SUBEVENT_CONNECTION_CLOSED
                 (upd_dev (\<lambda>d. d\<lparr>hd_connected := False, hd_con_handle := HCI_CON_HANDLE_INVALID,
                    hd_cid := 0\<rparr>) m)
          else Some m }"


section \<open>Answers\<close>

text \<open>\<open>hci_device_get_report\<close>: the dummy answers \<open>-1\<close>; the firmware's callback writes behind the header.\<close>

definition call_get_report :: "hid_env \<Rightarrow> nat \<Rightarrow> bytes \<Rightarrow> hid_mod \<Rightarrow> (u8 \<times> int \<times> bytes) option" where
  "call_get_report env pos buf m =
     (let d = h_dev m in
      case h_get_report m of
        CbNull \<Rightarrow> None
      | CbDummy \<Rightarrow> Some (0xff, 0, buf)
      | CbUser \<Rightarrow> (case e_get_report env (hd_cid d) (hd_report_type d) (ucast (hd_report_id d)) (drop pos buf)
            of (st, n, b) \<Rightarrow> Some (st, n, take pos buf @ b)))"

definition send_handshake :: "handshake \<Rightarrow> bytes \<Rightarrow> hid_mod \<Rightarrow> hid_mod option" where
  "send_handshake st buf m = do {
     buf \<leftarrow> wr buf 0 (handshake_code st);
     Some (hid_device_send_prepared_control_message buf 1 m) }"

definition answer_get_report :: "hid_env \<Rightarrow> bytes \<Rightarrow> hid_mod \<Rightarrow> hid_mod option" where
  "answer_get_report env buf m =
     (let d = h_dev m in
      if hd_report_status d \<noteq> HS_SUCCESSFUL then send_handshake (hd_report_status d) buf m
      else do {
        buf \<leftarrow> wr buf 0 (0xA0 OR report_type_code (hd_report_type d));
        (pos, buf) \<leftarrow> (if hd_report_id d \<noteq> 0 then do { buf \<leftarrow> wr buf 1 (hd_report_id d); Some (2, buf) }
                        else Some (1, buf));
        (status, report_size, buf) \<leftarrow> call_get_report env pos buf m;
        let m = (if status = 0 then set_status HS_NOT_READY m
                 else if status = 1 then
                   if report_size = 0 then set_status HS_ERR_UNSUPPORTED_REQUEST m
                   else if uint (hd_expected_report_size d) \<noteq> report_size
                   then set_status HS_ERR_UNSUPPORTED_REQUEST m
                   else m
                 else set_status HS_ERR_UNSUPPORTED_REQUEST m);
        if hd_report_status (h_dev m) \<noteq> HS_SUCCESSFUL
        then send_handshake (hd_report_status (h_dev m)) buf m
        else Some (hid_device_send_prepared_control_message buf (hd_response_size (h_dev m)) m) })"

definition answer_state :: "hid_env \<Rightarrow> bytes \<Rightarrow> hid_mod \<Rightarrow> hid_mod option" where
  "answer_state env buf m =
     (case hd_state (h_dev m) of
        W2_GET_REPORT \<Rightarrow> answer_get_report env buf m
      | W2_SET_REPORT \<Rightarrow> send_handshake (hd_report_status (h_dev m)) buf m
      | W2_SET_PROTOCOL \<Rightarrow> send_handshake (hd_report_status (h_dev m)) buf m
      | W2_GET_PROTOCOL \<Rightarrow>
          if hd_report_status (h_dev m) \<noteq> HS_SUCCESSFUL
          then send_handshake (hd_report_status (h_dev m)) buf m
          else do {
            buf \<leftarrow> wr buf 0 0xA0;
            buf \<leftarrow> wr buf 1 (protocol_code (hd_protocol_mode (h_dev m)));
            Some (hid_device_send_prepared_control_message buf 2 m) }
      | W2_SEND_UNSUPPORTED_REQUEST \<Rightarrow> send_handshake HS_ERR_UNSUPPORTED_REQUEST buf m
      | _ \<Rightarrow>
          (let m = hcall ReleasePacketBuffer m in
           if hd_user_request (h_dev m)
           then hid_device_emit_event SUBEVENT_CAN_SEND_NOW (upd_dev (\<lambda>d. d\<lparr>hd_user_request := False\<rparr>) m)
           else Some m))"

definition handle_can_send_now :: "hid_env \<Rightarrow> bytes \<Rightarrow> hid_mod \<Rightarrow> hid_mod option" where
  "handle_can_send_now env p m = do {
     cid \<leftarrow> read_le16 p 2;
     if \<not> instance_for_l2cap_cid cid m then Some m
     else do {
       m \<leftarrow> answer_state env (e_out_buffer env) (hcall ReservePacketBuffer m);
       Some (upd_dev (\<lambda>d. d\<lparr>hd_state := HID_IDLE\<rparr>) m) } }"

text \<open>\<open>packet_handler\<close>, which L2CAP calls.\<close>

definition hid_packet_handler :: "hid_env \<Rightarrow> u8 \<Rightarrow> u16 \<Rightarrow> bytes \<Rightarrow> hid_mod \<Rightarrow> hid_mod option" where
  "hid_packet_handler env packet_type channel p m =
     (if packet_type = 0x06 then handle_l2cap_data channel p m
      else if packet_type = 0x04 then do {
        event \<leftarrow> rd p 0;
        if event = 0x72 then handle_incoming_connection channel p m
        else if event = 0x70 then handle_channel_opened env p m
        else if event = 0x71 then handle_channel_closed p m
        else if event = 0x79 then handle_can_send_now env p m
        else Some m }
      else Some m)"

section \<open>The interface of the profile\<close>

definition hid_device_init :: "bool \<Rightarrow> u16 \<Rightarrow> bytes \<Rightarrow> hid_mod \<Rightarrow> hid_mod" where
  "hid_device_init boot n d m =
     hcall (RegisterService PSM_HID_CONTROL) (hcall (RegisterService PSM_HID_INTERRUPT)
       (m\<lparr>h_boot_supported := boot, h_descriptor := d, h_descriptor_len := n, h_accept_shorter := False,
          h_get_report := CbDummy, h_set_report := CbDummy, h_report_data := CbDummy\<rparr>))"

definition hid_device_deinit :: "hid_mod \<Rightarrow> hid_mod" where
  "hid_device_deinit m = m\<lparr>h_callback := CbNull, h_get_report := CbNull, h_set_report := CbNull,
     h_report_data := CbNull, h_dev := zero_dev, h_boot_supported := False, h_descriptor := [],
     h_descriptor_len := 0, h_accept_shorter := False, h_next_cid := 0\<rparr>"

definition hid_device_accept_truncated_hid_reports :: "bool \<Rightarrow> hid_mod \<Rightarrow> hid_mod" where
  "hid_device_accept_truncated_hid_reports accept m = m\<lparr>h_accept_shorter := accept\<rparr>"

definition or_dummy :: "callback \<Rightarrow> callback" where
  "or_dummy cb = (if cb = CbNull then CbDummy else cb)"

definition hid_device_register_packet_handler :: "callback \<Rightarrow> hid_mod \<Rightarrow> hid_mod" where
  "hid_device_register_packet_handler cb m = m\<lparr>h_callback := cb\<rparr>"

definition hid_device_register_report_request_callback :: "callback \<Rightarrow> hid_mod \<Rightarrow> hid_mod" where
  "hid_device_register_report_request_callback cb m = m\<lparr>h_get_report := or_dummy cb\<rparr>"

definition hid_device_register_set_report_callback :: "callback \<Rightarrow> hid_mod \<Rightarrow> hid_mod" where
  "hid_device_register_set_report_callback cb m = m\<lparr>h_set_report := or_dummy cb\<rparr>"

definition hid_device_register_report_data_callback :: "callback \<Rightarrow> hid_mod \<Rightarrow> hid_mod" where
  "hid_device_register_report_data_callback cb m = m\<lparr>h_report_data := or_dummy cb\<rparr>"

definition hid_device_request_can_send_now_event :: "u16 \<Rightarrow> hid_mod \<Rightarrow> hid_mod" where
  "hid_device_request_can_send_now_event cid m =
     (if \<not> instance_for_hid_cid cid m \<or> hd_interrupt_cid (h_dev m) = 0 then m
      else hcall (RequestCanSendNowOn (hd_interrupt_cid (h_dev m)))
             (upd_dev (\<lambda>d. d\<lparr>hd_user_request := True\<rparr>) m))"

definition hid_device_send_interrupt_message :: "hid_env \<Rightarrow> u16 \<Rightarrow> bytes \<Rightarrow> hid_mod \<Rightarrow> int \<times> hid_mod" where
  "hid_device_send_interrupt_message env cid msg m =
     (let c = hd_interrupt_cid (h_dev m) in
      if \<not> instance_for_hid_cid cid m \<or> c = 0 then (2, m)
      else let m = hcall (L2capSend c msg) m in
        (e_send env c msg, if hd_user_request (h_dev m) then hcall (RequestCanSendNowOn c) m else m))"

definition hid_device_send_control_message :: "u16 \<Rightarrow> bytes \<Rightarrow> hid_mod \<Rightarrow> hid_mod" where
  "hid_device_send_control_message cid msg m =
     (let c = hd_control_cid (h_dev m) in
      if \<not> instance_for_hid_cid cid m \<or> c = 0 then m
      else hid_device_trigger_user_request_if_pending (hcall (L2capSend c msg) m))"

definition hid_device_connect :: "hid_env \<Rightarrow> bytes \<Rightarrow> hid_mod \<Rightarrow> u8 \<times> u16 \<times> hid_mod" where
  "hid_device_connect env addr m =
     (let m = hid_device_setup_instance addr m;
          hid_cid = hd_cid (h_dev m);
          (status, out) = e_create_channel env PSM_HID_CONTROL;
          m = hcall (CreateChannel (hd_bd_addr (h_dev m)) PSM_HID_CONTROL) m
      in (status, hid_cid,
          case out of None \<Rightarrow> m | Some c \<Rightarrow> upd_dev (\<lambda>d. d\<lparr>hd_control_cid := c\<rparr>) m))"

definition disconnect_channel :: "u16 \<Rightarrow> hid_mod \<Rightarrow> hid_mod" where
  "disconnect_channel c m = (if c \<noteq> 0 then hcall (DisconnectChannel c) m else m)"

definition hid_device_disconnect_interrupt_channel :: "u16 \<Rightarrow> hid_mod \<Rightarrow> hid_mod" where
  "hid_device_disconnect_interrupt_channel cid m =
     (if \<not> instance_for_hid_cid cid m then m else disconnect_channel (hd_interrupt_cid (h_dev m)) m)"

definition hid_device_disconnect_control_channel :: "u16 \<Rightarrow> hid_mod \<Rightarrow> hid_mod" where
  "hid_device_disconnect_control_channel cid m =
     (if \<not> instance_for_hid_cid cid m then m else disconnect_channel (hd_control_cid (h_dev m)) m)"

definition hid_device_disconnect :: "u16 \<Rightarrow> hid_mod \<Rightarrow> hid_mod" where
  "hid_device_disconnect cid m =
     (if \<not> instance_for_hid_cid cid m then m
      else disconnect_channel (hd_control_cid (h_dev m)) (disconnect_channel (hd_interrupt_cid (h_dev m)) m))"

end
