(* ===== verification/HidDeviceProtocol.thy ===== *)
theory HidDeviceProtocol
  imports BtstackProtocol FirmwareDescriptor HidDevice
begin

text \<open>
  What the HID device profile promises to the firmware and to the host: which reports it delivers,
  how it answers the control channel, how a connection begins and ends, and that a request to send
  is served.  The profile is considered as \<open>btstack_main\<close> configures it, with the report descriptor of
  \<open>btstack_hid.c\<close>.
\<close>

section \<open>The profile as the firmware configures it\<close>

definition configured :: "hid_mod \<Rightarrow> bool" where
  "configured m \<longleftrightarrow> h_descriptor m = hid_descriptor \<and> h_descriptor_len m = of_nat (length hid_descriptor)
     \<and> h_accept_shorter m \<and> \<not> h_boot_supported m \<and> h_callback m = CbUser \<and> h_get_report m = CbDummy
     \<and> h_set_report m = CbUser \<and> h_report_data m = CbUser"

definition dev_inv :: "hid_dev \<Rightarrow> bool" where
  "dev_inv d \<longleftrightarrow> (hd_cid d = 0 \<longrightarrow> hd_control_cid d = 0 \<and> hd_interrupt_cid d = 0 \<and> \<not> hd_connected d)
     \<and> (hd_cid d \<noteq> 0 \<longrightarrow> hd_protocol_mode d = PROTOCOL_REPORT)"

definition hid_inv :: "hid_mod \<Rightarrow> bool" where
  "hid_inv m \<longleftrightarrow> configured m \<and> dev_inv (h_dev m)"

text \<open>The state of the static variables, and the calls of \<open>btstack_main\<close>.\<close>

definition hid_static :: hid_mod where
  "hid_static = \<lparr>h_dev = zero_dev, h_callback = CbNull, h_get_report = CbDummy, h_set_report = CbDummy,
     h_report_data = CbDummy, h_boot_supported = False, h_descriptor = [], h_descriptor_len = 0,
     h_accept_shorter = False, h_next_cid = 0, h_wire_count = 0, h_log = []\<rparr>"

definition hid_boot :: hid_mod where
  "hid_boot = hid_device_register_set_report_callback CbUser
     (hid_device_register_report_data_callback CbUser
       (hid_device_register_packet_handler CbUser
         (hid_device_accept_truncated_hid_reports True
           (hid_device_init False (of_nat (length hid_descriptor)) hid_descriptor hid_static))))"

lemma hid_boot_inv: "hid_inv hid_boot"
  by (simp add: hid_inv_def hid_boot_def hid_static_def configured_def dev_inv_def zero_dev_def
      hid_device_init_def hid_device_accept_truncated_hid_reports_def hid_device_register_packet_handler_def
      hid_device_register_report_data_callback_def hid_device_register_set_report_callback_def
      or_dummy_def hcall_def)

text \<open>How the simplifier looks through the updates.\<close>

lemma mod_simps [simp]:
  "h_dev (hcall c m) = h_dev m" "h_log (hcall c m) = h_log m @ [c]"
  "h_dev (upd_dev f m) = f (h_dev m)" "h_log (upd_dev f m) = h_log m"
  "h_dev (set_status st m) = h_dev m \<lparr>hd_report_status := st\<rparr>" "h_log (set_status st m) = h_log m"
  "h_dev (request_on_control m) = h_dev m"
  "h_log (request_on_control m) = h_log m @ [RequestCanSendNowOn (hd_control_cid (h_dev m))]"
  "configured (hcall c m) = configured m" "configured (upd_dev f m) = configured m"
  "configured (set_status st m) = configured m" "configured (request_on_control m) = configured m"
  "configured (m\<lparr>h_wire_count := w\<rparr>) = configured m"
  by (simp_all add: hcall_def upd_dev_def set_status_def request_on_control_def configured_def)

lemma configured_simps:
  assumes "configured m"
  shows "h_callback m = CbUser" "h_get_report m = CbDummy" "h_set_report m = CbUser" "h_report_data m = CbUser"
    "\<not> h_boot_supported m" "h_accept_shorter m"
  using assms by (simp_all add: configured_def)

lemma emit_simps:
  assumes "configured m"
  shows "hid_device_emit_event e m = Some (hcall (HidEvent (hd_cid (h_dev m)) (subevent_packet e (h_dev m))) m)"
    and "hid_device_emit_connected_event st m
      = Some (hcall (HidEvent (hd_cid (h_dev m)) (connected_event st (h_dev m))) m)"
  using assms
  by (simp_all add: hid_device_emit_event_def hid_device_emit_connected_event_def call_back_def configured_def)

lemma firmware_lookups:
  assumes "configured m"
  shows "btstack_hid_get_report_size_for_id rid kind (h_descriptor m) (h_descriptor_len m)
      = Some (int (declared_size kind (unat rid)))"
    and "\<exists>st. btstack_hid_report_id_valid rid (h_descriptor m) (h_descriptor_len m) = Some st
      \<and> st \<noteq> REPORT_ID_INVALID"
    and "ids_declared m = Some True"
proof -
  have ids: "distinct (report_ids firmware_items)" by (simp add: firmware_ids)
  have len: "length firmware_items \<le> 128" by (simp add: firmware_items_def)
  note l = lookups_of_items [OF firmware_plain ids len, of rid kind, unfolded firmware_descriptor firmware_bits]
  from assms have d: "h_descriptor m = hid_descriptor" "h_descriptor_len m = of_nat (length hid_descriptor)"
    by (simp_all add: configured_def)
  show "btstack_hid_get_report_size_for_id rid kind (h_descriptor m) (h_descriptor_len m)
      = Some (int (declared_size kind (unat rid)))" using l unfolding d by blast
  show "\<exists>st. btstack_hid_report_id_valid rid (h_descriptor m) (h_descriptor_len m) = Some st
      \<and> st \<noteq> REPORT_ID_INVALID" using l unfolding d by auto
  show "ids_declared m = Some True" using l unfolding ids_declared_def d by (simp add: firmware_ids)
qed

lemma report_mode_checks:
  assumes "configured m" and "hd_protocol_mode (h_dev m) = PROTOCOL_REPORT"
  shows "\<exists>st. hid_report_id_status cid rid m = Some st \<and> st \<noteq> REPORT_ID_INVALID"
    and "hid_report_size_valid cid rid kind n m = Some (n \<noteq> 0 \<and> n \<le> int (declared_size kind (unat rid)) \<and> declared_size kind (unat rid) \<noteq> 0)"
    and "hid_get_report_size_for_id cid rid kind m = Some (int (declared_size kind (unat rid)))"
  using assms firmware_lookups [OF assms(1)]
  by (auto simp: hid_report_id_status_def hid_report_size_valid_def hid_get_report_size_for_id_def
      hid_device_in_boot_protocol_mode_def configured_simps(6))


text \<open>What a request leaves alone: the identity of the connection and the pending user request.\<close>

definition same_link :: "hid_dev \<Rightarrow> hid_dev \<Rightarrow> bool" where
  "same_link d' d \<longleftrightarrow> hd_cid d' = hd_cid d \<and> hd_bd_addr d' = hd_bd_addr d \<and> hd_con_handle d' = hd_con_handle d
     \<and> hd_control_cid d' = hd_control_cid d \<and> hd_interrupt_cid d' = hd_interrupt_cid d
     \<and> hd_incoming d' = hd_incoming d \<and> hd_connected d' = hd_connected d
     \<and> hd_protocol_mode d' = hd_protocol_mode d \<and> hd_user_request d' = hd_user_request d"

lemma same_link_inv: "same_link d' d \<Longrightarrow> dev_inv d' = dev_inv d"
  by (simp add: same_link_def dev_inv_def)

section \<open>Reports\<close>

text \<open>What a data message adds to the log: the report, if its ID, kind and length are declared.\<close>

definition delivered :: "hid_dev \<Rightarrow> bytes \<Rightarrow> hid_call list" where
  "delivered d p =
     (if 3 \<le> length p \<and> length p - 2 \<le> declared_size (report_type_of (p ! 0)) (unat (p ! 1))
      then [HidReportData (hd_cid d) (report_type_of (p ! 0)) (ucast (p ! 1)) (int (length p) - 2) (drop 2 p)]
      else [])"

lemma upd_dev_comp [simp]: "upd_dev f (upd_dev g m) = upd_dev (\<lambda>d. f (g d)) m"
  by (simp add: upd_dev_def)

lemma handle_data_log:
  assumes "configured m" and "hd_protocol_mode (h_dev m) = PROTOCOL_REPORT"
  shows "\<exists>m'. handle_data p m = Some m' \<and> h_log m' = h_log m @ delivered (h_dev m) p
    \<and> configured m' \<and> same_link (h_dev m') (h_dev m) \<and> hd_state (h_dev m') = hd_state (h_dev m)"
proof (cases "2 \<le> length p")
  case True
  define k rid where "k = report_type_of (p ! 0)" and "rid = p ! 1"
  let ?m = "upd_dev (\<lambda>d. d\<lparr>hd_report_type := k, hd_report_id := rid\<rparr>) m"
  have c: "configured ?m" "hd_protocol_mode (h_dev ?m) = PROTOCOL_REPORT" using assms by simp_all
  obtain st where st: "hid_report_id_status (hd_cid (h_dev m)) (ucast rid) ?m = Some st"
    "st \<noteq> REPORT_ID_INVALID" using report_mode_checks(1) [OF c] by blast
  have ids: "ids_declared (upd_dev f m) = Some True" for f
    using firmware_lookups(3) [of "upd_dev f m"] assms(1) by simp
  have rd: "rd p 0 = Some (p ! 0)" "rd p (Suc 0) = Some rid"
    using True by (auto intro!: rd_Some simp: rid_def)
  have rid: "p ! Suc 0 = rid" by (simp add: rid_def)
  have eq: "handle_data p m = (if 3 \<le> length p \<and> length p - 2 \<le> declared_size k (unat rid)
      then call_back (h_report_data ?m) (HidReportData (hd_cid (h_dev m)) k (ucast rid) (int (length p) - 2) (drop 2 p)) ?m
      else Some ?m)"
    using True st rd
    by (auto simp: handle_data_def Let_def ids k_def [symmetric] report_mode_checks(2) [OF c] unat_ucast8_16)
  then show ?thesis
    using assms(1) configured_simps(4) [OF c(1)] rid
    by (auto simp: delivered_def call_back_def same_link_def simp flip: k_def)
next
  case False
  then show ?thesis using assms(1) by (auto simp: handle_data_def delivered_def same_link_def)
qed


section \<open>Requests on the control channel\<close>

definition get_report_status :: "bytes \<Rightarrow> handshake" where
  "get_report_status p =
     (if length p < 2 then HS_ERR_INVALID_REPORT_ID
      else if p ! 0 AND 0x08 \<noteq> 0 \<and> length p < 4 then HS_ERR_INVALID_PARAMETER
      else HS_SUCCESSFUL)"

definition set_report_status :: "bytes \<Rightarrow> handshake" where
  "set_report_status p =
     (if 3 \<le> length p \<and> length p - 2 \<le> declared_size (report_type_of (p ! 0)) (unat (p ! 1))
      then HS_SUCCESSFUL else HS_ERR_INVALID_PARAMETER)"

lemma get_report_effect:
  assumes "configured m" and "hd_protocol_mode (h_dev m) = PROTOCOL_REPORT" and "p \<noteq> []"
  shows "\<exists>m'. handle_get_report p m = Some m'
    \<and> h_log m' = h_log m @ [RequestCanSendNowOn (hd_control_cid (h_dev m))]
    \<and> configured m' \<and> same_link (h_dev m') (h_dev m) \<and> hd_state (h_dev m') = W2_GET_REPORT
    \<and> hd_report_status (h_dev m') = get_report_status p"
proof -
  have ids: "ids_declared (upd_dev f m) = Some True" for f
    using firmware_lookups(3) [of "upd_dev f m"] assms(1) by simp
  have st: "\<exists>st. hid_report_id_status cid rid (upd_dev f m) = Some st \<and> st \<noteq> REPORT_ID_INVALID"
    and size: "hid_get_report_size_for_id cid rid kind (upd_dev f m) = Some (int (declared_size kind (unat rid)))"
    if "hd_protocol_mode (f (h_dev m)) = PROTOCOL_REPORT" for f cid rid kind
    using report_mode_checks [of "upd_dev f m"] assms(1) that by simp_all
  have rd: "rd p 0 = Some (p ! 0)" using assms(3) by simp
  show ?thesis
  proof (cases "2 \<le> length p")
    case False
    then show ?thesis using assms(1,2) rd
      by (simp add: handle_get_report_def Let_def ids same_link_def get_report_status_def)
  next
    case True
    define rid where "rid = p ! 1"
    have rid: "rd p (Suc 0) = Some rid" "p ! Suc 0 = rid" using True by (auto intro!: rd_Some simp: rid_def)
    let ?f = "\<lambda>d. d\<lparr>hd_report_type := report_type_of (p ! 0), hd_report_status := HS_SUCCESSFUL,
      hd_state := W2_GET_REPORT, hd_report_id := rid\<rparr>"
    obtain st where "hid_report_id_status (hd_cid (h_dev m)) (ucast rid) (upd_dev ?f m) = Some st"
      "st \<noteq> REPORT_ID_INVALID" using st [of ?f "hd_cid (h_dev m)" "ucast rid"] assms(2) by auto
    moreover have "\<exists>v. read_le16 p 2 = Some v" if "4 \<le> length p"
      using that by (simp add: read_le16_def)
    ultimately show ?thesis using True rd rid assms(1,2)
      by (auto simp: handle_get_report_def Let_def ids size same_link_def get_report_status_def)
  qed
qed

lemma set_report_valid:
  assumes "configured m" and "hd_protocol_mode (h_dev m) = PROTOCOL_REPORT" and "p \<noteq> []"
  shows "hid_device_set_report_cmd_is_valid cid (report_type_of (p ! 0)) (int (length p) - 1) (drop 1 p) m
    = Some (set_report_status p)"
proof (cases "length p = 1")
  case False
  then have "2 \<le> length p" using assms(3) by (cases p) (auto simp: Suc_le_eq)
  then have "rd (drop 1 p) 0 = Some (p ! 1)" by (simp add: rd_def)
  moreover obtain st where "hid_report_id_status cid (ucast (p ! 1)) m = Some st" "st \<noteq> REPORT_ID_INVALID"
    using report_mode_checks(1) [OF assms(1,2)] by blast
  ultimately show ?thesis using \<open>2 \<le> length p\<close>
    by (auto simp: hid_device_set_report_cmd_is_valid_def firmware_lookups(3) [OF assms(1)]
        report_mode_checks(2) [OF assms(1,2)] unat_ucast8_16 set_report_status_def)
qed (simp add: hid_device_set_report_cmd_is_valid_def set_report_status_def)

lemma set_report_effect:
  assumes "configured m" and "hd_protocol_mode (h_dev m) = PROTOCOL_REPORT" and "p \<noteq> []"
  shows "\<exists>m'. handle_set_report p m = Some m'
    \<and> h_log m' = h_log m @ (if set_report_status p = HS_SUCCESSFUL
        then [HidSetReport (hd_cid (h_dev m)) (report_type_of (p ! 0)) (int (length p) - 1) (drop 1 p)] else [])
      @ [RequestCanSendNowOn (hd_control_cid (h_dev m))]
    \<and> configured m' \<and> same_link (h_dev m') (h_dev m) \<and> hd_state (h_dev m') = W2_SET_REPORT
    \<and> hd_report_status (h_dev m') = set_report_status p"
proof -
  have rd: "rd p 0 = Some (p ! 0)" "0 < length p" using assms(3) by simp_all
  have valid: "hid_device_set_report_cmd_is_valid cid (report_type_of (p ! 0)) (int (length p) - 1) (drop 1 p)
      (upd_dev f m) = Some (set_report_status p)"
    if "hd_protocol_mode (f (h_dev m)) = PROTOCOL_REPORT" for f cid
    using set_report_valid [of "upd_dev f m" p] assms(1,3) that by simp
  have len: "2 \<le> length p" if "set_report_status p = HS_SUCCESSFUL"
    using that by (auto simp: set_report_status_def split: if_splits)
  have cb: "h_set_report (set_status st (upd_dev f m)) = CbUser" for st f
    using configured_simps(3) [of "set_status st (upd_dev f m)"] assms(1) by simp
  show ?thesis
    using assms rd len by (auto simp: handle_set_report_def Let_def valid [unfolded One_nat_def] cb call_back_def same_link_def)
qed


text \<open>
  The requests in one statement.  \<open>kind_of\<close> is the message type; the requests are the messages that
  ask for an answer, and the state they leave says which.
\<close>

abbreviation kind_of :: "bytes \<Rightarrow> u8" where
  "kind_of p \<equiv> drop_bit 4 (p ! 0)"

definition control_event :: "bytes \<Rightarrow> bool" where
  "control_event p \<longleftrightarrow> kind_of p = 1 \<and> p ! 0 AND 0x0f \<in> {3, 4, 5}"

definition is_request :: "bytes \<Rightarrow> bool" where
  "is_request p \<longleftrightarrow> p \<noteq> [] \<and> kind_of p \<noteq> 10 \<and> \<not> control_event p"

definition refused_protocol :: "bytes \<Rightarrow> bool" where
  "refused_protocol p \<longleftrightarrow> kind_of p = 6 \<and> length p \<noteq> 1
     \<or> kind_of p = 7 \<and> (length p \<noteq> 1 \<or> p ! 0 AND 0x01 = 0)"

definition request_state :: "bytes \<Rightarrow> hid_state" where
  "request_state p =
     (if kind_of p = 4 then W2_GET_REPORT else if kind_of p = 5 then W2_SET_REPORT
      else if kind_of p = 6 then W2_GET_PROTOCOL else if kind_of p = 7 then W2_SET_PROTOCOL
      else W2_SEND_UNSUPPORTED_REQUEST)"

definition request_status :: "bytes \<Rightarrow> handshake" where
  "request_status p =
     (if kind_of p = 4 then get_report_status p else if kind_of p = 5 then set_report_status p
      else if refused_protocol p then HS_ERR_INVALID_PARAMETER
      else if kind_of p = 6 \<or> kind_of p = 7 then HS_SUCCESSFUL else HS_ERR_UNSUPPORTED_REQUEST)"

definition passed_on :: "hid_dev \<Rightarrow> bytes \<Rightarrow> hid_call list" where
  "passed_on d p =
     (if kind_of p = 5 \<and> set_report_status p = HS_SUCCESSFUL
      then [HidSetReport (hd_cid d) (report_type_of (p ! 0)) (int (length p) - 1) (drop 1 p)] else [])"

definition counted_wire :: "bytes \<Rightarrow> hid_mod \<Rightarrow> hid_mod" where
  "counted_wire p m = (if 2 \<le> length p \<and> p ! 1 = 0x11 then m\<lparr>h_wire_count := h_wire_count m + 1\<rparr> else m)"

lemma counted_wire_simps [simp]:
  "h_dev (counted_wire p m) = h_dev m" "h_log (counted_wire p m) = h_log m"
  "configured (counted_wire p m) = configured m"
  by (simp_all add: counted_wire_def)

definition dispatch :: "bytes \<Rightarrow> hid_mod \<Rightarrow> hid_mod option" where
  "dispatch p m =
     (if kind_of p = 4 then handle_get_report p m
      else if kind_of p = 5 then handle_set_report p m
      else if kind_of p = 6 then handle_get_protocol p m
      else if kind_of p = 7 then handle_set_protocol p m
      else if kind_of p = 1 then handle_hid_control p m
      else if kind_of p = 10 then handle_data p m
      else unsupported_request m)"

lemma data_packet:
  assumes "instance_for_l2cap_cid channel m" and "p \<noteq> []"
  shows "hid_packet_handler env 6 channel p m = dispatch p (counted_wire p m)"
proof -
  have "rd p 0 = Some (p ! 0)" "0 < length p" using assms(2) by simp_all
  moreover have "2 \<le> length p \<Longrightarrow> rd p (Suc 0) = Some (p ! 1)" by (auto intro!: rd_Some)
  ultimately show ?thesis using assms(1)
    by (auto simp: hid_packet_handler_def handle_l2cap_data_def dispatch_def counted_wire_def Let_def
        instance_for_l2cap_cid_def cong: if_cong)
qed

lemma request_effect:
  assumes "configured m" and "hd_protocol_mode (h_dev m) = PROTOCOL_REPORT" and "is_request p"
  shows "\<exists>m'. dispatch p m = Some m' \<and> configured m' \<and> same_link (h_dev m') (h_dev m)
    \<and> hd_state (h_dev m') = request_state p
    \<and> (request_state p \<noteq> W2_SEND_UNSUPPORTED_REQUEST \<longrightarrow> hd_report_status (h_dev m') = request_status p)
    \<and> h_log m' = h_log m @ passed_on (h_dev m) p
        @ (if refused_protocol p then [] else [RequestCanSendNowOn (hd_control_cid (h_dev m))])"
proof -
  have p: "p \<noteq> []" "rd p 0 = Some (p ! 0)" using assms(3) by (simp_all add: is_request_def)
  consider "kind_of p = 4" | "kind_of p = 5" | "kind_of p = 6" | "kind_of p = 7"
    | "kind_of p \<notin> {4, 5, 6, 7}" by blast
  then show ?thesis
  proof cases
    case 1
    then show ?thesis using get_report_effect [OF assms(1,2) p(1)]
      by (auto simp: dispatch_def request_state_def request_status_def passed_on_def refused_protocol_def)
  next
    case 2
    then show ?thesis using set_report_effect [OF assms(1,2) p(1)]
      by (auto simp: dispatch_def request_state_def request_status_def passed_on_def refused_protocol_def)
  next
    case 3
    then show ?thesis using assms(1)
      by (auto simp: dispatch_def request_state_def request_status_def passed_on_def refused_protocol_def
          handle_get_protocol_def Let_def same_link_def)
  next
    case 4
    then show ?thesis using assms(1,2) p configured_simps(5) [of "upd_dev f m" for f]
      by (auto simp: dispatch_def request_state_def request_status_def passed_on_def refused_protocol_def
          handle_set_protocol_def Let_def same_link_def)
  next
    case 5
    then show ?thesis using assms p
      by (auto simp: dispatch_def request_state_def request_status_def passed_on_def refused_protocol_def
          handle_hid_control_def unsupported_request_def is_request_def control_event_def Let_def same_link_def)
  qed
qed


section \<open>Answers\<close>

lemma ucast_or_le16: "(ucast (ucast w :: u8) :: u16) OR push_bit 8 (ucast (ucast (drop_bit 8 w) :: u8)) = w"
  by (rule bit_word_eqI) (auto simp: bit_simps less_diff_conv not_less)

lemma read_le16_bytes: "i = length xs \<Longrightarrow> read_le16 (xs @ le16_bytes w @ ys) i = Some w"
  by (simp add: read_le16_def le16_bytes_def rd_def nth_append ucast_or_le16)

text \<open>The event L2CAP sends when the channel can take a packet.\<close>

definition can_send_now_packet :: "u16 \<Rightarrow> bytes" where
  "can_send_now_packet cid = [0x79, 2] @ le16_bytes cid"

lemma can_send_now_event:
  assumes "instance_for_l2cap_cid cid m"
  shows "hid_packet_handler env 4 channel (can_send_now_packet cid) m = do {
    m \<leftarrow> answer_state env (e_out_buffer env) (hcall ReservePacketBuffer m);
    Some (upd_dev (\<lambda>d. d\<lparr>hd_state := HID_IDLE\<rparr>) m) }"
proof -
  have "read_le16 (can_send_now_packet cid) 2 = Some cid"
    using read_le16_bytes [of 2 "[0x79, 2]" cid "[]"] by (simp add: can_send_now_packet_def)
  then show ?thesis using assms
    by (auto simp: hid_packet_handler_def handle_can_send_now_def can_send_now_packet_def
        instance_for_l2cap_cid_def)
qed

abbreviation requests :: "hid_state set" where
  "requests \<equiv> {W2_GET_REPORT, W2_SET_REPORT, W2_GET_PROTOCOL, W2_SET_PROTOCOL, W2_SEND_UNSUPPORTED_REQUEST}"

text \<open>The message the host gets.  The firmware registers no callback for GET_REPORT.\<close>

definition answer_bytes :: "hid_state \<Rightarrow> handshake \<Rightarrow> bytes" where
  "answer_bytes s st =
     (if s = W2_GET_PROTOCOL \<and> st = HS_SUCCESSFUL then [0xA0, protocol_code PROTOCOL_REPORT]
      else if s = W2_SEND_UNSUPPORTED_REQUEST \<or> s = W2_GET_REPORT \<and> st = HS_SUCCESSFUL
      then [handshake_code HS_ERR_UNSUPPORTED_REQUEST]
      else [handshake_code st])"

lemma prepared_simps [simp]:
  "h_dev (hid_device_send_prepared_control_message buf n m) = h_dev m"
  "configured (hid_device_send_prepared_control_message buf n m) = configured m"
  "h_log (hid_device_send_prepared_control_message buf n m)
    = h_log m @ [SendPrepared (hd_control_cid (h_dev m)) n buf]
      @ (if hd_user_request (h_dev m) then [RequestCanSendNowOn (hd_control_cid (h_dev m))] else [])"
  by (simp_all add: hid_device_send_prepared_control_message_def
      hid_device_trigger_user_request_if_pending_def)

lemma trigger_simps [simp]:
  "h_dev (hid_device_trigger_user_request_if_pending m) = h_dev m"
  "configured (hid_device_trigger_user_request_if_pending m) = configured m"
  by (simp_all add: hid_device_trigger_user_request_if_pending_def)

lemma answer_effect:
  assumes "configured m" and "hd_protocol_mode (h_dev m) = PROTOCOL_REPORT"
    and "hd_state (h_dev m) \<in> requests" and "2 \<le> length buf"
  defines "a \<equiv> answer_bytes (hd_state (h_dev m)) (hd_report_status (h_dev m))"
  shows "\<exists>m' b. answer_state env buf m = Some m' \<and> configured m' \<and> same_link (h_dev m') (h_dev m)
    \<and> take (length a) b = a
    \<and> h_log m' = h_log m @ [SendPrepared (hd_control_cid (h_dev m)) (of_nat (length a)) b]
        @ (if hd_user_request (h_dev m) then [RequestCanSendNowOn (hd_control_cid (h_dev m))] else [])"
proof -
  have len: "buf \<noteq> []" "0 < length buf" "Suc 0 < length buf" using assms(4) by auto
  have take: "take (Suc 0) (b[0 := v]) = [v]" if "b \<noteq> []" for b :: bytes and v
    using that by (cases b) simp_all
  have take2: "take (Suc (Suc 0)) (buf[0 := v, Suc 0 := w]) = [v, w]" for v w
    using assms(4) by (cases buf; cases "tl buf") auto
  have hs: "\<exists>m' b. send_handshake st buf' m0 = Some m' \<and> configured m' \<and> same_link (h_dev m') (h_dev m)
      \<and> take 1 b = [handshake_code st]
      \<and> h_log m' = h_log m @ [SendPrepared (hd_control_cid (h_dev m)) 1 b]
          @ (if hd_user_request (h_dev m) then [RequestCanSendNowOn (hd_control_cid (h_dev m))] else [])"
    if "configured m0" "same_link (h_dev m0) (h_dev m)" "h_log m0 = h_log m" "buf' \<noteq> []" for st m0 buf'
    using that take by (auto simp: send_handshake_def same_link_def)
  have self: "same_link (h_dev m) (h_dev m)" "same_link (h_dev (set_status st m)) (h_dev m)" for st
    by (simp_all add: same_link_def)
  have get: "h_get_report m = CbDummy" using configured_simps(2) [OF assms(1)] .
  consider (get_report) "hd_state (h_dev m) = W2_GET_REPORT"
    | (protocol) "hd_state (h_dev m) = W2_GET_PROTOCOL" "hd_report_status (h_dev m) = HS_SUCCESSFUL"
    | (other) "hd_state (h_dev m) \<noteq> W2_GET_REPORT"
        "\<not> (hd_state (h_dev m) = W2_GET_PROTOCOL \<and> hd_report_status (h_dev m) = HS_SUCCESSFUL)"
    by blast
  then show ?thesis
  proof cases
    case get_report
    let ?st = "if hd_report_status (h_dev m) = HS_SUCCESSFUL then HS_ERR_UNSUPPORTED_REQUEST
      else hd_report_status (h_dev m)"
    let ?m0 = "if hd_report_status (h_dev m) = HS_SUCCESSFUL then set_status HS_ERR_UNSUPPORTED_REQUEST m else m"
    obtain b where m0: "answer_state env buf m = send_handshake ?st b ?m0" "b \<noteq> []"
    proof
      show "answer_state env buf m = send_handshake ?st
          (if hd_report_status (h_dev m) \<noteq> HS_SUCCESSFUL then buf
           else if hd_report_id (h_dev m) \<noteq> 0
           then buf[0 := 0xA0 OR report_type_code (hd_report_type (h_dev m)), Suc 0 := hd_report_id (h_dev m)]
           else buf[0 := 0xA0 OR report_type_code (hd_report_type (h_dev m))]) ?m0"
        using get_report len get
        by (simp add: answer_state_def answer_get_report_def call_get_report_def Let_def)
    qed (use len in simp)
    have m0': "configured ?m0" "same_link (h_dev ?m0) (h_dev m)" "h_log ?m0 = h_log m"
      using assms(1) self by auto
    have "a = [handshake_code ?st]" using get_report by (simp add: a_def answer_bytes_def)
    with hs [OF m0' m0(2), of ?st] m0(1) show ?thesis by simp
  next
    case protocol
    then have "a = [0xA0, 1]" by (simp add: a_def answer_bytes_def)
    with protocol len take2 self(1) assms(1,2) show ?thesis
      by (auto simp: answer_state_def)
  next
    case other
    then have "\<exists>st. answer_state env buf m = send_handshake st buf m \<and> a = [handshake_code st]"
      using assms(3) by (auto simp: answer_state_def a_def answer_bytes_def)
    then obtain st where st: "answer_state env buf m = send_handshake st buf m" "a = [handshake_code st]" by blast
    with hs [OF assms(1) self(1) refl len(1), of st] show ?thesis by simp
  qed
qed


lemma report_mode:
  assumes "hid_inv m" and "instance_for_l2cap_cid channel m" and "channel \<noteq> 0"
  shows "configured m" and "hd_protocol_mode (h_dev m) = PROTOCOL_REPORT"
  using assms by (auto simp: hid_inv_def dev_inv_def instance_for_l2cap_cid_def)

lemma hid_invI: "hid_inv m \<Longrightarrow> configured m' \<Longrightarrow> same_link (h_dev m') (h_dev m) \<Longrightarrow> hid_inv m'"
  by (simp add: hid_inv_def same_link_inv)

lemma csn_request:
  assumes "hid_inv m" and "hd_control_cid (h_dev m) = c" and "instance_for_l2cap_cid cid m" and "cid \<noteq> 0"
    and "hd_state (h_dev m) \<in> requests" and "2 \<le> length (e_out_buffer env)"
  defines "a \<equiv> answer_bytes (hd_state (h_dev m)) (hd_report_status (h_dev m))"
  shows "\<exists>m' b. hid_packet_handler env 4 channel (can_send_now_packet cid) m = Some m' \<and> hid_inv m'
    \<and> same_link (h_dev m') (h_dev m) \<and> hd_state (h_dev m') = HID_IDLE \<and> take (length a) b = a
    \<and> h_log m' = h_log m @ [ReservePacketBuffer, SendPrepared c (of_nat (length a)) b]
        @ (if hd_user_request (h_dev m) then [RequestCanSendNowOn c] else [])"
proof -
  have c: "configured (hcall ReservePacketBuffer m)"
    "hd_protocol_mode (h_dev (hcall ReservePacketBuffer m)) = PROTOCOL_REPORT"
    "hd_state (h_dev (hcall ReservePacketBuffer m)) \<in> requests"
    using report_mode [OF assms(1,3,4)] assms(5) by simp_all
  from answer_effect [OF c assms(6), of env] obtain m1 b where
    m1: "answer_state env (e_out_buffer env) (hcall ReservePacketBuffer m) = Some m1" "configured m1"
      "same_link (h_dev m1) (h_dev m)" "take (length a) b = a"
      "h_log m1 = h_log m @ [ReservePacketBuffer, SendPrepared c (of_nat (length a)) b]
        @ (if hd_user_request (h_dev m) then [RequestCanSendNowOn c] else [])"
    by (auto simp: a_def assms(2))
  let ?m' = "upd_dev (\<lambda>d. d\<lparr>hd_state := HID_IDLE\<rparr>) m1"
  have "same_link (h_dev ?m') (h_dev m)" using m1(3) by (simp add: same_link_def)
  moreover from this m1(2) have "hid_inv ?m'" by (intro hid_invI [OF assms(1)]) simp_all
  ultimately show ?thesis using m1
    by (intro exI [of _ ?m'] exI [of _ b]) (simp add: can_send_now_event [OF assms(3)])
qed

lemma csn_idle:
  assumes "hid_inv m" and "instance_for_l2cap_cid cid m" and "cid \<noteq> 0" and "hd_state (h_dev m) \<notin> requests"
  defines "u \<equiv> hd_user_request (h_dev m)"
  shows "\<exists>m'. hid_packet_handler env 4 channel (can_send_now_packet cid) m = Some m' \<and> hid_inv m'
    \<and> same_link (h_dev m'\<lparr>hd_user_request := u\<rparr>) (h_dev m)
    \<and> \<not> hd_user_request (h_dev m') \<and> hd_state (h_dev m') = HID_IDLE
    \<and> h_log m' = h_log m @ [ReservePacketBuffer, ReleasePacketBuffer]
        @ (if u then [HidEvent (hd_cid (h_dev m)) (subevent_packet SUBEVENT_CAN_SEND_NOW (h_dev m))] else [])"
proof -
  let ?m = "hcall ReleasePacketBuffer (hcall ReservePacketBuffer m)"
  have c: "configured m" using assms(1) by (simp add: hid_inv_def)
  have ans: "answer_state env buf (hcall ReservePacketBuffer m)
      = (if u then hid_device_emit_event SUBEVENT_CAN_SEND_NOW (upd_dev (\<lambda>d. d\<lparr>hd_user_request := False\<rparr>) ?m)
         else Some ?m)" for buf
    using assms(4) by (cases "hd_state (h_dev m)") (simp_all add: answer_state_def u_def Let_def)
  have emit: "hid_device_emit_event e (upd_dev f ?m)
      = Some (hcall (HidEvent (hd_cid (f (h_dev m))) (subevent_packet e (f (h_dev m)))) (upd_dev f ?m))" for e f
    using emit_simps(1) [of "upd_dev f ?m"] c by simp
  show ?thesis
  proof (cases u)
    case True
    then show ?thesis using c assms(1)
      by (auto simp: can_send_now_event [OF assms(2)] ans emit same_link_def subevent_packet_def u_def
          hid_inv_def dev_inv_def)
  next
    case False
    then show ?thesis using c assms(1)
      by (auto simp: can_send_now_event [OF assms(2)] ans same_link_def u_def hid_inv_def dev_inv_def)
  qed
qed


section \<open>Every message of the host\<close>

definition control_subevent :: "bytes \<Rightarrow> u8" where
  "control_subevent p =
     (if p ! 0 AND 0x0f = 3 then SUBEVENT_SUSPEND else if p ! 0 AND 0x0f = 4 then SUBEVENT_EXIT_SUSPEND
      else SUBEVENT_VIRTUAL_CABLE_UNPLUG)"

text \<open>The calls a message leads to.\<close>

definition message_calls :: "hid_dev \<Rightarrow> bytes \<Rightarrow> hid_call list" where
  "message_calls d p =
     (if kind_of p = 10 then delivered d p
      else if control_event p then [HidEvent (hd_cid d) (subevent_packet (control_subevent p) d)]
      else passed_on d p @ (if refused_protocol p then [] else [RequestCanSendNowOn (hd_control_cid d)]))"

lemma message_effect:
  assumes "hid_inv m" and "instance_for_l2cap_cid channel m" and "channel \<noteq> 0" and "p \<noteq> []"
  shows "\<exists>m'. hid_packet_handler env 6 channel p m = Some m' \<and> hid_inv m' \<and> same_link (h_dev m') (h_dev m)
    \<and> h_log m' = h_log m @ message_calls (h_dev m) p
    \<and> (is_request p \<longrightarrow> hd_state (h_dev m') = request_state p
         \<and> answer_bytes (hd_state (h_dev m')) (hd_report_status (h_dev m'))
           = answer_bytes (request_state p) (request_status p))
    \<and> (\<not> is_request p \<longrightarrow> hd_state (h_dev m') = hd_state (h_dev m))"
proof -
  let ?m = "counted_wire p m"
  have c: "configured ?m" "hd_protocol_mode (h_dev ?m) = PROTOCOL_REPORT"
    using report_mode [OF assms(1-3)] by simp_all
  note run = data_packet [OF assms(2,4), of env]
  consider (data) "kind_of p = 10" | (event) "kind_of p \<noteq> 10" "control_event p"
    | (request) "is_request p" "kind_of p \<noteq> 10" "\<not> control_event p"
    using assms(4) by (auto simp: is_request_def)
  then show ?thesis
  proof cases
    case data
    with handle_data_log [OF c, of p] show ?thesis
      by (auto simp: run dispatch_def message_calls_def is_request_def intro: hid_invI [OF assms(1)])
  next
    case event
    then have "kind_of p = 1" "p ! 0 AND 0x0f \<in> {3, 4, 5}" "rd p 0 = Some (p ! 0)"
      using assms(4) by (auto simp: control_event_def)
    then show ?thesis using event emit_simps(1) [OF c(1)] c(1)
      by (auto simp: run dispatch_def message_calls_def is_request_def handle_hid_control_def Let_def
          control_subevent_def same_link_def intro: hid_invI [OF assms(1)])
  next
    case request
    from request_effect [OF c request(1), unfolded counted_wire_simps] obtain m' where m': "dispatch p ?m = Some m'" "configured m'"
      "same_link (h_dev m') (h_dev m)" "hd_state (h_dev m') = request_state p"
      "request_state p \<noteq> W2_SEND_UNSUPPORTED_REQUEST \<longrightarrow> hd_report_status (h_dev m') = request_status p"
      "h_log m' = h_log m @ message_calls (h_dev m) p"
      using request by (auto simp: message_calls_def)
    then show ?thesis using request(1)
      by (auto simp: run answer_bytes_def intro: hid_invI [OF assms(1)])
  qed
qed

text \<open>
  Property C28.  A data message on a channel of the connection, whatever its length and contents: the
  firmware's report callback runs exactly when the message carries a report ID and at least one byte,
  and the report descriptor declares a report of this type and ID that is at least as long; then it
  gets the ID and the bytes behind it.  Nothing else is called, and the connection is unchanged.
\<close>

theorem hid_reports_delivered:
  assumes "hid_inv m" and "instance_for_l2cap_cid channel m" and "channel \<noteq> 0"
    and "p \<noteq> []" and "drop_bit 4 (p ! 0) = 10"
  shows "\<exists>m'. hid_packet_handler env 6 channel p m = Some m' \<and> hid_inv m' \<and> same_link (h_dev m') (h_dev m)
    \<and> h_log m' = h_log m @
      (if 3 \<le> length p \<and> length p - 2 \<le> declared_size (report_type_of (p ! 0)) (unat (p ! 1))
       then [HidReportData (hd_cid (h_dev m)) (report_type_of (p ! 0)) (ucast (p ! 1)) (int (length p) - 2)
               (drop 2 p)]
       else [])"
  using message_effect [OF assms(1-4), of env] assms(5)
  by (auto simp: message_calls_def delivered_def)

text \<open>
  Property C29.  A request of the host (any message other than data, suspend, resume and unplug) gets
  exactly one answer: the profile asks for a slot on the control channel, and when the channel can
  send it sends the handshake or the data the request asks for and goes back to idle.  The exceptions
  are the requests \<open>refused_protocol\<close>: their answer is prepared, but no slot is asked for.
\<close>

theorem hid_request_answered:
  assumes "hid_inv m" and "instance_for_l2cap_cid channel m" and "channel \<noteq> 0"
    and "is_request p" and "2 \<le> length (e_out_buffer env)" and "hd_control_cid (h_dev m) = c" and "c \<noteq> 0"
    and "answer_bytes (request_state p) (request_status p) = a"
  shows "\<exists>m1 m2 b. hid_packet_handler env 6 channel p m = Some m1
    \<and> h_log m1 = h_log m @ passed_on (h_dev m) p @ (if refused_protocol p then [] else [RequestCanSendNowOn c])
    \<and> hid_packet_handler env 4 ch (can_send_now_packet c) m1 = Some m2 \<and> take (length a) b = a
    \<and> h_log m2 = h_log m1 @ [ReservePacketBuffer, SendPrepared c (of_nat (length a)) b]
        @ (if hd_user_request (h_dev m) then [RequestCanSendNowOn c] else [])
    \<and> hd_state (h_dev m2) = HID_IDLE \<and> hid_inv m2"
proof -
  have p: "p \<noteq> []" "kind_of p \<noteq> 10" "\<not> control_event p" using assms(4) by (simp_all add: is_request_def)
  from message_effect [OF assms(1-3) p(1), of env] assms(4) obtain m1 where
    m1: "hid_packet_handler env 6 channel p m = Some m1" "hid_inv m1" "same_link (h_dev m1) (h_dev m)"
      "h_log m1 = h_log m @ message_calls (h_dev m) p" "hd_state (h_dev m1) = request_state p"
      "answer_bytes (hd_state (h_dev m1)) (hd_report_status (h_dev m1)) = a"
    using assms(8) by auto
  have link: "hd_control_cid (h_dev m1) = c" "instance_for_l2cap_cid c m1"
    "hd_user_request (h_dev m1) = hd_user_request (h_dev m)"
    using m1(3) assms(6) by (simp_all add: same_link_def instance_for_l2cap_cid_def)
  have "hd_state (h_dev m1) \<in> requests" by (simp add: m1(5) request_state_def)
  from csn_request [OF m1(2) link(1,2) assms(7) this assms(5), of ch] m1 link(3) p assms(6) show ?thesis
    by (auto simp: message_calls_def)
qed


section \<open>The firmware's request to send\<close>

definition asked :: "hid_mod \<Rightarrow> hid_mod \<Rightarrow> u16 set" where
  "asked m m' = {c. RequestCanSendNowOn c \<in> set (drop (length (h_log m)) (h_log m'))}"

lemma asked_append: "h_log m' = h_log m @ cs \<Longrightarrow> asked m m' = {c. RequestCanSendNowOn c \<in> set cs}"
  by (simp add: asked_def)

text \<open>
  An open connection, with the channels L2CAP owes a can-send-now event: the host sends messages, L2CAP
  offers slots, and the firmware asks for slots and sends.
\<close>

inductive hid_run :: "hid_mod \<Rightarrow> u16 set \<Rightarrow> bool" where
  opened: "hid_inv m \<Longrightarrow> hd_control_cid (h_dev m) \<noteq> 0 \<Longrightarrow> hd_interrupt_cid (h_dev m) \<noteq> 0
    \<Longrightarrow> \<not> hd_user_request (h_dev m) \<Longrightarrow> hid_run m W"
| message: "hid_run m W \<Longrightarrow> channel \<noteq> 0 \<Longrightarrow> hid_packet_handler env 6 channel p m = Some m'
    \<Longrightarrow> hid_run m' (W \<union> asked m m')"
| slot: "hid_run m W \<Longrightarrow> cid \<in> W \<Longrightarrow> cid \<noteq> 0 \<Longrightarrow> 2 \<le> length (e_out_buffer env)
    \<Longrightarrow> hid_packet_handler env 4 channel (can_send_now_packet cid) m = Some m'
    \<Longrightarrow> hid_run m' (W - {cid} \<union> asked m m')"
| ask: "hid_run m W \<Longrightarrow> hid_device_request_can_send_now_event h m = m' \<Longrightarrow> hid_run m' (W \<union> asked m m')"
| send: "hid_run m W \<Longrightarrow> hid_device_send_interrupt_message env h msg m = (st, m')
    \<Longrightarrow> hid_run m' (W \<union> asked m m')"
| send_control: "hid_run m W \<Longrightarrow> hid_device_send_control_message h msg m = m'
    \<Longrightarrow> hid_run m' (W \<union> asked m m')"

definition run_inv :: "hid_mod \<Rightarrow> u16 set \<Rightarrow> bool" where
  "run_inv m W \<longleftrightarrow> hid_inv m \<and> hd_control_cid (h_dev m) \<noteq> 0 \<and> hd_interrupt_cid (h_dev m) \<noteq> 0
     \<and> (hd_user_request (h_dev m) \<longrightarrow> hd_control_cid (h_dev m) \<in> W \<or> hd_interrupt_cid (h_dev m) \<in> W)"

lemma run_inv_same:
  "run_inv m W \<Longrightarrow> hid_inv m' \<Longrightarrow> same_link (h_dev m') (h_dev m) \<Longrightarrow> run_inv m' (W \<union> V)"
  by (auto simp: run_inv_def same_link_def)

lemma no_instance:
  "\<not> instance_for_l2cap_cid channel m \<Longrightarrow> hid_packet_handler env 6 channel p m = Some m"
  "\<not> instance_for_l2cap_cid cid m \<Longrightarrow> hid_packet_handler env 4 ch (can_send_now_packet cid) m = Some m"
  "hid_packet_handler env 6 channel [] m = Some m"
  using read_le16_bytes [of 2 "[0x79, 2]" cid "[]"]
  by (auto simp: hid_packet_handler_def handle_l2cap_data_def handle_can_send_now_def can_send_now_packet_def
      instance_for_l2cap_cid_def)

lemma slot_inv:
  assumes "run_inv m W" and "cid \<noteq> 0" and "2 \<le> length (e_out_buffer env)"
    and "hid_packet_handler env 4 channel (can_send_now_packet cid) m = Some m'"
  shows "run_inv m' (W - {cid} \<union> asked m m')"
proof (cases "instance_for_l2cap_cid cid m")
  case True
  have inv: "hid_inv m" using assms(1) by (simp add: run_inv_def)
  show ?thesis
  proof (cases "hd_state (h_dev m) \<in> requests")
    case busy: True
    from csn_request [OF inv refl True assms(2) busy assms(3), of channel] assms(4) obtain b a where
      m': "hid_inv m'" "same_link (h_dev m') (h_dev m)"
      "h_log m' = h_log m @ [ReservePacketBuffer, SendPrepared (hd_control_cid (h_dev m)) a b]
        @ (if hd_user_request (h_dev m) then [RequestCanSendNowOn (hd_control_cid (h_dev m))] else [])"
      by auto
    then show ?thesis using assms(1) asked_append [OF m'(3)]
      by (auto simp: run_inv_def same_link_def)
  next
    case idle: False
    from csn_idle [OF inv True assms(2) idle, of env channel] assms(4) show ?thesis
      using assms(1) by (auto simp: run_inv_def same_link_def)
  qed
next
  case False
  then have "m' = m" using no_instance(2) [OF False] assms(4) by simp
  then show ?thesis using assms(1) False by (auto simp: run_inv_def instance_for_l2cap_cid_def)
qed

lemma hid_run_inv: "hid_run m W \<Longrightarrow> run_inv m W"
proof (induction rule: hid_run.induct)
  case (opened m W)
  then show ?case by (simp add: run_inv_def)
next
  case (message m W channel env p m')
  show ?case
  proof (cases "instance_for_l2cap_cid channel m \<and> p \<noteq> []")
    case True
    moreover have "hid_inv m" using message.IH by (simp add: run_inv_def)
    ultimately have "hid_inv m'" "same_link (h_dev m') (h_dev m)"
      using message_effect [of m channel p env] message.hyps(2,3) by auto
    then show ?thesis by (rule run_inv_same [OF message.IH])
  next
    case False
    then have "m' = m" using message.hyps(3) no_instance by fastforce
    then show ?thesis using message.IH by (auto simp: run_inv_def)
  qed
next
  case (slot m W cid env channel m')
  show ?case by (rule slot_inv [OF slot.IH slot.hyps(3-5)])
next
  case (ask m W h m')
  show ?case
  proof (cases "instance_for_hid_cid h m")
    case True
    with ask.hyps(2) ask.IH have "m' = hcall (RequestCanSendNowOn (hd_interrupt_cid (h_dev m)))
        (upd_dev (\<lambda>d. d\<lparr>hd_user_request := True\<rparr>) m)"
      by (simp add: hid_device_request_can_send_now_event_def run_inv_def)
    then show ?thesis using ask.IH by (simp add: run_inv_def hid_inv_def dev_inv_def asked_def)
  next
    case False
    with ask show ?thesis by (auto simp: hid_device_request_can_send_now_event_def run_inv_def)
  qed
next
  case (send m W env h msg st m')
  have "hid_inv m'" "same_link (h_dev m') (h_dev m)"
    using send.hyps(2) send.IH
    by (auto simp: hid_device_send_interrupt_message_def Let_def run_inv_def hid_inv_def same_link_def
        split: if_splits)
  then show ?case by (rule run_inv_same [OF send.IH])
next
  case (send_control m W h msg m')
  have "m' = m \<or> m' = hid_device_trigger_user_request_if_pending (hcall (L2capSend (hd_control_cid (h_dev m)) msg) m)"
    using send_control.hyps(2) by (auto simp: hid_device_send_control_message_def Let_def)
  then have "hid_inv m'" "same_link (h_dev m') (h_dev m)"
    using send_control.IH by (auto simp: run_inv_def hid_inv_def same_link_def)
  then show ?case by (rule run_inv_same [OF send_control.IH])
qed

text \<open>
  Property C27.  The firmware's request to send is never lost: in every state of an open connection in
  which it is pending, L2CAP owes a can-send-now event on a channel of the connection; when one
  arrives the firmware is told, at once or, if a host's request is still to be answered, after this
  answer has gone out and the next slot of the control channel has come.
\<close>

theorem hid_user_request_served:
  assumes "hid_run m W" and "hd_user_request (h_dev m)" and "2 \<le> length (e_out_buffer env)"
    and "hd_control_cid (h_dev m) = c" and "hd_interrupt_cid (h_dev m) = i" and "hd_cid (h_dev m) = h"
  shows "(c \<in> W \<or> i \<in> W) \<and> (\<forall>cid \<in> {c, i}.
    \<exists>m1. hid_packet_handler env 4 ch (can_send_now_packet cid) m = Some m1
      \<and> (if hd_state (h_dev m) \<in> requests
         then c \<in> asked m m1 \<and> (\<exists>m2. hid_packet_handler env 4 ch (can_send_now_packet c) m1 = Some m2
           \<and> last (h_log m2) = HidEvent h ([0xEF, 3, SUBEVENT_CAN_SEND_NOW] @ le16_bytes h)
           \<and> \<not> hd_user_request (h_dev m2))
         else last (h_log m1) = HidEvent h ([0xEF, 3, SUBEVENT_CAN_SEND_NOW] @ le16_bytes h)
           \<and> \<not> hd_user_request (h_dev m1)))"
proof (intro conjI ballI)
  have inv: "hid_inv m" "c \<noteq> 0" "i \<noteq> 0" and owed: "c \<in> W \<or> i \<in> W"
    using hid_run_inv [OF assms(1)] assms(2,4,5) by (auto simp: run_inv_def)
  show "c \<in> W \<or> i \<in> W" by (rule owed)
  fix cid
  assume "cid \<in> {c, i}"
  then have cid: "instance_for_l2cap_cid cid m" "cid \<noteq> 0"
    using assms(4,5) inv by (auto simp: instance_for_l2cap_cid_def)
  show "\<exists>m1. hid_packet_handler env 4 ch (can_send_now_packet cid) m = Some m1
      \<and> (if hd_state (h_dev m) \<in> requests
         then c \<in> asked m m1 \<and> (\<exists>m2. hid_packet_handler env 4 ch (can_send_now_packet c) m1 = Some m2
           \<and> last (h_log m2) = HidEvent h ([0xEF, 3, SUBEVENT_CAN_SEND_NOW] @ le16_bytes h)
           \<and> \<not> hd_user_request (h_dev m2))
         else last (h_log m1) = HidEvent h ([0xEF, 3, SUBEVENT_CAN_SEND_NOW] @ le16_bytes h)
           \<and> \<not> hd_user_request (h_dev m1))"
  proof (cases "hd_state (h_dev m) \<in> requests")
    case True
    from csn_request [OF inv(1) assms(4) cid True assms(3), of ch] obtain m1 b a where
      m1: "hid_packet_handler env 4 ch (can_send_now_packet cid) m = Some m1" "hid_inv m1"
        "same_link (h_dev m1) (h_dev m)" "hd_state (h_dev m1) = HID_IDLE"
        "h_log m1 = h_log m @ [ReservePacketBuffer, SendPrepared c a b, RequestCanSendNowOn c]"
      using assms(2) by auto
    have "instance_for_l2cap_cid c m1" "hd_state (h_dev m1) \<notin> requests"
      "hd_user_request (h_dev m1)" "hd_cid (h_dev m1) = h"
      using m1(3,4) assms(2,4,6) by (auto simp: same_link_def instance_for_l2cap_cid_def)
    with csn_idle [OF m1(2) this(1) inv(2) this(2), of env ch] m1 True show ?thesis
      by (auto simp: asked_append [OF m1(5)] subevent_packet_def)
  next
    case False
    from csn_idle [OF inv(1) cid False, of env ch] False assms(2,6) show ?thesis
      by (auto simp: subevent_packet_def)
  qed
qed


section \<open>Opening and closing\<close>

definition is_opened :: "hid_call \<Rightarrow> bool" where
  "is_opened c \<longleftrightarrow> (\<exists>h b. c = HidEvent h b \<and> b ! 2 = SUBEVENT_CONNECTION_OPENED \<and> b ! 5 = 0)"

definition is_closed :: "hid_call \<Rightarrow> bool" where
  "is_closed c \<longleftrightarrow> (\<exists>h b. c = HidEvent h b \<and> b ! 2 = SUBEVENT_CONNECTION_CLOSED)"

lemma event_kinds [simp]:
  "is_opened (HidEvent h (connected_event st d)) \<longleftrightarrow> st = 0"
  "\<not> is_closed (HidEvent h (connected_event st d))"
  "\<not> is_opened (HidEvent h (subevent_packet e d)) \<or> e = SUBEVENT_CONNECTION_OPENED"
  "is_closed (HidEvent h (subevent_packet e d)) \<longleftrightarrow> e = SUBEVENT_CONNECTION_CLOSED"
  by (simp_all add: is_opened_def is_closed_def connected_event_def subevent_packet_def le16_bytes_def)

lemma other_kinds [simp]:
  "\<not> is_opened (RequestCanSendNowOn c)" "\<not> is_closed (RequestCanSendNowOn c)"
  "\<not> is_opened ReservePacketBuffer" "\<not> is_closed ReservePacketBuffer"
  "\<not> is_opened ReleasePacketBuffer" "\<not> is_closed ReleasePacketBuffer"
  "\<not> is_opened (SendPrepared c l b)" "\<not> is_closed (SendPrepared c l b)"
  "\<not> is_opened (L2capAccept c)" "\<not> is_closed (L2capAccept c)"
  "\<not> is_opened (L2capDecline c)" "\<not> is_closed (L2capDecline c)"
  "\<not> is_opened (CreateChannel a psm)" "\<not> is_closed (CreateChannel a psm)"
  "\<not> is_opened (HidReportData c k i n b)" "\<not> is_closed (HidReportData c k i n b)"
  "\<not> is_opened (HidSetReport c k n b)" "\<not> is_closed (HidSetReport c k n b)"
  by (simp_all add: is_opened_def is_closed_def)

text \<open>The link after a step and the events it emits.\<close>

definition conn_effect :: "hid_mod \<Rightarrow> hid_mod \<Rightarrow> bool" where
  "conn_effect m m' \<longleftrightarrow> hid_inv m' \<and> (\<exists>cs. h_log m' = h_log m @ cs \<and>
     (if \<exists>c \<in> set cs. is_opened c
      then cs = [HidEvent (hd_cid (h_dev m')) (connected_event 0 (h_dev m'))] \<and> hd_cid (h_dev m') \<noteq> 0
        \<and> \<not> hd_connected (h_dev m) \<and> hd_connected (h_dev m')
        \<and> hd_control_cid (h_dev m') \<noteq> 0 \<and> hd_interrupt_cid (h_dev m') \<noteq> 0
      else if \<exists>c \<in> set cs. is_closed c
      then cs = [HidEvent 0 [0xEF, 3, SUBEVENT_CONNECTION_CLOSED, 0, 0]] \<and> hd_cid (h_dev m') = 0
        \<and> \<not> hd_connected (h_dev m') \<and> hd_control_cid (h_dev m') = 0 \<and> hd_interrupt_cid (h_dev m') = 0
      else hd_connected (h_dev m') = hd_connected (h_dev m)))"

lemma conn_effect_quiet:
  "hid_inv m' \<Longrightarrow> h_log m' = h_log m @ cs \<Longrightarrow> \<forall>c \<in> set cs. \<not> is_opened c \<and> \<not> is_closed c
   \<Longrightarrow> hd_connected (h_dev m') = hd_connected (h_dev m) \<Longrightarrow> conn_effect m m'"
  by (auto simp: conn_effect_def)

lemma setup_instance_inv:
  assumes "configured m"
  shows "configured (hid_device_setup_instance a m)" "dev_inv (h_dev (hid_device_setup_instance a m))"
    "h_log (hid_device_setup_instance a m) = h_log m"
    "\<not> hd_connected (h_dev (hid_device_setup_instance a m))"
    "hd_cid (h_dev (hid_device_setup_instance a m)) \<noteq> 0"
  using assms
  by (auto simp: hid_device_setup_instance_def hid_device_get_next_cid_def Let_def configured_def dev_inv_def
      upd_dev_def zero_dev_def)

lemma provide_instance_inv:
  assumes "hid_inv m"
  shows "hid_inv (provide_instance a m)" "h_log (provide_instance a m) = h_log m"
    "hd_connected (h_dev (provide_instance a m)) = hd_connected (h_dev m)"
    "hd_cid (h_dev (provide_instance a m)) \<noteq> 0"
  using assms setup_instance_inv [of m a]
  by (auto simp: provide_instance_def hid_inv_def dev_inv_def)

lemma attach_incoming_inv:
  assumes "hid_inv m" and "hd_cid (h_dev m) \<noteq> 0"
  shows "hid_inv (attach_incoming handle a psm cid m)" "h_log (attach_incoming handle a psm cid m) = h_log m"
    "hd_connected (h_dev (attach_incoming handle a psm cid m)) = hd_connected (h_dev m)"
  using assms by (auto simp: attach_incoming_def Let_def hid_inv_def dev_inv_def)

lemma hid_inv_hcall [simp]: "hid_inv (hcall c m) = hid_inv m"
  by (simp add: hid_inv_def)

lemma incoming_effect:
  assumes "hid_inv m" and "handle_incoming_connection channel p m = Some m'"
  shows "conn_effect m m'"
proof -
  have "\<exists>m1 c. m' = hcall c m1 \<and> c \<in> {L2capAccept channel, L2capDecline channel} \<and> hid_inv m1
      \<and> h_log m1 = h_log m \<and> hd_connected (h_dev m1) = hd_connected (h_dev m)"
  proof -
    obtain psm where psm: "read_le16 p 10 = Some psm"
      using assms(2) by (auto simp: handle_incoming_connection_def bind_eq_Some_conv)
    show ?thesis
    proof (cases "psm = PSM_HID_CONTROL \<or> psm = PSM_HID_INTERRUPT")
      case False
      then show ?thesis using assms psm by (auto simp: handle_incoming_connection_def)
    next
      case True
      from assms(2) psm True obtain a h where ah: "event_address p 2 = Some a" "read_le16 p 8 = Some h"
        by (auto simp: handle_incoming_connection_def bind_eq_Some_conv Let_def)
      note pi = provide_instance_inv [OF assms(1), of a]
      note at = attach_incoming_inv [OF pi(1,4), of h a psm]
      from assms(2) psm True ah have "m' = hcall (L2capDecline channel) (provide_instance a m)
          \<or> (\<exists>cid. m' = hcall (L2capAccept channel) (attach_incoming h a psm cid (provide_instance a m)))"
        by (auto simp: handle_incoming_connection_def bind_eq_Some_conv Let_def split: if_splits)
      then show ?thesis
      proof (elim disjE exE)
        assume "m' = hcall (L2capDecline channel) (provide_instance a m)"
        then show ?thesis using pi by blast
      next
        fix cid
        assume "m' = hcall (L2capAccept channel) (attach_incoming h a psm cid (provide_instance a m))"
        then show ?thesis using pi at [of cid] by (metis insertI1)
      qed
    qed
  qed
  then obtain m1 c where "m' = hcall c m1" "c \<in> {L2capAccept channel, L2capDecline channel}" "hid_inv m1"
      "h_log m1 = h_log m" "hd_connected (h_dev m1) = hd_connected (h_dev m)" by blast
  then show ?thesis by (intro conn_effect_quiet [of _ _ "[c]"]) auto
qed

lemma store_channel_inv:
  assumes "hid_inv m" and "hd_cid (h_dev m) \<noteq> 0"
  shows "hid_inv (store_channel handle psm cid m)" "h_log (store_channel handle psm cid m) = h_log m"
    "hd_connected (h_dev (store_channel handle psm cid m)) = hd_connected (h_dev m)"
    "hd_cid (h_dev (store_channel handle psm cid m)) = hd_cid (h_dev m)"
  using assms by (auto simp: store_channel_def Let_def hid_inv_def dev_inv_def)

lemma opened_effect:
  assumes "hid_inv m" and "read_le16 p 13 \<noteq> Some 0" and "handle_channel_opened env p m = Some m'"
  shows "conn_effect m m'"
proof -
  obtain cid where cid: "read_le16 p 13 = Some cid" "cid \<noteq> 0"
    using assms(2,3) by (auto simp: handle_channel_opened_def bind_eq_Some_conv)
  have c: "configured m" using assms(1) by (simp add: hid_inv_def)
  show ?thesis
  proof (cases "instance_for_l2cap_cid cid m \<and> rd p 2 = Some 0")
    case False
    with assms(1,3) cid show ?thesis
      by (auto simp: handle_channel_opened_def emit_simps [OF c] hid_inv_def bind_eq_Some_conv
          intro!: conn_effect_quiet split: if_splits)
  next
    case True
    then have live: "hd_cid (h_dev m) \<noteq> 0"
      using assms(1) cid(2) by (auto simp: hid_inv_def dev_inv_def instance_for_l2cap_cid_def)
    from assms(3) cid True obtain handle psm where hp: "read_le16 p 9 = Some handle"
      "read_le16 p 11 = Some psm"
      by (auto simp: handle_channel_opened_def bind_eq_Some_conv)
    define m2 where "m2 = store_channel handle psm cid m"
    note m2 = store_channel_inv [OF assms(1) live, of handle psm cid, folded m2_def]
    have c2: "configured (upd_dev f m2)" for f using m2(1) by (simp add: hid_inv_def)
    have "handle_channel_opened env p m =
       (if \<not> hd_incoming (h_dev m2) \<and> psm = PSM_HID_CONTROL then
         Some (let m = hcall (CreateChannel (hd_bd_addr (h_dev m2)) PSM_HID_INTERRUPT) m2 in
           (case snd (e_create_channel env PSM_HID_INTERRUPT) of
              None \<Rightarrow> m | Some c \<Rightarrow> upd_dev (\<lambda>d. d\<lparr>hd_interrupt_cid := c\<rparr>) m))
       else if \<not> hd_connected (h_dev m2) \<and> hd_control_cid (h_dev m2) \<noteq> 0
               \<and> hd_interrupt_cid (h_dev m2) \<noteq> 0
       then hid_device_emit_connected_event 0 (upd_dev (\<lambda>d. d\<lparr>hd_connected := True\<rparr>) m2)
       else Some m2)"
      using cid True hp by (auto simp: handle_channel_opened_def m2_def Let_def)
    with assms(3) have m': "Some m' = (if \<not> hd_incoming (h_dev m2) \<and> psm = PSM_HID_CONTROL then
         Some (let m = hcall (CreateChannel (hd_bd_addr (h_dev m2)) PSM_HID_INTERRUPT) m2 in
           (case snd (e_create_channel env PSM_HID_INTERRUPT) of
              None \<Rightarrow> m | Some c \<Rightarrow> upd_dev (\<lambda>d. d\<lparr>hd_interrupt_cid := c\<rparr>) m))
       else if \<not> hd_connected (h_dev m2) \<and> hd_control_cid (h_dev m2) \<noteq> 0
               \<and> hd_interrupt_cid (h_dev m2) \<noteq> 0
       then hid_device_emit_connected_event 0 (upd_dev (\<lambda>d. d\<lparr>hd_connected := True\<rparr>) m2)
       else Some m2)" by simp
    consider (create) "\<not> hd_incoming (h_dev m2) \<and> psm = PSM_HID_CONTROL"
      | (emit) "\<not> (\<not> hd_incoming (h_dev m2) \<and> psm = PSM_HID_CONTROL)"
          "\<not> hd_connected (h_dev m2) \<and> hd_control_cid (h_dev m2) \<noteq> 0 \<and> hd_interrupt_cid (h_dev m2) \<noteq> 0"
      | (quiet) "\<not> (\<not> hd_incoming (h_dev m2) \<and> psm = PSM_HID_CONTROL)"
          "\<not> (\<not> hd_connected (h_dev m2) \<and> hd_control_cid (h_dev m2) \<noteq> 0 \<and> hd_interrupt_cid (h_dev m2) \<noteq> 0)"
      by blast
    then show ?thesis
    proof cases
      case create
      let ?m = "hcall (CreateChannel (hd_bd_addr (h_dev m2)) PSM_HID_INTERRUPT) m2"
      have "m' = ?m \<or> (\<exists>c. m' = upd_dev (\<lambda>d. d\<lparr>hd_interrupt_cid := c\<rparr>) ?m)"
        using m' create by (cases "snd (e_create_channel env PSM_HID_INTERRUPT)") (simp add: Let_def, simp add: Let_def, blast)
      then show ?thesis using m2 live
        by (intro conn_effect_quiet [of _ _ "[CreateChannel (hd_bd_addr (h_dev m2)) PSM_HID_INTERRUPT]"])
           (auto simp: hid_inv_def dev_inv_def)
    next
      case emit
      let ?m = "upd_dev (\<lambda>d. d\<lparr>hd_connected := True\<rparr>) m2"
      have "m' = hcall (HidEvent (hd_cid (h_dev ?m)) (connected_event 0 (h_dev ?m))) ?m"
        using m' emit emit_simps(2) [OF c2] by simp
      then show ?thesis using m2 live emit
        by (simp add: conn_effect_def hid_inv_def dev_inv_def)
    next
      case quiet
      then have "m' = m2" using m' by auto
      then show ?thesis using m2 by (intro conn_effect_quiet [of _ _ "[]"]) simp_all
    qed
  qed
qed

lemma closed_effect:
  assumes "hid_inv m" and "read_le16 p 2 \<noteq> Some 0" and "handle_channel_closed p m = Some m'"
  shows "conn_effect m m'"
proof -
  obtain cid where cid: "read_le16 p 2 = Some cid" "cid \<noteq> 0"
    using assms(2,3) by (auto simp: handle_channel_closed_def bind_eq_Some_conv)
  have c: "configured m" using assms(1) by (simp add: hid_inv_def)
  show ?thesis
  proof (cases "instance_for_l2cap_cid cid m")
    case False
    with assms cid show ?thesis
      by (auto simp: handle_channel_closed_def intro: conn_effect_quiet)
  next
    case True
    define f :: "hid_dev \<Rightarrow> hid_dev" where "f = (\<lambda>d. d\<lparr>hd_incoming := False,
      hd_interrupt_cid := if cid = hd_interrupt_cid d then 0 else hd_interrupt_cid d,
      hd_control_cid := if cid = hd_control_cid d then 0 else hd_control_cid d\<rparr>)"
    define g :: "hid_dev \<Rightarrow> hid_dev" where
      "g = (\<lambda>d. d\<lparr>hd_connected := False, hd_con_handle := HCI_CON_HANDLE_INVALID, hd_cid := 0\<rparr>)"
    have run: "handle_channel_closed p m =
      (if hd_interrupt_cid (f (h_dev m)) = 0 \<and> hd_control_cid (f (h_dev m)) = 0
       then hid_device_emit_event SUBEVENT_CONNECTION_CLOSED (upd_dev (\<lambda>d. g (f d)) m)
       else Some (upd_dev f m))"
      using cid True by (simp add: handle_channel_closed_def Let_def f_def g_def cong: if_cong)
    show ?thesis
    proof (cases "hd_interrupt_cid (f (h_dev m)) = 0 \<and> hd_control_cid (f (h_dev m)) = 0")
      case closed: True
      let ?m = "upd_dev (\<lambda>d. g (f d)) m"
      have "m' = hcall (HidEvent 0 (subevent_packet SUBEVENT_CONNECTION_CLOSED (h_dev ?m))) ?m"
        using assms(3) run closed emit_simps(1) [of ?m] c by (simp add: g_def)
      then show ?thesis using closed c
        by (auto simp: conn_effect_def hid_inv_def dev_inv_def g_def subevent_packet_def le16_bytes_def
            is_opened_def is_closed_def)
    next
      case quiet: False
      then have "m' = upd_dev f m" using assms(3) run by auto
      then show ?thesis using assms(1) quiet True cid(2)
        by (intro conn_effect_quiet [of _ _ "[]"])
           (auto simp: hid_inv_def dev_inv_def f_def instance_for_l2cap_cid_def)
    qed
  qed
qed


text \<open>What L2CAP guarantees: it never hands out channel ID 0.\<close>

definition l2cap_ok :: "u8 \<Rightarrow> u16 \<Rightarrow> bytes \<Rightarrow> bool" where
  "l2cap_ok t channel p \<longleftrightarrow> (t = 6 \<longrightarrow> channel \<noteq> 0)
     \<and> (t = 4 \<and> p ! 0 = 0x70 \<longrightarrow> read_le16 p 13 \<noteq> Some 0)
     \<and> (t = 4 \<and> p ! 0 \<in> {0x71, 0x79} \<longrightarrow> read_le16 p 2 \<noteq> Some 0)"

lemma message_calls_kinds: "c \<in> set (message_calls d p) \<Longrightarrow> \<not> is_opened c \<and> \<not> is_closed c"
  by (auto simp: message_calls_def delivered_def passed_on_def control_subevent_def is_opened_def is_closed_def
      subevent_packet_def split: if_splits)

lemma csn_effect:
  assumes "hid_inv m" and "cid \<noteq> 0" and "2 \<le> length (e_out_buffer env)"
    and "hid_packet_handler env 4 channel (can_send_now_packet cid) m = Some m'"
  shows "conn_effect m m'"
proof (cases "instance_for_l2cap_cid cid m")
  case True
  show ?thesis
  proof (cases "hd_state (h_dev m) \<in> requests")
    case busy: True
    from csn_request [OF assms(1) refl True assms(2) busy assms(3), of channel] assms(4) obtain b a where
      m': "hid_inv m'" "same_link (h_dev m') (h_dev m)"
      "h_log m' = h_log m @ [ReservePacketBuffer, SendPrepared (hd_control_cid (h_dev m)) a b]
        @ (if hd_user_request (h_dev m) then [RequestCanSendNowOn (hd_control_cid (h_dev m))] else [])"
      by auto
    then show ?thesis by (intro conn_effect_quiet [OF m'(1,3)]) (auto simp: same_link_def)
  next
    case idle: False
    from csn_idle [OF assms(1) True assms(2) idle, of env channel] assms(4) have
      m': "hid_inv m'" "hd_connected (h_dev m') = hd_connected (h_dev m)"
      "h_log m' = h_log m @ [ReservePacketBuffer, ReleasePacketBuffer]
        @ (if hd_user_request (h_dev m)
           then [HidEvent (hd_cid (h_dev m)) (subevent_packet SUBEVENT_CAN_SEND_NOW (h_dev m))] else [])"
      by (auto simp: same_link_def)
    then show ?thesis
      by (intro conn_effect_quiet [OF m'(1,3)]) (auto simp: is_opened_def is_closed_def subevent_packet_def)
  qed
next
  case False
  then have "m' = m" using no_instance(2) [OF False] assms(4) by simp
  then show ?thesis using assms(1) by (intro conn_effect_quiet [of _ _ "[]"]) simp_all
qed

lemma handler_effect:
  assumes "hid_inv m" and "l2cap_ok t channel p" and "2 \<le> length (e_out_buffer env)"
    and "hid_packet_handler env t channel p m = Some m'"
  shows "conn_effect m m'"
proof -
  have quiet: "conn_effect m m" using assms(1) by (intro conn_effect_quiet [of _ _ "[]"]) simp_all
  consider (data) "t = 6" | (event) "t = 4" | (none) "t \<noteq> 6" "t \<noteq> 4" by blast
  then show ?thesis
  proof cases
    case data
    show ?thesis
    proof (cases "instance_for_l2cap_cid channel m \<and> p \<noteq> []")
      case True
      with message_effect [OF assms(1) _ _, of channel p env] assms(2,4) data show ?thesis
        by (auto simp: l2cap_ok_def same_link_def dest!: message_calls_kinds
            intro!: conn_effect_quiet [of m' m "message_calls (h_dev m) p"])
    next
      case False
      then have "m' = m" using assms(4) data no_instance by fastforce
      with quiet show ?thesis by simp
    qed
  next
    case event
    with assms(4) obtain e where e: "rd p 0 = Some e" by (auto simp: hid_packet_handler_def bind_eq_Some_conv)
    then have e0: "p ! 0 = e" by (auto simp: rd_def split: if_splits)
    consider "e = 0x72" | "e = 0x70" | "e = 0x71" | "e = 0x79" | "e \<notin> {0x72, 0x70, 0x71, 0x79}" by blast
    then show ?thesis
    proof cases
      case 1
      with assms(1,4) e event show ?thesis by (intro incoming_effect) (auto simp: hid_packet_handler_def)
    next
      case 2
      with assms(1,2,4) e e0 event show ?thesis
        by (intro opened_effect [of m p env]) (auto simp: hid_packet_handler_def l2cap_ok_def)
    next
      case 3
      with assms(1,2,4) e e0 event show ?thesis
        by (intro closed_effect [of m p]) (auto simp: hid_packet_handler_def l2cap_ok_def)
    next
      case 4
      then have run: "handle_can_send_now env p m = Some m'"
        using assms(4) e event by (simp add: hid_packet_handler_def)
      then obtain cid where cid: "read_le16 p 2 = Some cid"
        by (auto simp: handle_can_send_now_def bind_eq_Some_conv)
      have "read_le16 (can_send_now_packet cid) 2 = Some cid"
        using read_le16_bytes [of 2 "[0x79, 2]" cid "[]"] by (simp add: can_send_now_packet_def)
      then have "hid_packet_handler env 4 channel (can_send_now_packet cid) m = Some m'"
        using run cid by (simp add: hid_packet_handler_def handle_can_send_now_def can_send_now_packet_def)
      then show ?thesis using assms(1-3) cid 4 e0 event
        by (intro csn_effect [of m cid env channel]) (auto simp: l2cap_ok_def)
    next
      case 5
      with assms(4) e event have "m' = m" by (simp add: hid_packet_handler_def)
      with quiet show ?thesis by simp
    qed
  next
    case none
    with assms(4) have "m' = m" by (simp add: hid_packet_handler_def)
    with quiet show ?thesis by simp
  qed
qed

text \<open>The calls of the firmware: none of them tells it about the connection.\<close>

definition no_connection_event :: "hid_mod \<Rightarrow> hid_mod \<Rightarrow> bool" where
  "no_connection_event m m' \<longleftrightarrow> (\<exists>cs. h_log m' = h_log m @ cs \<and> (\<forall>c \<in> set cs. \<not> is_opened c \<and> \<not> is_closed c))"

lemma no_event_log [simp]:
  "no_connection_event m m" "h_log m' = h_log m @ cs \<Longrightarrow> \<forall>c \<in> set cs. \<not> is_opened c \<and> \<not> is_closed c \<Longrightarrow> no_connection_event m m'"
  by (auto simp: no_connection_event_def)

lemma api_no_event:
  "no_connection_event m (hid_device_disconnect h m)"
  "no_connection_event m (hid_device_disconnect_interrupt_channel h m)"
  "no_connection_event m (hid_device_disconnect_control_channel h m)"
  "no_connection_event m (hid_device_request_can_send_now_event h m)"
  "no_connection_event m (snd (hid_device_send_interrupt_message env h b m))"
  "no_connection_event m (hid_device_send_control_message h b m)"
  "no_connection_event m (snd (snd (hid_device_connect env a m)))"
  "no_connection_event m (hid_device_deinit m)"
  by (auto simp: no_connection_event_def hid_device_disconnect_def hid_device_disconnect_interrupt_channel_def
      hid_device_disconnect_control_channel_def disconnect_channel_def hid_device_request_can_send_now_event_def
      hid_device_send_interrupt_message_def hid_device_send_control_message_def hid_device_connect_def
      hid_device_deinit_def hid_device_setup_instance_def hid_device_get_next_cid_def is_opened_def is_closed_def
      hid_device_trigger_user_request_if_pending_def hcall_def upd_dev_def Let_def split: prod.splits option.splits)

lemma api_connected:
  "hd_connected (h_dev (hid_device_disconnect h m)) = hd_connected (h_dev m)"
  "hd_connected (h_dev (hid_device_disconnect_interrupt_channel h m)) = hd_connected (h_dev m)"
  "hd_connected (h_dev (hid_device_disconnect_control_channel h m)) = hd_connected (h_dev m)"
  "hd_connected (h_dev (hid_device_request_can_send_now_event h m)) = hd_connected (h_dev m)"
  "hd_connected (h_dev (snd (hid_device_send_interrupt_message env h b m))) = hd_connected (h_dev m)"
  "hd_connected (h_dev (hid_device_send_control_message h b m)) = hd_connected (h_dev m)"
  "\<not> hd_connected (h_dev (snd (snd (hid_device_connect env a m))))"
  "\<not> hd_connected (h_dev (hid_device_deinit m))"
  by (simp_all add: hid_device_disconnect_def hid_device_disconnect_interrupt_channel_def
      hid_device_disconnect_control_channel_def disconnect_channel_def hid_device_request_can_send_now_event_def
      hid_device_send_interrupt_message_def hid_device_send_control_message_def hid_device_connect_def
      hid_device_deinit_def hid_device_setup_instance_def hid_device_get_next_cid_def
      hcall_def upd_dev_def zero_dev_def Let_def split: prod.split option.split)

text \<open>
  Property C30.  When the profile counts as connected and what the firmware hears of it.  On a packet
  or event of L2CAP: the firmware is told that a connection opened only when the profile was not
  connected and the IDs of both channels are set (an ID is set when a channel is opened and already
  when it comes in, so this does not say that both channels are open), with the nonzero HID cid it
  will use; it is told that the connection closed only when both channel IDs are cleared, and then the cid
  of the event is 0, because it is cleared before the event is built; and every other packet or event
  leaves \<open>connected\<close> as it was.  Of the calls that the firmware makes, none emits either event;
  \<open>hid_device_connect\<close> and \<open>hid_device_deinit\<close> leave the profile unconnected, also when it was
  connected, and the others leave \<open>connected\<close> as it was.
\<close>

theorem hid_connection_events:
  assumes "hid_inv m" and "l2cap_ok t channel p" and "2 \<le> length (e_out_buffer env)"
    and "hid_packet_handler env t channel p m = Some m'"
  shows "hid_inv m' \<and> (\<exists>cs. h_log m' = h_log m @ cs \<and>
     (if \<exists>c \<in> set cs. is_opened c
      then cs = [HidEvent (hd_cid (h_dev m')) (connected_event 0 (h_dev m'))] \<and> hd_cid (h_dev m') \<noteq> 0
        \<and> \<not> hd_connected (h_dev m) \<and> hd_connected (h_dev m')
        \<and> hd_control_cid (h_dev m') \<noteq> 0 \<and> hd_interrupt_cid (h_dev m') \<noteq> 0
      else if \<exists>c \<in> set cs. is_closed c
      then cs = [HidEvent 0 [0xEF, 3, SUBEVENT_CONNECTION_CLOSED, 0, 0]] \<and> hd_cid (h_dev m') = 0
        \<and> \<not> hd_connected (h_dev m') \<and> hd_control_cid (h_dev m') = 0 \<and> hd_interrupt_cid (h_dev m') = 0
      else hd_connected (h_dev m') = hd_connected (h_dev m)))
    \<and> (\<forall>m1 \<in> {hid_device_disconnect h m, hid_device_disconnect_interrupt_channel h m,
          hid_device_disconnect_control_channel h m, hid_device_request_can_send_now_event h m,
          snd (hid_device_send_interrupt_message env h b m), hid_device_send_control_message h b m}.
         no_connection_event m m1 \<and> hd_connected (h_dev m1) = hd_connected (h_dev m))
    \<and> (\<forall>m1 \<in> {snd (snd (hid_device_connect env a m)), hid_device_deinit m}.
         no_connection_event m m1 \<and> \<not> hd_connected (h_dev m1))"
  using handler_effect [OF assms] unfolding conn_effect_def by (simp add: api_no_event api_connected)


section \<open>The profile and the firmware together\<close>

text \<open>
  The calls of the profile as the events of \<open>btstack_hid.c\<close>.  The getters the firmware uses on an
  event packet: the subevent is its third byte, the cid follows, then the status.
\<close>

definition hid_event_of :: "bytes \<Rightarrow> hci_event" where
  "hid_event_of b =
     (if b ! 2 = SUBEVENT_CONNECTION_OPENED
      then HidConnectionOpened (uint (b ! 5)) (ucast (b ! 3) OR push_bit 8 (ucast (b ! 4)))
      else if b ! 2 = SUBEVENT_CONNECTION_CLOSED then HidConnectionClosed
      else if b ! 2 = SUBEVENT_CAN_SEND_NOW then HidCanSendNow
      else OtherEvent)"

fun firmware_event :: "u32 \<Rightarrow> int \<Rightarrow> hid_call \<Rightarrow> 'q bt_event option" where
  "firmware_event now st (HidReportData c k i n b) = Some (OutputReport now i n (Some b))"
| "firmware_event now st (HidSetReport c k n b) = Some (SetReport now n (Some b))"
| "firmware_event now st (HidEvent c b) = Some (Packet now st (hid_event_of b))"
| "firmware_event now st _ = None"

text \<open>
  Property C25.  Any bytes the host sends on a channel of the connection: the profile handles them without
  undefined behaviour, and every callback it makes gives the firmware a report it may read in full.
  So from every state the firmware can reach, the firmware handles it too, but for the one request it
  has no defined answer to: a flash read of zero bytes at address 0.
\<close>

theorem host_messages_safe:
  assumes "hid_inv m" and "channel \<noteq> 0" and "bt_reachable api recv d"
  shows "\<exists>m' cs. hid_packet_handler env 6 channel p m = Some m' \<and> hid_inv m' \<and> h_log m' = h_log m @ cs
    \<and> (\<forall>c \<in> set cs. \<forall>ev. firmware_event now st c = Some ev \<longrightarrow>
         bt_event_ok ev \<and> (bt_step api recv ev d = None \<longleftrightarrow> wild_event ev))"
proof -
  have step: "bt_step api recv ev d = None \<longleftrightarrow> wild_event ev" if "bt_event_ok ev" for ev
    using bt_step_wild [OF that, of api recv d] bt_step_total [OF bt_reachable_inv [OF assms(3)] that, of api recv]
    by (cases "wild_event ev") auto
  have ok: "bt_event_ok ev" if "c \<in> set (message_calls e p)" "firmware_event now st c = Some ev" for c e and ev :: "'b bt_event"
    using that
    by (auto simp: message_calls_def delivered_def passed_on_def report_readable_def split: if_splits)
  show ?thesis
  proof (cases "instance_for_l2cap_cid channel m \<and> p \<noteq> []")
    case True
    with message_effect [OF assms(1) _ assms(2), of p env] ok step show ?thesis by blast
  next
    case False
    then have "hid_packet_handler env 6 channel p m = Some m" using no_instance by fastforce
    with assms(1) show ?thesis by auto
  qed
qed

text \<open>
  Property C26.  From the slot to the air: suppose the firmware waits for a slot on both sides (its flag
  \<open>send_pending\<close> and the profile's \<open>user_request_can_send_now\<close> are set), the connection is open, and no
  answer to a request of the host is due (\<open>HID_IDLE\<close>; with an answer due, the slot goes to the answer).
  When L2CAP then offers a slot on a channel of the connection, the firmware is called, and the message
  it has ready, a queued reply first, goes out on the interrupt channel in the same step; a queued
  reply leaves the queue exactly when L2CAP accepts it.
\<close>

theorem slot_sends_next_message:
  assumes "hid_inv m" and "instance_for_l2cap_cid cid m" and "cid \<noteq> 0" and "hd_state (h_dev m) = HID_IDLE"
    and "hd_user_request (h_dev m)" and "hd_cid (h_dev m) = h" and "hd_interrupt_cid (h_dev m) = i" and "i \<noteq> 0"
    and "bt_reachable api recv d" and "is_connected (link d)" and "send_pending (link d)"
    and "hid_cid (link d) = h" and "next_message d = Some frame"
  shows "\<exists>m1 m2 d1 b. hid_packet_handler env 4 ch (can_send_now_packet cid) m = Some m1
    \<and> last (h_log m1) = HidEvent h b
    \<and> bt_step api recv (Packet now (e_send env i frame) (hid_event_of b)) d = Some d1
    \<and> stack_calls (link d1) = stack_calls (link d) @ [SendInterrupt h frame]
    \<and> hid_device_send_interrupt_message env h frame m1 = (e_send env i frame, m2)
    \<and> h_log m2 = h_log m1 @ [L2capSend i frame] \<and> hid_inv m2
    \<and> queued (link d1) = (if e_send env i frame = 0 then tl (queued (link d)) else queued (link d))"
proof -
  from csn_idle [OF assms(1-3), of env ch] assms(4-7) obtain m1 where
    m1: "hid_packet_handler env 4 ch (can_send_now_packet cid) m = Some m1" "hid_inv m1"
      "last (h_log m1) = HidEvent h (subevent_packet SUBEVENT_CAN_SEND_NOW (h_dev m))"
      "\<not> hd_user_request (h_dev m1)" "hd_cid (h_dev m1) = h" "hd_interrupt_cid (h_dev m1) = i"
    by (auto simp: same_link_def)
  note r = reachable_parts [OF assms(9)]
  let ?st = "e_send env i frame"
  have ev: "hid_event_of (subevent_packet SUBEVENT_CAN_SEND_NOW (h_dev m)) = HidCanSendNow"
    by (simp add: hid_event_of_def subevent_packet_def)
  have d1: "packet_handler now ?st HidCanSendNow d = Some (sent_next ?st frame d)"
    using send_next_result [OF r(4,3), of ?st] assms(10,11,13) by (simp add: packet_handler_def)
  have m2: "hid_device_send_interrupt_message env h frame m1 = (?st, hcall (L2capSend i frame) m1)"
    using m1(4-6) assms(8) by (simp add: hid_device_send_interrupt_message_def instance_for_hid_cid_def Let_def)
  show ?thesis
    by (intro exI [of _ m1] exI [of _ "hcall (L2capSend i frame) m1"] exI [of _ "sent_next ?st frame d"]
        exI [of _ "subevent_packet SUBEVENT_CAN_SEND_NOW (h_dev m)"])
       (simp add: m1(1-3) ev d1 m2 assms(12) sent_next_queue(1) [OF r(4)])
qed

section \<open>The properties on a concrete connection\<close>

definition hid_demo_env :: hid_env where
  "hid_demo_env = \<lparr>e_get_report = (\<lambda>_ _ _ b. (1, 0, b)), e_create_channel = (\<lambda>_. (0, Some 0x42)),
     e_send = (\<lambda>_ _. 0), e_out_buffer = replicate 64 0\<rparr>"

text \<open>A connection whose firmware has asked for a slot.\<close>

definition hid_demo_open :: hid_mod where
  "hid_demo_open = hid_device_request_can_send_now_event 0x40
     (hid_boot\<lparr>h_dev := zero_dev\<lparr>hd_cid := 0x40, hd_protocol_mode := PROTOCOL_REPORT, hd_con_handle := 0x80,
        hd_control_cid := 0x50, hd_interrupt_cid := 0x51, hd_incoming := True, hd_connected := True\<rparr>\<rparr>)"

lemma hid_demo_open_simps [simp]:
  "h_dev hid_demo_open = zero_dev\<lparr>hd_cid := 0x40, hd_protocol_mode := PROTOCOL_REPORT,
     hd_con_handle := 0x80, hd_control_cid := 0x50, hd_interrupt_cid := 0x51, hd_incoming := True,
     hd_connected := True, hd_user_request := True\<rparr>"
  "hid_inv hid_demo_open" "h_log hid_demo_open = h_log hid_boot @ [RequestCanSendNowOn 0x51]"
proof -
  have boot: "configured hid_boot" using hid_boot_inv by (simp add: hid_inv_def)
  have conf: "configured (m\<lparr>h_dev := x\<rparr>) = configured m" for m x by (simp add: configured_def)
  show "h_dev hid_demo_open = zero_dev\<lparr>hd_cid := 0x40, hd_protocol_mode := PROTOCOL_REPORT,
     hd_con_handle := 0x80, hd_control_cid := 0x50, hd_interrupt_cid := 0x51, hd_incoming := True,
     hd_connected := True, hd_user_request := True\<rparr>"
    "hid_inv hid_demo_open" "h_log hid_demo_open = h_log hid_boot @ [RequestCanSendNowOn 0x51]"
    using boot
    by (simp_all add: hid_demo_open_def hid_device_request_can_send_now_event_def instance_for_hid_cid_def
        hid_inv_def dev_inv_def conf)
qed

lemma hid_demo_channels [simp]:
  "instance_for_l2cap_cid 0x50 hid_demo_open" "instance_for_l2cap_cid 0x51 hid_demo_open"
  by (simp_all add: instance_for_l2cap_cid_def)

lemma hid_demo_env_buffer [simp]: "2 \<le> length (e_out_buffer hid_demo_env)" "e_send hid_demo_env c b = 0"
  by (simp_all add: hid_demo_env_def)

text \<open>A subcommand of two bytes, and a report of a type that is not declared.\<close>

theorem hid_reports_delivered_witness:
  "(\<exists>m'. hid_packet_handler hid_demo_env 6 0x51 [0xA2, 0x01, 0x00, 0x05] hid_demo_open = Some m'
     \<and> h_log m' = h_log hid_demo_open @ [HidReportData 0x40 REPORT_OUTPUT 0x01 2 [0x00, 0x05]])
   \<and> (\<exists>m'. hid_packet_handler hid_demo_env 6 0x51 [0xA1, 0x01, 0x00, 0x05] hid_demo_open = Some m'
     \<and> h_log m' = h_log hid_demo_open)"
  using hid_reports_delivered [of hid_demo_open "0x51" "[0xA2, 0x01, 0x00, 0x05]" hid_demo_env]
    hid_reports_delivered [of hid_demo_open "0x51" "[0xA1, 0x01, 0x00, 0x05]" hid_demo_env]
  by (auto simp: declared_size_def report_type_of_def)

text \<open>SET_PROTOCOL with boot mode: refused, and nobody asks for the slot of the handshake.\<close>

theorem hid_request_answered_witness:
  "\<exists>m1. hid_packet_handler hid_demo_env 6 0x50 [0x70] hid_demo_open = Some m1 \<and> h_log m1 = h_log hid_demo_open
     \<and> (\<exists>m2. hid_packet_handler hid_demo_env 4 0 (can_send_now_packet 0x50) m1 = Some m2 \<and> hd_state (h_dev m2) = HID_IDLE)"
proof -
  have r: "is_request [0x70]" "refused_protocol [0x70]"
    by (simp_all add: is_request_def control_event_def refused_protocol_def)
  have "answer_bytes (request_state [0x70]) (request_status [0x70]) = [4]"
    by (simp add: answer_bytes_def request_state_def request_status_def refused_protocol_def)
  with hid_request_answered [of hid_demo_open "0x50" "[0x70]" hid_demo_env "0x50" "[4]" 0] r
  show ?thesis by (auto simp: passed_on_def)
qed

lemma hid_demo_run: "hid_run hid_demo_open {0x51}"
proof -
  let ?m = "hid_boot\<lparr>h_dev := zero_dev\<lparr>hd_cid := 0x40, hd_protocol_mode := PROTOCOL_REPORT, hd_con_handle := 0x80,
        hd_control_cid := 0x50, hd_interrupt_cid := 0x51, hd_incoming := True, hd_connected := True\<rparr>\<rparr>"
  have "configured hid_boot" using hid_boot_inv by (simp add: hid_inv_def)
  then have "hid_inv ?m" by (simp add: hid_inv_def dev_inv_def configured_def)
  then have "hid_run ?m {}" by (rule hid_run.opened) (simp_all add: zero_dev_def)
  then have "hid_run hid_demo_open ({} \<union> asked ?m hid_demo_open)" by (rule hid_run.ask) (simp add: hid_demo_open_def)
  moreover have "asked ?m hid_demo_open = {0x51}" by (simp add: asked_def)
  ultimately show ?thesis by simp
qed

theorem hid_user_request_served_witness:
  "\<exists>m1. hid_packet_handler hid_demo_env 4 0 (can_send_now_packet 0x51) hid_demo_open = Some m1
     \<and> last (h_log m1) = HidEvent 0x40 ([0xEF, 3, 4] @ le16_bytes 0x40)"
  using hid_user_request_served [OF hid_demo_run, of hid_demo_env "0x50" "0x51" "0x40" 0]
  by (auto simp: zero_dev_def)

text \<open>The host closes the interrupt channel: the connection counts as open until the other one closes.\<close>

theorem hid_connection_events_witness:
  "\<exists>m'. hid_packet_handler hid_demo_env 4 0 [0x71, 2, 0x51, 0x00] hid_demo_open = Some m' \<and> hid_inv m'
     \<and> hd_connected (h_dev m')"
proof -
  have cid: "read_le16 [0x71, 2, 0x51, 0x00] 2 = Some 0x51"
    using read_le16_bytes [of 2 "[0x71, 2]" "0x51" "[]"] by (simp add: le16_bytes_def)
  let ?m = "upd_dev (\<lambda>d. d\<lparr>hd_incoming := False, hd_interrupt_cid := 0, hd_control_cid := 0x50\<rparr>) hid_demo_open"
  have run: "hid_packet_handler hid_demo_env 4 0 [0x71, 2, 0x51, 0x00] hid_demo_open = Some ?m"
    by (simp add: hid_packet_handler_def handle_channel_closed_def cid upd_dev_def zero_dev_def)
  have "l2cap_ok 4 0 [0x71, 2, 0x51, 0x00]" by (simp add: l2cap_ok_def cid)
  from hid_connection_events [OF hid_demo_open_simps(2) this hid_demo_env_buffer(1) run, THEN conjunct1] run
  show ?thesis by (simp add: zero_dev_def)
qed


text \<open>The bytes of a flash read of no bytes at address 0, as a data message.\<close>

theorem host_messages_safe_witness:
  "\<exists>m' cs. hid_packet_handler hid_demo_env 6 0x51 ([0xA2, 1] @ replicate 9 0 @ [0x10, 0, 0, 0, 0, 1]) hid_demo_open = Some m'
     \<and> h_log m' = h_log hid_demo_open @ cs
     \<and> (\<forall>c \<in> set cs. \<forall>ev. firmware_event 7 0 c = Some ev \<longrightarrow>
          bt_event_ok ev \<and> (bt_step demo_api list_recv ev bt_open = None \<longleftrightarrow> wild_event ev))"
  using host_messages_safe [OF hid_demo_open_simps(2) _ bt_open_reachable [of demo_api list_recv],
      of "0x51" hid_demo_env "[0xA2, 1] @ replicate 9 0 @ [0x10, 0, 0, 0, 0, 1]" 7 0]
  by auto

theorem slot_sends_next_message_witness:
  "\<exists>m1 m2 frame. hid_packet_handler hid_demo_env 4 0 (can_send_now_packet 0x51) hid_demo_open = Some m1
     \<and> hid_device_send_interrupt_message hid_demo_env 0x40 frame m1 = (0, m2) \<and> h_log m2 = h_log m1 @ [L2capSend 0x51 frame]"
proof -
  have api: "bt_reachable demo_api list_recv (input_timer_handler 9 bt_open)"
    by (rule bt_reachable.step [OF bt_open_reachable, where ev = "InputTimerTick 9"]) simp_all
  let ?d = "input_timer_handler 9 bt_open"
  have d: "is_connected (link ?d)" "send_pending (link ?d)" "hid_cid (link ?d) = 0x40"
    by (simp_all add: input_timer_handler_def Let_def)
  have "queued (l\<lparr>stalled_logged := b\<rparr>) = queued l" for l b by (simp add: queued_def)
  then have "queued (link ?d) = []" "s_stream_mode ?d = STREAM_MODE_0x30"
    by (simp_all add: input_timer_handler_def Let_def)
  then obtain frame where frame: "next_message ?d = Some frame" by (simp add: next_message_def)
  have m: "hd_state (h_dev hid_demo_open) = HID_IDLE" "hd_user_request (h_dev hid_demo_open)"
    "hd_cid (h_dev hid_demo_open) = 0x40" "hd_interrupt_cid (h_dev hid_demo_open) = 0x51"
    by (simp_all add: zero_dev_def)
  have "(0x51 :: u16) \<noteq> 0" by simp
  from slot_sends_next_message [OF hid_demo_open_simps(2) hid_demo_channels(2) this m this api d frame, of hid_demo_env 0 9]
  show ?thesis by auto
qed

end
