(* ===== verification/SdpUtil.thy ===== *)
theory SdpUtil
  imports Prelude
begin

text \<open>
  \<open>classic/sdp_util.c\<close> of BTstack: data elements, the format of service records and of the requests a
  host makes about them.  An element starts with a byte that holds its type and its size code; long ones
  carry a length in one, two or four bytes.  A pointer into a buffer is the buffer and an offset.

  Part one is the code that reads an element, part two the code that builds one in place, part three
  the iterator over the children of a sequence, and part four the traversals that answer a host's requests.
  \<open>None\<close> is an access outside of the buffer or a failed assertion; numbers have their C widths, and
  positions that C passes as \<open>uint16_t\<close> wrap at 65536.
\<close>

section \<open>Big-endian numbers\<close>

definition big_endian_read_16 :: "bytes \<Rightarrow> nat \<Rightarrow> u16 option" where
  "big_endian_read_16 buf i = do {
     lo \<leftarrow> rd buf (i + 1);
     hi \<leftarrow> rd buf i;
     Some (ucast lo OR push_bit 8 (ucast hi)) }"

definition big_endian_read_32 :: "bytes \<Rightarrow> nat \<Rightarrow> u32 option" where
  "big_endian_read_32 buf i = do {
     b3 \<leftarrow> rd buf (i + 3);
     b2 \<leftarrow> rd buf (i + 2);
     b1 \<leftarrow> rd buf (i + 1);
     b0 \<leftarrow> rd buf i;
     Some (ucast b3 OR push_bit 8 (ucast b2) OR push_bit 16 (ucast b1) OR push_bit 24 (ucast b0)) }"

definition big_endian_store_16 :: "bytes \<Rightarrow> nat \<Rightarrow> u16 \<Rightarrow> u16 \<Rightarrow> bytes option" where
  "big_endian_store_16 buf p pos v = do {
     buf \<leftarrow> wr buf (p + unat pos) (ucast (drop_bit 8 v));
     wr buf (p + unat (pos + 1)) (ucast v) }"

definition big_endian_store_32 :: "bytes \<Rightarrow> nat \<Rightarrow> u16 \<Rightarrow> u32 \<Rightarrow> bytes option" where
  "big_endian_store_32 buf p pos v = do {
     buf \<leftarrow> wr buf (p + unat pos) (ucast (drop_bit 24 v));
     buf \<leftarrow> wr buf (p + unat (pos + 1)) (ucast (drop_bit 16 v));
     buf \<leftarrow> wr buf (p + unat (pos + 2)) (ucast (drop_bit 8 v));
     wr buf (p + unat (pos + 3)) (ucast v) }"

definition bluetooth_base_uuid :: bytes where
  "bluetooth_base_uuid =
     [0x00, 0x00, 0x00, 0x00, 0x00, 0x00, 0x10, 0x00, 0x80, 0x00, 0x00, 0x80, 0x5F, 0x9B, 0x34, 0xFB]"

definition uuid_add_bluetooth_prefix :: "u32 \<Rightarrow> bytes option" where
  "uuid_add_bluetooth_prefix short_uuid = big_endian_store_32 bluetooth_base_uuid 0 0 short_uuid"

definition uuid_has_bluetooth_prefix :: "bytes \<Rightarrow> bool option" where
  "uuid_has_bluetooth_prefix uuid128 = do {
     b \<leftarrow> rd_range uuid128 4 12;
     Some (b = drop 4 bluetooth_base_uuid) }"

section \<open>Reading an element\<close>

text \<open>\<open>de_type_t\<close> and \<open>de_size_t\<close>; a type code above 8 is none of the constants.\<close>

abbreviation (input) DE_NIL :: u8 where "DE_NIL \<equiv> 0"
abbreviation (input) DE_UINT :: u8 where "DE_UINT \<equiv> 1"
abbreviation (input) DE_UUID :: u8 where "DE_UUID \<equiv> 3"
abbreviation (input) DE_STRING :: u8 where "DE_STRING \<equiv> 4"
abbreviation (input) DE_BOOL :: u8 where "DE_BOOL \<equiv> 5"
abbreviation (input) DE_DES :: u8 where "DE_DES \<equiv> 6"
abbreviation (input) DE_SIZE_8 :: u8 where "DE_SIZE_8 \<equiv> 0"
abbreviation (input) DE_SIZE_16 :: u8 where "DE_SIZE_16 \<equiv> 1"
abbreviation (input) DE_SIZE_32 :: u8 where "DE_SIZE_32 \<equiv> 2"
abbreviation (input) DE_SIZE_128 :: u8 where "DE_SIZE_128 \<equiv> 4"
abbreviation (input) DE_SIZE_VAR_8 :: u8 where "DE_SIZE_VAR_8 \<equiv> 5"
abbreviation (input) DE_SIZE_VAR_16 :: u8 where "DE_SIZE_VAR_16 \<equiv> 6"
abbreviation (input) DE_SIZE_VAR_32 :: u8 where "DE_SIZE_VAR_32 \<equiv> 7"

definition de_get_size_type :: "bytes \<Rightarrow> nat \<Rightarrow> u8 option" where
  "de_get_size_type buf p = do { h \<leftarrow> rd buf p; Some (h AND 7) }"

definition de_get_element_type :: "bytes \<Rightarrow> nat \<Rightarrow> u8 option" where
  "de_get_element_type buf p = do { h \<leftarrow> rd buf p; Some (drop_bit 3 h) }"

definition de_get_header_size :: "bytes \<Rightarrow> nat \<Rightarrow> u32 option" where
  "de_get_header_size buf p = do {
     de_size \<leftarrow> de_get_size_type buf p;
     Some (if de_size \<le> DE_SIZE_128 then 1 else 1 + push_bit (unat (de_size - DE_SIZE_VAR_8)) 1) }"

definition de_get_data_size :: "bytes \<Rightarrow> nat \<Rightarrow> u32 option" where
  "de_get_data_size buf p = do {
     de_type \<leftarrow> de_get_element_type buf p;
     de_size \<leftarrow> de_get_size_type buf p;
     if de_size = DE_SIZE_VAR_8 then map_option ucast (rd buf (p + 1))
     else if de_size = DE_SIZE_VAR_16 then map_option ucast (big_endian_read_16 buf (p + 1))
     else if de_size = DE_SIZE_VAR_32 then big_endian_read_32 buf (p + 1)
     else Some (if de_type = DE_NIL then 0 else push_bit (unat de_size) 1) }"

definition de_get_len :: "bytes \<Rightarrow> nat \<Rightarrow> u32 option" where
  "de_get_len buf p = do {
     h \<leftarrow> de_get_header_size buf p;
     d \<leftarrow> de_get_data_size buf p;
     Some (h + d) }"

definition de_get_len_safe :: "bytes \<Rightarrow> nat \<Rightarrow> u32 \<Rightarrow> u32 option" where
  "de_get_len_safe buf p sz =
     (if 1 > sz then Some 0
      else do {
        header_size \<leftarrow> de_get_header_size buf p;
        if header_size > sz then Some 0
        else do {
          data_size \<leftarrow> de_get_data_size buf p;
          if data_size > sz then Some 0
          else (let de_len = header_size + data_size in
                if de_len > sz then Some 0 else Some de_len) } })"

definition de_element_get_uint16 :: "bytes \<Rightarrow> nat \<Rightarrow> u16 option option" where
  "de_element_get_uint16 buf p = do {
     s \<leftarrow> de_get_size_type buf p;
     if s \<noteq> DE_SIZE_16 then Some None
     else do {
       h \<leftarrow> de_get_header_size buf p;
       v \<leftarrow> big_endian_read_16 buf (p + unat h);
       Some (Some v) } }"

text \<open>The inner option is the result: the 16 bytes written when the function returns true.\<close>

definition de_get_normalized_uuid :: "bytes \<Rightarrow> nat \<Rightarrow> bytes option option" where
  "de_get_normalized_uuid buf p = do {
     uuidType \<leftarrow> de_get_element_type buf p;
     uuidSize \<leftarrow> de_get_size_type buf p;
     if uuidType \<noteq> DE_UUID then Some None
     else if uuidSize = DE_SIZE_16 then do {
       shortUUID \<leftarrow> big_endian_read_16 buf (p + 1);
       u \<leftarrow> uuid_add_bluetooth_prefix (ucast shortUUID);
       Some (Some u) }
     else if uuidSize = DE_SIZE_32 then do {
       shortUUID \<leftarrow> big_endian_read_32 buf (p + 1);
       u \<leftarrow> uuid_add_bluetooth_prefix shortUUID;
       Some (Some u) }
     else if uuidSize = DE_SIZE_128 then do {
       u \<leftarrow> rd_range buf (p + 1) 16;
       Some (Some u) }
     else Some None }"

definition de_get_uuid32 :: "bytes \<Rightarrow> nat \<Rightarrow> u32 option" where
  "de_get_uuid32 buf p = do {
     u \<leftarrow> de_get_normalized_uuid buf p;
     case u of
       None \<Rightarrow> Some 0
     | Some uuid128 \<Rightarrow> do {
         b \<leftarrow> uuid_has_bluetooth_prefix uuid128;
         if \<not> b then Some 0 else big_endian_read_32 uuid128 0 } }"

definition de_get_string :: "bytes \<Rightarrow> nat \<Rightarrow> nat option option" where
  "de_get_string buf p = do {
     t \<leftarrow> de_get_element_type buf p;
     if t \<noteq> DE_STRING then Some None
     else do { h \<leftarrow> de_get_header_size buf p; Some (Some (p + unat h)) } }"

section \<open>Building a sequence in place\<close>

definition de_store_descriptor :: "bytes \<Rightarrow> nat \<Rightarrow> u8 \<Rightarrow> u8 \<Rightarrow> bytes option" where
  "de_store_descriptor buf p type sz = wr buf p (push_bit 3 type OR sz)"

definition de_store_descriptor_with_len :: "bytes \<Rightarrow> nat \<Rightarrow> u8 \<Rightarrow> u8 \<Rightarrow> u32 \<Rightarrow> bytes option" where
  "de_store_descriptor_with_len buf p type sz len = do {
     buf \<leftarrow> wr buf p (push_bit 3 type OR sz);
     if sz = DE_SIZE_VAR_8 then wr buf (p + 1) (ucast len)
     else if sz = DE_SIZE_VAR_16 then big_endian_store_16 buf p 1 (ucast len)
     else if sz = DE_SIZE_VAR_32 then big_endian_store_32 buf p 1 len
     else Some buf }"

definition de_create_sequence :: "bytes \<Rightarrow> nat \<Rightarrow> bytes option" where
  "de_create_sequence buf p = de_store_descriptor_with_len buf p DE_DES DE_SIZE_VAR_16 0"

definition de_assert_des_16bit :: "bytes \<Rightarrow> nat \<Rightarrow> unit option" where
  "de_assert_des_16bit buf p = do {
     h \<leftarrow> rd buf p;
     if h = push_bit 3 DE_DES OR DE_SIZE_VAR_16 then Some () else None }"

definition de_push_sequence :: "bytes \<Rightarrow> nat \<Rightarrow> (nat \<times> bytes) option" where
  "de_push_sequence buf p = do {
     _ \<leftarrow> de_assert_des_16bit buf p;
     element_len \<leftarrow> de_get_len buf p;
     buf \<leftarrow> de_store_descriptor_with_len buf (p + unat element_len) DE_DES DE_SIZE_VAR_16 0;
     Some (p + unat element_len, buf) }"

definition de_pop_sequence :: "bytes \<Rightarrow> nat \<Rightarrow> nat \<Rightarrow> bytes option" where
  "de_pop_sequence buf parent child = do {
     _ \<leftarrow> de_assert_des_16bit buf parent;
     child_len \<leftarrow> de_get_len buf child;
     data_size_parent \<leftarrow> big_endian_read_16 buf (parent + 1);
     big_endian_store_16 buf parent 1 (data_size_parent + ucast child_len) }"

text \<open>
  \<open>data_size\<close> is an \<open>int\<close> that holds a 16-bit number; the positions are passed as \<open>uint16_t\<close>.
  \<open>de_store_number\<close> is the \<open>switch\<close> of \<open>de_add_number\<close>, with the size of the new element.
\<close>

definition de_store_number :: "bytes \<Rightarrow> nat \<Rightarrow> nat \<Rightarrow> u8 \<Rightarrow> u8 \<Rightarrow> u32 \<Rightarrow> (nat \<times> bytes) option" where
  "de_store_number buf p data_size type sz value =
     (if sz = DE_SIZE_8 then
        if type \<noteq> DE_NIL then do {
          buf \<leftarrow> wr buf (p + 4 + data_size) (ucast value);
          Some (2, buf) }
        else Some (1, buf)
      else if sz = DE_SIZE_16 then do {
        buf \<leftarrow> big_endian_store_16 buf p (of_nat (4 + data_size)) (ucast value);
        Some (3, buf) }
      else if sz = DE_SIZE_32 then do {
        buf \<leftarrow> big_endian_store_32 buf p (of_nat (4 + data_size)) value;
        Some (5, buf) }
      else Some (1, buf))"

definition de_add_number :: "bytes \<Rightarrow> nat \<Rightarrow> u8 \<Rightarrow> u8 \<Rightarrow> u32 \<Rightarrow> bytes option" where
  "de_add_number buf p type sz value = do {
     _ \<leftarrow> de_assert_des_16bit buf p;
     data_size \<leftarrow> big_endian_read_16 buf (p + 1);
     buf \<leftarrow> de_store_descriptor buf (p + 3 + unat data_size) type sz;
     (element_size, buf) \<leftarrow> de_store_number buf p (unat data_size) type sz value;
     big_endian_store_16 buf p 1 (of_nat (unat data_size + element_size)) }"

text \<open>\<open>de_store_length\<close> is the \<open>if\<close> of \<open>de_add_data\<close>: the descriptor, and where the bytes go.\<close>

definition de_store_length :: "bytes \<Rightarrow> nat \<Rightarrow> nat \<Rightarrow> u8 \<Rightarrow> u16 \<Rightarrow> (nat \<times> bytes) option" where
  "de_store_length buf p data_size type sz =
     (if sz > 0xff then do {
        buf \<leftarrow> de_store_descriptor_with_len buf (p + 3 + data_size) type DE_SIZE_VAR_16 (ucast sz);
        Some (data_size + 3, buf) }
      else do {
        buf \<leftarrow> de_store_descriptor_with_len buf (p + 3 + data_size) type DE_SIZE_VAR_8 (ucast sz);
        Some (data_size + 2, buf) })"

definition de_add_data :: "bytes \<Rightarrow> nat \<Rightarrow> u8 \<Rightarrow> u16 \<Rightarrow> bytes \<Rightarrow> bytes option" where
  "de_add_data buf p type sz data = do {
     _ \<leftarrow> de_assert_des_16bit buf p;
     data_size \<leftarrow> big_endian_read_16 buf (p + 1);
     (data_size, buf) \<leftarrow> de_store_length buf p (unat data_size) type sz;
     (data_size, buf) \<leftarrow>
       (if sz > 0 then do {
          buf \<leftarrow> memcpy buf (p + 3 + data_size) data (unat sz);
          Some (data_size + unat sz, buf) }
        else Some (data_size, buf));
     big_endian_store_16 buf p 1 (of_nat data_size) }"

definition de_add_uuid128 :: "bytes \<Rightarrow> nat \<Rightarrow> bytes \<Rightarrow> bytes option" where
  "de_add_uuid128 buf p uuid = do {
     _ \<leftarrow> de_assert_des_16bit buf p;
     data_size \<leftarrow> big_endian_read_16 buf (p + 1);
     buf \<leftarrow> de_store_descriptor buf (p + 3 + unat data_size) DE_UUID DE_SIZE_128;
     buf \<leftarrow> memcpy buf (p + 4 + unat data_size) uuid 16;
     big_endian_store_16 buf p 1 (of_nat (unat data_size + 1 + 16)) }"

section \<open>The iterator\<close>

record des_iterator =
  des_element :: "nat option"
  des_pos :: u32
  des_length :: u32

definition des_iterator_init :: "bytes \<Rightarrow> nat \<Rightarrow> des_iterator option option" where
  "des_iterator_init buf element = do {
     type \<leftarrow> de_get_element_type buf element;
     if type \<noteq> DE_DES then Some None
     else do {
       h \<leftarrow> de_get_header_size buf element;
       l \<leftarrow> de_get_len buf element;
       Some (Some \<lparr>des_element = Some element, des_pos = h, des_length = l\<rparr>) } }"

text \<open>Whether the iterator is usable, and the iterator, which this function always fills in.\<close>

definition des_iterator_init_with_len :: "bytes \<Rightarrow> nat option \<Rightarrow> u32 \<Rightarrow> (bool \<times> des_iterator) option" where
  "des_iterator_init_with_len buf element element_size =
     (let it = \<lparr>des_element = None, des_pos = 0, des_length = 0\<rparr> in
      case element of
        None \<Rightarrow> Some (False, it)
      | Some p \<Rightarrow> do {
          type \<leftarrow> de_get_element_type buf p;
          if type \<noteq> DE_DES then Some (False, it)
          else do {
            element_len \<leftarrow> de_get_len_safe buf p element_size;
            if element_len \<noteq> element_size then Some (False, it)
            else do {
              h \<leftarrow> de_get_header_size buf p;
              Some (True, \<lparr>des_element = Some p, des_pos = h, des_length = element_len\<rparr>) } } })"

definition des_iterator_get_element_len :: "bytes \<Rightarrow> des_iterator \<Rightarrow> u32 option" where
  "des_iterator_get_element_len buf it =
     (if des_pos it \<ge> des_length it then Some 0
      else do {
        e \<leftarrow> des_element it;
        de_get_len_safe buf (e + unat (des_pos it)) (des_length it - des_pos it) })"

definition des_iterator_get_element :: "bytes \<Rightarrow> des_iterator \<Rightarrow> nat option option" where
  "des_iterator_get_element buf it = do {
     l \<leftarrow> des_iterator_get_element_len buf it;
     if l = 0 then Some None
     else do { e \<leftarrow> des_element it; Some (Some (e + unat (des_pos it))) } }"

definition des_iterator_get_type :: "bytes \<Rightarrow> des_iterator \<Rightarrow> u8 option" where
  "des_iterator_get_type buf it = do {
     element \<leftarrow> des_iterator_get_element buf it;
     case element of
       None \<Rightarrow> Some DE_NIL
     | Some p \<Rightarrow> de_get_element_type buf p }"

definition des_iterator_get_size :: "bytes \<Rightarrow> des_iterator \<Rightarrow> u16 option" where
  "des_iterator_get_size buf it = do {
     element \<leftarrow> des_iterator_get_element buf it;
     case element of
       None \<Rightarrow> Some 0
     | Some p \<Rightarrow> do {
         l \<leftarrow> des_iterator_get_element_len buf it;
         h \<leftarrow> de_get_header_size buf p;
         Some (ucast (l - h)) } }"

definition des_iterator_has_more :: "bytes \<Rightarrow> des_iterator \<Rightarrow> bool option" where
  "des_iterator_has_more buf it = do {
     l \<leftarrow> des_iterator_get_element_len buf it;
     Some (l \<noteq> 0) }"

definition des_iterator_is_complete :: "des_iterator \<Rightarrow> bool" where
  "des_iterator_is_complete it \<longleftrightarrow> des_pos it = des_length it"

definition des_iterator_next :: "bytes \<Rightarrow> des_iterator \<Rightarrow> des_iterator option" where
  "des_iterator_next buf it = do {
     element_len \<leftarrow> des_iterator_get_element_len buf it;
     Some (if element_len = 0 then it\<lparr>des_pos := des_length it\<rparr>
           else it\<lparr>des_pos := des_pos it + element_len\<rparr>) }"

text \<open>What is left to iterate; every step of a loop shrinks it.\<close>

definition des_left :: "des_iterator \<Rightarrow> nat" where
  "des_left it = unat (des_length it) - unat (des_pos it)"

lemma de_get_len_safe_le: "de_get_len_safe buf p sz = Some l \<Longrightarrow> l \<le> sz"
  by (auto simp: de_get_len_safe_def Let_def bind_eq_Some_conv split: if_splits)

lemma des_element_len_bound:
  assumes "des_iterator_get_element_len buf it = Some l" and "l \<noteq> 0"
  shows "unat (des_pos it) + unat l \<le> unat (des_length it)"
proof -
  from assms have lt: "des_pos it < des_length it"
    by (auto simp: des_iterator_get_element_len_def not_le split: if_splits)
  with assms(1) obtain e where "de_get_len_safe buf e (des_length it - des_pos it) = Some l"
    by (auto simp: des_iterator_get_element_len_def bind_eq_Some_conv not_le [symmetric])
  then have "l \<le> des_length it - des_pos it" by (rule de_get_len_safe_le)
  then have "unat l \<le> unat (des_length it - des_pos it)" by (simp add: word_le_nat_alt)
  also have "\<dots> = unat (des_length it) - unat (des_pos it)"
    using lt by (simp add: unat_sub less_imp_le)
  finally show ?thesis using lt by (simp add: word_less_nat_alt)
qed

lemma des_next_pos:
  assumes "des_iterator_get_element_len buf it = Some l" and "l \<noteq> 0"
  shows "unat (des_pos it + l) = unat (des_pos it) + unat l"
proof -
  have "unat (des_length it) < 2 ^ 32" using unat_u32_lt by simp
  with des_element_len_bound [OF assms] show ?thesis by (simp add: unat_plus_if')
qed

lemma des_iterator_progress:
  assumes "des_iterator_has_more buf it = Some True" and "des_iterator_next buf it = Some it'"
  shows "des_left it' < des_left it"
proof -
  from assms(1) obtain l where l: "des_iterator_get_element_len buf it = Some l" "l \<noteq> 0"
    by (auto simp: des_iterator_has_more_def bind_eq_Some_conv)
  with assms(2) have it': "it' = it\<lparr>des_pos := des_pos it + l\<rparr>"
    by (auto simp: des_iterator_next_def)
  have "0 < unat l" using l(2) by (simp add: unat_gt_0)
  then show ?thesis
    using des_next_pos [OF l] des_element_len_bound [OF l] by (simp add: des_left_def it')
qed

section \<open>Traversals\<close>

text \<open>
  A handler gets the child (its offset), its type and size codes and the context, and answers whether
  the traversal stops.  \<open>des_loop\<close> and \<open>attribute_loop\<close> are the two \<open>while\<close> loops.  No handler changes
  the sequence that is traversed, except \<open>sdp_traversal_set_attribute_for_id\<close>, which then stops the
  traversal, so that the loop need not read the changed bytes.
\<close>

type_synonym 's traversal = "nat \<Rightarrow> u8 \<Rightarrow> u8 \<Rightarrow> 's \<Rightarrow> (bool \<times> 's) option"
type_synonym 's attribute_traversal = "u16 \<Rightarrow> nat \<Rightarrow> u8 \<Rightarrow> u8 \<Rightarrow> 's \<Rightarrow> (bool \<times> 's) option"

text \<open>One round of the loop: a child, its codes, and what the handler makes of it.\<close>

definition des_round :: "bytes \<Rightarrow> 's traversal \<Rightarrow> des_iterator \<Rightarrow> 's \<Rightarrow> (bool \<times> 's) option" where
  "des_round buf handler it s = do {
     child \<leftarrow> des_iterator_get_element buf it;
     elemType \<leftarrow> des_iterator_get_type buf it;
     child \<leftarrow> child;
     elemSize \<leftarrow> de_get_size_type buf child;
     handler child elemType elemSize s }"

function des_loop :: "bytes \<Rightarrow> 's traversal \<Rightarrow> des_iterator \<Rightarrow> 's \<Rightarrow> (des_iterator \<times> 's) option" where
  "des_loop buf handler it s =
     (case des_iterator_has_more buf it of
        None \<Rightarrow> None
      | Some has \<Rightarrow>
          if \<not> has then Some (it, s)
          else (case des_round buf handler it s of
             None \<Rightarrow> None
           | Some (stop, s') \<Rightarrow>
               if stop then Some (it, s')
               else (case des_iterator_next buf it of
                  None \<Rightarrow> None
                | Some it' \<Rightarrow> des_loop buf handler it' s')))"
  by pat_completeness auto

termination
  by (relation "measure (\<lambda>(buf, handler, it, s). des_left it)") (auto intro: des_iterator_progress)

declare des_loop.simps [simp del]

definition de_traverse_sequence :: "bytes \<Rightarrow> nat \<Rightarrow> 's traversal \<Rightarrow> 's \<Rightarrow> (bool \<times> 's) option" where
  "de_traverse_sequence buf element handler s = do {
     it \<leftarrow> des_iterator_init buf element;
     case it of
       None \<Rightarrow> Some (False, s)
     | Some it \<Rightarrow> do {
         (it, s) \<leftarrow> des_loop buf handler it s;
         Some (des_iterator_is_complete it, s) } }"

text \<open>
  A service record is a sequence of attribute IDs and values in turn.  \<open>attribute_id\<close> is the first half
  of a round: the ID and the iterator at its value, \<open>None\<close> inside when the loop breaks.
\<close>

definition attribute_id :: "bytes \<Rightarrow> des_iterator \<Rightarrow> (u16 \<times> des_iterator) option option" where
  "attribute_id buf it = do {
     attribute_id_element \<leftarrow> des_iterator_get_element buf it;
     idType \<leftarrow> des_iterator_get_type buf it;
     p \<leftarrow> attribute_id_element;
     idSize \<leftarrow> de_get_size_type buf p;
     if idType \<noteq> DE_UINT \<or> idSize \<noteq> DE_SIZE_16 then Some None
     else do {
       aid \<leftarrow> big_endian_read_16 buf (p + 1);
       it \<leftarrow> des_iterator_next buf it;
       has \<leftarrow> des_iterator_has_more buf it;
       Some (if \<not> has then None else Some (aid, it)) } }"

lemma attribute_id_progress:
  assumes "des_iterator_has_more buf it = Some True" and "attribute_id buf it = Some (Some (aid, it1))"
  shows "des_iterator_has_more buf it1 = Some True \<and> des_left it1 < des_left it"
  using assms des_iterator_progress [OF assms(1)]
  by (auto simp: attribute_id_def bind_eq_Some_conv split: if_splits)

function attribute_loop :: "bytes \<Rightarrow> 's attribute_traversal \<Rightarrow> des_iterator \<Rightarrow> 's \<Rightarrow> 's option" where
  "attribute_loop buf handler it s =
     (case des_iterator_has_more buf it of
        None \<Rightarrow> None
      | Some has \<Rightarrow>
          if \<not> has then Some s
          else (case attribute_id buf it of
             None \<Rightarrow> None
           | Some None \<Rightarrow> Some s
           | Some (Some (aid, it1)) \<Rightarrow>
               (case des_round buf (handler aid) it1 s of
                  None \<Rightarrow> None
                | Some (stop, s') \<Rightarrow>
                    if stop then Some s'
                    else (case des_iterator_next buf it1 of
                       None \<Rightarrow> None
                     | Some it' \<Rightarrow> attribute_loop buf handler it' s'))))"
  by pat_completeness auto

termination
proof (relation "measure (\<lambda>(buf, handler, it, s). des_left it)", goal_cases)
  case 1
  then show ?case by simp
next
  case (2 buf handler it s has at at2 aid it1 r stop s' it')
  then have "des_iterator_has_more buf it1 = Some True \<and> des_left it1 < des_left it"
    by (intro attribute_id_progress [of buf it aid]) simp_all
  with 2 des_iterator_progress [of buf it1 it'] show ?case by simp
qed

declare attribute_loop.simps [simp del]

definition sdp_attribute_list_traverse_sequence ::
  "bytes \<Rightarrow> nat \<Rightarrow> 's attribute_traversal \<Rightarrow> 's \<Rightarrow> 's option" where
  "sdp_attribute_list_traverse_sequence buf element handler s = do {
     it \<leftarrow> des_iterator_init buf element;
     case it of
       None \<Rightarrow> Some s
     | Some it \<Rightarrow> attribute_loop buf handler it s }"

subsection \<open>Lists of attribute IDs\<close>

definition sdp_traversal_attributeID_search :: "bytes \<Rightarrow> u16 \<Rightarrow> bool traversal" where
  "sdp_traversal_attributeID_search buf attributeID element type sz found =
     (if type \<noteq> DE_UINT then Some (False, found)
      else if sz = DE_SIZE_16 then do {
        aid \<leftarrow> big_endian_read_16 buf (element + 1);
        Some (if aid = attributeID then (True, True) else (False, found)) }
      else if sz = DE_SIZE_32 then do {
        lower \<leftarrow> big_endian_read_16 buf (element + 1);
        if lower \<le> attributeID then do {
          higher \<leftarrow> big_endian_read_16 buf (element + 3);
          Some (if attributeID \<le> higher then (True, True) else (False, found)) }
        else Some (False, found) }
      else Some (False, found))"

definition sdp_attribute_list_contains_id :: "bytes \<Rightarrow> nat \<Rightarrow> u16 \<Rightarrow> bool option" where
  "sdp_attribute_list_contains_id buf attributeIDList attributeID =
     map_option snd (de_traverse_sequence buf attributeIDList
       (sdp_traversal_attributeID_search buf attributeID) False)"

definition sdp_traversal_attribute_list_valie :: "bytes \<Rightarrow> bool traversal" where
  "sdp_traversal_attribute_list_valie buf element type sz valid = do {
     let ok = type = DE_UINT \<and> (sz = DE_SIZE_16 \<or> sz = DE_SIZE_32);
     ok \<leftarrow> (if sz = DE_SIZE_32 then do {
             lower \<leftarrow> big_endian_read_16 buf (element + 1);
             higher \<leftarrow> big_endian_read_16 buf (element + 3);
             Some (if lower > higher then False else ok) }
           else Some ok);
     Some (False, if ok then valid else False) }"

definition sdp_attribute_list_valid :: "bytes \<Rightarrow> nat \<Rightarrow> bool option" where
  "sdp_attribute_list_valid buf attributeIDList = do {
     (complete, valid) \<leftarrow>
       de_traverse_sequence buf attributeIDList (sdp_traversal_attribute_list_valie buf) True;
     Some (complete \<and> valid) }"

definition sdp_traversal_valid_uuid :: "bool traversal" where
  "sdp_traversal_valid_uuid element type sz valid = Some (False, if type = DE_UUID then valid else False)"

definition sdp_valid_service_search_pattern :: "bytes \<Rightarrow> nat \<Rightarrow> bool option" where
  "sdp_valid_service_search_pattern buf service_search_pattern = do {
     (complete, valid) \<leftarrow> de_traverse_sequence buf service_search_pattern sdp_traversal_valid_uuid True;
     Some (complete \<and> valid) }"

subsection \<open>Copying the attributes that a list selects\<close>

text \<open>\<open>int\<close> from a 32-bit number.\<close>

abbreviation (input) c_int :: "u32 \<Rightarrow> int" where "c_int \<equiv> sint"

text \<open>
  \<open>sdp_append_attributes_in_attributeIDList\<close> adds to a sequence in \<open>buffer\<close>, which is the context; the
  result is the buffer and the count, which the code never sets.
\<close>

definition sdp_traversal_append_attributes ::
  "bytes \<Rightarrow> bytes \<Rightarrow> nat \<Rightarrow> u16 \<Rightarrow> bytes attribute_traversal" where
  "sdp_traversal_append_attributes record lst attributeIDList maxBytes attributeID attributeValue type sz buffer = do {
     sel \<leftarrow> sdp_attribute_list_contains_id lst attributeIDList attributeID;
     if \<not> sel then Some (False, buffer)
     else do {
       data_size \<leftarrow> big_endian_read_16 buffer 1;
       attribute_len \<leftarrow> de_get_len record attributeValue;
       if 3 + uint data_size + (3 + c_int attribute_len) \<le> uint maxBytes then do {
         buffer \<leftarrow> de_add_number buffer 0 DE_UINT DE_SIZE_16 (ucast attributeID);
         let data_size = data_size + 3;
         buffer \<leftarrow> memcpy buffer (3 + unat data_size) (drop attributeValue record) (unat attribute_len);
         buffer \<leftarrow> big_endian_store_16 buffer 0 1 (data_size + ucast attribute_len);
         Some (False, buffer) }
       else Some (True, buffer) } }"

definition sdp_append_attributes_in_attributeIDList ::
  "bytes \<Rightarrow> nat \<Rightarrow> bytes \<Rightarrow> nat \<Rightarrow> u16 \<Rightarrow> u16 \<Rightarrow> bytes \<Rightarrow> (u16 \<times> bytes) option" where
  "sdp_append_attributes_in_attributeIDList record rp lst attributeIDList startOffset maxBytes buffer = do {
     buffer \<leftarrow> sdp_attribute_list_traverse_sequence record rp
       (sdp_traversal_append_attributes record lst attributeIDList maxBytes) buffer;
     Some (0, buffer) }"

text \<open>\<open>sdp_context_filter_attributes\<close>; the pointer \<open>buffer\<close> is the whole buffer and the place in it.\<close>

record filter_context =
  f_buffer :: bytes
  f_at :: nat
  startOffset :: u16
  maxBytes :: u16
  usedBytes :: u16
  f_complete :: bool

definition spd_append_range :: "filter_context \<Rightarrow> u16 \<Rightarrow> bytes \<Rightarrow> (bool \<times> filter_context) option" where
  "spd_append_range context len data = do {
     let remainder_len = len - startOffset context;
     let (ok, remainder_len) =
       (if maxBytes context < remainder_len then (False, maxBytes context) else (True, remainder_len));
     src \<leftarrow> rd_range data (unat (startOffset context)) (unat remainder_len);
     buffer \<leftarrow> wr_range (f_buffer context) (f_at context) src;
     Some (ok, context\<lparr>f_buffer := buffer, f_at := f_at context + unat remainder_len, startOffset := 0,
       maxBytes := maxBytes context - remainder_len, usedBytes := usedBytes context + remainder_len\<rparr>) }"

definition filter_id :: "u16 \<Rightarrow> filter_context \<Rightarrow> (bool \<times> filter_context) option" where
  "filter_id attributeID context =
     (if startOffset context \<ge> 3 then Some (True, context\<lparr>startOffset := startOffset context - 3\<rparr>)
      else do {
        idBuffer \<leftarrow> de_store_descriptor [0, 0, 0] 0 DE_UINT DE_SIZE_16;
        idBuffer \<leftarrow> big_endian_store_16 idBuffer 0 1 attributeID;
        spd_append_range context 3 idBuffer })"

definition sdp_traversal_filter_attributes ::
  "bytes \<Rightarrow> bytes \<Rightarrow> nat \<Rightarrow> filter_context attribute_traversal" where
  "sdp_traversal_filter_attributes record lst attributeIDList attributeID attributeValue type sz context = do {
     sel \<leftarrow> sdp_attribute_list_contains_id lst attributeIDList attributeID;
     if \<not> sel then Some (False, context)
     else do {
       (ok, context) \<leftarrow> filter_id attributeID context;
       if \<not> ok then Some (True, context\<lparr>f_complete := False\<rparr>)
       else do {
         attribute_len \<leftarrow> de_get_len record attributeValue;
         if uint (startOffset context) \<ge> c_int attribute_len then
           Some (False, context\<lparr>startOffset := startOffset context - ucast attribute_len\<rparr>)
         else do {
           (ok, context) \<leftarrow> spd_append_range context (ucast attribute_len) (drop attributeValue record);
           if \<not> ok then Some (True, context\<lparr>f_complete := False\<rparr>)
           else Some (False, context) } } } }"

text \<open>Whether everything was copied, the number of bytes, and the output buffer, written from \<open>at\<close> on.\<close>

definition sdp_filter_attributes_in_attributeIDList ::
  "bytes \<Rightarrow> nat \<Rightarrow> bytes \<Rightarrow> nat \<Rightarrow> u16 \<Rightarrow> u16 \<Rightarrow> bytes \<Rightarrow> nat \<Rightarrow> (bool \<times> u16 \<times> bytes) option" where
  "sdp_filter_attributes_in_attributeIDList record rp lst attributeIDList start max_bytes buffer at = do {
     context \<leftarrow> sdp_attribute_list_traverse_sequence record rp
       (sdp_traversal_filter_attributes record lst attributeIDList)
       \<lparr>f_buffer = buffer, f_at = at, startOffset = start, maxBytes = max_bytes, usedBytes = 0, f_complete = True\<rparr>;
     Some (f_complete context, usedBytes context, f_buffer context) }"

definition sdp_traversal_get_filtered_size :: "bytes \<Rightarrow> bytes \<Rightarrow> nat \<Rightarrow> u16 attribute_traversal" where
  "sdp_traversal_get_filtered_size record lst attributeIDList attributeID attributeValue type sz acc = do {
     sel \<leftarrow> sdp_attribute_list_contains_id lst attributeIDList attributeID;
     if sel then do {
       l \<leftarrow> de_get_len record attributeValue;
       Some (False, acc + ucast (3 + l)) }
     else Some (False, acc) }"

definition sdp_get_filtered_size :: "bytes \<Rightarrow> nat \<Rightarrow> bytes \<Rightarrow> nat \<Rightarrow> u16 option" where
  "sdp_get_filtered_size record rp lst attributeIDList =
     sdp_attribute_list_traverse_sequence record rp (sdp_traversal_get_filtered_size record lst attributeIDList) 0"

subsection \<open>Single attributes\<close>

definition sdp_traversal_attribute_by_id :: "u16 \<Rightarrow> nat option attribute_traversal" where
  "sdp_traversal_attribute_by_id wanted attributeID attributeValue type sz value =
     Some (if attributeID = wanted then (True, Some attributeValue) else (False, value))"

definition sdp_get_attribute_value_for_attribute_id :: "bytes \<Rightarrow> nat \<Rightarrow> u16 \<Rightarrow> nat option option" where
  "sdp_get_attribute_value_for_attribute_id record rp attributeID =
     sdp_attribute_list_traverse_sequence record rp (sdp_traversal_attribute_by_id attributeID) None"

text \<open>The context: whether the attribute was found, and the record, which the handler changes.\<close>

definition sdp_traversal_set_attribute_for_id :: "u16 \<Rightarrow> u32 \<Rightarrow> (bool \<times> bytes) attribute_traversal" where
  "sdp_traversal_set_attribute_for_id wanted value attributeID attributeValue type sz context =
     (if attributeID = wanted then do {
        record \<leftarrow>
          (if sz = DE_SIZE_8 then
             if type \<noteq> DE_NIL then wr (snd context) (attributeValue + 1) (ucast value) else Some (snd context)
           else if sz = DE_SIZE_16 then big_endian_store_16 (snd context) attributeValue 1 (ucast value)
           else if sz = DE_SIZE_32 then big_endian_store_32 (snd context) attributeValue 1 value
           else Some (snd context));
        Some (True, True, record) }
      else Some (False, context))"

definition sdp_set_attribute_value_for_attribute_id :: "bytes \<Rightarrow> nat \<Rightarrow> u16 \<Rightarrow> u32 \<Rightarrow> (bool \<times> bytes) option" where
  "sdp_set_attribute_value_for_attribute_id record rp attributeID value =
     sdp_attribute_list_traverse_sequence record rp (sdp_traversal_set_attribute_for_id attributeID value) (False, record)"

subsection \<open>Search patterns\<close>

text \<open>
  The function calls itself on the sequences inside a record, through the handler.  The first argument
  bounds the depth of the nesting; every level takes at least one byte of the record, so its length is enough.
\<close>

fun sdp_record_contains_UUID128 :: "nat \<Rightarrow> bytes \<Rightarrow> nat \<Rightarrow> bytes \<Rightarrow> bool option" where
  "sdp_record_contains_UUID128 0 record rp uuid128 = None"
| "sdp_record_contains_UUID128 (Suc depth) record rp uuid128 =
     map_option snd (de_traverse_sequence record rp
       (\<lambda>element type sz result. do {
          result \<leftarrow>
            (if type = DE_UUID then do {
               normalizedUUID \<leftarrow> de_get_normalized_uuid record element;
               Some (normalizedUUID = Some uuid128) }
             else Some result);
          result \<leftarrow>
            (if type = DE_DES then sdp_record_contains_UUID128 depth record element uuid128
             else Some result);
          Some (result, result) }) False)"

definition sdp_traversal_match_pattern :: "nat \<Rightarrow> bytes \<Rightarrow> nat \<Rightarrow> bytes \<Rightarrow> bool traversal" where
  "sdp_traversal_match_pattern depth record rp pattern element type sz result = do {
     normalizedUUID \<leftarrow> de_get_normalized_uuid pattern element;
     case normalizedUUID of
       None \<Rightarrow> Some (True, False)
     | Some uuid \<Rightarrow> do {
         found \<leftarrow> sdp_record_contains_UUID128 depth record rp uuid;
         Some (if \<not> found then (True, False) else (False, result)) } }"

definition sdp_record_matches_service_search_pattern ::
  "nat \<Rightarrow> bytes \<Rightarrow> nat \<Rightarrow> bytes \<Rightarrow> nat \<Rightarrow> bool option" where
  "sdp_record_matches_service_search_pattern depth record rp pattern serviceSearchPattern =
     map_option snd (de_traverse_sequence pattern serviceSearchPattern
       (sdp_traversal_match_pattern depth record rp pattern) True)"

text \<open>The two static buffers for a pattern with one UUID, as the code leaves them.\<close>

definition sdp_service_search_pattern_for_uuid16 :: "bytes \<Rightarrow> u16 \<Rightarrow> bytes option" where
  "sdp_service_search_pattern_for_uuid16 des_service_search_pattern_uuid16 uuid16 =
     big_endian_store_16 des_service_search_pattern_uuid16 0 3 uuid16"

definition sdp_service_search_pattern_for_uuid128 :: "bytes \<Rightarrow> bytes \<Rightarrow> bytes option" where
  "sdp_service_search_pattern_for_uuid128 des_service_search_pattern_uuid128 uuid128 =
     memcpy des_service_search_pattern_uuid128 3 uuid128 16"

end
