(* ===== verification/SdpRecord.thy ===== *)
theory SdpRecord
  imports SdpUtil
begin

text \<open>
  The service records that the firmware publishes.  A record is built in place, by the functions of
  \<open>SdpUtil\<close>, as a sequence whose parts are sequences in turn.  \<open>delem\<close> is a data element as a tree and
  \<open>enc\<close> its bytes.  \<open>lay b stk\<close> is the buffer in the middle of the construction: the sequences that are
  open, innermost first, lie one behind the other at its start, and the rest of it is as it was in \<open>b\<close>;
  every builder is an equation on such buffers.  \<open>hid_create_sdp_record\<close> (\<open>classic/hid_device.c\<close>) and
  \<open>device_id_create_sdp_record\<close> (\<open>classic/device_id_server.c\<close>) are proved to write the encodings
  of the trees \<open>hid_record\<close> and \<open>device_id_record\<close>.
\<close>

section \<open>Data elements as trees\<close>

definition be16 :: "u16 \<Rightarrow> bytes" where
  "be16 v = [ucast (drop_bit 8 v), ucast v]"

definition be32 :: "u32 \<Rightarrow> bytes" where
  "be32 v = [ucast (drop_bit 24 v), ucast (drop_bit 16 v), ucast (drop_bit 8 v), ucast v]"

datatype delem =
    Number u8 u8 u32
  | Block u8 bytes
  | Uuid128 bytes
  | Sequence "delem list"

fun enc :: "delem \<Rightarrow> bytes" where
  "enc (Number type sz v) = (push_bit 3 type OR sz) #
     (if sz = DE_SIZE_8 then if type \<noteq> DE_NIL then [ucast v] else []
      else if sz = DE_SIZE_16 then be16 (ucast v)
      else if sz = DE_SIZE_32 then be32 v else [])"
| "enc (Block type d) =
     (if 255 < length d then (push_bit 3 type OR DE_SIZE_VAR_16) # be16 (of_nat (length d)) @ d
      else (push_bit 3 type OR DE_SIZE_VAR_8) # of_nat (length d) # d)"
| "enc (Uuid128 u) = (push_bit 3 DE_UUID OR DE_SIZE_128) # take 16 u"
| "enc (Sequence ds) =
     (push_bit 3 DE_DES OR DE_SIZE_VAR_16) # be16 (of_nat (length (concat (map enc ds)))) @ concat (map enc ds)"

definition body :: "delem list \<Rightarrow> bytes" where
  "body ds = concat (map enc ds)"

lemma body_simps [simp]:
  "body [] = []" "body (d # ds) = enc d @ body ds" "body (ds @ es) = body ds @ body es"
  by (simp_all add: body_def)

lemma enc_Sequence: "enc (Sequence ds) = 0x36 # be16 (of_nat (length (body ds))) @ body ds"
  by (simp add: body_def)

declare enc.simps(4) [simp del]

lemma length_be16 [simp]: "length (be16 v) = 2"
  by (simp add: be16_def)

lemma length_be32 [simp]: "length (be32 v) = 4"
  by (simp add: be32_def)

section \<open>Accesses in the middle of a buffer\<close>

lemma rd_append [buf_simps]:
  "rd (xs @ ys) n = (if n < length xs then rd xs n else rd ys (n - length xs))"
  by (auto simp: rd_def nth_append)

lemma rd_Cons [buf_simps]: "rd (x # xs) n = (if n = 0 then Some x else rd xs (n - 1))"
  by (cases n) (auto simp: rd_def)

lemma wr_append [buf_simps]:
  "wr (xs @ ys) n v = (if n < length xs then map_option (\<lambda>x. x @ ys) (wr xs n v)
     else map_option (\<lambda>y. xs @ y) (wr ys (n - length xs) v))"
  by (auto simp: wr_def list_update_append)

lemma wr_Cons [buf_simps]:
  "wr (x # xs) n v = (if n = 0 then Some (v # xs) else map_option ((#) x) (wr xs (n - 1) v))"
  by (cases n) (auto simp: wr_def)

lemma be16_word: "(ucast (ucast v :: u8) :: u16) OR push_bit 8 (ucast (ucast (drop_bit 8 v) :: u8)) = v"
  by (rule bit_word_eqI) (auto simp: bit_simps)

lemma be32_word:
  "(ucast (ucast v :: u8) :: u32) OR push_bit 8 (ucast (ucast (drop_bit 8 v) :: u8))
     OR push_bit 16 (ucast (ucast (drop_bit 16 v) :: u8)) OR push_bit 24 (ucast (ucast (drop_bit 24 v) :: u8)) = v"
proof (rule bit_word_eqI)
  fix n :: nat
  show "bit ((ucast (ucast v :: u8) :: u32) OR push_bit 8 (ucast (ucast (drop_bit 8 v) :: u8))
     OR push_bit 16 (ucast (ucast (drop_bit 16 v) :: u8)) OR push_bit 24 (ucast (ucast (drop_bit 24 v) :: u8))) n = bit v n"
    if "n < LENGTH(32)" using that by (cases "n < 16"; cases "n < 24") (auto simp: bit_simps)
qed

lemma read_16_at [simp]:
  "n = length xs \<Longrightarrow> big_endian_read_16 (xs @ be16 v @ ys) n = Some v"
  by (simp add: big_endian_read_16_def be16_def rd_append rd_Cons be16_word del: rd_Some)

lemma read_32_at [simp]:
  "n = length xs \<Longrightarrow> big_endian_read_32 (xs @ be32 v @ ys) n = Some v"
  using be32_word [of v]
  by (simp add: big_endian_read_32_def be32_def rd_append rd_Cons del: rd_Some)

lemma store_16_at:
  assumes "p + unat pos = length xs" and "unat pos < 65535"
  shows "big_endian_store_16 (xs @ a # b # ys) p pos v = Some (xs @ be16 v @ ys)"
proof -
  from assms(2) have "unat (pos + 1) = unat pos + 1" by (simp add: unat_plus_if')
  then show ?thesis
    using assms(1) by (simp add: big_endian_store_16_def be16_def wr_append wr_Cons del: wr_Some)
qed

lemma store_32_at:
  assumes "p + unat pos = length xs" and "unat pos < 65533"
  shows "big_endian_store_32 (xs @ a # b # c # d # ys) p pos v = Some (xs @ be32 v @ ys)"
proof -
  from assms(2) have "unat (pos + 1) = unat pos + 1" "unat (pos + 2) = unat pos + 2"
    "unat (pos + 3) = unat pos + 3" by (simp_all add: unat_plus_if')
  then show ?thesis
    using assms(1) by (simp add: big_endian_store_32_def be32_def wr_append wr_Cons del: wr_Some)
qed

section \<open>The builders as equations\<close>

abbreviation seq_bytes :: "delem list \<Rightarrow> bytes" where
  "seq_bytes ds \<equiv> enc (Sequence ds)"

lemma seq_assert:
  "de_assert_des_16bit (pre @ seq_bytes ds @ rest) (length pre) = Some ()"
  by (simp add: de_assert_des_16bit_def enc_Sequence rd_append rd_Cons del: rd_Some)

lemma seq_data_size:
  "big_endian_read_16 (pre @ seq_bytes ds @ rest) (Suc (length pre)) = Some (of_nat (length (body ds)))"
  using read_16_at [of "Suc (length pre)" "pre @ [0x36]" "of_nat (length (body ds))" "body ds @ rest"]
  by (simp add: enc_Sequence)

lemma unat_of_nat_u16: "n < 65536 \<Longrightarrow> unat (of_nat n :: u16) = n"
  by (simp add: unsigned_of_nat take_bit_nat_eq_self)

lemma unat_of_nat_u32: "n < 4294967296 \<Longrightarrow> unat (of_nat n :: u32) = n"
  by (simp add: unsigned_of_nat take_bit_nat_eq_self)

lemma ucast_of_nat_u16: "n < 65536 \<Longrightarrow> (ucast (of_nat n :: u16) :: u32) = of_nat n"
  by (simp add: word_unat_eq_iff unsigned_ucast_eq unsigned_of_nat take_bit_nat_eq_self)

lemma ucast_of_nat_narrow:
  "LENGTH('b) \<le> LENGTH('a) \<Longrightarrow> (ucast (of_nat n :: 'a::len word) :: 'b::len word) = of_nat n"
  by transfer (simp add: min_def)

lemma de_get_len_seq:
  assumes "length (body ds) < 65536"
  shows "de_get_len (pre @ seq_bytes ds @ rest) (length pre) = Some (of_nat (length (seq_bytes ds)))"
proof -
  have "rd (pre @ seq_bytes ds @ rest) (length pre) = Some 0x36"
    by (simp add: enc_Sequence rd_append rd_Cons del: rd_Some)
  moreover have "(ucast (of_nat (length (body ds)) :: u16) :: u32) = of_nat (length (body ds))"
    using assms by (rule ucast_of_nat_u16)
  ultimately show ?thesis
    using seq_data_size [of pre ds rest]
    by (simp add: de_get_len_def de_get_header_size_def de_get_data_size_def de_get_size_type_def
        de_get_element_type_def) (simp add: enc_Sequence)
qed

text \<open>The last step of every builder: the length of the sequence is stored again.\<close>

lemma seq_resize:
  assumes "body ds' = body ds @ new"
  shows "big_endian_store_16 (pre @ seq_bytes ds @ new @ rest) (length pre) 1 (of_nat (length (body ds')))
    = Some (pre @ seq_bytes ds' @ rest)"
  using store_16_at [of "length pre" 1 "pre @ [0x36]" "be16 (of_nat (length (body ds))) ! 0"
      "be16 (of_nat (length (body ds))) ! 1" "body ds @ new @ rest" "of_nat (length (body ds'))"] assms
  by (simp add: enc_Sequence be16_def)

lemma length_seq_bytes: "length (seq_bytes ds) = 3 + length (body ds)"
  by (simp add: enc_Sequence)

lemma wr_at: "n = length xs \<Longrightarrow> wr (xs @ y # ys) n v = Some (xs @ v # ys)"
  by (simp add: wr_append wr_Cons del: wr_Some)

lemma wr_behind_seq:
  assumes "n = length pre + 3 + length (body ds)"
  shows "wr (pre @ seq_bytes ds @ y # ys) n v = Some (pre @ seq_bytes ds @ v # ys)"
  using wr_at [of n "pre @ seq_bytes ds" y ys v] assms by (simp add: length_seq_bytes)

text \<open>A number: its value bytes, behind the descriptor that is already there.\<close>

lemma de_store_number_eq:
  assumes "length os = length (tl (enc (Number ty sz v)))"
    and "length (body ds) + length (enc (Number ty sz v)) < 65533"
  shows "de_store_number (pre @ seq_bytes ds @ (push_bit 3 ty OR sz) # os @ rest) (length pre) (length (body ds)) ty sz v
    = Some (length (enc (Number ty sz v)), pre @ seq_bytes ds @ enc (Number ty sz v) @ rest)"
proof -
  let ?n = "length (body ds)" and ?h = "push_bit 3 ty OR sz"
  have pos: "unat (4 + of_nat ?n :: u16) = 4 + ?n" if "?n < 65532"
    using that unat_of_nat_u16 [of "4 + ?n"] by simp
  consider "sz = 0" "ty \<noteq> 0" | "sz = 0" "ty = 0" | "sz = 1" | "sz = 2" | "sz \<noteq> 0" "sz \<noteq> 1" "sz \<noteq> 2" by blast
  then show ?thesis
  proof cases
    case 1
    then obtain a where "os = [a]" using assms(1) by (auto simp: length_Suc_conv)
    then show ?thesis using 1 wr_at [of "length pre + 4 + ?n" "pre @ seq_bytes ds @ [?h]" a rest "ucast v"]
      by (simp add: length_seq_bytes de_store_number_def)
  next
    case 3
    then obtain a b where "os = [a, b]" using assms(1) by (auto simp: length_Suc_conv numeral_2_eq_2)
    then show ?thesis using 3 assms(2) pos
        store_16_at [of "length pre" "of_nat (4 + ?n)" "pre @ seq_bytes ds @ [?h]" a b rest "ucast v"]
      by (simp add: length_seq_bytes de_store_number_def)
  next
    case 4
    then obtain a b c d where "os = [a, b, c, d]" using assms(1) by (auto simp: length_Suc_conv numeral_eq_Suc)
    then show ?thesis using 4 assms(2) pos
        store_32_at [of "length pre" "of_nat (4 + ?n)" "pre @ seq_bytes ds @ [?h]" a b c d rest v]
      by (simp add: length_seq_bytes de_store_number_def)
  qed (use assms(1) in \<open>auto simp: de_store_number_def\<close>)
qed

lemma de_add_number_eq:
  assumes "length old = length (enc (Number ty sz v))"
    and "length (seq_bytes (ds @ [Number ty sz v])) < 65536"
  shows "de_add_number (pre @ seq_bytes ds @ old @ rest) (length pre) ty sz v
    = Some (pre @ seq_bytes (ds @ [Number ty sz v]) @ rest)"
proof -
  let ?n = "length (body ds)" and ?e = "enc (Number ty sz v)"
  obtain o1 os where old: "old = o1 # os" using assms(1) by (cases old) auto
  have n: "?n + length ?e < 65533" using assms(2) by (simp add: length_seq_bytes)
  then have dat: "unat (of_nat ?n :: u16) = ?n" by (simp add: unat_of_nat_u16)
  have "de_store_descriptor (pre @ seq_bytes ds @ old @ rest) (length pre + 3 + ?n) ty sz
      = Some (pre @ seq_bytes ds @ (push_bit 3 ty OR sz) # os @ rest)"
    by (simp add: de_store_descriptor_def old wr_behind_seq)
  moreover have "big_endian_store_16 (pre @ seq_bytes ds @ ?e @ rest) (length pre) 1 (of_nat (?n + length ?e))
      = Some (pre @ seq_bytes (ds @ [Number ty sz v]) @ rest)"
    using seq_resize [of "ds @ [Number ty sz v]" ds ?e pre rest] by simp
  moreover have "length os = length (tl ?e)" using assms(1) old by simp
  ultimately show ?thesis
    using de_store_number_eq [OF _ n, of os pre rest]
    by (simp add: de_add_number_def seq_assert seq_data_size dat del: enc.simps)
qed

lemma de_store_length_eq:
  assumes "length d < 65536" and "length (body ds) < 65536" and "length os = length (enc (Block ty d)) - length d"
  shows "de_store_length (pre @ seq_bytes ds @ os @ rest) (length pre) (length (body ds)) ty (of_nat (length d))
    = Some (length (body ds) + length os,
        pre @ seq_bytes ds @ take (length os) (enc (Block ty d)) @ rest)"
proof (cases "255 < length d")
  case True
  then obtain a b c where os: "os = [a, b, c]" using assms(3) by (auto simp: length_Suc_conv numeral_eq_Suc)
  have "(0xff :: u16) < of_nat (length d)"
    using True assms(1) by (simp add: word_less_nat_alt unat_of_nat_u16)
  moreover have "(ucast (ucast (of_nat (length d) :: u16) :: u32) :: u16) = of_nat (length d)"
    using assms(1) by (simp add: ucast_of_nat_u16 ucast_of_nat_narrow)
  ultimately show ?thesis
    using True os assms(2) wr_behind_seq [of "length pre + 3 + length (body ds)" pre ds a "b # c # rest"]
      store_16_at [of "length pre + 3 + length (body ds)" 1 "pre @ seq_bytes ds @ [push_bit 3 ty OR 6]" b c rest
        "of_nat (length d)"]
    by (simp add: de_store_length_def de_store_descriptor_with_len_def length_seq_bytes be16_def)
next
  case False
  then obtain a b where os: "os = [a, b]" using assms(3) by (auto simp: length_Suc_conv numeral_eq_Suc)
  have "\<not> (0xff :: u16) < of_nat (length d)"
    using False assms(1) by (simp add: word_less_nat_alt unat_of_nat_u16)
  moreover have "(ucast (ucast (of_nat (length d) :: u16) :: u32) :: u8) = of_nat (length d)"
    using assms(1) by (simp add: ucast_of_nat_u16 ucast_of_nat_narrow)
  ultimately show ?thesis
    using False os assms(2) wr_behind_seq [of "length pre + 3 + length (body ds)" pre ds a "b # rest"]
      wr_at [of "4 + (length pre + length (body ds))" "pre @ seq_bytes ds @ [push_bit 3 ty OR 5]" b rest]
    by (simp add: de_store_length_def de_store_descriptor_with_len_def length_seq_bytes)
qed

lemma enc_Block: "enc (Block ty d) = take (length (enc (Block ty d)) - length d) (enc (Block ty d)) @ d"
  by (simp add: be16_def numeral_eq_Suc)

lemma de_add_data_eq:
  assumes "length old = length (enc (Block ty d))"
    and "length (seq_bytes (ds @ [Block ty d])) < 65536"
  shows "de_add_data (pre @ seq_bytes ds @ old @ rest) (length pre) ty (of_nat (length d)) d
    = Some (pre @ seq_bytes (ds @ [Block ty d]) @ rest)"
proof -
  let ?n = "length (body ds)"
  define e where "e = enc (Block ty d)"
  define k where "k = length e - length d"
  have k: "length e = k + length d" by (simp add: k_def e_def)
  have n: "?n < 65536" "length d < 65536"
    using assms(2) k by (simp_all add: length_seq_bytes e_def [symmetric] del: enc.simps)
  then have dat: "unat (of_nat ?n :: u16) = ?n" "unat (of_nat (length d) :: u16) = length d"
    by (simp_all add: unat_of_nat_u16)
  have pos: "of_nat (length d) > (0 :: u16) \<longleftrightarrow> d \<noteq> []"
    using dat(2) by (metis length_0_conv unat_gt_0 unsigned_0 word_gt_0)
  have len: "length old = k + length d" using assms(1) k by (simp add: e_def del: enc.simps)
  have e: "take k e @ d = e" using enc_Block [of ty d] by (simp add: k_def e_def del: enc.simps)
  define b0 where "b0 = pre @ seq_bytes ds @ old @ rest"
  define b1 where "b1 = pre @ seq_bytes ds @ take k e @ drop k old @ rest"
  define b2 where "b2 = pre @ seq_bytes ds @ e @ rest"
  have "pre @ seq_bytes ds @ take k old @ drop k old @ rest = b0"
    unfolding b0_def by (metis append.assoc append_take_drop_id)
  moreover have tk: "length (take k old) = k" using len by simp
  moreover from tk have "length (take k old) = length (enc (Block ty d)) - length d" by (simp only: k_def e_def)
  ultimately have store: "de_store_length b0 (length pre) ?n ty (of_nat (length d)) = Some (?n + k, b1)"
    using de_store_length_eq [OF n(2,1), of "take k old" ty pre "drop k old @ rest"]
    by (simp only: b1_def e_def [symmetric])
  have b2: "b2 = pre @ seq_bytes ds @ take k e @ d @ rest" using arg_cong [OF e, of "\<lambda>x. pre @ seq_bytes ds @ x @ rest"] by (simp add: b2_def)
  have copy: "memcpy b1 (length pre + 3 + (?n + k)) d (length d) = Some b2"
    using len k by (simp add: b1_def b2 length_seq_bytes)
  have empty: "b1 = b2" if "d = []" using that len b2 by (simp add: b1_def)
  have fin: "big_endian_store_16 b2 (length pre) 1 (of_nat (?n + k + length d))
      = Some (pre @ seq_bytes (ds @ [Block ty d]) @ rest)"
    using seq_resize [of "ds @ [Block ty d]" ds e pre rest] k by (simp add: b2_def e_def add.assoc del: enc.simps)
  have hd: "de_assert_des_16bit b0 (length pre) = Some ()" "big_endian_read_16 b0 (length pre + 1) = Some (of_nat ?n)"
    by (simp_all add: b0_def seq_assert seq_data_size)
  show ?thesis
    unfolding b0_def [symmetric] de_add_data_def
    using fin empty store copy by (cases "d = []") (simp_all add: hd [unfolded Suc_eq_plus1 [symmetric]] dat pos)
qed

text \<open>Opening a sequence behind the innermost one, and closing it again.\<close>

lemma de_push_sequence_eq:
  assumes "length (body ds) < 65000"
  shows "de_push_sequence (pre @ seq_bytes ds @ a # b # c # rest) (length pre)
    = Some (length pre + length (seq_bytes ds), pre @ seq_bytes ds @ seq_bytes [] @ rest)"
proof -
  have "unat (of_nat (length (seq_bytes ds)) :: u32) = length (seq_bytes ds)"
    using assms by (intro unat_of_nat_u32) (simp add: length_seq_bytes)
  then show ?thesis
    using assms wr_at [of "length pre + length (seq_bytes ds)" "pre @ seq_bytes ds" a "b # c # rest" "0x36"]
      store_16_at [of "length pre + length (seq_bytes ds)" 1 "pre @ seq_bytes ds @ [0x36]" b c rest 0]
    by (simp add: de_push_sequence_def seq_assert de_get_len_seq de_store_descriptor_with_len_def)
      (simp add: enc_Sequence)
qed

lemma de_pop_sequence_eq:
  assumes "length (seq_bytes (ds @ [Sequence es])) < 65536"
  shows "de_pop_sequence (pre @ seq_bytes ds @ seq_bytes es @ rest) (length pre) (length pre + length (seq_bytes ds))
    = Some (pre @ seq_bytes (ds @ [Sequence es]) @ rest)"
proof -
  have "length (body es) < 65536" using assms by (simp add: length_seq_bytes)
  then have "de_get_len (pre @ seq_bytes ds @ seq_bytes es @ rest) (length pre + length (seq_bytes ds))
      = Some (of_nat (length (seq_bytes es)))"
    using de_get_len_seq [of es "pre @ seq_bytes ds" rest] by simp
  then show ?thesis
    using seq_resize [of "ds @ [Sequence es]" ds "seq_bytes es" pre rest]
    by (simp add: de_pop_sequence_def seq_assert seq_data_size ucast_of_nat_narrow)
qed

text \<open>The data may be longer than the size; only the first bytes are read.\<close>

lemma de_add_data_take:
  assumes "unat sz \<le> length d"
  shows "de_add_data buf p ty sz d = de_add_data buf p ty (of_nat (length (take (unat sz) d))) (take (unat sz) d)"
proof -
  have "(of_nat (length (take (unat sz) d)) :: u16) = sz" using assms by (simp add: min_absorb2)
  moreover have "memcpy b q d (unat sz) = memcpy b q (take (unat sz) d) (unat sz)" for b q
    using assms by (simp add: memcpy_def min_absorb2)
  ultimately show ?thesis by (simp only: de_add_data_def)
qed

section \<open>A record under construction\<close>

text \<open>
  The open sequences, innermost first; \<open>ptr ps\<close> is where the next one behind \<open>ps\<close> starts.  \<open>fits\<close> says that
  the buffer holds them, and that no length field overflows.
\<close>

definition flat :: "delem list list \<Rightarrow> bytes" where
  "flat stk = concat (rev (map seq_bytes stk))"

definition ptr :: "delem list list \<Rightarrow> nat" where
  "ptr stk = length (flat stk)"

definition lay :: "bytes \<Rightarrow> delem list list \<Rightarrow> bytes" where
  "lay b stk = flat stk @ drop (ptr stk) b"

fun extent :: "delem list list \<Rightarrow> nat" where
  "extent [] = 0"
| "extent (ds # ps) = extent ps + 3 + length (body ds)"

definition fits :: "bytes \<Rightarrow> delem list list \<Rightarrow> bool" where
  "fits b stk \<longleftrightarrow> extent stk \<le> length b \<and> extent stk < 65000"

lemma flat_Cons: "flat (ds # ps) = flat ps @ seq_bytes ds"
  by (simp add: flat_def)

lemma ptr_extent: "ptr stk = extent stk"
  by (induction stk) (simp_all add: ptr_def flat_Cons length_seq_bytes, simp add: flat_def)

lemma ptr_Cons: "ptr (ds # ps) = ptr ps + length (seq_bytes ds)"
  by (simp add: ptr_def flat_Cons)

text \<open>What is behind the open sequences: room for a new element, then the rest.\<close>

lemma lay_room:
  assumes "fits b (es # ps)" and "body es = body ds @ new"
  obtains old where "length old = length new"
    and "lay b (ds # ps) = flat ps @ seq_bytes ds @ old @ drop (ptr (es # ps)) b"
proof
  have "ptr (es # ps) = ptr (ds # ps) + length new" using assms(2) by (simp add: ptr_extent)
  then have "drop (ptr (es # ps)) b = drop (length new) (drop (ptr (ds # ps)) b)" by (simp add: add.commute)
  then show "lay b (ds # ps) = flat ps @ seq_bytes ds @ take (length new) (drop (ptr (ds # ps)) b) @ drop (ptr (es # ps)) b"
    by (simp add: lay_def flat_Cons del: drop_drop)
  show "length (take (length new) (drop (ptr (ds # ps)) b)) = length new"
    using assms by (auto simp: fits_def ptr_extent min_def)
qed

lemma fits_seq: "fits b (es # ps) \<Longrightarrow> length (seq_bytes es) < 65000"
  by (simp add: fits_def length_seq_bytes)

lemma list3E: "length xs = 3 \<Longrightarrow> (\<And>x y z. xs = [x, y, z] \<Longrightarrow> P) \<Longrightarrow> P"
  by (auto simp: length_Suc_conv numeral_3_eq_3)

named_theorems build_simps \<open>the builders on a record under construction\<close>

lemma lay_add_number [build_simps]:
  assumes "fits b ((ds @ [Number ty sz v]) # ps)"
  shows "de_add_number (lay b (ds # ps)) (ptr ps) ty sz v = Some (lay b ((ds @ [Number ty sz v]) # ps))"
proof -
  obtain old where "length old = length (enc (Number ty sz v))"
    and "lay b (ds # ps) = flat ps @ seq_bytes ds @ old @ drop (ptr ((ds @ [Number ty sz v]) # ps)) b"
    by (rule lay_room [OF assms, of ds "enc (Number ty sz v)"]) simp_all
  then show ?thesis
    using de_add_number_eq [of old ty sz v ds "flat ps"] fits_seq [OF assms]
    by (simp add: lay_def flat_Cons del: enc.simps) (simp add: ptr_def)
qed

lemma lay_add_data [build_simps]:
  assumes "fits b ((ds @ [Block ty (take (unat sz) d)]) # ps)" and "unat sz \<le> length d"
  shows "de_add_data (lay b (ds # ps)) (ptr ps) ty sz d = Some (lay b ((ds @ [Block ty (take (unat sz) d)]) # ps))"
proof -
  let ?e = "Block ty (take (unat sz) d)"
  obtain old where "length old = length (enc ?e)"
    and "lay b (ds # ps) = flat ps @ seq_bytes ds @ old @ drop (ptr ((ds @ [?e]) # ps)) b"
    by (rule lay_room [OF assms(1), of ds "enc ?e"]) simp_all
  then show ?thesis
    using de_add_data_eq [of old ty "take (unat sz) d" ds "flat ps"] fits_seq [OF assms(1)]
    by (simp only: de_add_data_take [OF assms(2)] ptr_def) (simp add: lay_def flat_Cons ptr_def del: enc.simps)
qed

lemma lay_push [build_simps]:
  assumes "fits b ([] # ds # ps)"
  shows "de_push_sequence (lay b (ds # ps)) (ptr ps) = Some (ptr (ds # ps), lay b ([] # ds # ps))"
proof -
  let ?old = "take 3 (drop (ptr (ds # ps)) b)"
  have "length ?old = 3" using assms by (auto simp: fits_def ptr_extent min_def)
  then obtain x y z where "?old = [x, y, z]" by (rule list3E)
  moreover have "drop (ptr ([] # ds # ps)) b = drop 3 (drop (ptr (ds # ps)) b)" by (simp add: ptr_extent add.commute)
  ultimately have "lay b (ds # ps) = flat ps @ seq_bytes ds @ x # y # z # drop (ptr ([] # ds # ps)) b"
    using append_take_drop_id [of 3 "drop (ptr (ds # ps)) b"] by (simp add: lay_def flat_Cons del: drop_drop)
  then show ?thesis
    using de_push_sequence_eq [of ds "flat ps" x y z] assms
    by (simp add: fits_def lay_def flat_Cons) (simp add: ptr_def flat_Cons)
qed

lemma lay_pop [build_simps]:
  assumes "fits b ((ds @ [Sequence es]) # ps)"
  shows "de_pop_sequence (lay b (es # ds # ps)) (ptr ps) (ptr (ds # ps)) = Some (lay b ((ds @ [Sequence es]) # ps))"
proof -
  have "ptr (es # ds # ps) = ptr ((ds @ [Sequence es]) # ps)" by (simp add: ptr_extent length_seq_bytes)
  then have "lay b (es # ds # ps) = flat ps @ seq_bytes ds @ seq_bytes es @ drop (ptr ((ds @ [Sequence es]) # ps)) b"
    by (simp only: lay_def flat_Cons append_assoc)
  moreover have "lay b ((ds @ [Sequence es]) # ps)
      = flat ps @ seq_bytes (ds @ [Sequence es]) @ drop (ptr ((ds @ [Sequence es]) # ps)) b"
    by (simp only: lay_def flat_Cons append_assoc)
  moreover have "ptr (ds # ps) = length (flat ps) + length (seq_bytes ds)" by (simp add: ptr_def flat_Cons)
  ultimately show ?thesis
    using de_pop_sequence_eq [of ds es "flat ps"] fits_seq [OF assms] by (simp add: ptr_def [of ps])
qed

lemma lay_create [build_simps]:
  assumes "fits b [[]]"
  shows "de_create_sequence b (ptr []) = Some (lay b [[]])"
proof -
  have "length (take 3 b) = 3" using assms by (simp add: fits_def min_absorb2)
  then obtain x y z where "take 3 b = [x, y, z]" by (rule list3E)
  then have b: "b = x # y # z # drop 3 b" using append_take_drop_id [of 3 b] by simp
  have "ptr [[]] = 3" by (simp add: ptr_extent)
  then have "lay b [[]] = 0x36 # be16 0 @ drop 3 b" by (simp add: lay_def flat_def enc_Sequence)
  then show ?thesis
    using store_16_at [of 0 1 "[0x36]" y z "drop 3 b" 0] arg_cong [OF b, of "\<lambda>b. wr b 0 0x36"]
    by (simp add: de_create_sequence_def de_store_descriptor_with_len_def ptr_extent)
qed

lemma length_enc_Number [simp]:
  "length (enc (Number ty sz v)) = (if sz = 0 then if ty = 0 then 1 else 2 else if sz = 1 then 3 else if sz = 2 then 5 else 1)"
  by simp

lemma length_enc_Block:
  "length (enc (Block ty d)) = (if 255 < length d then 3 else 2) + length d"
  by simp

section \<open>The records of the firmware\<close>

text \<open>\<open>hid_sdp_record_t\<close>; the device name without its terminating zero, \<open>None\<close> for \<open>NULL\<close>.\<close>

record hid_sdp_record =
  hid_device_subclass :: u16
  hid_country_code :: u8
  hid_virtual_cable :: u8
  hid_remote_wake :: u8
  hid_reconnect_initiate :: u8
  hid_normally_connectable :: bool
  hid_boot_device :: bool
  hid_ssr_host_max_latency :: u16
  hid_ssr_host_min_timeout :: u16
  hid_supervision_timeout :: u16
  hid_sdp_descriptor :: bytes
  hid_descriptor_size :: u16
  device_name :: "bytes option"

definition hid_create_sdp_record :: "bytes \<Rightarrow> nat \<Rightarrow> u32 \<Rightarrow> hid_sdp_record \<Rightarrow> bytes option" where
  "hid_create_sdp_record buf service service_record_handle params = do {
     buf \<leftarrow> de_create_sequence buf service;
     buf \<leftarrow> de_add_number buf service DE_UINT DE_SIZE_16 0x0000;
     buf \<leftarrow> de_add_number buf service DE_UINT DE_SIZE_32 service_record_handle;
     buf \<leftarrow> de_add_number buf service DE_UINT DE_SIZE_16 0x0001;
     (attribute, buf) \<leftarrow> de_push_sequence buf service;
     buf \<leftarrow> de_add_number buf attribute DE_UUID DE_SIZE_16 0x1124;
     buf \<leftarrow> de_pop_sequence buf service attribute;
     buf \<leftarrow> de_add_number buf service DE_UINT DE_SIZE_16 0x0004;
     (attribute, buf) \<leftarrow> de_push_sequence buf service;
     (l2cpProtocol, buf) \<leftarrow> de_push_sequence buf attribute;
     buf \<leftarrow> de_add_number buf l2cpProtocol DE_UUID DE_SIZE_16 0x0100;
     buf \<leftarrow> de_add_number buf l2cpProtocol DE_UINT DE_SIZE_16 0x0011;
     buf \<leftarrow> de_pop_sequence buf attribute l2cpProtocol;
     (hidProtocol, buf) \<leftarrow> de_push_sequence buf attribute;
     buf \<leftarrow> de_add_number buf hidProtocol DE_UUID DE_SIZE_16 0x0011;
     buf \<leftarrow> de_pop_sequence buf attribute hidProtocol;
     buf \<leftarrow> de_pop_sequence buf service attribute;
     buf \<leftarrow> de_add_number buf service DE_UINT DE_SIZE_16 0x0006;
     (attribute, buf) \<leftarrow> de_push_sequence buf service;
     buf \<leftarrow> de_add_number buf attribute DE_UINT DE_SIZE_16 0x656e;
     buf \<leftarrow> de_add_number buf attribute DE_UINT DE_SIZE_16 0x006a;
     buf \<leftarrow> de_add_number buf attribute DE_UINT DE_SIZE_16 0x0100;
     buf \<leftarrow> de_pop_sequence buf service attribute;
     buf \<leftarrow> de_add_number buf service DE_UINT DE_SIZE_16 0x000D;
     (attribute, buf) \<leftarrow> de_push_sequence buf service;
     (additionalDescriptorAttribute, buf) \<leftarrow> de_push_sequence buf attribute;
     (l2cpProtocol, buf) \<leftarrow> de_push_sequence buf additionalDescriptorAttribute;
     buf \<leftarrow> de_add_number buf l2cpProtocol DE_UUID DE_SIZE_16 0x0100;
     buf \<leftarrow> de_add_number buf l2cpProtocol DE_UINT DE_SIZE_16 0x0013;
     buf \<leftarrow> de_pop_sequence buf additionalDescriptorAttribute l2cpProtocol;
     (hidProtocol, buf) \<leftarrow> de_push_sequence buf additionalDescriptorAttribute;
     buf \<leftarrow> de_add_number buf hidProtocol DE_UUID DE_SIZE_16 0x0011;
     buf \<leftarrow> de_pop_sequence buf additionalDescriptorAttribute hidProtocol;
     buf \<leftarrow> de_pop_sequence buf attribute additionalDescriptorAttribute;
     buf \<leftarrow> de_pop_sequence buf service attribute;
     buf \<leftarrow> (case device_name params of
        None \<Rightarrow> Some buf
      | Some name \<Rightarrow> do {
          buf \<leftarrow> de_add_number buf service DE_UINT DE_SIZE_16 0x0100;
          de_add_data buf service DE_STRING (of_nat (length name)) name });
     buf \<leftarrow> de_add_number buf service DE_UINT DE_SIZE_16 0x0009;
     (attribute, buf) \<leftarrow> de_push_sequence buf service;
     (hidProfile, buf) \<leftarrow> de_push_sequence buf attribute;
     buf \<leftarrow> de_add_number buf hidProfile DE_UUID DE_SIZE_16 0x1124;
     buf \<leftarrow> de_add_number buf hidProfile DE_UINT DE_SIZE_16 0x0101;
     buf \<leftarrow> de_pop_sequence buf attribute hidProfile;
     buf \<leftarrow> de_pop_sequence buf service attribute;
     buf \<leftarrow> de_add_number buf service DE_UINT DE_SIZE_16 0x0201;
     buf \<leftarrow> de_add_number buf service DE_UINT DE_SIZE_16 0x0111;
     buf \<leftarrow> de_add_number buf service DE_UINT DE_SIZE_16 0x0202;
     buf \<leftarrow> de_add_number buf service DE_UINT DE_SIZE_8 (ucast (hid_device_subclass params));
     buf \<leftarrow> de_add_number buf service DE_UINT DE_SIZE_16 0x0203;
     buf \<leftarrow> de_add_number buf service DE_UINT DE_SIZE_8 (ucast (hid_country_code params));
     buf \<leftarrow> de_add_number buf service DE_UINT DE_SIZE_16 0x0204;
     buf \<leftarrow> de_add_number buf service DE_BOOL DE_SIZE_8 (ucast (hid_virtual_cable params));
     buf \<leftarrow> de_add_number buf service DE_UINT DE_SIZE_16 0x0205;
     buf \<leftarrow> de_add_number buf service DE_BOOL DE_SIZE_8 (ucast (hid_reconnect_initiate params));
     buf \<leftarrow> de_add_number buf service DE_UINT DE_SIZE_16 0x0206;
     (attribute, buf) \<leftarrow> de_push_sequence buf service;
     (hidDescriptor, buf) \<leftarrow> de_push_sequence buf attribute;
     buf \<leftarrow> de_add_number buf hidDescriptor DE_UINT DE_SIZE_8 0x22;
     buf \<leftarrow> de_add_data buf hidDescriptor DE_STRING (hid_descriptor_size params) (hid_sdp_descriptor params);
     buf \<leftarrow> de_pop_sequence buf attribute hidDescriptor;
     buf \<leftarrow> de_pop_sequence buf service attribute;
     buf \<leftarrow> de_add_number buf service DE_UINT DE_SIZE_16 0x0207;
     (attribute, buf) \<leftarrow> de_push_sequence buf service;
     (hig_lang_base, buf) \<leftarrow> de_push_sequence buf attribute;
     buf \<leftarrow> de_add_number buf hig_lang_base DE_UINT DE_SIZE_16 0x0409;
     buf \<leftarrow> de_add_number buf hig_lang_base DE_UINT DE_SIZE_16 0x0100;
     buf \<leftarrow> de_pop_sequence buf attribute hig_lang_base;
     buf \<leftarrow> de_pop_sequence buf service attribute;
     buf \<leftarrow> de_add_number buf service DE_UINT DE_SIZE_16 0x020A;
     buf \<leftarrow> de_add_number buf service DE_BOOL DE_SIZE_8 (if hid_remote_wake params \<noteq> 0 then 1 else 0);
     buf \<leftarrow> de_add_number buf service DE_UINT DE_SIZE_16 0x020C;
     buf \<leftarrow> de_add_number buf service DE_UINT DE_SIZE_16 (ucast (hid_supervision_timeout params));
     buf \<leftarrow> de_add_number buf service DE_UINT DE_SIZE_16 0x020D;
     buf \<leftarrow> de_add_number buf service DE_BOOL DE_SIZE_8 (of_bool (hid_normally_connectable params));
     buf \<leftarrow> de_add_number buf service DE_UINT DE_SIZE_16 0x020E;
     buf \<leftarrow> de_add_number buf service DE_BOOL DE_SIZE_8 (if hid_boot_device params then 1 else 0);
     buf \<leftarrow> de_add_number buf service DE_UINT DE_SIZE_16 0x020F;
     buf \<leftarrow> de_add_number buf service DE_UINT DE_SIZE_16 (ucast (hid_ssr_host_max_latency params));
     buf \<leftarrow> de_add_number buf service DE_UINT DE_SIZE_16 0x0210;
     de_add_number buf service DE_UINT DE_SIZE_16 (ucast (hid_ssr_host_min_timeout params)) }"

definition device_id_create_sdp_record ::
  "bytes \<Rightarrow> nat \<Rightarrow> u32 \<Rightarrow> u16 \<Rightarrow> u16 \<Rightarrow> u16 \<Rightarrow> u16 \<Rightarrow> bytes option" where
  "device_id_create_sdp_record buf service service_record_handle vendor_id_source vendor_id product_id version = do {
     buf \<leftarrow> de_create_sequence buf service;
     buf \<leftarrow> de_add_number buf service DE_UINT DE_SIZE_16 0x0000;
     buf \<leftarrow> de_add_number buf service DE_UINT DE_SIZE_32 service_record_handle;
     buf \<leftarrow> de_add_number buf service DE_UINT DE_SIZE_16 0x0001;
     (attribute, buf) \<leftarrow> de_push_sequence buf service;
     buf \<leftarrow> de_add_number buf attribute DE_UUID DE_SIZE_16 0x1200;
     buf \<leftarrow> de_pop_sequence buf service attribute;
     buf \<leftarrow> de_add_number buf service DE_UINT DE_SIZE_16 0x0005;
     (attribute, buf) \<leftarrow> de_push_sequence buf service;
     buf \<leftarrow> de_add_number buf attribute DE_UUID DE_SIZE_16 0x1002;
     buf \<leftarrow> de_pop_sequence buf service attribute;
     buf \<leftarrow> de_add_number buf service DE_UINT DE_SIZE_16 0x0200;
     buf \<leftarrow> de_add_number buf service DE_UINT DE_SIZE_16 0x0103;
     buf \<leftarrow> de_add_number buf service DE_UINT DE_SIZE_16 0x0201;
     buf \<leftarrow> de_add_number buf service DE_UINT DE_SIZE_16 (ucast vendor_id);
     buf \<leftarrow> de_add_number buf service DE_UINT DE_SIZE_16 0x0202;
     buf \<leftarrow> de_add_number buf service DE_UINT DE_SIZE_16 (ucast product_id);
     buf \<leftarrow> de_add_number buf service DE_UINT DE_SIZE_16 0x0203;
     buf \<leftarrow> de_add_number buf service DE_UINT DE_SIZE_16 (ucast version);
     buf \<leftarrow> de_add_number buf service DE_UINT DE_SIZE_16 0x0204;
     buf \<leftarrow> de_add_number buf service DE_BOOL DE_SIZE_8 1;
     buf \<leftarrow> de_add_number buf service DE_UINT DE_SIZE_16 0x0205;
     de_add_number buf service DE_UINT DE_SIZE_16 (ucast vendor_id_source) }"

text \<open>
  What the two functions build: the attributes in order, each its ID and its value.
\<close>

type_synonym attribute = "u16 \<times> delem"

definition attribute_list :: "attribute list \<Rightarrow> delem list" where
  "attribute_list as = concat (map (\<lambda>(aid, v). [Number DE_UINT DE_SIZE_16 (ucast aid), v]) as)"

abbreviation (input) uint16 :: "u32 \<Rightarrow> delem" where "uint16 \<equiv> Number DE_UINT DE_SIZE_16"
abbreviation (input) uuid16 :: "u32 \<Rightarrow> delem" where "uuid16 \<equiv> Number DE_UUID DE_SIZE_16"
abbreviation (input) uint8 :: "u32 \<Rightarrow> delem" where "uint8 \<equiv> Number DE_UINT DE_SIZE_8"
abbreviation (input) bool8 :: "u32 \<Rightarrow> delem" where "bool8 \<equiv> Number DE_BOOL DE_SIZE_8"

definition hid_attributes :: "u32 \<Rightarrow> hid_sdp_record \<Rightarrow> attribute list" where
  "hid_attributes handle p =
     [(0x0000, Number DE_UINT DE_SIZE_32 handle),
      (0x0001, Sequence [uuid16 0x1124]),
      (0x0004, Sequence [Sequence [uuid16 0x0100, uint16 0x0011], Sequence [uuid16 0x0011]]),
      (0x0006, Sequence [uint16 0x656e, uint16 0x006a, uint16 0x0100]),
      (0x000D, Sequence [Sequence [Sequence [uuid16 0x0100, uint16 0x0013], Sequence [uuid16 0x0011]]])]
     @ (case device_name p of None \<Rightarrow> [] | Some name \<Rightarrow> [(0x0100, Block DE_STRING name)]) @
     [(0x0009, Sequence [Sequence [uuid16 0x1124, uint16 0x0101]]),
      (0x0201, uint16 0x0111),
      (0x0202, uint8 (ucast (hid_device_subclass p))),
      (0x0203, uint8 (ucast (hid_country_code p))),
      (0x0204, bool8 (ucast (hid_virtual_cable p))),
      (0x0205, bool8 (ucast (hid_reconnect_initiate p))),
      (0x0206, Sequence [Sequence [uint8 0x22, Block DE_STRING (take (unat (hid_descriptor_size p)) (hid_sdp_descriptor p))]]),
      (0x0207, Sequence [Sequence [uint16 0x0409, uint16 0x0100]]),
      (0x020A, bool8 (if hid_remote_wake p \<noteq> 0 then 1 else 0)),
      (0x020C, uint16 (ucast (hid_supervision_timeout p))),
      (0x020D, bool8 (of_bool (hid_normally_connectable p))),
      (0x020E, bool8 (if hid_boot_device p then 1 else 0)),
      (0x020F, uint16 (ucast (hid_ssr_host_max_latency p))),
      (0x0210, uint16 (ucast (hid_ssr_host_min_timeout p)))]"

definition device_id_attributes :: "u32 \<Rightarrow> u16 \<Rightarrow> u16 \<Rightarrow> u16 \<Rightarrow> u16 \<Rightarrow> attribute list" where
  "device_id_attributes handle source vendor product version =
     [(0x0000, Number DE_UINT DE_SIZE_32 handle),
      (0x0001, Sequence [uuid16 0x1200]),
      (0x0005, Sequence [uuid16 0x1002]),
      (0x0200, uint16 0x0103),
      (0x0201, uint16 (ucast vendor)),
      (0x0202, uint16 (ucast product)),
      (0x0203, uint16 (ucast version)),
      (0x0204, bool8 1),
      (0x0205, uint16 (ucast source))]"

lemma lay_single: "lay b [ds] = seq_bytes ds @ drop (length (seq_bytes ds)) b"
  by (simp add: lay_def flat_def ptr_extent length_seq_bytes)

lemma device_id_record_lay:
  assumes "90 \<le> length b" and "length b < 65000"
  shows "device_id_create_sdp_record b (ptr []) h src vid pid ver
    = Some (lay b [attribute_list (device_id_attributes h src vid pid ver)])"
  using assms unfolding device_id_create_sdp_record_def
  by (simp add: build_simps fits_def length_seq_bytes attribute_list_def device_id_attributes_def
    del: enc.simps)

lemma hid_record_lay:
  assumes "280 + (case device_name p of None \<Rightarrow> 0 | Some n \<Rightarrow> length n) + unat (hid_descriptor_size p) \<le> length b"
    and "length b < 65000" and "unat (hid_descriptor_size p) \<le> length (hid_sdp_descriptor p)"
  shows "hid_create_sdp_record b (ptr []) h p = Some (lay b [attribute_list (hid_attributes h p)])"
proof (cases "device_name p")
  case None
  then show ?thesis
    using assms unfolding hid_create_sdp_record_def
    by (simp add: build_simps fits_def length_seq_bytes length_enc_Block min_absorb2 attribute_list_def hid_attributes_def
      del: enc.simps)
next
  case (Some n)
  then have "unat (of_nat (length n) :: u16) = length n" using assms by (simp add: unat_of_nat_u16)
  with Some show ?thesis
    using assms unfolding hid_create_sdp_record_def
    by (simp add: build_simps fits_def length_seq_bytes length_enc_Block min_absorb2 attribute_list_def hid_attributes_def
      del: enc.simps)
qed

text \<open>Property C36: \<open>hid_create_sdp_record\<close> writes, at the start of its buffer, the encoding of exactly these attributes
  in this order, whatever its arguments, and changes nothing behind it, when the buffer holds them.\<close>

theorem hid_record_is_encoding:
  assumes "280 + (case device_name p of None \<Rightarrow> 0 | Some n \<Rightarrow> length n) + unat (hid_descriptor_size p) \<le> length b"
    and "length b < 65000" and "unat (hid_descriptor_size p) \<le> length (hid_sdp_descriptor p)"
  shows "hid_create_sdp_record b 0 h p
    = Some (let r = seq_bytes (attribute_list (hid_attributes h p)) in r @ drop (length r) b)"
  using hid_record_lay [OF assms, of h] by (simp add: lay_single ptr_extent Let_def)

theorem hid_record_is_encoding_witness:
  "hid_create_sdp_record (replicate 300 0) 0 0x10001
      \<lparr>hid_device_subclass = 8, hid_country_code = 33, hid_virtual_cable = 0, hid_remote_wake = 1,
       hid_reconnect_initiate = 1, hid_normally_connectable = True, hid_boot_device = False,
       hid_ssr_host_max_latency = 0xFFFF, hid_ssr_host_min_timeout = 0xFFFF, hid_supervision_timeout = 3200,
       hid_sdp_descriptor = [5, 1, 9, 5], hid_descriptor_size = 4, device_name = Some [0x50, 0x72, 0x6F]\<rparr>
    = Some (let r = seq_bytes (attribute_list (hid_attributes 0x10001
      \<lparr>hid_device_subclass = 8, hid_country_code = 33, hid_virtual_cable = 0, hid_remote_wake = 1,
       hid_reconnect_initiate = 1, hid_normally_connectable = True, hid_boot_device = False,
       hid_ssr_host_max_latency = 0xFFFF, hid_ssr_host_min_timeout = 0xFFFF, hid_supervision_timeout = 3200,
       hid_sdp_descriptor = [5, 1, 9, 5], hid_descriptor_size = 4, device_name = Some [0x50, 0x72, 0x6F]\<rparr>))
      in r @ drop (length r) (replicate 300 0))"
  by (rule hid_record_is_encoding) simp_all

end
