(* ===== verification/SdpQuery.thy ===== *)
theory SdpQuery
  imports SdpRecord
begin

text \<open>
  What the traversals of \<open>SdpUtil\<close> compute.  \<open>kids buf p q\<close> is the list of the elements that follow each
  other between two offsets, each with its length; the loops are proved to visit them in order.
  On any bytes that lie inside the buffer nothing is undefined; on the encoding of a tree the elements
  are its children.  From this follow the answers: which attribute IDs a list selects, the bytes that
  the filter copies, the values of attributes, and the UUIDs that a record contains.
\<close>

section \<open>Single elements\<close>

lemma header_size_Some:
  assumes "p < length buf"
  shows "de_get_header_size buf p = Some (if buf ! p AND 7 \<le> 4 then 1
    else 1 + push_bit (unat ((buf ! p AND 7) - 5)) 1)"
  using assms by (simp add: de_get_header_size_def de_get_size_type_def)

lemma u8_and_7_cases:
  obtains "(b :: u8) AND 7 = 0" | "b AND 7 = 1" | "b AND 7 = 2" | "b AND 7 = 3" | "b AND 7 = 4"
    | "b AND 7 = 5" | "b AND 7 = 6" | "b AND 7 = 7"
proof -
  have "unat (b AND 7) < 8"
  proof -
    have "b AND 7 = take_bit 3 b" by (simp add: take_bit_eq_mask mask_eq_exp_minus_1)
    then show ?thesis using take_bit_nat_less_exp [of 3 "unat b"] by (simp add: unsigned_take_bit_eq)
  qed
  then have "unat (b AND 7) \<in> {0, 1, 2, 3, 4, 5, 6, 7}" by auto
  then have "b AND 7 \<in> {0, 1, 2, 3, 4, 5, 6, 7}" by (auto simp: word_unat_eq_iff)
  then show ?thesis using that by blast
qed

text \<open>The bytes that the length functions read are those of the header.\<close>

lemma data_size_Some:
  assumes "de_get_header_size buf p = Some h" and "p + unat h \<le> length buf"
  shows "\<exists>d. de_get_data_size buf p = Some d"
proof -
  have p: "p < length buf" using assms(1)
    by (auto simp: de_get_header_size_def de_get_size_type_def bind_eq_Some_conv rd_def split: if_splits)
  show ?thesis
    using assms header_size_Some [OF p]
    by (cases rule: u8_and_7_cases [of "buf ! p"])
      (auto simp: p de_get_data_size_def de_get_element_type_def de_get_size_type_def
        big_endian_read_16_def big_endian_read_32_def)
qed

lemma len_safe_defined:
  assumes "p + unat sz \<le> length buf"
  shows "\<exists>l. de_get_len_safe buf p sz = Some l"
proof (cases "1 \<le> sz")
  case True
  then have "0 < unat sz" by (simp add: word_le_nat_alt)
  with assms have "p < length buf" by linarith
  then obtain h where h: "de_get_header_size buf p = Some h" using header_size_Some by blast
  show ?thesis
  proof (cases "h \<le> sz")
    case True
    then have "p + unat h \<le> length buf" using assms by (simp add: word_le_nat_alt)
    from data_size_Some [OF h this] obtain d where "de_get_data_size buf p = Some d" ..
    then show ?thesis using h \<open>1 \<le> sz\<close> by (auto simp: de_get_len_safe_def Let_def not_le [symmetric])
  next
    case False
    then show ?thesis using h \<open>1 \<le> sz\<close> by (simp add: de_get_len_safe_def not_le [symmetric])
  qed
qed (simp add: de_get_len_safe_def not_le)

lemma header_size_bounds:
  assumes "de_get_header_size buf p = Some h"
  shows "1 \<le> unat h \<and> unat h \<le> 5 \<and> p < length buf"
proof -
  have p: "p < length buf" using assms
    by (auto simp: de_get_header_size_def de_get_size_type_def bind_eq_Some_conv rd_def split: if_splits)
  then show ?thesis
    using assms header_size_Some [OF p] by (cases rule: u8_and_7_cases [of "buf ! p"]) auto
qed

text \<open>An accepted length is the length of the element, and the whole of it is inside.\<close>

lemma len_safe_Some:
  assumes "de_get_len_safe buf p sz = Some l" and "l \<noteq> 0" and "unat sz < 2 ^ 31"
  obtains h d where "de_get_header_size buf p = Some h" and "de_get_data_size buf p = Some d"
    and "de_get_len buf p = Some l" and "unat l = unat h + unat d" and "unat l \<le> unat sz" and "1 \<le> unat h"
proof -
  from assms(1,2) obtain h d where hd: "de_get_header_size buf p = Some h" "de_get_data_size buf p = Some d"
    "h \<le> sz" "d \<le> sz" "l = h + d" "h + d \<le> sz"
    by (auto simp: de_get_len_safe_def Let_def bind_eq_Some_conv not_less split: if_splits)
  then have "unat h < 2 ^ 31" "unat d < 2 ^ 31" using assms(3) by (simp_all add: word_le_nat_alt)
  then have "unat l = unat h + unat d" by (simp add: hd(5) unat_plus_if')
  moreover have "unat l \<le> unat sz" using hd(5,6) by (simp add: word_le_nat_alt)
  moreover have "de_get_len buf p = Some l" using hd by (simp add: de_get_len_def)
  ultimately show ?thesis using that [OF hd(1,2)] header_size_bounds [OF hd(1)] by blast
qed

section \<open>The children of a sequence\<close>

function kids :: "bytes \<Rightarrow> nat \<Rightarrow> nat \<Rightarrow> (nat \<times> nat) list" where
  "kids buf p q =
     (if q \<le> p then []
      else case de_get_len_safe buf p (of_nat (q - p)) of
        None \<Rightarrow> []
      | Some l \<Rightarrow> if l = 0 then [] else (p, unat l) # kids buf (p + unat l) q)"
  by pat_completeness auto

termination
  by (relation "measure (\<lambda>(buf, p, q). q - p)") (auto simp: unat_gt_0 intro!: diff_less_mono2)

declare kids.simps [simp del]

lemma kids_Nil: "q \<le> p \<Longrightarrow> kids buf p q = []"
  by (simp add: kids.simps)

lemma kids_next:
  "p < q \<Longrightarrow> sz = of_nat (q - p) \<Longrightarrow> de_get_len_safe buf p sz = Some l \<Longrightarrow>
   kids buf p q = (if l = 0 then [] else (p, unat l) # kids buf (p + unat l) q)"
  by (subst kids.simps) simp

lemma kids_ConsE:
  assumes "kids buf p q = (k, l) # ks"
  obtains "p < q" and "k = p" and "ks = kids buf (p + l) q"
  using assms by (cases "de_get_len_safe buf p (of_nat (q - p))")
    (auto simp: kids.simps [of buf p q] split: if_splits)

definition kids_exact :: "bytes \<Rightarrow> nat \<Rightarrow> nat \<Rightarrow> bool" where
  "kids_exact buf p q \<longleftrightarrow> p + sum_list (map snd (kids buf p q)) = q"

text \<open>Calling a handler on the children from left to right until it stops.\<close>

primrec visit :: "('k \<Rightarrow> 's \<Rightarrow> (bool \<times> 's) option) \<Rightarrow> 'k list \<Rightarrow> 's \<Rightarrow> (bool \<times> 's) option" where
  "visit h [] s = Some (False, s)"
| "visit h (k # ks) s =
     (case h k s of
        None \<Rightarrow> None
      | Some (stop, s') \<Rightarrow> if stop then Some (True, s') else visit h ks s')"

definition on_kid :: "bytes \<Rightarrow> 's traversal \<Rightarrow> nat \<Rightarrow> 's \<Rightarrow> (bool \<times> 's) option" where
  "on_kid buf h k s = h k (drop_bit 3 (buf ! k)) (buf ! k AND 7) s"

lemma kids_bounds:
  assumes "(k, l) \<in> set (kids buf p q)" and "q - p < 2 ^ 31" and "p \<le> q"
  shows "p \<le> k \<and> k + l \<le> q \<and> 0 < l \<and> de_get_len buf k = Some (of_nat l) \<and> (\<exists>h. de_get_header_size buf k = Some h \<and> unat h \<le> l)"
  using assms
proof (induction buf p q rule: kids.induct)
  case (1 buf p q)
  have lt: "p < q" using 1(2) by (auto simp: kids.simps [of buf p q] split: if_splits)
  with 1(2) have "\<exists>l0. de_get_len_safe buf p (of_nat (q - p)) = Some l0 \<and> l0 \<noteq> 0
      \<and> ((k, l) = (p, unat l0) \<or> (k, l) \<in> set (kids buf (p + unat l0) q))"
    by (cases "de_get_len_safe buf p (of_nat (q - p))") (auto simp: kids.simps [of buf p q] split: if_splits)
  then obtain l0 where l0: "de_get_len_safe buf p (of_nat (q - p)) = Some l0" "l0 \<noteq> 0"
    and m: "(k, l) = (p, unat l0) \<or> (k, l) \<in> set (kids buf (p + unat l0) q)" by blast
  have sz: "unat (of_nat (q - p) :: u32) = q - p" using 1(3) by (intro unat_of_nat_u32) simp
  have "unat (of_nat (q - p) :: u32) < 2 ^ 31" unfolding sz by (rule 1(3))
  then obtain h d where "de_get_header_size buf p = Some h" "de_get_data_size buf p = Some d"
    "de_get_len buf p = Some l0" "unat l0 = unat h + unat d" "unat l0 \<le> unat (of_nat (q - p) :: u32)" "1 \<le> unat h"
    by (rule len_safe_Some [OF l0])
  then have hd: "de_get_header_size buf p = Some h"
    "de_get_len buf p = Some l0" "unat l0 = unat h + unat d" "unat l0 \<le> q - p"
    by (simp_all only: sz)
  show ?case
  proof (cases "(k, l) = (p, unat l0)")
    case True
    then have kl: "k = p" "l = unat l0" by simp_all
    have "0 < unat l0" using l0(2) by (simp add: unat_gt_0)
    moreover have "p + unat l0 \<le> q" "unat h \<le> unat l0" using hd lt by simp_all
    ultimately show ?thesis unfolding kl using hd(1,2) by simp
  next
    case False
    with m have "(k, l) \<in> set (kids buf (p + unat l0) q)" by blast
    moreover have "q - (p + unat l0) < 2 ^ 31" "p + unat l0 \<le> q" using hd(4) lt 1(3) by simp_all
    ultimately have "p + unat l0 \<le> k \<and> k + l \<le> q \<and> 0 < l \<and> de_get_len buf k = Some (of_nat l)
        \<and> (\<exists>h. de_get_header_size buf k = Some h \<and> unat h \<le> l)"
      using lt by (intro 1(1) [OF _ l0(1,2)]) simp_all
    then show ?thesis by auto
  qed
qed

text \<open>An iterator over part of a buffer, and the range that it still has to visit.\<close>

definition iter_at :: "bytes \<Rightarrow> des_iterator \<Rightarrow> nat \<Rightarrow> nat \<Rightarrow> nat \<Rightarrow> bool" where
  "iter_at buf it e p q \<longleftrightarrow> des_element it = Some e \<and> p = e + unat (des_pos it) \<and> q = e + unat (des_length it)
     \<and> p \<le> q \<and> q \<le> length buf \<and> unat (des_length it) < 2 ^ 31"

lemma iter_at_range: "iter_at buf it e p q \<Longrightarrow> q - p < 2 ^ 31 \<and> p \<le> q \<and> q \<le> length buf"
  by (auto simp: iter_at_def)

lemma iter_element_len:
  assumes "iter_at buf it e p q"
  shows "des_iterator_get_element_len buf it = Some (case kids buf p q of [] \<Rightarrow> 0 | (k, l) # _ \<Rightarrow> of_nat l)"
proof (cases "p < q")
  case False
  then show ?thesis using assms
    by (simp add: iter_at_def des_iterator_get_element_len_def word_le_nat_alt kids.simps)
next
  case True
  have d: "des_length it - des_pos it = of_nat (q - p)"
    using assms True by (simp add: iter_at_def word_unat_eq_iff unat_sub word_le_nat_alt unat_of_nat_u32)
  have "unat (of_nat (q - p) :: u32) = q - p" using iter_at_range [OF assms] by (intro unat_of_nat_u32) simp
  then have "p + unat (of_nat (q - p) :: u32) \<le> length buf" using iter_at_range [OF assms] by simp
  from len_safe_defined [OF this] obtain l where "de_get_len_safe buf p (of_nat (q - p)) = Some l" by blast
  with kids_next [OF True refl this] assms True d show ?thesis
    by (auto simp: iter_at_def des_iterator_get_element_len_def word_le_nat_alt)
qed

lemma iter_step:
  assumes "iter_at buf it e p q"
  shows "kids buf p q = [] \<Longrightarrow> des_iterator_has_more buf it = Some False"
    and "kids buf p q = (k, l) # ks \<Longrightarrow> des_iterator_has_more buf it = Some True"
    and "kids buf p q = (k, l) # ks \<Longrightarrow> des_iterator_get_element buf it = Some (Some p)"
    and "kids buf p q = (k, l) # ks \<Longrightarrow> des_iterator_get_type buf it = Some (drop_bit 3 (buf ! p))"
    and "kids buf p q = (k, l) # ks \<Longrightarrow> de_get_size_type buf p = Some (buf ! p AND 7)"
    and "kids buf p q = (k, l) # ks \<Longrightarrow> k = p \<and> ks = kids buf (p + l) q
      \<and> (\<exists>it'. des_iterator_next buf it = Some it' \<and> iter_at buf it' e (p + l) q)"
proof -
  note len = iter_element_len [OF assms]
  show "des_iterator_has_more buf it = Some False" if "kids buf p q = []"
    using that by (simp add: des_iterator_has_more_def len)
  assume k: "kids buf p q = (k, l) # ks"
  then have lt: "p < q" "k = p" "ks = kids buf (p + l) q" by (auto elim: kids_ConsE)
  have l: "0 < l" "p + l \<le> q" "k = p"
    using kids_bounds [of k l buf p q] k iter_at_range [OF assms] lt by auto
  have "l < 4294967296" using l lt iter_at_range [OF assms] by auto
  then have ul: "unat (of_nat l :: u32) = l" by (rule unat_of_nat_u32)
  then have nz: "(of_nat l :: u32) \<noteq> 0" using l(1) by (metis unsigned_0 less_irrefl)
  show "des_iterator_has_more buf it = Some True" using k nz by (simp add: des_iterator_has_more_def len)
  show el: "des_iterator_get_element buf it = Some (Some p)"
    using k nz assms by (simp add: des_iterator_get_element_def len iter_at_def)
  have pb: "p < length buf" using lt iter_at_range [OF assms] by simp
  then show "des_iterator_get_type buf it = Some (drop_bit 3 (buf ! p))"
    by (simp add: des_iterator_get_type_def el de_get_element_type_def)
  show "de_get_size_type buf p = Some (buf ! p AND 7)" using pb by (simp add: de_get_size_type_def)
  have nx: "des_iterator_next buf it = Some (it\<lparr>des_pos := des_pos it + of_nat l\<rparr>)"
    using k nz by (simp add: des_iterator_next_def len)
  have "unat (des_pos it + of_nat l) = unat (des_pos it) + l"
    using assms l ul by (simp add: iter_at_def unat_plus_if')
  then have "iter_at buf (it\<lparr>des_pos := des_pos it + of_nat l\<rparr>) e (p + l) q"
    using assms l by (simp add: iter_at_def)
  with l lt nx show "k = p \<and> ks = kids buf (p + l) q
      \<and> (\<exists>it'. des_iterator_next buf it = Some it' \<and> iter_at buf it' e (p + l) q)" by blast
qed

lemma des_round_kid:
  assumes "iter_at buf it e p q" and "kids buf p q = (k, l) # ks"
  shows "des_round buf h it s = on_kid buf h p s"
  using iter_step [OF assms(1)] assms(2) by (simp add: des_round_def on_kid_def)

theorem des_loop_visits:
  assumes "iter_at buf it e p q"
  shows "map_option (\<lambda>(it, s). (des_iterator_is_complete it, s)) (des_loop buf h it s)
    = map_option (\<lambda>(stop, s). (\<not> stop \<and> kids_exact buf p q, s)) (visit (on_kid buf h) (map fst (kids buf p q)) s)"
  using assms
proof (induction "kids buf p q" arbitrary: it p s)
  case Nil
  have "des_iterator_is_complete it \<longleftrightarrow> kids_exact buf p q"
    using Nil.prems unfolding kids_exact_def Nil(1) [symmetric]
    by (auto simp: iter_at_def des_iterator_is_complete_def word_unat_eq_iff)
  then show ?case
    using iter_step(1) [OF Nil.prems Nil(1) [symmetric]] Nil(1) by (simp add: des_loop.simps)
next
  case (Cons kl ks)
  obtain k l where kl: "kl = (k, l)" by (cases kl)
  note k = Cons(2) [unfolded kl, symmetric]
  from iter_step(6) [OF Cons.prems k] obtain it' where it': "k = p" "ks = kids buf (p + l) q"
    "des_iterator_next buf it = Some it'" "iter_at buf it' e (p + l) q" by blast
  have ex: "kids_exact buf p q \<longleftrightarrow> kids_exact buf (p + l) q" using k it'(2) by (simp add: kids_exact_def add.assoc)
  have "0 < l" using kids_bounds [of k l buf p q] k iter_at_range [OF Cons.prems] by simp
  then have nc: "\<not> des_iterator_is_complete it"
    using kids_bounds [of k l buf p q] k iter_at_range [OF Cons.prems] Cons.prems
    by (auto simp: iter_at_def des_iterator_is_complete_def)
  show ?case
    using Cons(1) [OF it'(2,4)] it' k ex nc des_round_kid [OF Cons.prems k, of h s] iter_step(2) [OF Cons.prems k]
    by (simp add: des_loop.simps [of buf h it] split: option.split)
qed

section \<open>Whole elements\<close>

text \<open>An element of \<open>l\<close> bytes at \<open>p\<close>, all of it in the buffer.\<close>

definition elem_at :: "bytes \<Rightarrow> nat \<Rightarrow> nat \<Rightarrow> bool" where
  "elem_at buf p l \<longleftrightarrow> (\<exists>h. de_get_header_size buf p = Some h \<and> unat h \<le> l) \<and> de_get_len buf p = Some (of_nat l)
     \<and> 0 < l \<and> p + l \<le> length buf \<and> l < 2 ^ 31"

definition hdr :: "bytes \<Rightarrow> nat \<Rightarrow> nat" where
  "hdr buf p = (let c = buf ! p AND 7 in if c \<le> 4 then 1 else 1 + 2 ^ unat (c - 5))"

lemma elem_at_pos: "elem_at buf p l \<Longrightarrow> p < length buf"
  by (auto simp: elem_at_def)

lemma elem_at_hdr:
  assumes "elem_at buf p l"
  obtains h where "de_get_header_size buf p = Some h" and "unat h = hdr buf p" and "1 \<le> hdr buf p" and "hdr buf p \<le> l"
proof -
  from assms obtain h where h: "de_get_header_size buf p = Some h" "unat h \<le> l" by (auto simp: elem_at_def)
  have "unat h = hdr buf p"
    using h(1) header_size_Some [OF elem_at_pos [OF assms]]
    by (cases rule: u8_and_7_cases [of "buf ! p"]) (auto simp: hdr_def Let_def)
  then show ?thesis using that h header_size_bounds [OF h(1)] by simp
qed

lemma len_safe_elem:
  assumes "de_get_len_safe buf p sz = Some l" and "l \<noteq> 0" and "p + unat sz \<le> length buf" and "unat sz < 2 ^ 31"
  shows "elem_at buf p (unat l)"
proof -
  obtain h d where "de_get_header_size buf p = Some h" "de_get_data_size buf p = Some d"
    "de_get_len buf p = Some l" "unat l = unat h + unat d" "unat l \<le> unat sz" "1 \<le> unat h"
    by (rule len_safe_Some [OF assms(1,2,4)])
  then have "unat h \<le> unat l" "0 < unat l" "unat l \<le> unat sz" by linarith+
  moreover have "of_nat (unat l) = l" by simp
  ultimately show ?thesis
    unfolding elem_at_def using assms(3,4) \<open>de_get_header_size buf p = Some h\<close> \<open>de_get_len buf p = Some l\<close>
    by (intro conjI exI [of _ h]) (simp_all del: of_nat_unat)
qed

definition children :: "bytes \<Rightarrow> nat \<Rightarrow> nat \<Rightarrow> nat list" where
  "children buf p l = map fst (kids buf (p + hdr buf p) (p + l))"

lemma kids_elem:
  assumes "(k, l) \<in> set (kids buf p q)" and "q - p < 2 ^ 31" and "p \<le> q" and "q \<le> length buf"
  shows "elem_at buf k l" and "p \<le> k" and "k + l \<le> q"
  using kids_bounds [OF assms(1-3)] assms by (auto simp: elem_at_def)

lemma children_elem:
  assumes "k \<in> set (children buf p l)" and "elem_at buf p l"
  obtains l' where "elem_at buf k l'" and "l' < l" and "k + l' \<le> p + l" and "p < k"
proof -
  obtain h where h: "1 \<le> hdr buf p" "hdr buf p \<le> l" by (rule elem_at_hdr [OF assms(2)])
  from assms(1) obtain l' where k: "(k, l') \<in> set (kids buf (p + hdr buf p) (p + l))" by (auto simp: children_def)
  have "p + l - (p + hdr buf p) < 2 ^ 31" "p + hdr buf p \<le> p + l" "p + l \<le> length buf"
    using assms(2) h by (auto simp: elem_at_def)
  from kids_elem [OF k this] h that [of l'] show ?thesis by auto
qed

text \<open>Type, size and length of an element with a fixed size code.\<close>

lemma elem_at_fixed:
  assumes "elem_at buf p l" and "buf ! p AND 7 \<le> 4"
  shows "l = 1 + (if drop_bit 3 (buf ! p) = 0 then 0 else 2 ^ unat (buf ! p AND 7))"
proof -
  have p: "p < length buf" by (rule elem_at_pos [OF assms(1)])
  have "l < 4294967296" using assms(1) by (auto simp: elem_at_def)
  then have "unat (of_nat l :: u32) = l" by (rule unat_of_nat_u32)
  moreover have "de_get_len buf p = Some (of_nat l)" using assms(1) by (simp add: elem_at_def)
  ultimately show ?thesis
    using assms(2) header_size_Some [OF p] p
    by (cases rule: u8_and_7_cases [of "buf ! p"])
      (auto simp: de_get_len_def de_get_data_size_def de_get_element_type_def de_get_size_type_def)
qed

lemma init_iter:
  assumes "elem_at buf p l"
  shows "drop_bit 3 (buf ! p) \<noteq> 6 \<Longrightarrow> des_iterator_init buf p = Some None"
    and "drop_bit 3 (buf ! p) = 6 \<Longrightarrow> \<exists>it. des_iterator_init buf p = Some (Some it)
      \<and> iter_at buf it p (p + hdr buf p) (p + l)"
proof -
  note p = elem_at_pos [OF assms]
  show "des_iterator_init buf p = Some None" if "drop_bit 3 (buf ! p) \<noteq> 6"
    using that p by (simp add: des_iterator_init_def de_get_element_type_def)
  assume d: "drop_bit 3 (buf ! p) = 6"
  obtain h where h: "de_get_header_size buf p = Some h" "unat h = hdr buf p" "hdr buf p \<le> l"
    by (rule elem_at_hdr [OF assms])
  have "l < 4294967296" using assms by (auto simp: elem_at_def)
  then have "unat (of_nat l :: u32) = l" by (rule unat_of_nat_u32)
  with d p h assms show "\<exists>it. des_iterator_init buf p = Some (Some it) \<and> iter_at buf it p (p + hdr buf p) (p + l)"
    by (simp add: des_iterator_init_def de_get_element_type_def elem_at_def iter_at_def)
qed

lemma traverse_visits:
  assumes "elem_at buf p l"
  shows "de_traverse_sequence buf p h s =
    (if drop_bit 3 (buf ! p) = 6
     then map_option (\<lambda>(stop, s). (\<not> stop \<and> kids_exact buf (p + hdr buf p) (p + l), s))
       (visit (on_kid buf h) (children buf p l) s)
     else Some (False, s))"
proof (cases "drop_bit 3 (buf ! p) = 6")
  case True
  from init_iter(2) [OF assms this] obtain it where it: "des_iterator_init buf p = Some (Some it)"
    "iter_at buf it p (p + hdr buf p) (p + l)" by blast
  have "de_traverse_sequence buf p h s = map_option (\<lambda>(it, s). (des_iterator_is_complete it, s)) (des_loop buf h it s)"
    by (cases "des_loop buf h it s") (auto simp: de_traverse_sequence_def it(1))
  then show ?thesis using des_loop_visits [OF it(2), of h s] True by (simp add: children_def)
qed (simp add: de_traverse_sequence_def init_iter(1) [OF assms])

subsection \<open>Attributes\<close>

text \<open>The pairs that \<open>attribute_loop\<close> visits; it ends at the first element that is no attribute ID.\<close>

fun attrs :: "bytes \<Rightarrow> nat list \<Rightarrow> (u16 \<times> nat) list" where
  "attrs buf (k # v # ks) =
     (if buf ! k = 9 then (case big_endian_read_16 buf (k + 1) of None \<Rightarrow> [] | Some aid \<Rightarrow> (aid, v) # attrs buf ks) else [])"
| "attrs buf ks = []"

definition on_attr :: "bytes \<Rightarrow> 's attribute_traversal \<Rightarrow> u16 \<times> nat \<Rightarrow> 's \<Rightarrow> (bool \<times> 's) option" where
  "on_attr buf h av s = on_kid buf (h (fst av)) (snd av) s"

lemma byte_parts: "(b :: u8) = push_bit 3 (drop_bit 3 b) + (b AND 7)"
proof -
  have "b AND 7 = take_bit 3 b" by (simp add: take_bit_eq_mask mask_eq_exp_minus_1)
  then show ?thesis by (simp add: bits_ident)
qed

lemma byte_9: "b = (9 :: u8) \<longleftrightarrow> drop_bit 3 b = 1 \<and> b AND 7 = 1"
  using byte_parts [of b] by auto

lemma elem_16:
  assumes "elem_at buf k l" and "buf ! k AND 7 = 1" and "drop_bit 3 (buf ! k) \<noteq> 0"
  shows "\<exists>v. big_endian_read_16 buf (k + 1) = Some v"
proof -
  have "l = 3" using elem_at_fixed [OF assms(1)] assms by simp
  then have "k + 2 < length buf" using assms(1) by (simp add: elem_at_def)
  then show ?thesis by (simp add: big_endian_read_16_def)
qed

lemma elem_32:
  assumes "elem_at buf k l" and "buf ! k AND 7 = 2" and "drop_bit 3 (buf ! k) \<noteq> 0"
  shows "\<exists>v w. big_endian_read_16 buf (k + 1) = Some v \<and> big_endian_read_16 buf (k + 3) = Some w"
    and "\<exists>v. big_endian_read_32 buf (k + 1) = Some v"
proof -
  have "l = 5" using elem_at_fixed [OF assms(1)] assms by simp
  then have "k + 4 < length buf" using assms(1) by (simp add: elem_at_def)
  then show "\<exists>v w. big_endian_read_16 buf (k + 1) = Some v \<and> big_endian_read_16 buf (k + 3) = Some w"
    and "\<exists>v. big_endian_read_32 buf (k + 1) = Some v"
    by (simp_all add: big_endian_read_16_def big_endian_read_32_def)
qed

lemma attribute_id_kid:
  assumes it: "iter_at buf it e p q" and k: "kids buf p q = (p, l) # ks"
  shows "buf ! p \<noteq> 9 \<Longrightarrow> attribute_id buf it = Some None"
    and "buf ! p = 9 \<Longrightarrow> ks = [] \<Longrightarrow> attribute_id buf it = Some None"
    and "buf ! p = 9 \<Longrightarrow> ks \<noteq> [] \<Longrightarrow> \<exists>aid it'. big_endian_read_16 buf (p + 1) = Some aid
      \<and> attribute_id buf it = Some (Some (aid, it')) \<and> iter_at buf it' e (p + l) q"
proof -
  note step = iter_step(3-5) [OF it k]
  from iter_step(6) [OF it k] obtain it' where it': "ks = kids buf (p + l) q"
    "des_iterator_next buf it = Some it'" "iter_at buf it' e (p + l) q" by blast
  have el: "elem_at buf p l"
    using kids_elem [of p l buf p q] k iter_at_range [OF it] by simp
  show "attribute_id buf it = Some None" if "buf ! p \<noteq> 9"
    using that step by (auto simp: attribute_id_def byte_9)
  assume 9: "buf ! p = 9"
  then obtain aid where aid: "big_endian_read_16 buf (p + 1) = Some aid" using elem_16 [OF el] by auto
  show "attribute_id buf it = Some None" if "ks = []"
    using that 9 step it' aid iter_step(1) [OF it'(3)] by (simp add: attribute_id_def)
  assume "ks \<noteq> []"
  then obtain v l' ks' where "kids buf (p + l) q = (v, l') # ks'" using it'(1) by (metis list.exhaust prod.exhaust)
  from iter_step(2) [OF it'(3) this] 9 step it' aid
  show "\<exists>aid it'. big_endian_read_16 buf (p + 1) = Some aid
      \<and> attribute_id buf it = Some (Some (aid, it')) \<and> iter_at buf it' e (p + l) q"
    by (simp add: attribute_id_def)
qed

lemma attribute_loop_visits:
  assumes "iter_at buf it e p q"
  shows "attribute_loop buf h it s = map_option snd (visit (on_attr buf h) (attrs buf (map fst (kids buf p q))) s)"
  using assms
proof (induction "length (kids buf p q)" arbitrary: it p s rule: less_induct)
  case less
  note it = less.prems
  show ?case
  proof (cases "kids buf p q")
    case Nil
    then show ?thesis using iter_step(1) [OF it] by (simp add: attribute_loop.simps)
  next
    case (Cons kl ks)
    then obtain k l where kl: "kl = (k, l)" by (cases kl)
    have k: "kids buf p q = (p, l) # ks" using Cons kl iter_step(6) [OF it, of k l ks] by simp
    note more = iter_step(2) [OF it k] and aid = attribute_id_kid [OF it k]
    show ?thesis
    proof (cases "buf ! p = 9 \<and> ks \<noteq> []")
      case False
      then have "attribute_id buf it = Some None" using aid(1,2) by blast
      moreover have "attrs buf (map fst (kids buf p q)) = []" using False k by (cases ks) auto
      ultimately show ?thesis using more by (simp add: attribute_loop.simps)
    next
      case True
      then obtain a it1 where a: "big_endian_read_16 buf (p + 1) = Some a"
        "attribute_id buf it = Some (Some (a, it1))" "iter_at buf it1 e (p + l) q" using aid(3) by blast
      have ks: "ks = kids buf (p + l) q" using iter_step(6) [OF it k] by blast
      with True obtain v l' ks' where v: "kids buf (p + l) q = (v, l') # ks'" by (metis list.exhaust prod.exhaust)
      from iter_step(6) [OF a(3) v] obtain it2 where it2: "v = p + l" "ks' = kids buf (p + l + l') q"
        "des_iterator_next buf it1 = Some it2" "iter_at buf it2 e (p + l + l') q" by blast
      have "attrs buf (map fst (kids buf p q)) = (a, v) # attrs buf (map fst ks')"
        using True k ks v a(1) by simp
      moreover have "length (kids buf (p + l + l') q) < length (kids buf p q)" using k ks v it2(2) by simp
      note IH = less.hyps [OF this it2(4)]
      ultimately show ?thesis
        using more a(2) des_round_kid [OF a(3) v, of "h a" s] it2 IH
        by (simp add: attribute_loop.simps [of buf h it] on_attr_def split: option.split)
    qed
  qed
qed

lemma attributes_visits:
  assumes "elem_at buf p l"
  shows "sdp_attribute_list_traverse_sequence buf p h s =
    (if drop_bit 3 (buf ! p) = 6 then map_option snd (visit (on_attr buf h) (attrs buf (children buf p l)) s) else Some s)"
proof (cases "drop_bit 3 (buf ! p) = 6")
  case True
  from init_iter(2) [OF assms this] obtain it where it: "des_iterator_init buf p = Some (Some it)"
    "iter_at buf it p (p + hdr buf p) (p + l)" by blast
  then show ?thesis
    using attribute_loop_visits [OF it(2), of h s] True
    by (simp add: sdp_attribute_list_traverse_sequence_def children_def)
qed (simp add: sdp_attribute_list_traverse_sequence_def init_iter(1) [OF assms])

section \<open>Requests of any bytes\<close>

text \<open>Handlers that look for a child, and handlers that check all of them.\<close>

lemma visit_any:
  assumes "\<And>k. k \<in> set ks \<Longrightarrow> h k False = Some (P k, P k)"
  shows "visit h ks False = Some (\<exists>k\<in>set ks. P k, \<exists>k\<in>set ks. P k)"
  using assms by (induction ks) auto

lemma visit_all:
  assumes "\<And>k s. k \<in> set ks \<Longrightarrow> h k s = Some (False, P k \<and> s)"
  shows "visit h ks s = Some (False, (\<forall>k\<in>set ks. P k) \<and> s)"
  using assms by (induction ks arbitrary: s) auto

lemma visit_until:
  assumes "\<And>k. k \<in> set ks \<Longrightarrow> h k True = Some (\<not> P k, P k)"
  shows "visit h ks True = Some (\<not> (\<forall>k\<in>set ks. P k), \<forall>k\<in>set ks. P k)"
  using assms by (induction ks) auto

definition selects :: "bytes \<Rightarrow> u16 \<Rightarrow> nat \<Rightarrow> bool" where
  "selects buf aid k \<longleftrightarrow> drop_bit 3 (buf ! k) = DE_UINT \<and>
     (buf ! k AND 7 = DE_SIZE_16 \<and> big_endian_read_16 buf (k + 1) = Some aid
      \<or> buf ! k AND 7 = DE_SIZE_32 \<and> (\<exists>lo hi. big_endian_read_16 buf (k + 1) = Some lo
          \<and> big_endian_read_16 buf (k + 3) = Some hi \<and> lo \<le> aid \<and> aid \<le> hi))"

definition list_selects :: "bytes \<Rightarrow> nat \<Rightarrow> nat \<Rightarrow> u16 \<Rightarrow> bool" where
  "list_selects buf p l aid \<longleftrightarrow> drop_bit 3 (buf ! p) = DE_DES \<and> (\<exists>k\<in>set (children buf p l). selects buf aid k)"

lemma contains_id_selects:
  assumes "elem_at buf p l"
  shows "sdp_attribute_list_contains_id buf p aid = Some (list_selects buf p l aid)"
proof -
  have "on_kid buf (sdp_traversal_attributeID_search buf aid) k False = Some (selects buf aid k, selects buf aid k)"
    if k: "k \<in> set (children buf p l)" for k
  proof -
    obtain l' where el: "elem_at buf k l'" by (rule children_elem [OF k assms])
    show ?thesis
      using elem_16 [OF el] elem_32 [OF el]
      by (auto simp: on_kid_def sdp_traversal_attributeID_search_def selects_def)
  qed
  then have "visit (on_kid buf (sdp_traversal_attributeID_search buf aid)) (children buf p l) False
      = Some (\<exists>k\<in>set (children buf p l). selects buf aid k, \<exists>k\<in>set (children buf p l). selects buf aid k)"
    by (rule visit_any)
  then show ?thesis
    by (cases "drop_bit 3 (buf ! p) = DE_DES")
      (simp_all only: sdp_attribute_list_contains_id_def traverse_visits [OF assms] list_selects_def if_True if_False
        option.map prod.case snd_conv simp_thms)
qed

lemma valid_pattern_iff:
  assumes "elem_at buf p l"
  shows "sdp_valid_service_search_pattern buf p = Some (drop_bit 3 (buf ! p) = DE_DES
    \<and> kids_exact buf (p + hdr buf p) (p + l) \<and> (\<forall>k\<in>set (children buf p l). drop_bit 3 (buf ! k) = DE_UUID))"
proof -
  have "visit (on_kid buf sdp_traversal_valid_uuid) (children buf p l) True
      = Some (False, (\<forall>k\<in>set (children buf p l). drop_bit 3 (buf ! k) = DE_UUID) \<and> True)"
    by (rule visit_all) (simp add: on_kid_def sdp_traversal_valid_uuid_def)
  then show ?thesis
    by (simp add: sdp_valid_service_search_pattern_def traverse_visits [OF assms])
qed

text \<open>
  The check of a list of attribute IDs reads a range before it has looked at the type.  A nil element
  with the size code of four bytes takes one byte only; so the check reads up to four bytes behind it.
\<close>

definition nil_range :: "bytes \<Rightarrow> nat \<Rightarrow> bool" where
  "nil_range buf k \<longleftrightarrow> buf ! k = 2 \<and> length buf < k + 5"

definition id_ok :: "bytes \<Rightarrow> nat \<Rightarrow> bool" where
  "id_ok buf k \<longleftrightarrow> drop_bit 3 (buf ! k) = DE_UINT \<and> (buf ! k AND 7 = DE_SIZE_16 \<or> buf ! k AND 7 = DE_SIZE_32
     \<and> (\<exists>lo hi. big_endian_read_16 buf (k + 1) = Some lo \<and> big_endian_read_16 buf (k + 3) = Some hi \<and> lo \<le> hi))"

lemma byte_2: "b = (2 :: u8) \<longleftrightarrow> drop_bit 3 b = 0 \<and> b AND 7 = 2"
  using byte_parts [of b] by auto

lemma list_valid_kid:
  assumes "elem_at buf k l"
  shows "nil_range buf k \<Longrightarrow> on_kid buf (sdp_traversal_attribute_list_valie buf) k s = None"
    and "\<not> nil_range buf k \<Longrightarrow> on_kid buf (sdp_traversal_attribute_list_valie buf) k s = Some (False, id_ok buf k \<and> s)"
proof -
  have b: "\<exists>v w. big_endian_read_16 buf (k + 1) = Some v \<and> big_endian_read_16 buf (k + 3) = Some w"
    if "buf ! k AND 7 = 2" "\<not> nil_range buf k"
  proof (cases "drop_bit 3 (buf ! k) = 0")
    case True
    then have "k + 5 \<le> length buf" using that by (simp add: nil_range_def byte_2 [of "buf ! k"])
    then show ?thesis by (simp add: big_endian_read_16_def)
  qed (use elem_32(1) [OF assms that(1)] in blast)
  show "on_kid buf (sdp_traversal_attribute_list_valie buf) k s = Some (False, id_ok buf k \<and> s)" if n: "\<not> nil_range buf k"
  proof (cases "buf ! k AND 7 = 2")
    case True
    from b [OF True n] obtain v w where vw: "big_endian_read_16 buf (k + 1) = Some v" "big_endian_read_16 buf (k + 3) = Some w"
      by blast
    have "id_ok buf k \<longleftrightarrow> drop_bit 3 (buf ! k) = DE_UINT \<and> \<not> w < v" using True vw by (simp add: id_ok_def linorder_not_less)
    then show ?thesis
      by (cases "w < v") (simp_all add: on_kid_def sdp_traversal_attribute_list_valie_def Let_def vw [simplified] True)
  next
    case False
    then show ?thesis by (auto simp: on_kid_def sdp_traversal_attribute_list_valie_def id_ok_def Let_def)
  qed
  assume n: "nil_range buf k"
  then have "big_endian_read_16 buf (k + 1) = None \<or> big_endian_read_16 buf (k + 3) = None"
    by (auto simp: nil_range_def big_endian_read_16_def rd_def)
  then show "on_kid buf (sdp_traversal_attribute_list_valie buf) k s = None"
    using n by (auto simp: on_kid_def sdp_traversal_attribute_list_valie_def nil_range_def byte_2 [of "buf ! k"] Let_def bind_eq_None_conv)
qed

lemma visit_none:
  assumes "k \<in> set ks" and "\<And>s. h k s = None"
    and "\<And>k s. k \<in> set ks \<Longrightarrow> h k s = None \<or> (\<exists>s'. h k s = Some (False, s'))"
  shows "visit h ks s = None"
  using assms
proof (induction ks arbitrary: s)
  case (Cons a ks)
  show ?case
  proof (cases "a = k")
    case True
    then show ?thesis using Cons.prems(2) by simp
  next
    case False
    then have "visit h ks s' = None" for s'
      using Cons.prems by (intro Cons.IH) auto
    then show ?thesis using Cons.prems(3) [of a s] by auto
  qed
qed simp

lemma list_valid_iff:
  assumes el: "elem_at buf p l" and d: "drop_bit 3 (buf ! p) = DE_DES"
  shows "sdp_attribute_list_valid buf p =
    (if \<exists>k\<in>set (children buf p l). nil_range buf k then None
     else Some (kids_exact buf (p + hdr buf p) (p + l) \<and> (\<forall>k\<in>set (children buf p l). id_ok buf k)))"
proof -
  let ?h = "on_kid buf (sdp_traversal_attribute_list_valie buf)"
  have kid: "nil_range buf k \<Longrightarrow> ?h k s = None" "\<not> nil_range buf k \<Longrightarrow> ?h k s = Some (False, id_ok buf k \<and> s)"
    if k: "k \<in> set (children buf p l)" for k s
    by (rule children_elem [OF k el], erule list_valid_kid, assumption)+
  show ?thesis
  proof (cases "\<exists>k\<in>set (children buf p l). nil_range buf k")
    case True
    then obtain k where k: "k \<in> set (children buf p l)" "nil_range buf k" by blast
    have "visit ?h (children buf p l) True = None"
      using k(1)
    proof (rule visit_none)
      show "?h k s = None" for s by (rule kid(1) [OF k])
      show "?h k s = None \<or> (\<exists>s'. ?h k s = Some (False, s'))" if "k \<in> set (children buf p l)" for k s
        using kid [OF that] by blast
    qed
    then show ?thesis using True d by (simp add: sdp_attribute_list_valid_def traverse_visits [OF el])
  next
    case False
    then have "visit ?h (children buf p l) True = Some (False, (\<forall>k\<in>set (children buf p l). id_ok buf k) \<and> True)"
      using kid by (intro visit_all) blast
    then show ?thesis using False d by (simp add: sdp_attribute_list_valid_def traverse_visits [OF el])
  qed
qed

section \<open>Elements of an encoding\<close>

text \<open>What an element must satisfy for its bytes to describe it.\<close>

fun de_ok :: "delem \<Rightarrow> bool" where
  "de_ok (Number ty sz v) \<longleftrightarrow> ty < 32 \<and> ty \<noteq> DE_DES \<and> sz \<le> 2 \<and> (ty = DE_NIL \<longrightarrow> sz = 0)"
| "de_ok (Block ty d) \<longleftrightarrow> ty < 32 \<and> ty \<noteq> DE_DES \<and> length d < 65536"
| "de_ok (Uuid128 u) \<longleftrightarrow> length u = 16"
| "de_ok (Sequence ds) \<longleftrightarrow> (\<forall>d\<in>set ds. de_ok d) \<and> length (body ds) < 65536"

fun de_head :: "delem \<Rightarrow> u8 \<times> u8" where
  "de_head (Number ty sz v) = (ty, sz)"
| "de_head (Block ty d) = (ty, if 255 < length d then DE_SIZE_VAR_16 else DE_SIZE_VAR_8)"
| "de_head (Uuid128 u) = (DE_UUID, DE_SIZE_128)"
| "de_head (Sequence ds) = (DE_DES, DE_SIZE_VAR_16)"

lemma head_bits:
  "drop_bit 3 (push_bit 3 (take_bit 5 ty) OR take_bit 3 sz) = take_bit 5 (ty :: u8)"
  "take_bit 3 (push_bit 3 ty OR take_bit 3 sz) = take_bit 3 (sz :: u8)"
  by (rule bit_word_eqI; auto simp: bit_simps)+

lemma and_7: "b AND 7 = take_bit 3 (b :: u8)"
  by (simp add: take_bit_eq_mask mask_eq_exp_minus_1)

lemma head_parts:
  assumes "ty < (32 :: u8)" and "sz < (8 :: u8)"
  shows "drop_bit 3 (push_bit 3 ty OR sz) = ty" and "(push_bit 3 ty OR sz) AND 7 = sz"
proof -
  have "take_bit 3 sz = sz" "take_bit 5 ty = ty"
    using assms by (simp_all add: word_unat_eq_iff unsigned_take_bit_eq take_bit_nat_eq_self word_less_nat_alt)
  then show "drop_bit 3 (push_bit 3 ty OR sz) = ty" and "(push_bit 3 ty OR sz) AND 7 = sz"
    using head_bits [of ty sz] by (simp_all add: and_7)
qed

lemma enc_head:
  assumes "de_ok d"
  shows "drop_bit 3 (enc d ! 0) = fst (de_head d)" and "enc d ! 0 AND 7 = snd (de_head d)"
    and "0 < length (enc d)" and "fst (de_head d) < 32"
proof -
  have "enc d \<noteq> [] \<and> enc d ! 0 = push_bit 3 (fst (de_head d)) OR snd (de_head d)
      \<and> fst (de_head d) < 32 \<and> snd (de_head d) < 8"
    using assms by (cases d) (auto simp: enc_Sequence intro: le_less_trans)
  then show "drop_bit 3 (enc d ! 0) = fst (de_head d)" and "enc d ! 0 AND 7 = snd (de_head d)"
    and "0 < length (enc d)" and "fst (de_head d) < 32"
    using head_parts [of "fst (de_head d)" "snd (de_head d)"] by (simp_all only: length_greater_0_conv simp_thms)
qed

lemma unat_u16_to_u32 [simp]: "unat (ucast (x :: u16) :: u32) = unat x"
  using unat_u16_lt [of x] by (simp add: unsigned_ucast_eq take_bit_nat_eq_self)

text \<open>The length functions on an encoded element.\<close>

lemma enc_data_size:
  assumes "de_ok d"
  shows "\<exists>h s. de_get_header_size (pre @ enc d @ rest) (length pre) = Some h
    \<and> de_get_data_size (pre @ enc d @ rest) (length pre) = Some s \<and> unat h + unat s = length (enc d) \<and> unat s < 65536"
proof -
  let ?b = "pre @ enc d @ rest"
  have b0: "?b ! length pre = enc d ! 0" using enc_head(3) [OF assms] by (simp add: nth_append)
  have lt: "length pre < length ?b" using enc_head(3) [OF assms] by simp
  note hs = header_size_Some [OF lt, unfolded b0] and head = enc_head(1,2) [OF assms]
  have ty: "de_get_element_type ?b (length pre) = Some (fst (de_head d))"
    and sz: "de_get_size_type ?b (length pre) = Some (snd (de_head d))"
    using lt b0 head by (simp_all add: de_get_element_type_def de_get_size_type_def)
  show ?thesis
  proof (cases d)
    case (Number t s v)
    then consider "s = 0" "t = 0" | "s = 0" "t \<noteq> 0" | "s = 1" "t \<noteq> 0" | "s = 2" "t \<noteq> 0"
    proof -
      have "unat s \<le> 2" using assms Number by (simp add: word_le_nat_alt)
      then have "unat s \<in> {0, 1, 2}" by auto
      then have "s = 0 \<or> s = 1 \<or> s = 2" by (auto simp: word_unat_eq_iff)
      then show ?thesis using that assms Number by auto
    qed
    then show ?thesis
      using hs ty sz head Number by cases (auto simp: de_get_data_size_def)
  next
    case (Block t bs)
    have w: "unat (of_nat (length bs) :: u16) = length bs" "unat (of_nat (length bs) :: u8) = length bs \<or> 255 < length bs"
      using assms Block by (auto simp: unat_of_nat_u16 unsigned_of_nat take_bit_nat_eq_self)
    show ?thesis
    proof (cases "255 < length bs")
      case True
      have "big_endian_read_16 ?b (length pre + 1) = Some (of_nat (length bs))"
        using read_16_at [of "length pre + 1" "pre @ [push_bit 3 t OR 6]" "of_nat (length bs)" "bs @ rest"] True Block by simp
      then show ?thesis using hs ty sz head w True Block assms by (auto simp: de_get_data_size_def)
    next
      case False
      have "rd ?b (length pre + 1) = Some (of_nat (length bs))"
        using False Block by (simp add: rd_append rd_Cons del: rd_Some)
      then show ?thesis using hs ty sz head w False Block assms by (auto simp: de_get_data_size_def)
    qed
  next
    case (Uuid128 u)
    then show ?thesis using hs ty sz head assms by (auto simp: de_get_data_size_def min_absorb2)
  next
    case (Sequence ds)
    have w: "unat (of_nat (length (body ds)) :: u16) = length (body ds)"
      using assms Sequence by (auto simp: unat_of_nat_u16)
    have "big_endian_read_16 ?b (length pre + 1) = Some (of_nat (length (body ds)))"
      using seq_data_size [of pre ds rest] Sequence by simp
    then show ?thesis using hs ty sz head w Sequence assms by (auto simp: de_get_data_size_def length_seq_bytes)
  qed
qed

lemma enc_elem:
  assumes "de_ok d"
  shows "elem_at (pre @ enc d @ rest) (length pre) (length (enc d))"
    and "length (enc d) \<le> unat sz \<Longrightarrow> unat sz < 2 ^ 31 \<Longrightarrow>
      de_get_len_safe (pre @ enc d @ rest) (length pre) sz = Some (of_nat (length (enc d)))"
    and "length (enc d) < 65541"
proof -
  let ?b = "pre @ enc d @ rest"
  from enc_data_size [OF assms] obtain h s where hs: "de_get_header_size ?b (length pre) = Some h"
    "de_get_data_size ?b (length pre) = Some s" "unat h + unat s = length (enc d)" "unat s < 65536" by blast
  have h: "1 \<le> unat h" "unat h \<le> 5" using header_size_bounds [OF hs(1)] by auto
  show l: "length (enc d) < 65541" using hs(3,4) h by linarith
  have sum: "h + s = of_nat (length (enc d))" by (simp flip: hs(3))
  have len: "unat (h + s) = length (enc d)" unfolding sum using l by (intro unat_of_nat_u32) simp
  then show "elem_at ?b (length pre) (length (enc d))"
    unfolding elem_at_def de_get_len_def using hs h l sum enc_head(3) [OF assms] by (intro conjI exI [of _ h]) simp_all
  assume sz: "length (enc d) \<le> unat sz" "unat sz < 2 ^ 31"
  then have "\<not> 1 > sz" "\<not> h > sz" "\<not> s > sz" "\<not> h + s > sz"
    using hs(3) h len by (simp_all add: word_less_nat_alt)
  then show "de_get_len_safe ?b (length pre) sz = Some (of_nat (length (enc d)))"
    unfolding de_get_len_safe_def by (simp add: hs(1,2) Let_def sum)
qed

text \<open>The offsets of encoded elements that follow each other.\<close>

fun offsets :: "nat \<Rightarrow> delem list \<Rightarrow> nat list" where
  "offsets p [] = []"
| "offsets p (d # ds) = p # offsets (p + length (enc d)) ds"

lemma kids_enc:
  assumes "\<forall>d\<in>set ds. de_ok d" and "length (body ds) < 2 ^ 31"
  shows "kids (pre @ body ds @ rest) (length pre) (length pre + length (body ds))
    = zip (offsets (length pre) ds) (map (\<lambda>d. length (enc d)) ds)"
  using assms
proof (induction ds arbitrary: pre)
  case Nil
  then show ?case by (simp add: kids.simps)
next
  case (Cons d ds)
  have d: "de_ok d" and pos: "0 < length (enc d)" using Cons.prems enc_head(3) by simp_all
  let ?sz = "of_nat (length pre + length (body (d # ds)) - length pre) :: u32"
  have sz: "unat ?sz = length (body (d # ds))" using Cons.prems(2) by (simp only: add_diff_cancel_left') (intro unat_of_nat_u32, simp)
  have "de_get_len_safe (pre @ body (d # ds) @ rest) (length pre) ?sz = Some (of_nat (length (enc d)))"
    using enc_elem(2) [OF d, of ?sz pre "body ds @ rest"] Cons.prems(2) unfolding sz by simp
  moreover have u: "unat (of_nat (length (enc d)) :: u32) = length (enc d)"
    using enc_elem(3) [OF d] by (intro unat_of_nat_u32) simp
  then have "(of_nat (length (enc d)) :: u32) \<noteq> 0" using pos by (metis unsigned_0 less_irrefl)
  ultimately have "kids (pre @ body (d # ds) @ rest) (length pre) (length pre + length (body (d # ds)))
      = (length pre, length (enc d)) # kids (pre @ body (d # ds) @ rest) (length pre + length (enc d))
          (length pre + length (body (d # ds)))"
    using kids_next [of "length pre" "length pre + length (body (d # ds))" ?sz] pos u by simp
  moreover have "kids (pre @ body (d # ds) @ rest) (length pre + length (enc d)) (length pre + length (body (d # ds)))
      = zip (offsets (length pre + length (enc d)) ds) (map (\<lambda>d. length (enc d)) ds)"
    using Cons.IH [of "pre @ enc d"] Cons.prems by (simp add: add.assoc)
  ultimately show ?case by simp
qed

lemma length_offsets [simp]: "length (offsets p ds) = length ds"
  by (induction ds arbitrary: p) auto

text \<open>The children of an encoded sequence.\<close>

lemma children_enc:
  assumes "de_ok (Sequence ds)"
  shows "children (pre @ seq_bytes ds @ rest) (length pre) (length (seq_bytes ds)) = offsets (length pre + 3) ds"
    and "drop_bit 3 ((pre @ seq_bytes ds @ rest) ! length pre) = DE_DES"
    and "elem_at (pre @ seq_bytes ds @ rest) (length pre) (length (seq_bytes ds))"
    and "kids_exact (pre @ seq_bytes ds @ rest) (length pre + 3) (length pre + length (seq_bytes ds))"
    and "hdr (pre @ seq_bytes ds @ rest) (length pre) = 3"
proof -
  let ?b = "pre @ seq_bytes ds @ rest"
  have h: "?b ! length pre = 0x36" by (simp add: enc_Sequence nth_append)
  then show hd: "hdr ?b (length pre) = 3" and "drop_bit 3 (?b ! length pre) = DE_DES"
    by (simp_all add: hdr_def)
  show "elem_at ?b (length pre) (length (seq_bytes ds))" by (rule enc_elem(1) [OF assms])
  have "kids ?b (length pre + 3) (length pre + length (seq_bytes ds))
      = zip (offsets (length pre + 3) ds) (map (\<lambda>d. length (enc d)) ds)"
    using kids_enc [of ds "pre @ 0x36 # be16 (of_nat (length (body ds)))" rest] assms
    by (simp add: length_seq_bytes add.assoc) (simp add: enc_Sequence)
  then show "children ?b (length pre) (length (seq_bytes ds)) = offsets (length pre + 3) ds"
    and "kids_exact ?b (length pre + 3) (length pre + length (seq_bytes ds))"
    by (simp_all add: children_def hd kids_exact_def length_seq_bytes body_def length_concat comp_def)
qed

text \<open>A handler that only looks at the element.\<close>

lemma visit_children:
  assumes "\<And>d p' r' s. d \<in> set ds \<Longrightarrow> b = p' @ enc d @ r' \<Longrightarrow> I s \<Longrightarrow> f (length p') s = g d s"
    and "\<And>d s s'. d \<in> set ds \<Longrightarrow> I s \<Longrightarrow> g d s = Some (False, s') \<Longrightarrow> I s'"
    and "b = pre @ body ds @ rest" and "I s"
  shows "visit f (offsets (length pre) ds) s = visit g ds s"
  using assms
proof (induction ds arbitrary: pre s)
  case (Cons d ds)
  have b: "b = pre @ enc d @ body ds @ rest" using Cons.prems(3) by simp
  have 1: "f (length pre) s = g d s"
    using Cons.prems(1) [OF _ b Cons.prems(4)] by simp
  have "visit f (offsets (length (pre @ enc d)) ds) s' = visit g ds s'" if "g d s = Some (False, s')" for s'
  proof (rule Cons.IH)
    show "I s'" using Cons.prems(2) [OF _ Cons.prems(4) that] by simp
    show "b = (pre @ enc d) @ body ds @ rest" using b by simp
    show "I u'" if "x \<in> set ds" "I u" "g x u = Some (False, u')" for x u u'
      using Cons.prems(2) [OF _ that(2,3)] that(1) by simp
    show "f (length p') u = g w u" if "w \<in> set ds" "b = p' @ enc w @ r'" "I u" for w p' r' u
      using Cons.prems(1) [OF _ that(2,3)] that(1) by simp
  qed
  then show ?case by (simp add: 1 split: option.split)
qed simp

section \<open>Records\<close>

definition attrs_ok :: "attribute list \<Rightarrow> bool" where
  "attrs_ok as \<longleftrightarrow> (\<forall>(aid, v)\<in>set as. de_ok v) \<and> length (seq_bytes (attribute_list as)) < 65536"

fun value_offsets :: "nat \<Rightarrow> attribute list \<Rightarrow> (u16 \<times> nat) list" where
  "value_offsets p [] = []"
| "value_offsets p ((aid, v) # as) = (aid, p + 3) # value_offsets (p + 3 + length (enc v)) as"

lemma attribute_list_simps [simp]:
  "attribute_list [] = []"
  "attribute_list ((aid, v) # as) = Number DE_UINT DE_SIZE_16 (ucast aid) # v # attribute_list as"
  "attribute_list (as @ bs) = attribute_list as @ attribute_list bs"
  by (simp_all add: attribute_list_def)

lemma ucast_u16_back [simp]: "(ucast (ucast (x :: u16) :: u32) :: u16) = x"
  by transfer (simp add: min_def)

definition id_bytes :: "u16 \<Rightarrow> bytes" where
  "id_bytes aid = 9 # be16 aid"

lemma enc_id: "enc (Number 1 1 (ucast aid)) = id_bytes aid"
  by (simp add: id_bytes_def)

lemma length_id_bytes [simp]: "length (id_bytes aid) = 3"
  by (simp add: id_bytes_def)

lemma attrs_enc:
  "attrs (pre @ body (attribute_list as) @ rest) (offsets (length pre) (attribute_list as)) = value_offsets (length pre) as"
proof (induction as arbitrary: pre)
  case (Cons av as)
  obtain aid v where av: "av = (aid, v)" by (cases av)
  let ?b = "pre @ body (attribute_list (av # as)) @ rest"
  have b: "?b = pre @ 9 # be16 aid @ enc v @ body (attribute_list as) @ rest"
    by (simp add: av enc_id [unfolded id_bytes_def] del: enc.simps)
  have "?b ! length pre = 9" by (simp add: b)
  moreover have "big_endian_read_16 ?b (length pre + 1) = Some aid"
    using read_16_at [of "length pre + 1" "pre @ [9]" aid "enc v @ body (attribute_list as) @ rest"] by (simp add: b)
  moreover have "attrs ?b (offsets (length pre + 3 + length (enc v)) (attribute_list as))
      = value_offsets (length pre + 3 + length (enc v)) as"
    using Cons.IH [of "pre @ id_bytes aid @ enc v"] by (simp add: b add.assoc) (simp add: id_bytes_def)
  ultimately show ?case by (simp add: av del: body_simps)
qed simp

lemma record_visits:
  assumes "attrs_ok as"
  shows "sdp_attribute_list_traverse_sequence (pre @ seq_bytes (attribute_list as) @ rest) (length pre) h s
    = map_option snd (visit (on_attr (pre @ seq_bytes (attribute_list as) @ rest) h) (value_offsets (length pre + 3) as) s)"
proof -
  have ok: "de_ok (Sequence (attribute_list as))"
    using assms by (auto simp: attrs_ok_def attribute_list_def length_seq_bytes)
  show ?thesis
    using attributes_visits [OF children_enc(3) [OF ok], of pre rest h s] children_enc(1,2) [OF ok, of pre rest]
      attrs_enc [of "pre @ 0x36 # be16 (of_nat (length (body (attribute_list as))))" as rest]
    by (simp add: enc_Sequence)
qed

text \<open>A handler that only looks at the ID and the value, on a record.\<close>

lemma visit_values:
  assumes "\<And>aid v p' r' s. (aid, v) \<in> set as \<Longrightarrow> b = p' @ enc v @ r' \<Longrightarrow> I s \<Longrightarrow>
      on_attr b h (aid, length p') s = g (aid, v) s"
    and "\<And>av s s'. av \<in> set as \<Longrightarrow> I s \<Longrightarrow> g av s = Some (False, s') \<Longrightarrow> I s'"
    and "b = pre @ body (attribute_list as) @ rest" and "I s"
  shows "visit (on_attr b h) (value_offsets (length pre) as) s = visit g as s"
  using assms
proof (induction as arbitrary: pre s)
  case (Cons av as)
  obtain aid v where av: "av = (aid, v)" by (cases av)
  have b: "b = (pre @ id_bytes aid) @ enc v @ body (attribute_list as) @ rest"
    using Cons.prems(3) by (simp add: av enc_id del: enc.simps)
  have 1: "on_attr b h (aid, length pre + 3) s = g (aid, v) s"
    using Cons.prems(1) [OF _ b Cons.prems(4), of aid] av by simp
  have "visit (on_attr b h) (value_offsets (length (pre @ id_bytes aid @ enc v)) as) s' = visit g as s'"
    if "g (aid, v) s = Some (False, s')" for s'
  proof (rule Cons.IH)
    show "I s'" using Cons.prems(2) [OF _ Cons.prems(4) that] av by simp
    show "b = (pre @ id_bytes aid @ enc v) @ body (attribute_list as) @ rest" using b by simp
    show "I u'" if "x \<in> set as" "I u" "g x u = Some (False, u')" for x u u'
      using Cons.prems(2) [OF _ that(2,3)] that(1) by simp
    show "on_attr b h (x, length p') u = g (x, w) u" if "(x, w) \<in> set as" "b = p' @ enc w @ r'" "I u" for x w p' r' u
      using Cons.prems(1) [OF _ that(2,3)] that(1) by simp
  qed
  then have 2: "visit (on_attr b h) (value_offsets (length pre + 3 + length (enc v)) as) s' = visit g as s'"
    if "g (aid, v) s = Some (False, s')" for s'
    using that by (simp add: add.assoc)
  show ?case by (simp add: av 1 2 split: option.split)
qed simp

text \<open>Such a handler, on a record; \<open>I\<close> is an invariant of the context, where the handler needs one.\<close>

lemma traverse_record:
  assumes "attrs_ok as"
    and "\<And>aid v p' r' s. (aid, v) \<in> set as \<Longrightarrow> pre @ seq_bytes (attribute_list as) @ rest = p' @ enc v @ r' \<Longrightarrow> I s \<Longrightarrow>
      on_attr (pre @ seq_bytes (attribute_list as) @ rest) h (aid, length p') s = g (aid, v) s"
    and "\<And>av s s'. av \<in> set as \<Longrightarrow> I s \<Longrightarrow> g av s = Some (False, s') \<Longrightarrow> I s'" and "I s"
  shows "sdp_attribute_list_traverse_sequence (pre @ seq_bytes (attribute_list as) @ rest) (length pre) h s
    = map_option snd (visit g as s)"
proof -
  have "visit (on_attr (pre @ seq_bytes (attribute_list as) @ rest) h) (value_offsets (length pre + 3) as) s = visit g as s"
    using visit_values [of as "pre @ seq_bytes (attribute_list as) @ rest" I h g
        "pre @ 0x36 # be16 (of_nat (length (body (attribute_list as))))" rest s] assms(2-4)
    by (simp add: enc_Sequence)
  then show ?thesis using record_visits [OF assms(1), of pre rest h s] by simp
qed

text \<open>The value of an attribute, by its ID.\<close>

lemma value_at:
  assumes "de_ok v"
  shows "on_attr (p @ enc v @ r) h (aid, length p) s = h aid (length p) (fst (de_head v)) (snd (de_head v)) s"
    and "de_get_len (p @ enc v @ r) (length p) = Some (of_nat (length (enc v)))"
proof -
  have "(p @ enc v @ r) ! length p = enc v ! 0" using enc_head(3) [OF assms] by (simp add: nth_append)
  then show "on_attr (p @ enc v @ r) h (aid, length p) s = h aid (length p) (fst (de_head v)) (snd (de_head v)) s"
    using enc_head(1,2) [OF assms] by (simp add: on_attr_def on_kid_def)
  show "de_get_len (p @ enc v @ r) (length p) = Some (of_nat (length (enc v)))"
    using enc_elem(1) [OF assms, of p r] by (simp add: elem_at_def)
qed

end
