(* ===== verification/SdpSearch.thy ===== *)
theory SdpSearch
  imports SdpQuery
begin

text \<open>
  The answers of \<open>SdpUtil\<close> on a service record that is the encoding of attributes, as the firmware's
  are: the copied part of the selected attributes is exactly the requested slice of their bytes, a
  look-up finds the first attribute with an ID, a change of a number is read back, and a record
  contains the UUIDs that occur in its tree.
\<close>

section \<open>The filter\<close>

text \<open>The bytes of the selected attributes, each its ID and its value.\<close>

definition attribute_bytes :: "attribute \<Rightarrow> bytes" where
  "attribute_bytes av = id_bytes (fst av) @ enc (snd av)"

definition selected :: "(u16 \<Rightarrow> bool) \<Rightarrow> attribute list \<Rightarrow> bytes" where
  "selected sel as = concat (map attribute_bytes (filter (\<lambda>av. sel (fst av)) as))"

definition overwrite :: "bytes \<Rightarrow> nat \<Rightarrow> bytes \<Rightarrow> bytes" where
  "overwrite buf at src = take at buf @ src @ drop (at + length src) buf"

lemma overwrite_Nil [simp]: "overwrite buf at [] = buf"
  by (simp add: overwrite_def)

lemma length_overwrite [simp]: "at + length src \<le> length buf \<Longrightarrow> length (overwrite buf at src) = length buf"
  by (simp add: overwrite_def)

lemma overwrite_overwrite:
  assumes "at + length s \<le> length buf"
  shows "overwrite (overwrite buf at s) (at + length s) t = overwrite buf at (s @ t)"
proof -
  have "drop (length t + (at + length s)) buf = drop (at + (length s + length t)) buf"
    by (rule arg_cong [of _ _ "\<lambda>n. drop n buf"]) simp
  then show ?thesis using assms by (simp add: overwrite_def)
qed

lemma wr_range_overwrite: "at + length src \<le> length buf \<Longrightarrow> wr_range buf at src = Some (overwrite buf at src)"
  by (simp add: overwrite_def)

text \<open>
  One step of the filter on a piece of the output: it is skipped when it lies before the start offset,
  and else copied from there on, as far as it fits.
\<close>

definition emit :: "filter_context \<Rightarrow> bytes \<Rightarrow> filter_context" where
  "emit c out = c\<lparr>f_buffer := overwrite (f_buffer c) (f_at c) out, f_at := f_at c + length out, startOffset := 0,
     maxBytes := maxBytes c - of_nat (length out), usedBytes := usedBytes c + of_nat (length out)\<rparr>"

definition piece :: "bytes \<Rightarrow> filter_context \<Rightarrow> bool \<times> filter_context" where
  "piece p c =
     (if length p \<le> unat (startOffset c) then (True, c\<lparr>startOffset := startOffset c - of_nat (length p)\<rparr>)
      else (length p - unat (startOffset c) \<le> unat (maxBytes c),
            emit c (take (unat (maxBytes c)) (drop (unat (startOffset c)) p))))"

lemma append_range_piece:
  assumes "unat (startOffset c) < length p" and "length p < 65536"
    and "f_at c + unat (maxBytes c) \<le> length (f_buffer c)"
  shows "spd_append_range c (of_nat (length p)) (p @ rest) = Some (piece p c)"
proof -
  let ?s = "unat (startOffset c)" and ?m = "unat (maxBytes c)"
  have rem: "unat (of_nat (length p) - startOffset c) = length p - ?s"
    using assms by (subst unat_sub) (simp_all add: word_le_nat_alt unat_of_nat_u16)
  have eq: "(of_nat (length p - ?s) :: u16) = of_nat (length p) - startOffset c"
    using assms(2) unfolding word_unat_eq_iff rem by (intro unat_of_nat_u16) simp
  define out where "out = take ?m (drop ?s p)"
  have out: "length out = min ?m (length p - ?s)" by (simp add: out_def min.commute)
  show ?thesis
  proof (cases "maxBytes c < of_nat (length p) - startOffset c")
    case True
    then have lt: "?m < length p - ?s" by (simp add: word_less_nat_alt rem)
    then have o: "rd_range (p @ rest) ?s ?m = Some out" "length out = ?m"
      using out by (simp_all add: out_def)
    have "wr_range (f_buffer c) (f_at c) out = Some (overwrite (f_buffer c) (f_at c) out)"
      using assms(3) o(2) by (intro wr_range_overwrite) simp
    then show ?thesis
      using True lt assms(1) o by (simp add: spd_append_range_def piece_def emit_def out_def [symmetric] Let_def)
  next
    case False
    then have le: "length p - ?s \<le> ?m" by (simp add: word_less_nat_alt rem)
    then have o: "rd_range (p @ rest) ?s (length p - ?s) = Some out" "length out = length p - ?s"
      using out assms(1) by (simp_all add: out_def min_absorb2 rd_range_def)
    have "wr_range (f_buffer c) (f_at c) out = Some (overwrite (f_buffer c) (f_at c) out)"
      using assms(3) o(2) le by (intro wr_range_overwrite) simp
    then show ?thesis
      using False le assms(1) o
      by (simp add: spd_append_range_def piece_def emit_def out_def [symmetric] Let_def rem eq)
  qed
qed

lemma filter_id_piece:
  assumes "f_at c + unat (maxBytes c) \<le> length (f_buffer c)"
  shows "filter_id aid c = Some (piece (id_bytes aid) c)"
proof (cases "startOffset c \<ge> 3")
  case True
  then show ?thesis by (simp add: filter_id_def piece_def word_le_nat_alt)
next
  case False
  then have "unat (startOffset c) < 3" by (simp add: word_le_nat_alt)
  then have "spd_append_range c 3 (id_bytes aid) = Some (piece (id_bytes aid) c)"
    using append_range_piece [of c "id_bytes aid" "[]"] assms by simp
  moreover have "big_endian_store_16 [9, 0, 0] 0 1 aid = Some (id_bytes aid)"
    using store_16_at [of 0 1 "[9]" 0 0 "[]" aid] by (simp add: id_bytes_def)
  ultimately show ?thesis using False by (simp add: filter_id_def de_store_descriptor_def)
qed

text \<open>Several pieces one behind the other behave like one: the slice of their concatenation.\<close>

fun run_pieces :: "bytes list \<Rightarrow> filter_context \<Rightarrow> bool \<times> filter_context" where
  "run_pieces [] c = (True, c)"
| "run_pieces (p # ps) c = (case piece p c of (ok, c') \<Rightarrow> if ok then run_pieces ps c' else (False, c'))"

text \<open>The requested part of \<open>S\<close>, and a context that has received it.\<close>

definition slice :: "filter_context \<Rightarrow> bytes \<Rightarrow> bytes" where
  "slice c S = take (unat (maxBytes c)) (drop (unat (startOffset c)) S)"

definition received :: "filter_context \<Rightarrow> bytes \<Rightarrow> bool \<Rightarrow> filter_context \<Rightarrow> bool" where
  "received c S ok c' \<longleftrightarrow>
     (ok \<longleftrightarrow> length S \<le> unat (startOffset c) + unat (maxBytes c))
     \<and> f_buffer c' = overwrite (f_buffer c) (f_at c) (slice c S)
     \<and> f_at c' = f_at c + length (slice c S)
     \<and> unat (maxBytes c') = unat (maxBytes c) - length (slice c S)
     \<and> unat (usedBytes c') = unat (usedBytes c) + length (slice c S)
     \<and> f_complete c' = f_complete c
     \<and> (ok \<longrightarrow> unat (startOffset c') = unat (startOffset c) - length S)"

definition context_ok :: "filter_context \<Rightarrow> bool" where
  "context_ok c \<longleftrightarrow> f_at c + unat (maxBytes c) \<le> length (f_buffer c) \<and> unat (usedBytes c) + unat (maxBytes c) < 65536"

lemma received_piece:
  assumes "context_ok c" and "length p < 65536" and "p \<noteq> []" and "piece p c = (ok, c')"
  shows "received c p ok c'" and "context_ok c'"
proof -
  let ?s = "unat (startOffset c)" and ?m = "unat (maxBytes c)"
  have "received c p ok c' \<and> context_ok c'"
  proof (cases "length p \<le> ?s")
    case True
    then have c': "ok" "c' = c\<lparr>startOffset := startOffset c - of_nat (length p)\<rparr>"
      using assms(4) by (auto simp: piece_def)
    have "unat (startOffset c - of_nat (length p)) = ?s - length p"
      using True assms(2) by (subst unat_sub) (simp_all add: word_le_nat_alt unat_of_nat_u16)
    then show ?thesis using True c' assms(1) by (simp add: received_def slice_def context_ok_def)
  next
    case False
    define out where "out = slice c p"
    have c': "ok \<longleftrightarrow> length p - ?s \<le> ?m" "c' = emit c out"
      using assms(4) False by (auto simp: piece_def slice_def out_def)
    have len: "length out \<le> ?m" by (simp add: out_def slice_def)
    have l16: "length out < 65536" using len unat_u16_lt [of "maxBytes c"] by linarith
    have "unat (maxBytes c - of_nat (length out)) = ?m - length out"
      using len l16 by (subst unat_sub) (simp_all add: word_le_nat_alt unat_of_nat_u16)
    moreover have "unat (usedBytes c + of_nat (length out)) = unat (usedBytes c) + length out"
      using len l16 assms(1) by (simp add: context_ok_def unat_plus_if' unat_of_nat_u16)
    ultimately show ?thesis
      using False c' len assms(1) by (auto simp: received_def context_ok_def emit_def out_def [symmetric])
  qed
  then show "received c p ok c'" and "context_ok c'" by simp_all
qed

lemma received_append:
  assumes "context_ok c" and "received c S True c1" and "received c1 T ok c2"
  shows "received c (S @ T) ok c2"
proof -
  let ?s = "unat (startOffset c)" and ?m = "unat (maxBytes c)"
  have le: "length S \<le> ?s + ?m" using assms(2) by (simp add: received_def)
  have sl: "length (slice c S) = length S - ?s" using le by (simp add: slice_def min_absorb2)
  have s1: "unat (startOffset c1) = ?s - length S" "unat (maxBytes c1) = ?m - (length S - ?s)"
    using assms(2) by (simp_all add: received_def sl)
  have app: "slice c (S @ T) = slice c S @ slice c1 T"
    using le by (simp add: slice_def s1 sl min_absorb2)
  have m1: "length (slice c1 T) \<le> ?m - (length S - ?s)" by (simp add: slice_def s1)
  have at: "f_at c + length (slice c S) \<le> length (f_buffer c)"
    using assms(1) le by (auto simp: sl context_ok_def)
  have c1: "f_buffer c1 = overwrite (f_buffer c) (f_at c) (slice c S)" "f_at c1 = f_at c + length (slice c S)"
    "unat (usedBytes c1) = unat (usedBytes c) + length (slice c S)" "f_complete c1 = f_complete c"
    using assms(2) by (simp_all add: received_def)
  have c2: "f_buffer c2 = overwrite (f_buffer c1) (f_at c1) (slice c1 T)" "f_at c2 = f_at c1 + length (slice c1 T)"
    "unat (maxBytes c2) = unat (maxBytes c1) - length (slice c1 T)"
    "unat (usedBytes c2) = unat (usedBytes c1) + length (slice c1 T)" "f_complete c2 = f_complete c1"
    "ok \<longleftrightarrow> length T \<le> unat (startOffset c1) + unat (maxBytes c1)"
    "ok \<Longrightarrow> unat (startOffset c2) = unat (startOffset c1) - length T"
    using assms(3) by (simp_all add: received_def)
  have "f_buffer c2 = overwrite (f_buffer c) (f_at c) (slice c (S @ T))"
    by (simp add: c2(1) c1(1,2) app overwrite_overwrite [OF at])
  moreover have "ok \<longleftrightarrow> length (S @ T) \<le> ?s + ?m"
    using le by (simp add: c2(6) s1) linarith
  moreover have "unat (maxBytes c2) = ?m - length (slice c (S @ T))" by (simp add: c2(3) s1 app sl)
  moreover have "ok \<Longrightarrow> unat (startOffset c2) = ?s - length (S @ T)" by (simp add: c2(7) s1)
  ultimately show ?thesis by (simp add: received_def c2(2,4,5) c1(2,3,4) app)
qed

lemma received_stop:
  assumes "context_ok c" and "received c S False c1"
  shows "received c (S @ T) False c1"
proof -
  have "unat (startOffset c) + unat (maxBytes c) < length S" using assms(2) by (simp add: received_def)
  then have "slice c (S @ T) = slice c S" by (simp add: slice_def)
  with assms show ?thesis by (auto simp: received_def)
qed

lemma run_pieces_received:
  assumes "context_ok c" and "\<forall>p\<in>set ps. length p < 65536 \<and> p \<noteq> []" and "run_pieces ps c = (ok, c')"
  shows "received c (concat ps) ok c' \<and> context_ok c'"
  using assms
proof (induction ps arbitrary: c)
  case Nil
  then show ?case by (simp add: received_def slice_def)
next
  case (Cons p ps)
  obtain ok1 c1 where p: "piece p c = (ok1, c1)" by (cases "piece p c")
  have r: "received c p ok1 c1" "context_ok c1"
    using received_piece [OF Cons.prems(1) _ _ p] Cons.prems(2) by simp_all
  show ?case
  proof (cases ok1)
    case True
    then have "received c1 (concat ps) ok c' \<and> context_ok c'"
      using Cons.IH [OF r(2)] Cons.prems p by simp
    then show ?thesis using received_append [OF Cons.prems(1), of p c1 "concat ps" ok c'] r True by simp
  next
    case False
    then show ?thesis using received_stop [OF Cons.prems(1), of p c1 "concat ps"] r Cons.prems(3) p by simp
  qed
qed

lemma run_pieces_append:
  "run_pieces (ps @ qs) c = (case run_pieces ps c of (ok, c') \<Rightarrow> if ok then run_pieces qs c' else (False, c'))"
  by (induction ps arbitrary: c) (auto split: prod.split)

definition pieces :: "(u16 \<Rightarrow> bool) \<Rightarrow> attribute list \<Rightarrow> bytes list" where
  "pieces sel as = concat (map (\<lambda>av. [id_bytes (fst av), enc (snd av)]) (filter (\<lambda>av. sel (fst av)) as))"

lemma concat_pieces: "concat (pieces sel as) = selected sel as"
  by (induction as) (auto simp: pieces_def selected_def attribute_bytes_def)

definition filter_step :: "(u16 \<Rightarrow> bool) \<Rightarrow> attribute \<Rightarrow> filter_context \<Rightarrow> (bool \<times> filter_context) option" where
  "filter_step sel av c =
     (if sel (fst av) then
        (case run_pieces [id_bytes (fst av), enc (snd av)] c of
           (ok, c') \<Rightarrow> Some (\<not> ok, if ok then c' else c'\<lparr>f_complete := False\<rparr>))
      else Some (False, c))"

lemma visit_filter:
  "visit (filter_step sel) as c =
    (case run_pieces (pieces sel as) c of (ok, c') \<Rightarrow> Some (\<not> ok, if ok then c' else c'\<lparr>f_complete := False\<rparr>))"
proof (induction as arbitrary: c)
  case (Cons av as)
  show ?case
  proof (cases "sel (fst av)")
    case True
    then have "pieces sel (av # as) = [id_bytes (fst av), enc (snd av)] @ pieces sel as" by (simp add: pieces_def)
    then show ?thesis
      using True Cons.IH by (simp only: run_pieces_append) (simp add: filter_step_def del: run_pieces.simps split: prod.split)
  next
    case False
    then show ?thesis using Cons.IH by (simp add: filter_step_def pieces_def)
  qed
qed (simp add: pieces_def)

lemma sint_length: "n < 2 ^ 31 \<Longrightarrow> sint (of_nat n :: u32) = int n"
  by (simp add: signed_of_nat signed_take_bit_int_eq_self)

lemma filter_handler:
  assumes sel: "\<And>aid. sdp_attribute_list_contains_id lst lp aid = Some (sel aid)"
    and v: "de_ok v" "length (enc v) < 65536" and c: "context_ok c"
  shows "on_attr (p @ enc v @ r) (sdp_traversal_filter_attributes (p @ enc v @ r) lst lp) (aid, length p) c
    = filter_step sel (aid, v) c"
proof -
  obtain ok1 c1 where c1: "piece (id_bytes aid) c = (ok1, c1)" by (cases "piece (id_bytes aid) c")
  have b: "f_at c + unat (maxBytes c) \<le> length (f_buffer c)" using c by (simp add: context_ok_def)
  have ok1: "context_ok c1" using received_piece(2) [OF c _ _ c1] by (simp add: id_bytes_def)
  then have b1: "f_at c1 + unat (maxBytes c1) \<le> length (f_buffer c1)" by (simp add: context_ok_def)
  have n: "sint (of_nat (length (enc v)) :: u32) = int (length (enc v))" using v(2) by (intro sint_length) simp
  have u: "(ucast (of_nat (length (enc v)) :: u32) :: u16) = of_nat (length (enc v))" by (rule ucast_of_nat_narrow) simp
  have le: "uint (startOffset c1) \<ge> int (length (enc v)) \<longleftrightarrow> length (enc v) \<le> unat (startOffset c1)"
    using uint_nat [of "startOffset c1"] by linarith
  have ap: "spd_append_range c1 (of_nat (length (enc v))) (enc v @ r) = Some (piece (enc v) c1)"
    if "\<not> length (enc v) \<le> unat (startOffset c1)"
    using append_range_piece [OF _ v(2) b1] that by simp
  show ?thesis
    unfolding value_at(1) [OF v(1)] sdp_traversal_filter_attributes_def filter_step_def
    using sel [of aid] filter_id_piece [OF b, of aid] value_at(2) [OF v(1), of p r]
    by (auto simp: c1 n u le ap piece_def [of "enc v"] split: prod.split)
qed

text \<open>The contract of the filter: the slice from the start offset, as much as fits, and whether it is the rest.\<close>

lemma filter_contract:
  assumes rec: "attrs_ok as"
    and sel: "\<And>aid. sdp_attribute_list_contains_id lst lp aid = Some (sel aid)"
    and room: "at + unat mx \<le> length buffer"
  shows "sdp_filter_attributes_in_attributeIDList (pre @ seq_bytes (attribute_list as) @ rest) (length pre) lst lp start mx buffer at
    = Some (let out = take (unat mx) (drop (unat start) (selected sel as)) in
        (length (selected sel as) \<le> unat start + unat mx, of_nat (length out), overwrite buffer at out))"
proof -
  let ?c = "\<lparr>f_buffer = buffer, f_at = at, startOffset = start, maxBytes = mx, usedBytes = 0, f_complete = True\<rparr>"
  have c: "context_ok ?c" using room unat_u16_lt [of mx] by (simp add: context_ok_def)
  have vs: "de_ok v" "length (enc v) < 65536" if "(aid, v) \<in> set as" for aid v
  proof -
    show "de_ok v" using rec that by (auto simp: attrs_ok_def)
    have "length (enc v) \<le> length (body (attribute_list as))"
      using that by (induction as) auto
    then show "length (enc v) < 65536" using rec by (simp add: attrs_ok_def length_seq_bytes)
  qed
  obtain ok c' where run: "run_pieces (pieces sel as) ?c = (ok, c')" by (cases "run_pieces (pieces sel as) ?c")
  have "\<forall>p\<in>set (pieces sel as). length p < 65536 \<and> p \<noteq> []"
    using vs enc_head(3) by (auto simp: pieces_def id_bytes_def)
  from run_pieces_received [OF c this run] have rc: "received ?c (selected sel as) ok c'"
    by (simp add: concat_pieces)
  have "sdp_attribute_list_traverse_sequence (pre @ seq_bytes (attribute_list as) @ rest) (length pre)
      (sdp_traversal_filter_attributes (pre @ seq_bytes (attribute_list as) @ rest) lst lp) ?c
    = map_option snd (visit (filter_step sel) as ?c)"
  proof (rule traverse_record [where I = context_ok])
    show "context_ok ?c" by (rule c)
    show "on_attr (pre @ seq_bytes (attribute_list as) @ rest)
        (sdp_traversal_filter_attributes (pre @ seq_bytes (attribute_list as) @ rest) lst lp) (aid, length p') s
      = filter_step sel (aid, v) s"
      if "(aid, v) \<in> set as" "pre @ seq_bytes (attribute_list as) @ rest = p' @ enc v @ r'" "context_ok s" for aid v p' r' s
      unfolding that(2) by (rule filter_handler [OF sel vs [OF that(1)] that(3)])
    show "context_ok s'" if "av \<in> set as" "context_ok s" "filter_step sel av s = Some (False, s')" for av s s'
    proof (cases "sel (fst av)")
      case True
      have "\<forall>p\<in>set [id_bytes (fst av), enc (snd av)]. length p < 65536 \<and> p \<noteq> []"
        using vs [of "fst av" "snd av"] that(1) enc_head(3) by (auto simp: id_bytes_def)
      with True that show ?thesis
        using run_pieces_received [OF that(2), of "[id_bytes (fst av), enc (snd av)]"]
        by (auto simp: filter_step_def simp del: run_pieces.simps split: prod.splits if_splits)
    qed (use that in \<open>simp add: filter_step_def\<close>)
  qed (rule rec)
  moreover have "unat (usedBytes c') = length (slice ?c (selected sel as))" using rc by (simp add: received_def)
  then have "usedBytes c' = of_nat (length (slice ?c (selected sel as)))" by (metis of_nat_unat ucast_id)
  ultimately show ?thesis
    using rc by (auto simp: sdp_filter_attributes_in_attributeIDList_def visit_filter run received_def slice_def Let_def)
qed

section \<open>Sizes and single attributes\<close>

lemma visit_fold: "(\<And>k s. k \<in> set ks \<Longrightarrow> h k s = Some (False, f k s)) \<Longrightarrow> visit h ks s = Some (False, fold f ks s)"
  by (induction ks arbitrary: s) auto

lemma filtered_size:
  assumes rec: "attrs_ok as" and sel: "\<And>aid. sdp_attribute_list_contains_id lst lp aid = Some (sel aid)"
  shows "sdp_get_filtered_size (pre @ seq_bytes (attribute_list as) @ rest) (length pre) lst lp
    = Some (of_nat (length (selected sel as)))"
proof -
  let ?g = "\<lambda>av s. Some (False, if sel (fst av) then s + of_nat (length (attribute_bytes av)) else s) :: (bool \<times> u16) option"
  have "sdp_attribute_list_traverse_sequence (pre @ seq_bytes (attribute_list as) @ rest) (length pre)
      (sdp_traversal_get_filtered_size (pre @ seq_bytes (attribute_list as) @ rest) lst lp) 0
    = map_option snd (visit ?g as 0)"
  proof (rule traverse_record [where I = "\<lambda>_. True"])
    show "on_attr (pre @ seq_bytes (attribute_list as) @ rest)
        (sdp_traversal_get_filtered_size (pre @ seq_bytes (attribute_list as) @ rest) lst lp) (aid, length p') s = ?g (aid, v) s"
      if "(aid, v) \<in> set as" "pre @ seq_bytes (attribute_list as) @ rest = p' @ enc v @ r'" for aid v p' r' s
    proof -
      have v: "de_ok v" using rec that(1) by (auto simp: attrs_ok_def)
      have "(ucast (3 + of_nat (length (enc v)) :: u32) :: u16) = of_nat (3 + length (enc v))"
        using ucast_of_nat_narrow [where 'a = 32 and 'b = 16, of "3 + length (enc v)"] by simp
      then show ?thesis
        unfolding that(2) value_at(1) [OF v]
        by (simp add: sdp_traversal_get_filtered_size_def sel value_at(2) [OF v] attribute_bytes_def)
    qed
  qed (simp_all add: rec)
  also have "visit ?g as s = Some (False, s + of_nat (length (selected sel as)))" for s
    by (induction as arbitrary: s) (simp_all add: selected_def)
  finally show ?thesis by (simp add: sdp_get_filtered_size_def)
qed

text \<open>The look-up finds the first attribute with the ID, at its place in the record.\<close>

lemma attribute_lookup:
  assumes "attrs_ok as"
  shows "sdp_get_attribute_value_for_attribute_id (pre @ seq_bytes (attribute_list as) @ rest) (length pre) aid
    = Some (map_of (value_offsets (length pre + 3) as) aid)"
proof -
  have "map_option snd (visit (on_attr b (sdp_traversal_attribute_by_id aid)) vs None) = Some (map_of vs aid)" for b vs
    by (induction vs) (auto simp: on_attr_def on_kid_def sdp_traversal_attribute_by_id_def)
  then show ?thesis
    by (simp add: sdp_get_attribute_value_for_attribute_id_def record_visits [OF assms])
qed

lemma value_offsets_lookup:
  "rel_option (\<lambda>v k. \<exists>p' r'. pre @ body (attribute_list as) @ rest = p' @ enc v @ r' \<and> k = length p')
     (map_of as aid) (map_of (value_offsets (length pre) as) aid)"
proof (induction as arbitrary: pre)
  case (Cons av as)
  obtain a v where av: "av = (a, v)" by (cases av)
  have b: "pre @ body (attribute_list (av # as)) @ rest = (pre @ id_bytes a) @ enc v @ body (attribute_list as) @ rest"
    by (simp add: av enc_id del: enc.simps)
  show ?case
  proof (cases "a = aid")
    case True
    have "\<exists>p' r'. pre @ body (attribute_list (av # as)) @ rest = p' @ enc v @ r' \<and> length pre + 3 = length p'"
      unfolding b by (intro exI [of _ "pre @ id_bytes a"] exI [of _ "body (attribute_list as) @ rest"]) simp
    then show ?thesis by (simp add: av True)
  next
    case False
    then show ?thesis using Cons.IH [of "pre @ id_bytes a @ enc v"]
      by (simp add: av enc_id add.assoc del: enc.simps body_simps(2)) (simp add: enc_id add.assoc del: enc.simps)
  qed
qed simp

lemma attribute_value_found:
  assumes "attrs_ok as"
  obtains (none) "map_of as aid = None"
      "sdp_get_attribute_value_for_attribute_id (pre @ seq_bytes (attribute_list as) @ rest) (length pre) aid = Some None"
    | (some) v p r where "map_of as aid = Some v"
      "sdp_get_attribute_value_for_attribute_id (pre @ seq_bytes (attribute_list as) @ rest) (length pre) aid
        = Some (Some (length p))"
      "pre @ seq_bytes (attribute_list as) @ rest = p @ enc v @ r" "de_ok v"
proof -
  let ?pre = "pre @ 0x36 # be16 (of_nat (length (body (attribute_list as))))"
  have l: "length ?pre = length pre + 3" by simp
  have b: "?pre @ body (attribute_list as) @ rest = pre @ seq_bytes (attribute_list as) @ rest" by (simp add: enc_Sequence)
  note rel = value_offsets_lookup [of ?pre as rest aid, unfolded l b]
  show ?thesis
  proof (cases "map_of as aid")
    case None
    then show ?thesis using none rel attribute_lookup [OF assms, of pre rest aid] by simp
  next
    case (Some v)
    then have "(aid, v) \<in> set as" by (rule map_of_SomeD)
    then have "de_ok v" using assms by (auto simp: attrs_ok_def)
    then show ?thesis using some [OF Some] rel attribute_lookup [OF assms, of pre rest aid] Some
      by (auto simp: option_rel_Some1)
  qed
qed

section \<open>UUIDs\<close>

definition short_uuid :: "u32 \<Rightarrow> bytes" where
  "short_uuid v = be32 v @ drop 4 bluetooth_base_uuid"

fun uuid_of :: "delem \<Rightarrow> bytes option" where
  "uuid_of (Number ty sz v) =
     (if ty \<noteq> DE_UUID then None
      else if sz = DE_SIZE_16 then Some (short_uuid (ucast (ucast v :: u16)))
      else if sz = DE_SIZE_32 then Some (short_uuid v) else None)"
| "uuid_of (Uuid128 u) = Some u"
| "uuid_of d = None"

fun uuids :: "delem \<Rightarrow> bytes list" where
  "uuids (Sequence ds) = concat (map uuids ds)"
| "uuids d = (case uuid_of d of None \<Rightarrow> [] | Some u \<Rightarrow> [u])"

lemma add_prefix: "uuid_add_bluetooth_prefix v = Some (short_uuid v)"
  using store_32_at [of 0 0 "[]" 0 0 0 0 "drop 4 bluetooth_base_uuid" v]
  by (simp add: uuid_add_bluetooth_prefix_def short_uuid_def bluetooth_base_uuid_def)

lemma normalized_defined:
  assumes "elem_at b k l"
  shows "\<exists>u. de_get_normalized_uuid b k = Some u"
proof -
  have k: "k < length b" by (rule elem_at_pos [OF assms])
  have "\<exists>u. rd_range b (k + 1) 16 = Some u" if "b ! k AND 7 = 4" "drop_bit 3 (b ! k) = 3"
  proof -
    have "l = 17" using elem_at_fixed [OF assms] that by simp
    then show ?thesis using assms by (simp add: elem_at_def rd_range_def)
  qed
  then show ?thesis
    using elem_16 [OF assms] elem_32(2) [OF assms] k
    by (auto simp: de_get_normalized_uuid_def de_get_element_type_def de_get_size_type_def add_prefix)
qed

lemma normalized_enc:
  assumes "de_ok d" and "fst (de_head d) = DE_UUID"
  shows "de_get_normalized_uuid (p @ enc d @ r) (length p) = Some (uuid_of d)"
proof -
  let ?b = "p @ enc d @ r"
  have b0: "?b ! length p = enc d ! 0" and lt: "length p < length ?b"
    using enc_head(3) [OF assms(1)] by (simp_all add: nth_append)
  have hd: "de_get_element_type ?b (length p) = Some DE_UUID" "de_get_size_type ?b (length p) = Some (snd (de_head d))"
    using b0 lt enc_head(1,2) [OF assms(1)] assms(2) by (simp_all add: de_get_element_type_def de_get_size_type_def)
  show ?thesis
  proof (cases d)
    case (Number t s v)
    have "big_endian_read_16 ?b (Suc (length p)) = Some (ucast v)" if "s = 1"
      using read_16_at [of "length p + 1" "p @ [push_bit 3 t OR s]" "ucast v" r] that Number by simp
    moreover have "big_endian_read_32 ?b (Suc (length p)) = Some v" if "s = 2"
      using read_32_at [of "length p + 1" "p @ [push_bit 3 t OR s]" v r] that Number by simp
    moreover have "s \<noteq> 4" using assms(1) Number by auto
    ultimately show ?thesis using assms(2) hd Number by (simp add: de_get_normalized_uuid_def add_prefix del: enc.simps)
  next
    case (Uuid128 u)
    then show ?thesis using assms hd by (simp add: de_get_normalized_uuid_def)
  qed (use assms(2) hd in \<open>auto simp: de_get_normalized_uuid_def simp del: enc.simps\<close>)
qed

text \<open>The recursion ends within the nesting depth, on any bytes.\<close>

lemma contains_defined:
  "elem_at b p l \<Longrightarrow> l \<le> depth \<Longrightarrow> \<exists>r. sdp_record_contains_UUID128 depth b p u = Some r"
proof (induction depth arbitrary: p l)
  case 0
  then show ?case by (simp add: elem_at_def)
next
  case (Suc depth)
  let ?h = "\<lambda>element type sz result. do {
      result \<leftarrow> (if type = DE_UUID then do {
           normalizedUUID \<leftarrow> de_get_normalized_uuid b element;
           Some (normalizedUUID = Some u) }
         else Some result);
      result \<leftarrow> (if type = DE_DES then sdp_record_contains_UUID128 depth b element u else Some result);
      Some (result, result) }"
  have kid: "\<exists>r. on_kid b ?h k s = Some (r, r)" if k: "k \<in> set (children b p l)" for k s
  proof -
    obtain l' where l': "elem_at b k l'" "l' < l" by (rule children_elem [OF k Suc.prems(1)])
    have "\<exists>r. sdp_record_contains_UUID128 depth b k u = Some r" using Suc.IH [OF l'(1)] l'(2) Suc.prems(2) by simp
    with normalized_defined [OF l'(1)] show ?thesis by (auto simp: on_kid_def)
  qed
  have "\<exists>r. visit (on_kid b ?h) ks s = Some r" if "set ks \<subseteq> set (children b p l)" for ks s
    using that
  proof (induction ks arbitrary: s)
    case (Cons k ks)
    obtain r where "on_kid b ?h k s = Some (r, r)" using kid [of k s] Cons.prems by auto
    then show ?case using Cons by (cases r) auto
  qed (rule exI, rule visit.simps(1))
  from this [OF order_refl, of False] obtain sr where "visit (on_kid b ?h) (children b p l) False = Some sr" ..
  then obtain stop r where "visit (on_kid b ?h) (children b p l) False = Some (stop, r)" by (cases sr) simp
  then show ?case by (auto simp: traverse_visits [OF Suc.prems(1)])
qed

lemma contains_uuids:
  assumes "de_ok (Sequence ds)" and "length (seq_bytes ds) \<le> depth"
  shows "sdp_record_contains_UUID128 depth (pre @ seq_bytes ds @ rest) (length pre) u = Some (u \<in> set (uuids (Sequence ds)))"
  using assms
proof (induction depth arbitrary: ds pre rest)
  case 0
  then show ?case by (simp add: enc_Sequence)
next
  case (Suc depth)
  let ?b = "pre @ seq_bytes ds @ rest"
  let ?h = "\<lambda>element type sz result. do {
      result \<leftarrow> (if type = DE_UUID then do {
           normalizedUUID \<leftarrow> de_get_normalized_uuid ?b element;
           Some (normalizedUUID = Some u) }
         else Some result);
      result \<leftarrow> (if type = DE_DES then sdp_record_contains_UUID128 depth ?b element u else Some result);
      Some (result, result) }"
  let ?P = "\<lambda>d. u \<in> set (uuids d)"
  note kids = children_enc [OF Suc.prems(1), of pre rest]
  have "on_kid ?b ?h (length p') False = Some (?P d, ?P d)"
    if d: "d \<in> set ds" and b: "?b = p' @ enc d @ r'" for d p' r'
  proof -
    have ok: "de_ok d" using Suc.prems(1) d by simp
    have b0: "?b ! length p' = enc d ! 0" unfolding b using enc_head(3) [OF ok] by (simp add: nth_append)
    have "length (enc d) \<le> length (body ds)" using d by (induction ds) auto
    then have depth: "length (enc d) \<le> depth" using Suc.prems(2) by (simp add: length_seq_bytes)
    have seq: "sdp_record_contains_UUID128 depth ?b (length p') u = Some (?P d)" if des: "fst (de_head d) = DE_DES"
    proof -
      obtain es where es: "d = Sequence es" using des ok by (cases d) auto
      show ?thesis unfolding b es using Suc.IH [of es p' r'] ok depth es by simp
    qed
    have uu: "de_get_normalized_uuid ?b (length p') = Some (uuid_of d)" if "fst (de_head d) = DE_UUID"
      unfolding b by (rule normalized_enc [OF ok that])
    have p: "?P d \<longleftrightarrow> (fst (de_head d) = DE_UUID \<and> uuid_of d = Some u) \<or> (fst (de_head d) = DE_DES \<and> ?P d)"
      using ok by (cases d) (auto split: if_splits)
    show ?thesis
      unfolding on_kid_def b0 enc_head(1,2) [OF ok]
      using seq uu p by (cases "fst (de_head d) = DE_DES"; cases "fst (de_head d) = DE_UUID") auto
  qed
  then have "visit (on_kid ?b ?h) (offsets (length (pre @ 0x36 # be16 (of_nat (length (body ds))))) ds) False
      = visit (\<lambda>d s. Some (?P d, ?P d)) ds False"
    by (intro visit_children [where I = "\<lambda>s. s = False" and rest = rest]) (auto simp: enc_Sequence)
  also have "\<dots> = Some (\<exists>d\<in>set ds. ?P d, \<exists>d\<in>set ds. ?P d)" by (rule visit_any) simp
  finally show ?case
    by (simp add: traverse_visits [OF kids(3)] kids del: uuids.simps) simp
qed

text \<open>A search pattern: every UUID in it must occur in the record.\<close>

definition pattern_uuids :: "bytes \<Rightarrow> nat \<Rightarrow> nat \<Rightarrow> bytes option list" where
  "pattern_uuids b p l = map (\<lambda>k. the (de_get_normalized_uuid b k)) (children b p l)"

lemma matches_pattern:
  assumes pat: "elem_at b p l" "drop_bit 3 (b ! p) = DE_DES"
    and rec: "de_ok (Sequence ds)" "length (seq_bytes ds) \<le> depth"
  shows "sdp_record_matches_service_search_pattern depth (pre @ seq_bytes ds @ rest) (length pre) b p
    = Some (\<forall>x\<in>set (pattern_uuids b p l). \<exists>u. x = Some u \<and> u \<in> set (uuids (Sequence ds)))"
proof -
  let ?P = "\<lambda>k. \<exists>u. the (de_get_normalized_uuid b k) = Some u \<and> u \<in> set (uuids (Sequence ds))"
  let ?h = "on_kid b (sdp_traversal_match_pattern depth (pre @ seq_bytes ds @ rest) (length pre) b)"
  have "?h k True = Some (\<not> ?P k, ?P k)" if k: "k \<in> set (children b p l)" for k
  proof -
    obtain l' where l': "elem_at b k l'" by (rule children_elem [OF k pat(1)])
    obtain x where x: "de_get_normalized_uuid b k = Some x" using normalized_defined [OF l'] by blast
    show ?thesis
      by (cases x) (simp_all add: on_kid_def sdp_traversal_match_pattern_def x contains_uuids [OF rec] del: uuids.simps)
  qed
  then have "visit ?h (children b p l) True = Some (\<not> (\<forall>k\<in>set (children b p l). ?P k), \<forall>k\<in>set (children b p l). ?P k)"
    by (rule visit_until)
  then show ?thesis
    using pat(2)
    by (simp add: sdp_record_matches_service_search_pattern_def traverse_visits [OF pat(1)] pattern_uuids_def del: uuids.simps)
qed

end
