(* ===== verification/SdpServer.thy ===== *)
theory SdpServer
  imports SdpSearch
begin

text \<open>
  \<open>classic/sdp_server.c\<close> of BTstack: the service database, the three requests a host makes, and the
  L2CAP channel they arrive on.  The static variables are the record \<open>sdp_server\<close>.  The list of service
  records holds values, the newest first: an item is its handle and the bytes that can be read through
  its \<open>service_record\<close> pointer, which the server never writes.  A packet is the list of its bytes.  The calls into
  L2CAP are recorded; what \<open>malloc\<close> and \<open>l2cap_get_remote_mtu_for_local_cid\<close> give is an argument.

  The first half of every request handler reads the packet and ends in an error response, in no
  response, or in the request; the second half answers the request.
\<close>

section \<open>State\<close>

datatype sdp_call =
    L2capAccept u16
  | L2capDecline u16
  | L2capRequestCanSendNow u16
  | L2capSend u16 bytes

type_synonym service_record_item = "u32 \<times> bytes"

record sdp_server =
  service_records :: "service_record_item list"
  next_service_record_handle :: u32
  sdp_response_buffer :: bytes
  sdp_l2cap_cid :: u16
  response_size :: u16
  waiting_list_cids :: "u16 list"
  waiting_list_count :: nat
  sdp_calls :: "sdp_call list"

text \<open>The static variables before the first call.\<close>

definition sdp_static :: sdp_server where
  "sdp_static =
     \<lparr>service_records = [], next_service_record_handle = 0, sdp_response_buffer = replicate 1691 0, sdp_l2cap_cid = 0,
      response_size = 0, waiting_list_cids = replicate 8 0, waiting_list_count = 0, sdp_calls = []\<rparr>"

definition sdp_call :: "sdp_call \<Rightarrow> sdp_server \<Rightarrow> sdp_server" where
  "sdp_call c s = s\<lparr>sdp_calls := sdp_calls s @ [c]\<rparr>"

abbreviation (input) SDP_RESPONSE_BUFFER_SIZE :: nat where "SDP_RESPONSE_BUFFER_SIZE \<equiv> 1691"
abbreviation (input) SDP_WAITING_LIST_MAX_COUNT :: nat where "SDP_WAITING_LIST_MAX_COUNT \<equiv> 8"
abbreviation (input) MAX_RESERVED_SERVICE_RECORD_HANDLE :: u32 where "MAX_RESERVED_SERVICE_RECORD_HANDLE \<equiv> 0xffff"

abbreviation (input) SDP_ERROR_INVALID_SERVICE_RECORD_HANDLE :: u16 where "SDP_ERROR_INVALID_SERVICE_RECORD_HANDLE \<equiv> 2"
abbreviation (input) SDP_ERROR_INVALID_REQUEST_SYNTAX :: u16 where "SDP_ERROR_INVALID_REQUEST_SYNTAX \<equiv> 3"
abbreviation (input) SDP_ERROR_INVALID_PDU_SIZE :: u16 where "SDP_ERROR_INVALID_PDU_SIZE \<equiv> 4"
abbreviation (input) SDP_ERROR_INVALID_CONTINUATION_STATE :: u16 where "SDP_ERROR_INVALID_CONTINUATION_STATE \<equiv> 5"

section \<open>The database\<close>

definition sdp_init :: "sdp_server \<Rightarrow> sdp_server" where
  "sdp_init s = s\<lparr>next_service_record_handle := MAX_RESERVED_SERVICE_RECORD_HANDLE + 2\<rparr>"

definition sdp_deinit :: "sdp_server \<Rightarrow> sdp_server" where
  "sdp_deinit s = s\<lparr>service_records := [], sdp_l2cap_cid := 0, response_size := 0, waiting_list_count := 0\<rparr>"

definition sdp_get_service_record_handle :: "bytes \<Rightarrow> u32 option" where
  "sdp_get_service_record_handle rec = do {
     a \<leftarrow> sdp_get_attribute_value_for_attribute_id rec 0 0x0000;
     case a of
       None \<Rightarrow> Some 0
     | Some p \<Rightarrow> do {
         type \<leftarrow> de_get_element_type rec p;
         if type \<noteq> DE_UINT then Some 0
         else do {
           sz \<leftarrow> de_get_size_type rec p;
           if sz \<noteq> DE_SIZE_32 then Some 0
           else big_endian_read_32 rec (p + 1) } } }"

primrec sdp_get_record_item_for_handle :: "u32 \<Rightarrow> service_record_item list \<Rightarrow> service_record_item option" where
  "sdp_get_record_item_for_handle handle [] = None"
| "sdp_get_record_item_for_handle handle (item # items) =
     (if fst item = handle then Some item else sdp_get_record_item_for_handle handle items)"

definition sdp_get_record_for_handle :: "u32 \<Rightarrow> sdp_server \<Rightarrow> bytes option" where
  "sdp_get_record_for_handle handle s = map_option snd (sdp_get_record_item_for_handle handle (service_records s))"

text \<open>The \<open>do\<close> loop, from the value of the counter: the handle and the new value.\<close>

partial_function (option) next_free_handle :: "service_record_item list \<Rightarrow> u32 \<Rightarrow> (u32 \<times> u32) option" where
  "next_free_handle items n =
     (let handle = (if sdp_get_record_item_for_handle n items \<noteq> None then 0 else n) in
      if handle = 0 then next_free_handle items (n + 1) else Some (handle, n + 1))"

definition sdp_create_service_record_handle :: "sdp_server \<Rightarrow> (u32 \<times> sdp_server) option" where
  "sdp_create_service_record_handle s = do {
     (handle, n) \<leftarrow> next_free_handle (service_records s) (next_service_record_handle s);
     Some (handle, s\<lparr>next_service_record_handle := n\<rparr>) }"

abbreviation (input) SDP_HANDLE_INVALID :: u8 where "SDP_HANDLE_INVALID \<equiv> 0x83"
abbreviation (input) SDP_HANDLE_ALREADY_REGISTERED :: u8 where "SDP_HANDLE_ALREADY_REGISTERED \<equiv> 0x80"
abbreviation (input) BTSTACK_MEMORY_ALLOC_FAILED :: u8 where "BTSTACK_MEMORY_ALLOC_FAILED \<equiv> 0x56"

definition sdp_register_service :: "bool \<Rightarrow> bytes \<Rightarrow> sdp_server \<Rightarrow> (u8 \<times> sdp_server) option" where
  "sdp_register_service alloc rec s = do {
     record_handle \<leftarrow> sdp_get_service_record_handle rec;
     Some
       (if record_handle = 0 then (SDP_HANDLE_INVALID, s)
        else if record_handle \<le> MAX_RESERVED_SERVICE_RECORD_HANDLE then (SDP_HANDLE_INVALID, s)
        else if sdp_get_record_item_for_handle record_handle (service_records s) \<noteq> None
        then (SDP_HANDLE_ALREADY_REGISTERED, s)
        else if \<not> alloc then (BTSTACK_MEMORY_ALLOC_FAILED, s)
        else (0, s\<lparr>service_records := (record_handle, rec) # service_records s\<rparr>)) }"

definition sdp_unregister_service :: "u32 \<Rightarrow> sdp_server \<Rightarrow> sdp_server" where
  "sdp_unregister_service handle s =
     (case sdp_get_record_item_for_handle handle (service_records s) of
        None \<Rightarrow> s
      | Some item \<Rightarrow> s\<lparr>service_records := remove1 item (service_records s)\<rparr>)"

section \<open>Requests\<close>

text \<open>A response: its size and the response buffer.\<close>

type_synonym response = "u16 \<times> bytes"

definition sdp_create_error_response :: "bytes \<Rightarrow> u16 \<Rightarrow> u16 \<Rightarrow> response option" where
  "sdp_create_error_response resp transaction_id error_code = do {
     resp \<leftarrow> wr resp 0 1;
     resp \<leftarrow> big_endian_store_16 resp 0 1 transaction_id;
     resp \<leftarrow> big_endian_store_16 resp 0 3 2;
     resp \<leftarrow> big_endian_store_16 resp 0 5 error_code;
     Some (7, resp) }"

datatype 'a parsed = ErrorResponse u16 | NoResponse | Request 'a

text \<open>What the handlers do with the outcome of the first half.\<close>

definition respond :: "bytes \<Rightarrow> u16 \<Rightarrow> 'a parsed \<Rightarrow> ('a \<Rightarrow> response option) \<Rightarrow> response option" where
  "respond resp transaction_id r answer =
     (case r of
        ErrorResponse code \<Rightarrow> sdp_create_error_response resp transaction_id code
      | NoResponse \<Rightarrow> Some (0, resp)
      | Request q \<Rightarrow> answer q)"

text \<open>The header of a response; the size of the payload is behind its first five bytes.\<close>

definition response_header :: "bytes \<Rightarrow> u8 \<Rightarrow> u16 \<Rightarrow> u16 \<Rightarrow> bytes option" where
  "response_header resp pdu_id transaction_id pos = do {
     resp \<leftarrow> wr resp 0 pdu_id;
     resp \<leftarrow> big_endian_store_16 resp 0 1 transaction_id;
     big_endian_store_16 resp 0 3 (pos - 5) }"

text \<open>The fuel of the UUID search: the number of bytes of the record, and one.\<close>

definition record_matches :: "bytes \<Rightarrow> bytes \<Rightarrow> nat \<Rightarrow> bool option" where
  "record_matches rec packet pattern =
     sdp_record_matches_service_search_pattern (Suc (length rec)) rec 0 packet pattern"

subsection \<open>Service search\<close>

record search_request =
  q_max_count :: u16
  q_index :: u16

definition parse_search :: "bytes \<Rightarrow> search_request parsed option" where
  "parse_search packet = do {
     param_len \<leftarrow> big_endian_read_16 packet 3;
     len \<leftarrow> de_get_len_safe packet 5 (ucast param_len);
     let patternLen = (ucast len :: u16);
     if patternLen = 0 then Some (ErrorResponse SDP_ERROR_INVALID_PDU_SIZE)
     else do {
       valid \<leftarrow> sdp_valid_service_search_pattern packet 5;
       if \<not> valid then Some (ErrorResponse SDP_ERROR_INVALID_REQUEST_SYNTAX)
       else let param_len = param_len - patternLen in
       if param_len < 2 then Some NoResponse
       else do {
         maximumServiceRecordCount \<leftarrow> big_endian_read_16 packet (5 + unat patternLen);
         let param_len = param_len - 2;
         if param_len < 1 then Some NoResponse
         else do {
           let continuationState = 5 + unat patternLen + 2;
           c \<leftarrow> rd packet continuationState;
           if 1 + uint c > uint param_len then Some NoResponse
           else do {
             continuation_index \<leftarrow> (if c = 2 then big_endian_read_16 packet (continuationState + 1) else Some 0);
             Some (Request \<lparr>q_max_count = maximumServiceRecordCount, q_index = continuation_index\<rparr>) } } } } }"

primrec count_matching :: "bytes \<Rightarrow> nat \<Rightarrow> service_record_item list \<Rightarrow> u16 \<Rightarrow> u16 option" where
  "count_matching packet pattern [] n = Some n"
| "count_matching packet pattern (item # items) n = do {
     m \<leftarrow> record_matches (snd item) packet pattern;
     count_matching packet pattern items (if m then n + 1 else n) }"

record search_state =
  r_resp :: bytes
  r_pos :: u16
  r_current :: u16
  r_index :: u16
  r_matching :: u16
  r_continuation :: "u16 option"

text \<open>
  The loop over the records; \<open>r_index\<close> is \<open>current_service_index\<close>, which the loop increments unless it
  is left.  \<open>r_continuation\<close> is the new \<open>continuation_index\<close>, once there is one.
\<close>

primrec search_records :: "bytes \<Rightarrow> nat \<Rightarrow> u16 \<Rightarrow> u16 \<Rightarrow> u16 \<Rightarrow> service_record_item list \<Rightarrow> search_state
    \<Rightarrow> search_state option" where
  "search_records packet pattern limit max_nr start [] s = Some s"
| "search_records packet pattern limit max_nr start (item # items) s = do {
     m \<leftarrow> record_matches (snd item) packet pattern;
     if \<not> m then search_records packet pattern limit max_nr start items (s\<lparr>r_index := r_index s + 1\<rparr>)
     else let s = s\<lparr>r_matching := r_matching s + 1\<rparr> in
     if r_index s < start then search_records packet pattern limit max_nr start items (s\<lparr>r_index := r_index s + 1\<rparr>)
     else do {
       resp \<leftarrow> big_endian_store_32 (r_resp s) 0 (r_pos s) (fst item);
       let s = s\<lparr>r_resp := resp, r_pos := r_pos s + 4, r_current := r_current s + 1\<rparr>;
       if r_matching s \<ge> limit then Some s
       else if r_current s \<ge> max_nr then Some (s\<lparr>r_continuation := Some (r_index s + 1)\<rparr>)
       else search_records packet pattern limit max_nr start items (s\<lparr>r_index := r_index s + 1\<rparr>) } }"

text \<open>C division of an \<open>int\<close> truncates.\<close>

definition max_records_per_response :: "u16 \<Rightarrow> u16" where
  "max_records_per_response remote_mtu =
     (let x = uint remote_mtu - (9 + 3) in of_int (sgn x * (\<bar>x\<bar> div 4)))"

definition answer_search ::
  "service_record_item list \<Rightarrow> bytes \<Rightarrow> bytes \<Rightarrow> u16 \<Rightarrow> u16 \<Rightarrow> search_request \<Rightarrow> response option" where
  "answer_search items resp packet transaction_id remote_mtu q = do {
     n \<leftarrow> count_matching packet 5 items 0;
     let total_service_count = (if n > q_max_count q then q_max_count q else n);
     s \<leftarrow> search_records packet 5 total_service_count (max_records_per_response remote_mtu) (q_index q) items
       \<lparr>r_resp = resp, r_pos = 9, r_current = 0, r_index = 0, r_matching = 0, r_continuation = None\<rparr>;
     (resp, pos) \<leftarrow>
       (case r_continuation s of
          Some continuation_index \<Rightarrow> do {
            resp \<leftarrow> wr (r_resp s) (unat (r_pos s)) 2;
            resp \<leftarrow> big_endian_store_16 resp 0 (r_pos s + 1) continuation_index;
            Some (resp, r_pos s + 3) }
        | None \<Rightarrow> do {
            resp \<leftarrow> wr (r_resp s) (unat (r_pos s)) 0;
            Some (resp, r_pos s + 1) });
     resp \<leftarrow> response_header resp 3 transaction_id pos;
     resp \<leftarrow> big_endian_store_16 resp 0 5 total_service_count;
     resp \<leftarrow> big_endian_store_16 resp 0 7 (r_current s);
     Some (pos, resp) }"

definition sdp_handle_service_search_request ::
  "service_record_item list \<Rightarrow> bytes \<Rightarrow> bytes \<Rightarrow> u16 \<Rightarrow> response option" where
  "sdp_handle_service_search_request items resp packet remote_mtu = do {
     transaction_id \<leftarrow> big_endian_read_16 packet 1;
     r \<leftarrow> parse_search packet;
     respond resp transaction_id r (answer_search items resp packet transaction_id remote_mtu) }"

subsection \<open>Service attribute\<close>

record attribute_request =
  q_handle :: u32
  q_max_bytes :: u16
  q_offset :: u16

definition parse_attribute :: "bytes \<Rightarrow> attribute_request parsed option" where
  "parse_attribute packet = do {
     param_len \<leftarrow> big_endian_read_16 packet 3;
     if param_len < 6 then Some NoResponse
     else do {
       serviceRecordHandle \<leftarrow> big_endian_read_32 packet 5;
       maximumAttributeByteCount \<leftarrow> big_endian_read_16 packet 9;
       if maximumAttributeByteCount < 7 then Some (ErrorResponse SDP_ERROR_INVALID_REQUEST_SYNTAX)
       else let param_len = param_len - 6 in do {
         len \<leftarrow> de_get_len_safe packet 11 (ucast param_len);
         let listLen = (ucast len :: u16);
         if listLen = 0 then Some (ErrorResponse SDP_ERROR_INVALID_PDU_SIZE)
         else do {
           valid \<leftarrow> sdp_attribute_list_valid packet 11;
           if \<not> valid then Some (ErrorResponse SDP_ERROR_INVALID_REQUEST_SYNTAX)
           else let param_len = param_len - listLen in
           if param_len < 1 then Some NoResponse
           else do {
             let continuationState = 11 + unat listLen;
             c \<leftarrow> rd packet continuationState;
             if 1 + uint c > uint param_len then Some NoResponse
             else do {
               continuation_offset \<leftarrow> (if c = 2 then big_endian_read_16 packet (continuationState + 1) else Some 0);
               Some (Request \<lparr>q_handle = serviceRecordHandle, q_max_bytes = maximumAttributeByteCount,
                 q_offset = continuation_offset\<rparr>) } } } } } }"

definition answer_attribute ::
  "service_record_item list \<Rightarrow> bytes \<Rightarrow> bytes \<Rightarrow> u16 \<Rightarrow> u16 \<Rightarrow> attribute_request \<Rightarrow> response option" where
  "answer_attribute items resp packet transaction_id remote_mtu q =
     (let max2 = remote_mtu - (7 + 3);
          max_bytes = (if max2 < q_max_bytes q then max2 else q_max_bytes q);
          continuation_offset = q_offset q in
      case sdp_get_record_item_for_handle (q_handle q) items of
        None \<Rightarrow> sdp_create_error_response resp transaction_id SDP_ERROR_INVALID_SERVICE_RECORD_HANDLE
      | Some item \<Rightarrow> do {
          (resp, max_bytes, pos) \<leftarrow>
            (if continuation_offset = 0 then do {
               n \<leftarrow> sdp_get_filtered_size (snd item) 0 packet 11;
               resp \<leftarrow> de_store_descriptor_with_len resp 7 DE_DES DE_SIZE_VAR_16 (ucast n);
               Some (resp, max_bytes - 3, 10) }
             else Some (resp, max_bytes, 7 :: u16));
          (complete, bytes_used, resp) \<leftarrow>
            sdp_filter_attributes_in_attributeIDList (snd item) 0 packet 11 continuation_offset max_bytes resp (unat pos);
          let pos = pos + bytes_used;
          let attributeListByteCount = pos - 7;
          (resp, pos) \<leftarrow>
            (if complete then do {
               resp \<leftarrow> wr resp (unat pos) 0;
               Some (resp, pos + 1) }
             else do {
               resp \<leftarrow> wr resp (unat pos) 2;
               resp \<leftarrow> big_endian_store_16 resp 0 (pos + 1) (continuation_offset + bytes_used);
               Some (resp, pos + 3) });
          resp \<leftarrow> response_header resp 5 transaction_id pos;
          resp \<leftarrow> big_endian_store_16 resp 0 5 attributeListByteCount;
          Some (pos, resp) })"

definition sdp_handle_service_attribute_request ::
  "service_record_item list \<Rightarrow> bytes \<Rightarrow> bytes \<Rightarrow> u16 \<Rightarrow> response option" where
  "sdp_handle_service_attribute_request items resp packet remote_mtu = do {
     transaction_id \<leftarrow> big_endian_read_16 packet 1;
     r \<leftarrow> parse_attribute packet;
     respond resp transaction_id r (answer_attribute items resp packet transaction_id remote_mtu) }"

subsection \<open>Service search attribute\<close>

record search_attribute_request =
  q_pattern_len :: u16
  q_limit :: u16
  q_service_index :: u16
  q_service_offset :: u16

definition parse_search_attribute :: "bytes \<Rightarrow> search_attribute_request parsed option" where
  "parse_search_attribute packet = do {
     param_len \<leftarrow> big_endian_read_16 packet 3;
     len \<leftarrow> de_get_len_safe packet 5 (ucast param_len);
     let patternLen = (ucast len :: u16);
     if patternLen = 0 then Some (ErrorResponse SDP_ERROR_INVALID_PDU_SIZE)
     else do {
       valid \<leftarrow> sdp_valid_service_search_pattern packet 5;
       if \<not> valid then Some (ErrorResponse SDP_ERROR_INVALID_REQUEST_SYNTAX)
       else let param_len = param_len - patternLen in
       if param_len < 2 then Some NoResponse
       else do {
         maximumAttributeByteCount \<leftarrow> big_endian_read_16 packet (5 + unat patternLen);
         if maximumAttributeByteCount < 7 then Some (ErrorResponse SDP_ERROR_INVALID_REQUEST_SYNTAX)
         else let param_len = param_len - 2; attributeIDList = 5 + unat patternLen + 2 in do {
           len \<leftarrow> de_get_len_safe packet attributeIDList (ucast param_len);
           let listLen = (ucast len :: u16);
           if listLen = 0 then Some (ErrorResponse SDP_ERROR_INVALID_PDU_SIZE)
           else do {
             valid \<leftarrow> sdp_attribute_list_valid packet attributeIDList;
             if \<not> valid then Some (ErrorResponse SDP_ERROR_INVALID_REQUEST_SYNTAX)
             else let param_len = param_len - listLen in
             if param_len < 1 then Some NoResponse
             else do {
               let continuationState = attributeIDList + unat listLen;
               c \<leftarrow> rd packet continuationState;
               if 1 + uint c > uint param_len then Some NoResponse
               else if c = 0 then
                 Some (Request \<lparr>q_pattern_len = patternLen, q_limit = maximumAttributeByteCount,
                   q_service_index = 0, q_service_offset = 0\<rparr>)
               else if c = 4 then do {
                 index \<leftarrow> big_endian_read_16 packet (continuationState + 1);
                 offset \<leftarrow> big_endian_read_16 packet (continuationState + 3);
                 Some (Request \<lparr>q_pattern_len = patternLen, q_limit = maximumAttributeByteCount,
                   q_service_index = index, q_service_offset = offset\<rparr>) }
               else Some (ErrorResponse SDP_ERROR_INVALID_CONTINUATION_STATE) } } } } } }"

primrec sdp_get_size_for_service_search_attribute_response ::
  "bytes \<Rightarrow> nat \<Rightarrow> nat \<Rightarrow> service_record_item list \<Rightarrow> u16 \<Rightarrow> u16 option" where
  "sdp_get_size_for_service_search_attribute_response packet pattern ids [] n = Some n"
| "sdp_get_size_for_service_search_attribute_response packet pattern ids (item # items) n = do {
     m \<leftarrow> record_matches (snd item) packet pattern;
     if \<not> m then sdp_get_size_for_service_search_attribute_response packet pattern ids items n
     else do {
       filtered_size \<leftarrow> sdp_get_filtered_size (snd item) 0 packet ids;
       sdp_get_size_for_service_search_attribute_response packet pattern ids items
         (if filtered_size > 0 then n + (3 + filtered_size) else n) } }"

record lists_state =
  l_resp :: bytes
  l_pos :: u16
  l_max :: u16
  l_index :: u16
  l_offset :: u16
  l_first :: bool
  l_continuation :: bool

text \<open>The end of a round: the record is copied from the offset on.  \<open>True\<close>: the loop is left.\<close>

definition copy_record :: "bytes \<Rightarrow> nat \<Rightarrow> bytes \<Rightarrow> lists_state \<Rightarrow> (bool \<times> lists_state) option" where
  "copy_record packet ids rec s = do {
     (complete, bytes_used, resp) \<leftarrow>
       sdp_filter_attributes_in_attributeIDList rec 0 packet ids (l_offset s) (l_max s) (l_resp s) (unat (l_pos s));
     let s = s\<lparr>l_first := False, l_resp := resp, l_pos := l_pos s + bytes_used, l_max := l_max s - bytes_used\<rparr>;
     Some (if complete then (False, s\<lparr>l_offset := 0\<rparr>)
           else (True, s\<lparr>l_continuation := True, l_offset := l_offset s + bytes_used\<rparr>)) }"

definition add_record :: "bytes \<Rightarrow> nat \<Rightarrow> nat \<Rightarrow> u16 \<Rightarrow> bytes \<Rightarrow> lists_state \<Rightarrow> (bool \<times> lists_state) option" where
  "add_record packet pattern ids start rec s =
     (if l_index s < start then Some (False, s)
      else do {
        m \<leftarrow> record_matches rec packet pattern;
        if \<not> m then Some (False, s)
        else if l_offset s = 0 then do {
          filtered_attributes_size \<leftarrow> sdp_get_filtered_size rec 0 packet ids;
          if filtered_attributes_size = 0 then Some (False, s)
          else if uint filtered_attributes_size + 3 > uint (l_max s) \<and> \<not> l_first s
          then Some (True, s\<lparr>l_continuation := True\<rparr>)
          else do {
            resp \<leftarrow> de_store_descriptor_with_len (l_resp s) (unat (l_pos s)) DE_DES DE_SIZE_VAR_16
              (ucast filtered_attributes_size);
            copy_record packet ids rec (s\<lparr>l_resp := resp, l_pos := l_pos s + 3, l_max := l_max s - 3\<rparr>) } }
        else copy_record packet ids rec s })"

primrec add_records :: "bytes \<Rightarrow> nat \<Rightarrow> nat \<Rightarrow> u16 \<Rightarrow> service_record_item list \<Rightarrow> lists_state \<Rightarrow> lists_state option" where
  "add_records packet pattern ids start [] s = Some s"
| "add_records packet pattern ids start (item # items) s = do {
     (stop, s) \<leftarrow> add_record packet pattern ids start (snd item) s;
     if stop then Some s
     else add_records packet pattern ids start items (s\<lparr>l_index := l_index s + 1\<rparr>) }"

definition answer_search_attribute ::
  "service_record_item list \<Rightarrow> bytes \<Rightarrow> bytes \<Rightarrow> u16 \<Rightarrow> u16 \<Rightarrow> search_attribute_request \<Rightarrow> response option" where
  "answer_search_attribute items resp packet transaction_id remote_mtu q =
     (let ids = 5 + unat (q_pattern_len q) + 2;
          max2 = remote_mtu - 12;
          max_bytes = (if max2 < q_limit q then max2 else q_limit q) in do {
        (resp, max_bytes, pos) \<leftarrow>
          (if q_service_index q = 0 \<and> q_service_offset q = 0 then do {
             n \<leftarrow> sdp_get_size_for_service_search_attribute_response packet 5 ids items 0;
             resp \<leftarrow> de_store_descriptor_with_len resp 7 DE_DES DE_SIZE_VAR_16 (ucast n);
             Some (resp, max_bytes - 3, 10) }
           else Some (resp, max_bytes, 7 :: u16));
        s \<leftarrow> add_records packet 5 ids (q_service_index q) items
          \<lparr>l_resp = resp, l_pos = pos, l_max = max_bytes, l_index = 0, l_offset = q_service_offset q,
           l_first = True, l_continuation = False\<rparr>;
        let attributeListsByteCount = l_pos s - 7;
        if attributeListsByteCount < 2
        then sdp_create_error_response (l_resp s) transaction_id SDP_ERROR_INVALID_CONTINUATION_STATE
        else do {
          (resp, pos) \<leftarrow>
            (if l_continuation s then do {
               resp \<leftarrow> wr (l_resp s) (unat (l_pos s)) 4;
               resp \<leftarrow> big_endian_store_16 resp 0 (l_pos s + 1) (l_index s);
               resp \<leftarrow> big_endian_store_16 resp 0 (l_pos s + 3) (l_offset s);
               Some (resp, l_pos s + 5) }
             else do {
               resp \<leftarrow> wr (l_resp s) (unat (l_pos s)) 0;
               Some (resp, l_pos s + 1) });
          resp \<leftarrow> response_header resp 7 transaction_id pos;
          resp \<leftarrow> big_endian_store_16 resp 0 5 attributeListsByteCount;
          Some (pos, resp) } })"

definition sdp_handle_service_search_attribute_request ::
  "service_record_item list \<Rightarrow> bytes \<Rightarrow> bytes \<Rightarrow> u16 \<Rightarrow> response option" where
  "sdp_handle_service_search_attribute_request items resp packet remote_mtu = do {
     transaction_id \<leftarrow> big_endian_read_16 packet 1;
     r \<leftarrow> parse_search_attribute packet;
     respond resp transaction_id r (answer_search_attribute items resp packet transaction_id remote_mtu) }"

section \<open>The channel\<close>

text \<open>The events of the packet handler; \<open>SdpData\<close> is a packet of the host on a channel.\<close>

datatype sdp_event =
    SdpData u16 bytes
  | SdpIncomingConnection u16
  | SdpChannelOpened u8
  | SdpCanSendNow
  | SdpChannelClosed u16
  | SdpOther

definition sdp_respond :: "sdp_server \<Rightarrow> sdp_server option" where
  "sdp_respond s =
     (if response_size s = 0 then Some s
      else if sdp_l2cap_cid s = 0 then Some s
      else do {
        data \<leftarrow> rd_range (sdp_response_buffer s) 0 (unat (response_size s));
        Some (sdp_call (L2capSend (sdp_l2cap_cid s) data) (s\<lparr>response_size := 0\<rparr>)) })"

definition sdp_waiting_list_add :: "u16 \<Rightarrow> sdp_server \<Rightarrow> sdp_server option" where
  "sdp_waiting_list_add cid s = do {
     cids \<leftarrow> wr (waiting_list_cids s) (waiting_list_count s) cid;
     Some (s\<lparr>waiting_list_cids := cids, waiting_list_count := waiting_list_count s + 1\<rparr>) }"

definition sdp_waiting_list_get :: "sdp_server \<Rightarrow> (u16 \<times> sdp_server) option" where
  "sdp_waiting_list_get s = do {
     cid \<leftarrow> rd (waiting_list_cids s) 0;
     let n = waiting_list_count s - 1;
     cids \<leftarrow> (if n \<noteq> 0 then do {
         src \<leftarrow> rd_range (waiting_list_cids s) 1 n;
         wr_range (waiting_list_cids s) 0 src }
       else Some (waiting_list_cids s));
     Some (cid, s\<lparr>waiting_list_cids := cids, waiting_list_count := n\<rparr>) }"

definition handle_sdp_data :: "u16 \<Rightarrow> bytes \<Rightarrow> sdp_server \<Rightarrow> sdp_server option" where
  "handle_sdp_data mtu packet s =
     (if length packet < 5 then Some s
      else do {
        b \<leftarrow> rd packet 0;
        transaction_id \<leftarrow> big_endian_read_16 packet 1;
        param_len \<leftarrow> big_endian_read_16 packet 3;
        let remote_mtu = (if unat mtu > SDP_RESPONSE_BUFFER_SIZE then of_nat SDP_RESPONSE_BUFFER_SIZE else mtu);
        let pdu_id = (if unat param_len + 5 > length packet then 1 else b);
        (sz, resp) \<leftarrow>
          (if pdu_id = 2 then
             sdp_handle_service_search_request (service_records s) (sdp_response_buffer s) packet remote_mtu
           else if pdu_id = 4 then
             sdp_handle_service_attribute_request (service_records s) (sdp_response_buffer s) packet remote_mtu
           else if pdu_id = 6 then
             sdp_handle_service_search_attribute_request (service_records s) (sdp_response_buffer s) packet remote_mtu
           else sdp_create_error_response (sdp_response_buffer s) transaction_id SDP_ERROR_INVALID_PDU_SIZE);
        let s = s\<lparr>response_size := sz, sdp_response_buffer := resp\<rparr>;
        Some (if sz = 0 then s else sdp_call (L2capRequestCanSendNow (sdp_l2cap_cid s)) s) })"

definition sdp_accept :: "u16 \<Rightarrow> sdp_server \<Rightarrow> sdp_server" where
  "sdp_accept channel s =
     sdp_call (L2capAccept channel) (s\<lparr>sdp_l2cap_cid := channel, response_size := 0\<rparr>)"

fun sdp_packet_handler :: "u16 \<Rightarrow> sdp_event \<Rightarrow> sdp_server \<Rightarrow> sdp_server option" where
  "sdp_packet_handler mtu (SdpData channel packet) s = handle_sdp_data mtu packet s"
| "sdp_packet_handler mtu (SdpIncomingConnection channel) s =
     (if sdp_l2cap_cid s \<noteq> 0 then
        if waiting_list_count s < SDP_WAITING_LIST_MAX_COUNT then sdp_waiting_list_add channel s
        else Some (sdp_call (L2capDecline channel) s)
      else Some (sdp_accept channel s))"
| "sdp_packet_handler mtu (SdpChannelOpened status) s =
     Some (if status \<noteq> 0 then s\<lparr>sdp_l2cap_cid := 0\<rparr> else s)"
| "sdp_packet_handler mtu SdpCanSendNow s = sdp_respond s"
| "sdp_packet_handler mtu (SdpChannelClosed channel) s =
     (if channel \<noteq> sdp_l2cap_cid s then Some s
      else let s = s\<lparr>sdp_l2cap_cid := 0\<rparr> in
      if waiting_list_count s = 0 then Some s
      else do {
        (cid, s) \<leftarrow> sdp_waiting_list_get s;
        Some (sdp_accept cid s) })"
| "sdp_packet_handler mtu SdpOther s = Some s"

end
