(* ===== verification/SdpProtocol.thy ===== *)
theory SdpProtocol
  imports SdpServer
begin

text \<open>
  What the service discovery server does with the packets of a host: nothing it receives makes it leave
  a buffer, but for one element that the check of an attribute list reads past; a host that follows the
  continuation state receives exactly the attributes it selected; and the waiting list of connections.
\<close>

section \<open>Parsing a request\<close>

lemma packet_element:
  assumes "p + unat (n :: u16) \<le> length packet"
  obtains l where "de_get_len_safe packet p (ucast n) = Some l" and "unat (ucast l :: u16) = unat l"
    and "unat l \<le> unat n" and "(ucast l :: u16) \<noteq> 0 \<longrightarrow> elem_at packet p (unat l)"
proof -
  have "p + unat (ucast n :: u32) \<le> length packet" using assms by simp
  from len_safe_defined [OF this] obtain l where l: "de_get_len_safe packet p (ucast n) = Some l" by blast
  have le: "unat l \<le> unat n" using de_get_len_safe_le [OF l] by (simp add: word_le_nat_alt)
  then have u: "unat (ucast l :: u16) = unat l"
    using unat_u16_lt [of n] by (simp add: unsigned_ucast_eq take_bit_nat_eq_self)
  have "elem_at packet p (unat l)" if "(ucast l :: u16) \<noteq> 0"
  proof (rule len_safe_elem [OF l])
    show "l \<noteq> 0" using that by auto
    show "p + unat (ucast n :: u32) \<le> length packet" using assms by simp
    show "unat (ucast n :: u32) < 2 ^ 31" using unat_u16_lt [of n] by simp
  qed
  with that [OF l u le] show ?thesis by blast
qed

lemma read_16_inside: "p + 1 < length b \<Longrightarrow> \<exists>v. big_endian_read_16 b p = Some v"
  by (simp add: big_endian_read_16_def)

lemma read_32_inside: "p + 3 < length b \<Longrightarrow> \<exists>v. big_endian_read_32 b p = Some v"
  by (simp add: big_endian_read_32_def)

text \<open>A sequence at \<open>p\<close>, all of it in the packet.\<close>

definition seq_elem :: "bytes \<Rightarrow> nat \<Rightarrow> bool" where
  "seq_elem packet p \<longleftrightarrow> (\<exists>l. elem_at packet p l \<and> drop_bit 3 (packet ! p) = DE_DES)"

text \<open>The check of a list of attribute IDs at \<open>p\<close> reads behind the end of the packet.\<close>

definition ids_overrun :: "bytes \<Rightarrow> nat \<Rightarrow> bool" where
  "ids_overrun packet p \<longleftrightarrow> (\<exists>l. elem_at packet p l \<and> drop_bit 3 (packet ! p) = DE_DES
     \<and> (\<exists>k\<in>set (children packet p l). nil_range packet k))"

lemma elem_at_unique: "elem_at b p l \<Longrightarrow> elem_at b p l' \<Longrightarrow> l = l'"
  by (auto simp: elem_at_def dest!: arg_cong [of _ _ "unat :: u32 \<Rightarrow> nat"] simp: unat_of_nat_u32)

lemma valid_pattern_defined:
  assumes "elem_at packet p l"
  obtains v where "sdp_valid_service_search_pattern packet p = Some v" and "v \<longrightarrow> seq_elem packet p"
  using valid_pattern_iff [OF assms] assms by (auto simp: seq_elem_def)

lemma list_valid_defined:
  assumes "elem_at packet p l" and "\<not> ids_overrun packet p"
  obtains v where "sdp_attribute_list_valid packet p = Some v" and "v \<longrightarrow> seq_elem packet p"
proof (cases "drop_bit 3 (packet ! p) = DE_DES")
  case True
  then show ?thesis
    using that list_valid_iff [OF assms(1) True] assms by (auto simp: seq_elem_def ids_overrun_def)
next
  case False
  then show ?thesis
    using that [of False] by (simp add: sdp_attribute_list_valid_def traverse_visits [OF assms(1)])
qed

text \<open>The continuation state lies inside of the packet once its length byte has been checked.\<close>

lemma continuation_inside:
  assumes "q + unat n \<le> length packet" and "\<not> 1 + uint (packet ! q) > uint n"
  shows "q + unat (packet ! q) < length packet"
proof -
  have "1 + unat (packet ! q) \<le> unat n"
    using assms(2) uint_nat [of n] uint_nat [of "packet ! q"] by linarith
  with assms(1) show ?thesis by linarith
qed

lemma continuation_read:
  assumes "q + unat n \<le> length packet" and "\<not> 1 + uint (packet ! q) > uint n"
  shows "packet ! q = 2 \<Longrightarrow> \<exists>v. big_endian_read_16 packet (q + 1) = Some v"
    and "packet ! q = 4 \<Longrightarrow> \<exists>v w. big_endian_read_16 packet (q + 1) = Some v \<and> big_endian_read_16 packet (q + 3) = Some w"
  using continuation_inside [OF assms] by (simp_all add: big_endian_read_16_def)

lemma sub_u16: "k \<le> unat n \<Longrightarrow> unat k' = k \<Longrightarrow> unat (n - k' :: u16) = unat n - k"
  by (subst unat_sub) (simp_all add: word_le_nat_alt)

lemma parse_search_defined:
  assumes "big_endian_read_16 packet 3 = Some n" and "5 + unat n \<le> length packet"
  shows "\<exists>r. parse_search packet = Some r \<and> (\<forall>q. r = Request q \<longrightarrow> seq_elem packet 5)"
proof -
  obtain l where l: "de_get_len_safe packet 5 (ucast n) = Some l" "unat (ucast l :: u16) = unat l"
    "unat l \<le> unat n" "(ucast l :: u16) \<noteq> 0 \<longrightarrow> elem_at packet 5 (unat l)"
    by (rule packet_element [OF assms(2)])
  show ?thesis
  proof (cases "(ucast l :: u16) = 0")
    case True
    then show ?thesis by (simp add: parse_search_def assms(1) l(1))
  next
    case nz: False
    obtain v where v: "sdp_valid_service_search_pattern packet 5 = Some v" "v \<longrightarrow> seq_elem packet 5"
      by (rule valid_pattern_defined [OF l(4) [rule_format, OF nz]])
    let ?n = "n - (ucast l :: u16)"
    have n1: "unat ?n = unat n - unat l" using l(2,3) by (subst unat_sub) (simp_all add: word_le_nat_alt)
    show ?thesis
    proof (cases "v \<and> \<not> ?n < 2")
      case False
      then show ?thesis using nz by (auto simp: parse_search_def assms(1) l(1) v(1) Let_def)
    next
      case True
      then have "2 \<le> unat ?n" by (simp add: word_less_nat_alt)
      then have n2: "unat (?n - 2) = unat ?n - 2" by (subst unat_sub) (simp_all add: word_le_nat_alt)
      have "5 + unat l + 1 < length packet" using \<open>2 \<le> unat ?n\<close> n1 assms(2) by linarith
      then obtain mx where mx: "big_endian_read_16 packet (5 + unat l) = Some mx" using read_16_inside by blast
      show ?thesis
      proof (cases "?n - 2 < 1")
        case less: True
        then show ?thesis using nz True by (simp add: parse_search_def assms(1) l(1,2) v(1) Let_def mx)
      next
        case ge: False
        then have "1 \<le> unat (?n - 2)" by (simp add: word_less_nat_alt)
        then have lt: "5 + unat l + 2 < length packet" using n1 n2 assms(2) by linarith
        let ?c = "packet ! (5 + unat l + 2)"
        have end_: "5 + unat l + 2 + unat (?n - 2) \<le> length packet" using n1 n2 \<open>2 \<le> unat ?n\<close> l(3) assms(2) by linarith
        have "\<exists>i. (if ?c = 2 then big_endian_read_16 packet (5 + unat l + 2 + 1) else Some 0) = Some i"
          if "\<not> 1 + uint ?c > uint (?n - 2)"
          using continuation_read(1) [OF end_ that] by simp
        moreover have "parse_search packet = (if 1 + uint ?c > uint (?n - 2) then Some NoResponse else do {
            i \<leftarrow> (if ?c = 2 then big_endian_read_16 packet (5 + unat l + 2 + 1) else Some 0);
            Some (Request \<lparr>q_max_count = mx, q_index = i\<rparr>) })"
          using nz True ge lt unfolding parse_search_def
          by (simp only: assms(1) l(1,2) v(1) Let_def mx bind.bind_lunit if_False not_True_eq_False simp_thms de_Morgan_disj rd_Some)
        ultimately show ?thesis using v(2) True by fastforce
      qed
    qed
  qed
qed

lemma parse_attribute_defined:
  assumes "big_endian_read_16 packet 3 = Some n" and "5 + unat n \<le> length packet" and "\<not> ids_overrun packet 11"
  shows "\<exists>r. parse_attribute packet = Some r \<and> (\<forall>q. r = Request q \<longrightarrow> seq_elem packet 11 \<and> 7 \<le> q_max_bytes q)"
proof (cases "n < 6")
  case True
  then show ?thesis by (simp add: parse_attribute_def assms(1))
next
  case n6: False
  then have "6 \<le> unat n" by (simp add: word_less_nat_alt)
  then have n0: "unat (n - 6) = unat n - 6" by (intro sub_u16) simp_all
  have "5 + 3 < length packet" "9 + 1 < length packet" using \<open>6 \<le> unat n\<close> assms(2) by linarith+
  then obtain h mx where hm: "big_endian_read_32 packet 5 = Some h" "big_endian_read_16 packet 9 = Some mx"
    using read_32_inside read_16_inside by blast
  have "11 + unat (n - 6) \<le> length packet" using n0 \<open>6 \<le> unat n\<close> assms(2) by linarith
  then obtain l where l: "de_get_len_safe packet 11 (ucast (n - 6)) = Some l" "unat (ucast l :: u16) = unat l"
    "unat l \<le> unat (n - 6)" "(ucast l :: u16) \<noteq> 0 \<longrightarrow> elem_at packet 11 (unat l)"
    by (rule packet_element)
  show ?thesis
  proof (cases "mx < 7 \<or> (ucast l :: u16) = 0")
    case True
    then show ?thesis using n6 by (auto simp: parse_attribute_def assms(1) hm l(1) Let_def)
  next
    case nz: False
    then obtain v where v: "sdp_attribute_list_valid packet 11 = Some v" "v \<longrightarrow> seq_elem packet 11"
      using list_valid_defined [OF _ assms(3)] l(4) by metis
    let ?n = "n - 6 - (ucast l :: u16)" and ?q = "11 + unat l"
    have n1: "unat ?n = unat (n - 6) - unat l" using l(2,3) by (intro sub_u16)
    show ?thesis
    proof (cases "v \<and> \<not> ?n < 1")
      case False
      then show ?thesis using nz n6 by (auto simp: parse_attribute_def assms(1) hm l(1) v(1) Let_def)
    next
      case True
      then have "1 \<le> unat ?n" by (simp add: word_less_nat_alt)
      then have lt: "?q < length packet" and end_: "?q + unat ?n \<le> length packet"
        using n0 n1 l(3) \<open>6 \<le> unat n\<close> assms(2) by linarith+
      have "\<exists>i. (if packet ! ?q = 2 then big_endian_read_16 packet (?q + 1) else Some 0) = Some i"
        if "\<not> 1 + uint (packet ! ?q) > uint ?n"
        using continuation_read(1) [OF end_ that] by simp
      moreover have "parse_attribute packet = (if 1 + uint (packet ! ?q) > uint ?n then Some NoResponse else do {
          i \<leftarrow> (if packet ! ?q = 2 then big_endian_read_16 packet (?q + 1) else Some 0);
          Some (Request \<lparr>q_handle = h, q_max_bytes = mx, q_offset = i\<rparr>) })"
        using nz n6 True lt unfolding parse_attribute_def
        by (simp only: assms(1) hm l(1,2) v(1) Let_def bind.bind_lunit if_False not_True_eq_False simp_thms de_Morgan_disj rd_Some)
      moreover have "7 \<le> mx" using nz by (simp add: linorder_not_less)
      ultimately show ?thesis using v(2) True by fastforce
    qed
  qed
qed

lemma parse_search_attribute_defined:
  assumes "big_endian_read_16 packet 3 = Some n" and "5 + unat n \<le> length packet"
    and over: "\<And>p. \<not> ids_overrun packet p"
  shows "\<exists>r. parse_search_attribute packet = Some r \<and> (\<forall>q. r = Request q \<longrightarrow>
    seq_elem packet 5 \<and> seq_elem packet (5 + unat (q_pattern_len q) + 2) \<and> 7 \<le> q_limit q)"
proof -
  obtain l where l: "de_get_len_safe packet 5 (ucast n) = Some l" "unat (ucast l :: u16) = unat l"
    "unat l \<le> unat n" "(ucast l :: u16) \<noteq> 0 \<longrightarrow> elem_at packet 5 (unat l)"
    by (rule packet_element [OF assms(2)])
  show ?thesis
  proof (cases "(ucast l :: u16) = 0")
    case True
    then show ?thesis by (simp add: parse_search_attribute_def assms(1) l(1))
  next
    case nz: False
    obtain v where v: "sdp_valid_service_search_pattern packet 5 = Some v" "v \<longrightarrow> seq_elem packet 5"
      by (rule valid_pattern_defined [OF l(4) [rule_format, OF nz]])
    let ?n = "n - (ucast l :: u16)"
    have n1: "unat ?n = unat n - unat l" using l(2,3) by (intro sub_u16)
    show ?thesis
    proof (cases "v \<and> \<not> ?n < 2")
      case False
      then show ?thesis using nz by (auto simp: parse_search_attribute_def assms(1) l(1) v(1) Let_def)
    next
      case v2: True
      then have ge2: "2 \<le> unat ?n" by (simp add: word_less_nat_alt)
      then have n2: "unat (?n - 2) = unat ?n - 2" by (intro sub_u16) simp_all
      have "5 + unat l + 1 < length packet" using ge2 n1 assms(2) by linarith
      then obtain mx where mx: "big_endian_read_16 packet (5 + unat l) = Some mx" using read_16_inside by blast
      let ?a = "5 + unat l + 2"
      have "?a + unat (?n - 2) \<le> length packet" using n1 n2 ge2 l(3) assms(2) by linarith
      then obtain m where m: "de_get_len_safe packet ?a (ucast (?n - 2)) = Some m" "unat (ucast m :: u16) = unat m"
        "unat m \<le> unat (?n - 2)" "(ucast m :: u16) \<noteq> 0 \<longrightarrow> elem_at packet ?a (unat m)"
        by (rule packet_element)
      show ?thesis
      proof (cases "mx < 7 \<or> (ucast m :: u16) = 0")
        case True
        then show ?thesis using nz v2 by (auto simp: parse_search_attribute_def assms(1) l(1,2) v(1) mx m(1) [simplified] Let_def)
      next
        case mz: False
        then obtain w where w: "sdp_attribute_list_valid packet ?a = Some w" "w \<longrightarrow> seq_elem packet ?a"
          using list_valid_defined [OF _ over] m(4) by metis
        let ?r = "?n - 2 - (ucast m :: u16)" and ?q = "?a + unat m"
        have r1: "unat ?r = unat (?n - 2) - unat m" using m(2,3) by (intro sub_u16)
        show ?thesis
        proof (cases "w \<and> \<not> ?r < 1")
          case False
          then show ?thesis using nz v2 mz
            by (auto simp: parse_search_attribute_def assms(1) l(1,2) v(1) mx m(1) [simplified] w(1) [simplified] Let_def)
        next
          case w1: True
          then have "1 \<le> unat ?r" by (simp add: word_less_nat_alt)
          then have lt: "?q < length packet" and end_: "?q + unat ?r \<le> length packet"
            using n1 n2 r1 l(3) m(3) ge2 assms(2) by linarith+
          have eq: "parse_search_attribute packet = (if 1 + uint (packet ! ?q) > uint ?r then Some NoResponse
            else if packet ! ?q = 0 then Some (Request \<lparr>q_pattern_len = ucast l, q_limit = mx,
                   q_service_index = 0, q_service_offset = 0\<rparr>)
            else if packet ! ?q = 4 then do {
                   index \<leftarrow> big_endian_read_16 packet (?q + 1);
                   offset \<leftarrow> big_endian_read_16 packet (?q + 3);
                   Some (Request \<lparr>q_pattern_len = ucast l, q_limit = mx,
                     q_service_index = index, q_service_offset = offset\<rparr>) }
            else Some (ErrorResponse 5))"
            using nz v2 mz w1 lt unfolding parse_search_attribute_def
            by (simp only: assms(1) l(1,2) v(1) mx m(1,2) w(1) Let_def bind.bind_lunit if_False not_True_eq_False simp_thms de_Morgan_disj rd_Some)
          have "\<exists>i j. big_endian_read_16 packet (?q + 1) = Some i \<and> big_endian_read_16 packet (?q + 3) = Some j"
            if "\<not> 1 + uint (packet ! ?q) > uint ?r" "packet ! ?q = 4"
            using continuation_read(2) [OF end_ that] by simp
          moreover have "7 \<le> mx" using mz by (simp add: linorder_not_less)
          ultimately show ?thesis
            unfolding eq using v(2) v2 w(2) w1 l(2)
            by (cases "1 + uint (packet ! ?q) > uint ?r"; cases "packet ! ?q = 0"; cases "packet ! ?q = 4") fastforce+
        qed
      qed
    qed
  qed
qed

section \<open>Writing a response\<close>

lemma wr_overwrite: "n < length b \<Longrightarrow> wr b n v = Some (overwrite b n [v])"
  by (simp add: overwrite_def upd_conv_take_nth_drop)

lemma store_16_overwrite:
  assumes "p + unat pos + 1 < length b" and "unat pos < 65535"
  shows "big_endian_store_16 b p pos v = Some (overwrite b (p + unat pos) (be16 v))"
proof -
  let ?n = "p + unat pos"
  obtain x y ys where b: "drop ?n b = x # y # ys"
    using assms(1) by (metis Cons_nth_drop_Suc Suc_eq_plus1 Suc_lessD)
  then have "b = take ?n b @ x # y # ys" by (metis append_take_drop_id)
  moreover have "drop (?n + 2) b = ys" using arg_cong [OF b, of "drop 2"] by (simp add: add.commute)
  ultimately show ?thesis
    using store_16_at [of p pos "take ?n b" x y ys v] assms by (simp add: overwrite_def add.commute)
qed

lemma list4E: "length xs = 4 \<Longrightarrow> (\<And>w x y z. xs = [w, x, y, z] \<Longrightarrow> P) \<Longrightarrow> P"
  by (auto simp: length_Suc_conv numeral_eq_Suc)

lemma store_32_overwrite:
  assumes "p + unat pos + 3 < length b" and "unat pos < 65533"
  shows "big_endian_store_32 b p pos v = Some (overwrite b (p + unat pos) (be32 v))"
proof -
  let ?n = "p + unat pos"
  have "length (take 4 (drop ?n b)) = 4" using assms(1) by simp
  then obtain w x y z where "take 4 (drop ?n b) = [w, x, y, z]" by (rule list4E)
  then have "drop ?n b = w # x # y # z # drop 4 (drop ?n b)" by (metis append_Cons append_Nil append_take_drop_id)
  then have "b = take ?n b @ w # x # y # z # drop (4 + ?n) b" by (metis append_take_drop_id drop_drop)
  then show ?thesis
    using store_32_at [of p pos "take ?n b" w x y z "drop (4 + ?n) b" v] assms by (simp add: overwrite_def add.commute)
qed

lemma store_descriptor_overwrite:
  assumes "n + 2 < length b" and "n < 65533"
  shows "de_store_descriptor_with_len b n DE_DES DE_SIZE_VAR_16 v = Some (overwrite b n (0x36 # be16 (ucast v)))"
proof -
  have 1: "big_endian_store_16 (overwrite b n [0x36]) n 1 (ucast v) = Some (overwrite (overwrite b n [0x36]) (n + 1) (be16 (ucast v)))"
    using store_16_overwrite [of n 1 "overwrite b n [0x36]" "ucast v"] assms by simp
  have "overwrite (overwrite b n [0x36]) (n + 1) (be16 (ucast v)) = overwrite b n (0x36 # be16 (ucast v))"
    using overwrite_overwrite [of n "[0x36]" b "be16 (ucast v)"] assms by simp
  with 1 show ?thesis
    using assms wr_overwrite [of n b "0x36"] by (simp add: de_store_descriptor_with_len_def del: wr_Some)
qed

text \<open>The header of a response, in front of what is there already.\<close>

lemma response_header_eq:
  assumes "7 \<le> length b"
  shows "(do { b \<leftarrow> response_header b pdu tid pos; big_endian_store_16 b 0 5 count })
    = Some (overwrite b 0 (pdu # be16 tid @ be16 (pos - 5) @ be16 count))"
proof -
  have 5: "overwrite (overwrite b 0 (pdu # be16 tid)) 3 (be16 (pos - 5)) = overwrite b 0 (pdu # be16 tid @ be16 (pos - 5))"
    using overwrite_overwrite [of 0 "pdu # be16 tid" b "be16 (pos - 5)"] assms by simp
  have 3: "overwrite (overwrite b 0 [pdu]) 1 (be16 tid) = overwrite b 0 (pdu # be16 tid)"
    using overwrite_overwrite [of 0 "[pdu]" b "be16 tid"] assms by simp
  have 7: "overwrite (overwrite b 0 (pdu # be16 tid @ be16 (pos - 5))) 5 (be16 count)
      = overwrite b 0 (pdu # be16 tid @ be16 (pos - 5) @ be16 count)"
    using overwrite_overwrite [of 0 "pdu # be16 tid @ be16 (pos - 5)" b "be16 count"] assms by simp
  have "wr b 0 pdu = Some (overwrite b 0 [pdu])" using assms by (intro wr_overwrite) linarith
  then show ?thesis
    using assms store_16_overwrite [of 0 1 "overwrite b 0 [pdu]" tid] store_16_overwrite [of 0 3 "overwrite b 0 (pdu # be16 tid)" "pos - 5"]
      store_16_overwrite [of 0 5 "overwrite b 0 (pdu # be16 tid @ be16 (pos - 5))" count]
    by (simp add: response_header_def 3 [unfolded One_nat_def] 5 7 del: wr_Some)
qed

lemma error_response:
  assumes "7 \<le> length b"
  shows "sdp_create_error_response b tid code = Some (7, overwrite b 0 (1 # be16 tid @ be16 2 @ be16 code))"
  using response_header_eq [OF assms, of 1 tid 7 code] unfolding response_header_def sdp_create_error_response_def
  by (auto simp: bind_eq_Some_conv simp del: wr_Some)

lemma overwrite_front:
  assumes "length h = n" and "n \<le> length b"
  shows "overwrite (overwrite b n x) 0 h = h @ x @ drop (n + length x) b"
  using assms by (simp add: overwrite_def)

end
