(* ===== verification/SdpAnswer.thy ===== *)
theory SdpAnswer
  imports SdpProtocol
begin

text \<open>
  The answers of the service discovery server on a database whose records are encodings of attributes:
  the bytes of the response to an attribute request, and the two search requests, whose responses stay
  within the buffer and the MTU of the host.
\<close>

section \<open>The database\<close>

definition record_ok :: "bytes \<Rightarrow> attribute list \<Rightarrow> bool" where
  "record_ok rec as \<longleftrightarrow> attrs_ok as \<and> (\<exists>rest. rec = seq_bytes (attribute_list as) @ rest)"

definition db_ok :: "service_record_item list \<Rightarrow> bool" where
  "db_ok items \<longleftrightarrow> (\<forall>item\<in>set items. \<exists>as. record_ok (snd item) as)"

lemma record_split: "record_ok rec as \<Longrightarrow> \<exists>rest. rec = [] @ seq_bytes (attribute_list as) @ rest"
  by (auto simp: record_ok_def)

lemma attrs_sequence: "attrs_ok as \<Longrightarrow> de_ok (Sequence (attribute_list as))"
  by (auto simp: attrs_ok_def attribute_list_def length_seq_bytes)

text \<open>The UUIDs of a search pattern all occur in a record.\<close>

definition pattern_in :: "bytes \<Rightarrow> nat \<Rightarrow> nat \<Rightarrow> attribute list \<Rightarrow> bool" where
  "pattern_in packet p l as \<longleftrightarrow>
     (\<forall>x\<in>set (pattern_uuids packet p l). \<exists>u. x = Some u \<and> u \<in> set (uuids (Sequence (attribute_list as))))"

lemma record_matches_ok:
  assumes "record_ok rec as" and "elem_at packet p l" and "drop_bit 3 (packet ! p) = DE_DES"
  shows "record_matches rec packet p = Some (pattern_in packet p l as)"
proof -
  have as: "attrs_ok as" using assms(1) by (simp add: record_ok_def)
  obtain rest where rec: "rec = [] @ seq_bytes (attribute_list as) @ rest" using record_split [OF assms(1)] ..
  have "length (seq_bytes (attribute_list as)) \<le> Suc (length rec)" by (simp add: rec)
  from matches_pattern [OF assms(2,3) attrs_sequence [OF as] this, of "[]" rest]
  show ?thesis unfolding record_matches_def pattern_in_def rec [symmetric] list.size .
qed

text \<open>The bytes of a record that a list of attribute IDs selects.\<close>

definition chosen :: "bytes \<Rightarrow> nat \<Rightarrow> nat \<Rightarrow> attribute list \<Rightarrow> bytes" where
  "chosen packet p l as = selected (list_selects packet p l) as"

lemma selected_le: "length (selected sel as) \<le> length (body (attribute_list as))"
  by (induction as) (auto simp: selected_def attribute_bytes_def)

lemma chosen_lt: "record_ok rec as \<Longrightarrow> length (chosen packet p l as) < 65533"
  using selected_le [of "list_selects packet p l" as]
  by (simp add: record_ok_def attrs_ok_def length_seq_bytes chosen_def)

lemma filtered_ok:
  assumes "record_ok rec as" and "elem_at packet p l"
  shows "sdp_get_filtered_size rec 0 packet p = Some (of_nat (length (chosen packet p l as)))"
proof -
  have as: "attrs_ok as" using assms(1) by (simp add: record_ok_def)
  obtain rest where rec: "rec = [] @ seq_bytes (attribute_list as) @ rest" using record_split [OF assms(1)] ..
  from filtered_size [OF as contains_id_selects [OF assms(2)], of "[]" rest]
  show ?thesis by (simp only: chosen_def rec [symmetric] list.size)
qed

lemma filter_ok:
  assumes "record_ok rec as" and "elem_at packet p l" and "at + unat mx \<le> length buffer"
  shows "sdp_filter_attributes_in_attributeIDList rec 0 packet p start mx buffer at
    = Some (length (chosen packet p l as) \<le> unat start + unat mx,
        of_nat (length (take (unat mx) (drop (unat start) (chosen packet p l as)))),
        overwrite buffer at (take (unat mx) (drop (unat start) (chosen packet p l as))))"
proof -
  have as: "attrs_ok as" using assms(1) by (simp add: record_ok_def)
  obtain rest where rec: "rec = [] @ seq_bytes (attribute_list as) @ rest" using record_split [OF assms(1)] ..
  from filter_contract [OF as contains_id_selects [OF assms(2)] assms(3), of "[]" rest]
  show ?thesis by (simp only: chosen_def rec [symmetric] list.size Let_def)
qed

lemma item_ok:
  assumes "db_ok items" and "sdp_get_record_item_for_handle h items = Some item"
  shows "\<exists>as. record_ok (snd item) as"
proof -
  have "item \<in> set items" using assms(2) by (induction items) (auto split: if_splits)
  with assms(1) show ?thesis by (auto simp: db_ok_def)
qed

section \<open>The attribute response\<close>

text \<open>
  A part of the answer, from an offset on: in front of the first one is the header of the sequence.
  The rest of the response is the continuation state.
\<close>

definition part :: "nat \<Rightarrow> nat \<Rightarrow> bytes \<Rightarrow> bytes" where
  "part mx off S = take (if off = 0 then mx - 3 else mx) (drop off S)"

definition front :: "nat \<Rightarrow> bytes \<Rightarrow> bytes" where
  "front off S = (if off = 0 then 0x36 # be16 (of_nat (length S)) else [])"

definition continuation :: "nat \<Rightarrow> nat \<Rightarrow> bytes \<Rightarrow> bytes" where
  "continuation mx off S =
     (if length S \<le> off + (if off = 0 then mx - 3 else mx) then [0]
      else 2 # be16 (of_nat (off + length (part mx off S))))"

text \<open>The end of the response behind what has been written up to \<open>pos\<close>.\<close>

lemma end_of_response:
  assumes "pos + 3 \<le> length b" and "length b < 65000" and "unat p = pos"
  shows "(if c then do { resp \<leftarrow> wr b pos 0; Some (resp, p + 1) }
      else do { resp \<leftarrow> wr b pos 2; resp \<leftarrow> big_endian_store_16 resp 0 (p + 1) v; Some (resp, p + 3) })
    = Some (overwrite b pos (if c then [0] else 2 # be16 v), p + (if c then 1 else 3))"
proof (cases c)
  case True
  then show ?thesis using wr_overwrite [of pos b 0] assms by (simp del: wr_Some)
next
  case False
  have "unat (p + 1) = pos + 1" using assms by (simp add: unat_plus_if')
  then have "big_endian_store_16 (overwrite b pos [2]) 0 (p + 1) v = Some (overwrite b pos (2 # be16 v))"
    using store_16_overwrite [of 0 "p + 1" "overwrite b pos [2]" v] overwrite_overwrite [of pos "[2]" b "be16 v"] assms by simp
  then show ?thesis using False wr_overwrite [of pos b 2] assms by (simp del: wr_Some)
qed

definition header :: "u8 \<Rightarrow> u16 \<Rightarrow> nat \<Rightarrow> nat \<Rightarrow> bytes" where
  "header pdu tid sz n = pdu # be16 tid @ be16 (of_nat (sz - 5)) @ be16 (of_nat n)"

lemma length_header [simp]: "length (header pdu tid sz n) = 7"
  by (simp add: header_def)

theorem attribute_answer_eq:
  assumes item: "sdp_get_record_item_for_handle (q_handle q) items = Some (h, rec)" and rec: "record_ok rec as"
    and el: "elem_at packet 11 l"
    and q: "7 \<le> q_max_bytes q" and mtu: "17 \<le> mtu" "unat mtu \<le> 1691" and b: "length b = 1691"
  defines "S \<equiv> chosen packet 11 l as" and "mx \<equiv> min (unat mtu - 10) (unat (q_max_bytes q))"
    and "off \<equiv> unat (q_offset q)"
  defines "payload \<equiv> front off S @ part mx off S"
  defines "sz \<equiv> 7 + length payload + length (continuation mx off S)"
  shows "\<exists>rest. answer_attribute items b packet tid mtu q
      = Some (of_nat sz, header 5 tid sz (length payload) @ payload @ continuation mx off S @ rest)
    \<and> sz \<le> unat mtu \<and> sz + length rest = 1691"
proof -
  let ?off = "q_offset q"
  have "10 \<le> mtu" using mtu(1) by (simp add: word_le_nat_alt)
  then have m10: "unat (mtu - 10) = unat mtu - 10" by (subst unat_sub) simp_all
  define max_bytes where "max_bytes = (if mtu - (7 + 3) < q_max_bytes q then mtu - (7 + 3) else q_max_bytes q)"
  have mx: "unat max_bytes = mx" using m10 by (simp add: max_bytes_def mx_def word_less_nat_alt min_def)
  have mx7: "7 \<le> mx" "mx + 10 \<le> unat mtu" using q mtu m10 by (auto simp: mx_def word_le_nat_alt min_def)
  then have "3 \<le> max_bytes" using mx by (simp add: word_le_nat_alt)
  then have mx3: "unat (max_bytes - 3) = mx - 3" by (subst unat_sub) (simp_all add: mx)
  have S: "length S < 65533" unfolding S_def by (rule chosen_lt [OF rec])
  have S16: "(ucast (of_nat (length S) :: u32) :: u16) = of_nat (length S)" by (rule ucast_of_nat_narrow) simp
  have zero: "?off = 0 \<longleftrightarrow> off = 0" by (simp add: off_def unat_eq_zero)
  define b1 where "b1 = overwrite b 7 (front off S)"
  have fr: "length (front off S) \<le> 3" by (simp add: front_def)
  have lb1: "length b1 = 1691" using b fr by (simp add: b1_def)
  define pos where "pos = 7 + length (front off S)"
  define room where "room = (if off = 0 then mx - 3 else mx)"
  have room: "pos + room \<le> unat mtu - 3" using mx7 by (auto simp: pos_def room_def front_def)
  have un_room: "unat (of_nat room :: u16) = room" using room mtu(2) by (intro unat_of_nat_u16) simp
  have part: "part mx off S = take room (drop off S)" by (simp add: part_def room_def)
  have lp: "length (part mx off S) \<le> room" by (simp add: part)
  have mbs: "max_bytes - 3 = of_nat room" if "off = 0"
    using that mx3 by (simp add: word_unat_eq_iff un_room) (simp add: room_def)
  have mbs': "max_bytes = of_nat room" if "off \<noteq> 0"
    using that mx by (simp add: word_unat_eq_iff un_room) (simp add: room_def)
  have first: "(if ?off = 0 then do {
               n \<leftarrow> sdp_get_filtered_size rec 0 packet 11;
               resp \<leftarrow> de_store_descriptor_with_len b 7 DE_DES DE_SIZE_VAR_16 (ucast n);
               Some (resp, max_bytes - 3, 10) }
             else Some (b, max_bytes, 7 :: u16)) = Some (b1, of_nat room, of_nat pos)"
    using store_descriptor_overwrite [of 7 b "of_nat (length S)"] S b
    by (simp add: zero b1_def pos_def front_def filtered_ok [OF rec el] S_def [symmetric] mbs mbs' S16 ucast_of_nat_u16)
  have p: "unat (of_nat pos :: u16) = pos" using room mtu(2) by (intro unat_of_nat_u16) simp
  have filt: "sdp_filter_attributes_in_attributeIDList rec 0 packet 11 ?off (of_nat room) b1 (unat (of_nat pos :: u16))
      = Some (length S \<le> off + room, of_nat (length (part mx off S)), overwrite b1 pos (part mx off S))"
  proof -
    have "pos + unat (of_nat room :: u16) \<le> length b1" using room mtu(2) unfolding un_room lb1 by linarith
    from filter_ok [OF rec el this, of ?off] show ?thesis
      unfolding p un_room part S_def [symmetric] off_def [symmetric] .
  qed
  have b2: "overwrite b1 pos (part mx off S) = overwrite b 7 payload"
    using overwrite_overwrite [of 7 "front off S" b "part mx off S"] fr b by (simp add: b1_def pos_def payload_def)
  have pos2: "of_nat pos + of_nat (length (part mx off S)) = (of_nat (7 + length payload) :: u16)"
    by (simp add: pos_def payload_def)
  have lpay: "7 + length payload + 3 \<le> unat mtu" using lp room mx7 by (simp add: payload_def pos_def)
  then have u2: "unat (of_nat (7 + length payload) :: u16) = 7 + length payload"
    using mtu(2) by (intro unat_of_nat_u16) simp
  have lb2: "length (overwrite b 7 payload) = 1691" using lpay mtu(2) b by simp
  let ?c = "length S \<le> off + room"
  let ?p2 = "of_nat (7 + length payload) :: u16"
  have end_: "(if ?c then do { resp \<leftarrow> wr (overwrite b 7 payload) (unat ?p2) 0; Some (resp, ?p2 + 1) }
      else do { resp \<leftarrow> wr (overwrite b 7 payload) (unat ?p2) 2;
        resp \<leftarrow> big_endian_store_16 resp 0 (?p2 + 1) (?off + of_nat (length (part mx off S))); Some (resp, ?p2 + 3) })
    = Some (overwrite b 7 (payload @ continuation mx off S), of_nat sz)"
  proof -
    have o: "?off + of_nat (length (part mx off S)) = of_nat (off + length (part mx off S))"
      by (simp add: off_def)
    have "continuation mx off S = (if ?c then [0] else 2 # be16 (of_nat (off + length (part mx off S))))"
      by (simp add: continuation_def room_def)
    moreover from this have "of_nat sz = ?p2 + (if ?c then 1 else 3)" by (simp add: sz_def)
    ultimately show ?thesis
      using end_of_response [OF _ _ u2, of "overwrite b 7 payload" ?c "of_nat (off + length (part mx off S))"]
        overwrite_overwrite [of 7 payload b "continuation mx off S"] lpay mtu(2) b
      by (simp only: u2 o lb2)
  qed
  have lsz: "sz \<le> unat mtu" using lpay by (simp add: sz_def continuation_def)
  have sub: "of_nat sz - 5 = (of_nat (sz - 5) :: u16)" by (simp add: sz_def)
  have cnt: "?p2 - 7 = of_nat (length payload)" by simp
  let ?b3 = "overwrite b 7 (payload @ continuation mx off S)"
  have lb3: "7 \<le> length ?b3" using lsz mtu(2) b by (simp add: sz_def)
  have "answer_attribute items b packet tid mtu q
      = Some (of_nat sz, overwrite ?b3 0 (header 5 tid sz (length payload)))"
    unfolding answer_attribute_def header_def
    using response_header_eq [OF lb3, of 5 tid "of_nat sz" "of_nat (length payload)"]
    by (simp only: item option.case Let_def max_bytes_def [symmetric] snd_conv first filt b2 pos2 end_ cnt sub
      bind.bind_lunit prod.case) (simp add: bind_eq_Some_conv)
  moreover have "overwrite ?b3 0 (header 5 tid sz (length payload))
      = header 5 tid sz (length payload) @ (payload @ continuation mx off S) @ drop sz b"
    using overwrite_front [of "header 5 tid sz (length payload)" 7 b] b by (simp add: sz_def add.assoc)
  ultimately show ?thesis using lsz mtu(2) b by (intro exI [of _ "drop sz b"]) simp
qed

end
