(* ===== verification/SdpSafety.thy ===== *)
theory SdpSafety
  imports SdpAnswer
begin

text \<open>
  The service discovery server as a whole: whatever a host sends, the server stays within its buffers,
  except for one element of an attribute list that is read past, and answers at most as many bytes as the
  host accepts; the waiting list never overflows and serves in order.
\<close>

section \<open>The search response\<close>

lemma pattern_seq:
  assumes "seq_elem packet p" and "record_ok rec as"
  obtains m where "record_matches rec packet p = Some m"
  using assms record_matches_ok by (auto simp: seq_elem_def)

lemma matches_defined:
  assumes "db_ok items" and "seq_elem packet p" and "item \<in> set items"
  shows "\<exists>m. record_matches (snd item) packet p = Some m"
proof -
  obtain as where "record_ok (snd item) as" using assms(1,3) by (auto simp: db_ok_def)
  then show ?thesis using pattern_seq [OF assms(2)] by metis
qed

lemma db_ok_Cons [simp]: "db_ok (item # items) \<longleftrightarrow> (\<exists>as. record_ok (snd item) as) \<and> db_ok items"
  by (auto simp: db_ok_def)

lemma count_defined: "db_ok items \<Longrightarrow> seq_elem packet p \<Longrightarrow> \<exists>m. count_matching packet p items n = Some m"
proof (induction items arbitrary: n)
  case (Cons item items)
  then show ?case using matches_defined [OF Cons.prems(1,2), of item] by auto
qed simp

definition search_inv :: "nat \<Rightarrow> nat \<Rightarrow> search_state \<Rightarrow> bool" where
  "search_inv m k s \<longleftrightarrow> length (r_resp s) = 1691 \<and> k \<le> m \<and> r_pos s = of_nat (9 + 4 * k) \<and> r_current s = of_nat k"

lemma search_records_ok:
  assumes "db_ok items" and "seq_elem packet p" and "search_inv (unat mx) k s" and "k < unat mx" and "unat mx \<le> 419"
  shows "\<exists>k s'. search_records packet p limit mx start items s = Some s' \<and> search_inv (unat mx) k s'"
  using assms(1,3,4)
proof (induction items arbitrary: k s)
  case Nil
  then show ?case by auto
next
  case (Cons item items)
  obtain m where m: "record_matches (snd item) packet p = Some m"
    using matches_defined [OF Cons.prems(1) assms(2), of item] by auto
  have db: "db_ok items" using Cons.prems(1) by simp
  show ?case
  proof (cases "m \<and> \<not> r_index s < start")
    case False
    have "search_inv (unat mx) k (s\<lparr>r_index := r_index s + 1\<rparr>)"
      "search_inv (unat mx) k (s\<lparr>r_matching := r_matching s + 1, r_index := r_index s + 1\<rparr>)"
      using Cons.prems(2) by (simp_all add: search_inv_def)
    then show ?thesis
      using Cons.IH [OF db _ Cons.prems(3)] False m by (auto simp: Let_def)
  next
    case True
    have k: "unat (r_pos s) = 9 + 4 * k" "9 + 4 * k + 4 \<le> 1685"
      using Cons.prems(2,3) assms(5) by (simp_all add: search_inv_def unat_of_nat_u16 del: of_nat_add of_nat_mult)
    then have st: "big_endian_store_32 (r_resp s) 0 (r_pos s) (fst item)
        = Some (overwrite (r_resp s) (9 + 4 * k) (be32 (fst item)))" (is "_ = Some ?resp")
      using store_32_overwrite [of 0 "r_pos s" "r_resp s" "fst item"] Cons.prems(2) by (simp add: search_inv_def)
    let ?s = "s\<lparr>r_matching := r_matching s + 1, r_resp := ?resp, r_pos := r_pos s + 4, r_current := r_current s + 1\<rparr>"
    have inv: "search_inv (unat mx) (Suc k) ?s"
      using Cons.prems(2,3) k(2) by (simp add: search_inv_def)
    have cur: "unat (r_current s + 1) = Suc k"
      using Cons.prems(2,3) assms(5) unat_of_nat_u16 [of "Suc k"] by (simp add: search_inv_def add.commute)
    consider "r_matching s + 1 \<ge> limit" | "\<not> r_matching s + 1 \<ge> limit" "r_current s + 1 \<ge> mx"
      | "\<not> r_matching s + 1 \<ge> limit" "\<not> r_current s + 1 \<ge> mx" by blast
    then show ?thesis
    proof cases
      case 1
      then show ?thesis using inv True m st by (auto simp: Let_def)
    next
      case 2
      moreover have "search_inv (unat mx) (Suc k) (?s\<lparr>r_continuation := Some (r_index s + 1)\<rparr>)"
        using inv by (simp add: search_inv_def)
      ultimately show ?thesis using True m st by (auto simp: Let_def)
    next
      case 3
      then have "Suc k < unat mx" using cur by (simp add: word_le_nat_alt)
      moreover have "search_inv (unat mx) (Suc k) (?s\<lparr>r_index := r_index s + 1\<rparr>)"
        using inv by (simp add: search_inv_def)
      ultimately show ?thesis using Cons.IH [OF db] 3 True m st by (auto simp: Let_def)
    qed
  qed
qed

lemma max_records:
  assumes "16 \<le> unat mtu" and "unat mtu \<le> 1691"
  shows "unat (max_records_per_response mtu) = (unat mtu - 12) div 4"
proof -
  define n where "n = unat mtu - 12"
  have x: "uint mtu - (9 + 3) = int n" using assms(1) uint_nat [of mtu] unfolding n_def by linarith
  have "0 < n" using assms(1) by (simp add: n_def)
  then have "sgn (int n) * (\<bar>int n\<bar> div 4) = int (n div 4)" by (simp add: zdiv_int)
  then have "max_records_per_response mtu = of_nat (n div 4)"
    unfolding max_records_per_response_def Let_def x by simp
  then show ?thesis using assms(2) unat_of_nat_u16 [of "(unat mtu - 12) div 4"] by (simp add: n_def)
qed

text \<open>What every handler promises of its response.\<close>

definition response_ok :: "u16 \<Rightarrow> response option \<Rightarrow> bool" where
  "response_ok mtu r \<longleftrightarrow> (\<exists>sz b. r = Some (sz, b) \<and> length b = 1691 \<and> unat sz \<le> unat mtu)"

lemma error_ok: "length b = 1691 \<Longrightarrow> 48 \<le> unat mtu \<Longrightarrow> response_ok mtu (sdp_create_error_response b tid code)"
  by (simp add: error_response response_ok_def)

text \<open>The end of a response of a search.\<close>

lemma close_response:
  assumes "length b = 1691" and "7 \<le> length b"
  shows "\<exists>b'. (do { b \<leftarrow> response_header b pdu tid pos; big_endian_store_16 b 0 5 count }) = Some b' \<and> length b' = 1691"
  using response_header_eq [OF assms(2)] assms(1) by auto

lemma answer_search_ok:
  assumes db: "db_ok items" and pat: "seq_elem packet 5" and mtu: "48 \<le> unat mtu" "unat mtu \<le> 1691"
    and b: "length b = 1691"
  shows "response_ok mtu (answer_search items b packet tid mtu q)"
proof -
  obtain n where n: "count_matching packet 5 items 0 = Some n" using count_defined [OF db pat] by blast
  let ?limit = "if n > q_max_count q then q_max_count q else n"
  let ?s = "\<lparr>r_resp = b, r_pos = 9, r_current = 0, r_index = 0, r_matching = 0, r_continuation = None\<rparr>"
  have mx: "unat (max_records_per_response mtu) = (unat mtu - 12) div 4" using mtu by (intro max_records) simp_all
  have inv: "search_inv (unat (max_records_per_response mtu)) 0 ?s" using b by (simp add: search_inv_def)
  obtain k s where s: "search_records packet 5 ?limit (max_records_per_response mtu) (q_index q) items ?s = Some s"
      "search_inv (unat (max_records_per_response mtu)) k s"
  proof -
    have "0 < unat (max_records_per_response mtu)" "unat (max_records_per_response mtu) \<le> 419"
      unfolding mx using mtu by linarith+
    from search_records_ok [OF db pat inv this] that show thesis by blast
  qed
  have k: "9 + 4 * k + 3 \<le> unat mtu" "r_pos s = of_nat (9 + 4 * k)" "length (r_resp s) = 1691"
    using s(2) mx mtu by (auto simp: search_inv_def)
  then have pos: "unat (r_pos s) = 9 + 4 * k" using mtu(2) by (simp only: k(2)) (intro unat_of_nat_u16, simp)
  define c where "c = (r_continuation s = None)"
  define v where "v = (case r_continuation s of Some i \<Rightarrow> i | None \<Rightarrow> 0)"
  define st where "st = (if c then [0] else 2 # be16 v)"
  have st3: "length st \<le> 3" by (simp add: st_def)
  have end_: "(case r_continuation s of
          Some i \<Rightarrow> do { resp \<leftarrow> wr (r_resp s) (unat (r_pos s)) 2;
            resp \<leftarrow> big_endian_store_16 resp 0 (r_pos s + 1) i; Some (resp, r_pos s + 3) }
        | None \<Rightarrow> do { resp \<leftarrow> wr (r_resp s) (unat (r_pos s)) 0; Some (resp, r_pos s + 1) })
    = Some (overwrite (r_resp s) (9 + 4 * k) st, r_pos s + (if c then 1 else 3))"
    using end_of_response [of "9 + 4 * k" "r_resp s" "r_pos s" c v] k mtu(2) pos
    by (cases "r_continuation s") (simp_all add: c_def v_def st_def del: wr_Some)
  define pos' where "pos' = r_pos s + (if c then 1 else 3)"
  have p': "unat pos' \<le> unat mtu" using pos k(1) mtu(2) by (simp add: pos'_def unat_plus_if')
  have len: "length (overwrite (r_resp s) (9 + 4 * k) st) = 1691" using k mtu(2) st3 by simp
  obtain b2 where b2: "(do { b \<leftarrow> response_header (overwrite (r_resp s) (9 + 4 * k) st) 3 tid pos';
      big_endian_store_16 b 0 5 ?limit }) = Some b2" "length b2 = 1691"
    using close_response [OF len] len by fastforce
  have "big_endian_store_16 b2 0 7 (r_current s) = Some (overwrite b2 7 (be16 (r_current s)))"
    using store_16_overwrite [of 0 7 b2] b2(2) by simp
  then show ?thesis
    using b2 p' unfolding answer_search_def response_ok_def
    by (simp only: n s(1) Let_def end_ bind.bind_lunit prod.case pos'_def [symmetric])
      (auto simp: bind_eq_Some_conv)
qed

section \<open>The attribute response\<close>

lemma answer_attribute_ok:
  assumes db: "db_ok items" and ids: "seq_elem packet 11" and q: "7 \<le> q_max_bytes q"
    and mtu: "48 \<le> unat mtu" "unat mtu \<le> 1691" and b: "length b = 1691"
  shows "response_ok mtu (answer_attribute items b packet tid mtu q)"
proof (cases "sdp_get_record_item_for_handle (q_handle q) items")
  case None
  then show ?thesis using error_ok [OF b mtu(1)] by (simp add: answer_attribute_def)
next
  case (Some item)
  obtain as where as: "record_ok (snd item) as" using item_ok [OF db Some] ..
  obtain l where l: "elem_at packet 11 l" using ids by (auto simp: seq_elem_def)
  have "17 \<le> mtu" using mtu(1) by (simp add: word_le_nat_alt)
  from attribute_answer_eq [OF _ as l q this mtu(2) b, of items "fst item" tid] Some
  obtain sz bs where "answer_attribute items b packet tid mtu q = Some (of_nat sz, bs)" "sz \<le> unat mtu" "length bs = 1691"
    by fastforce
  then show ?thesis using mtu(2) unat_of_nat_u16 [of sz] by (simp add: response_ok_def)
qed

section \<open>The search attribute response\<close>

definition lists_inv :: "nat \<Rightarrow> lists_state \<Rightarrow> bool" where
  "lists_inv m s \<longleftrightarrow> length (l_resp s) = 1691 \<and> 7 \<le> unat (l_pos s) \<and> unat (l_pos s) + unat (l_max s) \<le> m
     \<and> (l_first s \<longrightarrow> 4 \<le> unat (l_max s))"

lemma copy_record_ok:
  assumes "record_ok rec as" and "elem_at packet ids l" and "lists_inv m (s\<lparr>l_first := False\<rparr>)" and "m \<le> 1691"
  shows "\<exists>r. copy_record packet ids rec s = Some r \<and> lists_inv m (snd r)"
proof -
  define out where "out = take (unat (l_max s)) (drop (unat (l_offset s)) (chosen packet ids l as))"
  define n where "n = length out"
  define ok where "ok = (length (chosen packet ids l as) \<le> unat (l_offset s) + unat (l_max s))"
  have n: "n \<le> unat (l_max s)" by (simp add: n_def out_def)
  have room: "unat (l_pos s) + unat (l_max s) \<le> length (l_resp s)" using assms(3,4) by (simp add: lists_inv_def)
  then have le: "unat (l_pos s) + n \<le> 1691" "n \<le> 1691" using n assms(3) by (simp_all add: lists_inv_def)
  have un: "unat (of_nat n :: u16) = n" using le by (intro unat_of_nat_u16) simp
  have pos: "unat (l_pos s + of_nat n) = unat (l_pos s) + n" using le(1) by (simp add: unat_plus_if' un)
  have mx: "unat (l_max s - of_nat n) = unat (l_max s) - n" using n un by (intro sub_u16)
  have len: "length (overwrite (l_resp s) (unat (l_pos s)) out) = 1691"
    using room n assms(3) by (simp add: lists_inv_def n_def)
  have "sdp_filter_attributes_in_attributeIDList rec 0 packet ids (l_offset s) (l_max s) (l_resp s) (unat (l_pos s))
      = Some (ok, of_nat n, overwrite (l_resp s) (unat (l_pos s)) out)"
    using filter_ok [OF assms(1,2) room, of "l_offset s"] by (simp only: ok_def n_def out_def)
  then show ?thesis
    using assms(3) n pos mx len by (simp add: copy_record_def lists_inv_def Let_def)
qed

lemma add_record_ok:
  assumes rec: "record_ok rec as" and pat: "seq_elem packet p" and ids: "elem_at packet ids l"
    and inv: "lists_inv m s" and m: "m \<le> 1691"
  shows "\<exists>r. add_record packet p ids start rec s = Some r \<and> lists_inv m (snd r)"
proof -
  obtain b where b: "record_matches rec packet p = Some b" by (rule pattern_seq [OF pat rec])
  let ?n = "length (chosen packet ids l as)"
  have n: "?n < 65533" by (rule chosen_lt [OF rec])
  have fs: "sdp_get_filtered_size rec 0 packet ids = Some (of_nat ?n)" by (rule filtered_ok [OF rec ids])
  have copy: "\<exists>r. copy_record packet ids rec s = Some r \<and> lists_inv m (snd r)"
    using inv by (intro copy_record_ok [OF rec ids _ m]) (simp add: lists_inv_def)
  let ?full = "uint (of_nat ?n :: u16) + 3 > uint (l_max s) \<and> \<not> l_first s"
  show ?thesis
  proof (cases "l_index s < start \<or> \<not> b \<or> l_offset s \<noteq> 0 \<or> (of_nat ?n :: u16) = 0 \<or> ?full")
    case True
    moreover have "lists_inv m (s\<lparr>l_continuation := True\<rparr>)" using inv by (simp add: lists_inv_def)
    ultimately show ?thesis
      using inv copy unfolding add_record_def b fs
      by (cases "l_index s < start"; cases b; cases "l_offset s = 0"; cases "(of_nat ?n :: u16) = 0"; cases ?full) simp_all
  next
    case False
    have room: "3 \<le> unat (l_max s)"
    proof (cases "l_first s")
      case True
      then show ?thesis using inv by (simp add: lists_inv_def)
    next
      case False
      then have "uint (of_nat ?n :: u16) + 3 \<le> uint (l_max s)" using \<open>\<not> (_ \<or> _)\<close> by simp
      then show ?thesis using uint_nat [of "l_max s"] uint_nat [of "of_nat ?n :: u16"] by linarith
    qed
    then have w: "unat (l_pos s + 3) = unat (l_pos s) + 3" "unat (l_max s - 3) = unat (l_max s) - 3"
      using inv m by (simp_all add: lists_inv_def unat_plus_if' sub_u16)
    obtain resp where resp: "de_store_descriptor_with_len (l_resp s) (unat (l_pos s)) DE_DES DE_SIZE_VAR_16
        (ucast (of_nat ?n :: u16)) = Some resp" "length resp = 1691"
    proof -
      have "unat (l_pos s) + 3 \<le> 1691" using inv room m by (simp add: lists_inv_def)
      then show thesis
        using that [OF store_descriptor_overwrite] inv by (simp add: lists_inv_def)
    qed
    let ?s = "s\<lparr>l_resp := resp, l_pos := l_pos s + 3, l_max := l_max s - 3\<rparr>"
    have "lists_inv m (?s\<lparr>l_first := False\<rparr>)"
      using inv w room resp(2) by (simp add: lists_inv_def)
    from copy_record_ok [OF rec ids this m]
    obtain r where "copy_record packet ids rec ?s = Some r" "lists_inv m (snd r)" by blast
    then show ?thesis
      using False unfolding add_record_def b fs by (cases r) (auto simp: resp(1) Let_def)
  qed
qed

lemma add_records_ok:
  assumes "db_ok items" and pat: "seq_elem packet p" and ids: "elem_at packet ids l" and "lists_inv m s" and m: "m \<le> 1691"
  shows "\<exists>s'. add_records packet p ids start items s = Some s' \<and> lists_inv m s'"
  using assms(1,4)
proof (induction items arbitrary: s)
  case (Cons item items)
  obtain as where as: "record_ok (snd item) as" using Cons.prems(1) by auto
  obtain stop s' where s': "add_record packet p ids start (snd item) s = Some (stop, s')" "lists_inv m s'"
    using add_record_ok [OF as pat ids Cons.prems(2) m] by fastforce
  have "lists_inv m (s'\<lparr>l_index := l_index s' + 1\<rparr>)" using s'(2) by (simp add: lists_inv_def)
  then show ?case using Cons.IH Cons.prems(1) s' by auto
qed simp

lemma lists_size_defined:
  assumes "db_ok items" and pat: "seq_elem packet p" and ids: "elem_at packet ids l"
  shows "\<exists>n'. sdp_get_size_for_service_search_attribute_response packet p ids items n = Some n'"
  using assms(1)
proof (induction items arbitrary: n)
  case (Cons item items)
  obtain as where as: "record_ok (snd item) as" using Cons.prems(1) by auto
  obtain b where b: "record_matches (snd item) packet p = Some b" by (rule pattern_seq [OF pat as])
  then show ?case using Cons.IH Cons.prems(1) filtered_ok [OF as ids] by simp
qed simp

lemma answer_search_attribute_ok:
  assumes db: "db_ok items" and pat: "seq_elem packet 5" and ids: "seq_elem packet (5 + unat (q_pattern_len q) + 2)"
    and q: "7 \<le> q_limit q" and mtu: "48 \<le> unat mtu" "unat mtu \<le> 1691" and b: "length b = 1691"
  shows "response_ok mtu (answer_search_attribute items b packet tid mtu q)"
proof -
  let ?ids = "5 + unat (q_pattern_len q) + 2"
  obtain l where l: "elem_at packet ?ids l" using ids by (auto simp: seq_elem_def)
  obtain n where n: "sdp_get_size_for_service_search_attribute_response packet 5 ?ids items 0 = Some n"
    using lists_size_defined [OF db pat l] by blast
  have "12 \<le> mtu" using mtu(1) by (simp add: word_le_nat_alt)
  then have m12: "unat (mtu - 12) = unat mtu - 12" by (subst unat_sub) simp_all
  define mx where "mx = (if mtu - 12 < q_limit q then mtu - 12 else q_limit q)"
  have mx: "7 \<le> unat mx" "unat mx \<le> unat mtu - 12"
    using q mtu m12 by (auto simp: mx_def word_le_nat_alt word_less_nat_alt)
  then have mx3: "unat (mx - 3) = unat mx - 3" by (intro sub_u16) simp_all
  obtain b0 where desc: "de_store_descriptor_with_len b 7 DE_DES DE_SIZE_VAR_16 (ucast n) = Some b0" "length b0 = 1691"
    using store_descriptor_overwrite [of 7 b "ucast n"] b by simp
  obtain b1 m1 p1 where start: "(if q_service_index q = 0 \<and> q_service_offset q = 0 then do {
             n \<leftarrow> sdp_get_size_for_service_search_attribute_response packet 5 ?ids items 0;
             resp \<leftarrow> de_store_descriptor_with_len b 7 DE_DES DE_SIZE_VAR_16 (ucast n);
             Some (resp, mx - 3, 10) }
           else Some (b, mx, 7 :: u16)) = Some (b1, m1, p1)"
    and s1: "length b1 = 1691" "7 \<le> unat p1" "unat p1 + unat m1 \<le> unat mtu - 5" "4 \<le> unat m1"
  proof (cases "q_service_index q = 0 \<and> q_service_offset q = 0")
    case True
    then show thesis using that [of b0 "mx - 3" 10] n desc mx mx3 mtu by simp
  next
    case False
    then show thesis using that [of b mx 7] b mx mtu by auto
  qed
  let ?s = "\<lparr>l_resp = b1, l_pos = p1, l_max = m1, l_index = 0, l_offset = q_service_offset q,
           l_first = True, l_continuation = False\<rparr>"
  have inv: "lists_inv (unat mtu - 5) ?s" using s1 by (simp add: lists_inv_def)
  have "unat mtu - 5 \<le> 1691" using mtu(2) by simp
  from add_records_ok [OF db pat l inv this] obtain s where s: "add_records packet 5 ?ids (q_service_index q) items ?s = Some s" "lists_inv (unat mtu - 5) s"
    by blast
  have ls: "length (l_resp s) = 1691" "unat (l_pos s) + 5 \<le> unat mtu" "7 \<le> unat (l_pos s)"
    using s(2) mtu by (auto simp: lists_inv_def)
  have pk: "unat (l_pos s + k) = unat (l_pos s) + unat k" if "unat k \<le> 5" for k
    using that ls(2) mtu(2) by (simp add: unat_plus_if')
  obtain b2 p2 where close: "(if l_continuation s then do {
               resp \<leftarrow> wr (l_resp s) (unat (l_pos s)) 4;
               resp \<leftarrow> big_endian_store_16 resp 0 (l_pos s + 1) (l_index s);
               resp \<leftarrow> big_endian_store_16 resp 0 (l_pos s + 3) (l_offset s);
               Some (resp, l_pos s + 5) }
             else do {
               resp \<leftarrow> wr (l_resp s) (unat (l_pos s)) 0;
               Some (resp, l_pos s + 1) }) = Some (b2, p2)" and b2: "length b2 = 1691" "unat p2 \<le> unat mtu"
  proof (cases "l_continuation s")
    case True
    let ?b = "overwrite (l_resp s) (unat (l_pos s)) [4]"
    let ?c = "overwrite ?b (unat (l_pos s) + 1) (be16 (l_index s))"
    have "big_endian_store_16 ?b 0 (l_pos s + 1) (l_index s) = Some ?c"
      using store_16_overwrite [of 0 "l_pos s + 1" ?b] ls mtu(2) pk [of 1] by simp
    moreover have "big_endian_store_16 ?c 0 (l_pos s + 3) (l_offset s)
        = Some (overwrite ?c (unat (l_pos s) + 3) (be16 (l_offset s)))"
      using store_16_overwrite [of 0 "l_pos s + 3" ?c] ls mtu(2) pk [of 3] by simp
    ultimately show thesis
      using that [of "overwrite ?c (unat (l_pos s) + 3) (be16 (l_offset s))" "l_pos s + 5"] True ls mtu(2) pk [of 5]
        wr_overwrite [of "unat (l_pos s)" "l_resp s" 4] by (simp del: wr_Some)
  next
    case False
    then show thesis
      using that [of "overwrite (l_resp s) (unat (l_pos s)) [0]" "l_pos s + 1"] ls mtu(2) pk [of 1]
        wr_overwrite [of "unat (l_pos s)" "l_resp s" 0] by (simp del: wr_Some)
  qed
  obtain b3 where b3: "(do { b \<leftarrow> response_header b2 7 tid p2; big_endian_store_16 b 0 5 (l_pos s - 7) }) = Some b3" "length b3 = 1691"
    using close_response [OF b2(1)] b2(1) by fastforce
  have eq: "answer_search_attribute items b packet tid mtu q
      = (if l_pos s - 7 < 2 then sdp_create_error_response (l_resp s) tid 5
         else do { b \<leftarrow> response_header b2 7 tid p2; b \<leftarrow> big_endian_store_16 b 0 5 (l_pos s - 7); Some (p2, b) })"
    unfolding answer_search_attribute_def
    by (simp only: Let_def mx_def [symmetric] start s(1) close bind.bind_lunit prod.case)
  show ?thesis
    unfolding eq using error_ok [OF ls(1) mtu(1)] b3 b2(2) by (auto simp: response_ok_def bind_eq_Some_conv)
qed

section \<open>Events\<close>

text \<open>What holds between two events.\<close>

definition server_ok :: "sdp_server \<Rightarrow> bool" where
  "server_ok s \<longleftrightarrow> db_ok (service_records s) \<and> length (sdp_response_buffer s) = 1691
     \<and> unat (response_size s) \<le> 1691 \<and> length (waiting_list_cids s) = 8 \<and> waiting_list_count s \<le> 8"

lemma empty_ok: "length b = 1691 \<Longrightarrow> response_ok mtu (Some (0, b))"
  by (simp add: response_ok_def)

lemma respond_ok:
  assumes "length b = 1691" and "48 \<le> unat mtu" and "\<And>q. r = Request q \<Longrightarrow> response_ok mtu (answer q)"
  shows "response_ok mtu (respond b tid r answer)"
  using assms error_ok empty_ok by (cases r) (auto simp: respond_def)

lemma handlers_ok:
  assumes db: "db_ok items" and b: "length b = 1691" and mtu: "48 \<le> unat mtu" "unat mtu \<le> 1691"
    and n: "big_endian_read_16 packet 3 = Some n" "5 + unat n \<le> length packet"
    and t: "big_endian_read_16 packet 1 = Some tid"
  shows "response_ok mtu (sdp_handle_service_search_request items b packet mtu)"
    and "\<not> ids_overrun packet 11 \<Longrightarrow> response_ok mtu (sdp_handle_service_attribute_request items b packet mtu)"
    and "(\<And>p. \<not> ids_overrun packet p) \<Longrightarrow> response_ok mtu (sdp_handle_service_search_attribute_request items b packet mtu)"
proof -
  obtain r where r: "parse_search packet = Some r" "\<forall>q. r = Request q \<longrightarrow> seq_elem packet 5"
    using parse_search_defined [OF n] by blast
  show "response_ok mtu (sdp_handle_service_search_request items b packet mtu)"
    using respond_ok [OF b mtu(1), of r "answer_search items b packet tid mtu" tid] answer_search_ok [OF db _ mtu b] r
    by (simp add: sdp_handle_service_search_request_def t [unfolded One_nat_def])
next
  assume "\<not> ids_overrun packet 11"
  then obtain r where r: "parse_attribute packet = Some r"
    "\<forall>q. r = Request q \<longrightarrow> seq_elem packet 11 \<and> 7 \<le> q_max_bytes q"
    using parse_attribute_defined [OF n] by blast
  show "response_ok mtu (sdp_handle_service_attribute_request items b packet mtu)"
    using respond_ok [OF b mtu(1), of r "answer_attribute items b packet tid mtu" tid] answer_attribute_ok [OF db _ _ mtu b] r
    by (simp add: sdp_handle_service_attribute_request_def t [unfolded One_nat_def])
next
  assume "\<And>p. \<not> ids_overrun packet p"
  from parse_search_attribute_defined [OF n this]
  obtain r where r: "parse_search_attribute packet = Some r" "\<forall>q. r = Request q \<longrightarrow>
    seq_elem packet 5 \<and> seq_elem packet (5 + unat (q_pattern_len q) + 2) \<and> 7 \<le> q_limit q" by blast
  show "response_ok mtu (sdp_handle_service_search_attribute_request items b packet mtu)"
    using respond_ok [OF b mtu(1), of r "answer_search_attribute items b packet tid mtu" tid]
      answer_search_attribute_ok [OF db _ _ _ mtu b] r
    by (simp add: sdp_handle_service_search_attribute_request_def t [unfolded One_nat_def])
qed

lemma data_safe:
  assumes ok: "server_ok s" and mtu: "48 \<le> unat mtu" and over: "\<And>p. \<not> ids_overrun packet p"
  shows "\<exists>s'. handle_sdp_data mtu packet s = Some s' \<and> server_ok s' \<and>
    (5 \<le> length packet \<longrightarrow> response_size s' \<le> mtu)"
proof (cases "length packet < 5")
  case True
  then show ?thesis using ok by (simp add: handle_sdp_data_def)
next
  case False
  then have "1 + 1 < length packet" "3 + 1 < length packet" by simp_all
  then obtain tid n where tn: "big_endian_read_16 packet 1 = Some tid" "big_endian_read_16 packet 3 = Some n"
    using read_16_inside by blast
  have rd0: "rd packet 0 = Some (packet ! 0)" using False by (intro rd_Some) linarith
  define rm where "rm = (if unat mtu > SDP_RESPONSE_BUFFER_SIZE then of_nat SDP_RESPONSE_BUFFER_SIZE else mtu)"
  have rm: "48 \<le> unat rm" "unat rm \<le> 1691" "unat rm \<le> unat mtu" using mtu by (simp_all add: rm_def)
  let ?b = "sdp_response_buffer s" and ?items = "service_records s"
  let ?id = "if unat n + 5 > length packet then 1 else packet ! 0"
  have db: "db_ok ?items" and b: "length ?b = 1691" using ok by (simp_all add: server_ok_def)
  define r where "r = (if ?id = 2 then sdp_handle_service_search_request ?items ?b packet rm
         else if ?id = 4 then sdp_handle_service_attribute_request ?items ?b packet rm
         else if ?id = 6 then sdp_handle_service_search_attribute_request ?items ?b packet rm
         else sdp_create_error_response ?b tid SDP_ERROR_INVALID_PDU_SIZE)"
  have "response_ok rm r"
  proof (cases "unat n + 5 > length packet")
    case True
    then show ?thesis using error_ok [OF b rm(1)] by (simp add: r_def)
  next
    case in_packet: False
    then have "5 + unat n \<le> length packet" by simp
    note h = handlers_ok [OF db b rm(1,2) tn(2) this tn(1)]
    show ?thesis
      using h(1) h(2) [OF over] h(3) [OF over] error_ok [OF b rm(1)] by (simp add: r_def)
  qed
  then obtain sz b' where sb: "r = Some (sz, b')" "length b' = 1691" "unat sz \<le> unat rm" by (auto simp: response_ok_def)
  have "handle_sdp_data mtu packet s = (do { (sz, resp) \<leftarrow> r;
        let s = s\<lparr>response_size := sz, sdp_response_buffer := resp\<rparr>;
        Some (if sz = 0 then s else sdp_call (L2capRequestCanSendNow (sdp_l2cap_cid s)) s) })"
    unfolding handle_sdp_data_def r_def rm_def by (simp only: rd0 tn False Let_def if_False bind.bind_lunit)
  then show ?thesis
    using ok sb rm by (simp add: server_ok_def sdp_call_def Let_def word_le_nat_alt)
qed

text \<open>The waiting connections.\<close>

definition waiting :: "sdp_server \<Rightarrow> u16 list" where
  "waiting s = take (waiting_list_count s) (waiting_list_cids s)"

lemma length_waiting: "server_ok s \<Longrightarrow> length (waiting s) = waiting_list_count s"
  by (simp add: server_ok_def waiting_def)

lemma waiting_add:
  assumes "server_ok s" and "waiting_list_count s < 8"
  shows "\<exists>s'. sdp_waiting_list_add cid s = Some s' \<and> server_ok s' \<and> waiting s' = waiting s @ [cid]
    \<and> sdp_l2cap_cid s' = sdp_l2cap_cid s"
  using assms by (simp add: sdp_waiting_list_add_def server_ok_def waiting_def take_Suc_conv_app_nth)

lemma waiting_get:
  assumes "server_ok s" and "waiting_list_count s \<noteq> 0"
  shows "\<exists>cid s'. sdp_waiting_list_get s = Some (cid, s') \<and> server_ok s' \<and> waiting s = cid # waiting s'
    \<and> service_records s' = service_records s \<and> sdp_calls s' = sdp_calls s"
proof -
  obtain x xs where xs: "waiting_list_cids s = x # xs" using assms(1) by (cases "waiting_list_cids s") (auto simp: server_ok_def)
  obtain n where n: "waiting_list_count s = Suc n" using assms(2) by (cases "waiting_list_count s") auto
  have l: "length xs = 7" "n \<le> 7" using assms(1) xs n by (simp_all add: server_ok_def)
  show ?thesis
    using assms(1) l by (cases "n = 0") (auto simp: sdp_waiting_list_get_def xs n server_ok_def waiting_def Let_def)
qed

lemma event_safe:
  assumes "server_ok s" and "48 \<le> unat mtu"
    and "\<And>channel packet p. e = SdpData channel packet \<Longrightarrow> \<not> ids_overrun packet p"
  shows "\<exists>s'. sdp_packet_handler mtu e s = Some s' \<and> server_ok s'"
proof (cases e)
  case (SdpData channel packet)
  then show ?thesis using data_safe [OF assms(1,2), of packet] assms(3) by auto
next
  case (SdpIncomingConnection channel)
  then show ?thesis
    using assms(1) waiting_add [OF assms(1), of channel] by (auto simp: sdp_accept_def sdp_call_def server_ok_def)
next
  case (SdpChannelClosed channel)
  let ?s = "s\<lparr>sdp_l2cap_cid := 0\<rparr>"
  have "server_ok ?s" using assms(1) by (simp add: server_ok_def)
  then show ?thesis
    using SdpChannelClosed assms(1) waiting_get [of ?s]
    by (auto simp: sdp_accept_def sdp_call_def Let_def) (auto simp: server_ok_def)
qed (use assms(1) in \<open>auto simp: sdp_respond_def sdp_call_def server_ok_def\<close>)

text \<open>What the server has sent, and will send next, fits the MTU of the host.\<close>

definition sends_within :: "u16 \<Rightarrow> sdp_server \<Rightarrow> bool" where
  "sends_within mtu s \<longleftrightarrow> response_size s \<le> mtu
     \<and> (\<forall>c data. L2capSend c data \<in> set (sdp_calls s) \<longrightarrow> length data \<le> unat mtu)"

lemma bind_Some_post: "Option.bind x f = Some y \<Longrightarrow> (\<And>a. f a = Some y \<Longrightarrow> P) \<Longrightarrow> P"
  by (cases x) auto

lemma data_calls:
  assumes "handle_sdp_data mtu packet s = Some s'"
  shows "service_records s' = service_records s
    \<and> (\<forall>c data. L2capSend c data \<in> set (sdp_calls s') \<longrightarrow> L2capSend c data \<in> set (sdp_calls s))
    \<and> (length packet < 5 \<longrightarrow> s' = s)"
proof (cases "length packet < 5")
  case True
  then show ?thesis using assms by (simp add: handle_sdp_data_def)
next
  case False
  show ?thesis
    using assms False unfolding handle_sdp_data_def Let_def if_not_P [OF False]
    by (elim bind_Some_post) (auto simp: sdp_call_def split: if_splits prod.splits)
qed

lemma event_sends:
  assumes "server_ok s" and "48 \<le> unat mtu" and "sends_within mtu s"
    and "\<And>channel packet p. e = SdpData channel packet \<Longrightarrow> \<not> ids_overrun packet p"
    and "sdp_packet_handler mtu e s = Some s'"
  shows "sends_within mtu s' \<and> service_records s' = service_records s"
proof (cases e)
  case (SdpData channel packet)
  have h: "handle_sdp_data mtu packet s = Some s'" using assms(5) SdpData by simp
  have "response_size s' \<le> mtu"
    using data_safe [OF assms(1,2), of packet] assms(3,4) SdpData h data_calls [OF h]
    by (cases "length packet < 5") (auto simp: sends_within_def)
  with data_calls [OF h] show ?thesis using assms(3) by (auto simp: sends_within_def)
next
  case SdpCanSendNow
  then show ?thesis
    using assms(3,5) by (auto simp: sdp_respond_def sdp_call_def sends_within_def bind_eq_Some_conv rd_range_def
      word_le_nat_alt split: if_splits)
next
  case (SdpIncomingConnection channel)
  then show ?thesis
    using assms(3,5) by (auto simp: sdp_accept_def sdp_call_def sends_within_def sdp_waiting_list_add_def
      bind_eq_Some_conv split: if_splits)
next
  case (SdpChannelClosed channel)
  then show ?thesis
    using assms(3,5) by (auto simp: sdp_accept_def sdp_call_def sends_within_def sdp_waiting_list_get_def Let_def
      bind_eq_Some_conv split: if_splits)
qed (use assms(3,5) in \<open>auto simp: sends_within_def split: if_splits\<close>)

text \<open>A history of events.\<close>

primrec sdp_history :: "u16 \<Rightarrow> sdp_event list \<Rightarrow> sdp_server \<Rightarrow> sdp_server option" where
  "sdp_history mtu [] s = Some s"
| "sdp_history mtu (e # es) s = do { s \<leftarrow> sdp_packet_handler mtu e s; sdp_history mtu es s }"

lemma history_safe:
  assumes "server_ok s" and "sends_within mtu s" and "48 \<le> unat mtu"
    and "\<And>channel packet p. SdpData channel packet \<in> set es \<Longrightarrow> \<not> ids_overrun packet p"
  shows "\<exists>s'. sdp_history mtu es s = Some s' \<and> server_ok s' \<and> sends_within mtu s' \<and> service_records s' = service_records s"
  using assms(1,2,4)
proof (induction es arbitrary: s)
  case (Cons e es)
  have o: "\<not> ids_overrun packet p" if "e = SdpData channel packet" for channel packet p
    using Cons.prems(3) [of channel packet p] that by simp
  obtain s1 where s1: "sdp_packet_handler mtu e s = Some s1" "server_ok s1"
    using event_safe [OF Cons.prems(1) assms(3), of e] o by blast
  have "sends_within mtu s1 \<and> service_records s1 = service_records s"
    using event_sends [OF Cons.prems(1) assms(3) Cons.prems(2) _ s1(1)] o by blast
  then show ?case using s1 Cons.IH [of s1] Cons.prems(3) by auto
qed simp

text \<open>No nil element in the last four bytes, and nothing is read behind a list.\<close>

lemma no_overrun:
  assumes "\<forall>k<length packet. packet ! k = 2 \<longrightarrow> k + 5 \<le> length packet"
  shows "\<not> ids_overrun packet p"
proof
  assume "ids_overrun packet p"
  then obtain l k where l: "elem_at packet p l" and k: "k \<in> set (children packet p l)" "nil_range packet k"
    by (auto simp: ids_overrun_def)
  obtain l' where "elem_at packet k l'" by (rule children_elem [OF k(1) l])
  then have "k < length packet" by (rule elem_at_pos)
  with assms k(2) show False by (auto simp: nil_range_def)
qed

section \<open>The element that is read past\<close>

text \<open>It stands in the middle of a list, and at the end of the packet.\<close>

definition nil_packet :: bytes where
  "nil_packet = [4, 0, 1, 0, 10, 0, 1, 0, 1, 0, 100, 0x35, 1, 2, 0]"

lemma nil_parse: "parse_attribute nil_packet = None"
  by code_simp

text \<open>A well-formed attribute request whose last byte of the ID list is the byte 2 (a nil element with the
  size code of four bytes) makes the server read behind the packet.\<close>

theorem nil_element_overruns: "sdp_packet_handler mtu (SdpData channel nil_packet) s = None"
proof -
  have "length nil_packet = 15" "rd nil_packet 0 = Some 4" "big_endian_read_16 nil_packet 3 = Some 10"
    by (simp_all add: nil_packet_def big_endian_read_16_def)
  then show ?thesis
    by (simp add: handle_sdp_data_def sdp_handle_service_attribute_request_def nil_parse Let_def)
qed

section \<open>The waiting list\<close>

text \<open>
  What becomes of a connection: it is accepted at once, it waits, it is refused, or it is accepted when the
  channel before it closes. The desk knows the channel that is served (zero for none) and the queue.
\<close>

datatype admission =
    Direct u16
  | Queued u16
  | Refused u16
  | Promoted u16

fun desk_event :: "sdp_event \<Rightarrow> u16 \<times> u16 list \<Rightarrow> admission list \<times> u16 \<times> u16 list" where
  "desk_event (SdpIncomingConnection c) (served, queue) =
     (if served = 0 then ([Direct c], c, queue)
      else if length queue < 8 then ([Queued c], served, queue @ [c])
      else ([Refused c], served, queue))"
| "desk_event (SdpChannelOpened status) (served, queue) = ([], if status = 0 then served else 0, queue)"
| "desk_event (SdpChannelClosed c) (served, queue) =
     (if c \<noteq> served then ([], served, queue)
      else case queue of [] \<Rightarrow> ([], 0, []) | x # xs \<Rightarrow> ([Promoted x], x, xs))"
| "desk_event _ d = ([], d)"

fun desk_run :: "sdp_event list \<Rightarrow> u16 \<times> u16 list \<Rightarrow> admission list \<times> u16 \<times> u16 list" where
  "desk_run [] d = ([], d)"
| "desk_run (e # es) d = (let (vs, d) = desk_event e d; (ws, d) = desk_run es d in (vs @ ws, d))"

text \<open>The calls of L2CAP that tell the peer, and those of a run that concern connections.\<close>

fun visit_calls :: "admission \<Rightarrow> sdp_call list" where
  "visit_calls (Direct c) = [L2capAccept c]"
| "visit_calls (Queued c) = []"
| "visit_calls (Refused c) = [L2capDecline c]"
| "visit_calls (Promoted c) = [L2capAccept c]"

fun is_connection_call :: "sdp_call \<Rightarrow> bool" where
  "is_connection_call (L2capAccept c) = True"
| "is_connection_call (L2capDecline c) = True"
| "is_connection_call _ = False"

definition connection_calls :: "sdp_server \<Rightarrow> sdp_call list" where
  "connection_calls s = filter is_connection_call (sdp_calls s)"

definition promoted :: "admission list \<Rightarrow> u16 list" where
  "promoted vs = concat (map (\<lambda>v. case v of Promoted c \<Rightarrow> [c] | _ \<Rightarrow> []) vs)"

definition queued_visits :: "admission list \<Rightarrow> u16 list" where
  "queued_visits vs = concat (map (\<lambda>v. case v of Queued c \<Rightarrow> [c] | _ \<Rightarrow> []) vs)"

lemma visits_append [simp]:
  "promoted (vs @ ws) = promoted vs @ promoted ws" "queued_visits (vs @ ws) = queued_visits vs @ queued_visits ws"
  by (simp_all add: promoted_def queued_visits_def)

text \<open>The queue is first in, first out.\<close>

lemma desk_event_order:
  "desk_event e (served, queue) = (vs, served', queue') \<Longrightarrow> promoted vs @ queue' = queue @ queued_visits vs"
  by (cases e) (auto simp: promoted_def queued_visits_def split: if_splits list.splits)

lemma desk_run_order:
  "desk_run es (served, queue) = (vs, served', queue') \<Longrightarrow> promoted vs @ queue' = queue @ queued_visits vs"
proof (induction es arbitrary: served queue vs)
  case (Cons e es)
  obtain us c q where e: "desk_event e (served, queue) = (us, c, q)" by (metis prod.collapse)
  obtain ws where w: "desk_run es (c, q) = (ws, served', queue')" "vs = us @ ws"
    using Cons.prems e by (auto split: prod.splits)
  show ?case using desk_event_order [OF e] Cons.IH [OF w(1)] w(2) by (metis append_assoc visits_append)
qed (simp add: promoted_def queued_visits_def)

text \<open>The server keeps the desk.\<close>

definition desk :: "sdp_server \<Rightarrow> u16 \<times> u16 list" where
  "desk s = (sdp_l2cap_cid s, waiting s)"

lemma data_desk:
  assumes "handle_sdp_data mtu packet s = Some s'"
  shows "desk s' = desk s \<and> connection_calls s' = connection_calls s"
proof (cases "length packet < 5")
  case False
  show ?thesis
    using assms unfolding handle_sdp_data_def Let_def if_not_P [OF False]
    by (elim bind_Some_post)
      (auto simp: sdp_call_def desk_def waiting_def connection_calls_def split: if_splits prod.splits)
qed (use assms in \<open>simp add: handle_sdp_data_def\<close>)

lemma event_desk:
  assumes "server_ok s" and "sdp_packet_handler mtu e s = Some s'" and "desk_event e (desk s) = (vs, d)"
  shows "desk s' = d \<and> connection_calls s' = connection_calls s @ concat (map visit_calls vs)"
proof (cases e)
  case (SdpData channel packet)
  then show ?thesis using assms(2,3) data_desk [of mtu packet s s'] by (simp add: desk_def)
next
  case (SdpIncomingConnection c)
  have n: "length (waiting s) = waiting_list_count s" by (rule length_waiting [OF assms(1)])
  show ?thesis
  proof (cases "sdp_l2cap_cid s \<noteq> 0 \<and> waiting_list_count s < 8")
    case True
    then have a: "sdp_waiting_list_add c s = Some s'" using assms(2) SdpIncomingConnection by simp
    then have "sdp_calls s' = sdp_calls s" by (auto simp: sdp_waiting_list_add_def bind_eq_Some_conv)
    then show ?thesis
      using a True SdpIncomingConnection assms(1,3) n waiting_add [OF assms(1), of c]
      by (auto simp: desk_def connection_calls_def)
  next
    case False
    then show ?thesis
      using SdpIncomingConnection assms(2,3) n
      by (auto simp: desk_def sdp_accept_def sdp_call_def waiting_def connection_calls_def split: if_splits)
  qed
next
  case (SdpChannelClosed c)
  let ?s = "s\<lparr>sdp_l2cap_cid := 0\<rparr>"
  have ok: "server_ok ?s" and w: "waiting ?s = waiting s" using assms(1) by (simp_all add: server_ok_def waiting_def)
  have n: "length (waiting s) = waiting_list_count s" by (rule length_waiting [OF assms(1)])
  show ?thesis
  proof (cases "c = sdp_l2cap_cid s \<and> waiting_list_count s \<noteq> 0")
    case True
    then obtain cid t where t: "sdp_waiting_list_get ?s = Some (cid, t)" "waiting s = cid # waiting t"
      "sdp_calls t = sdp_calls s"
      using waiting_get [OF ok] w by auto
    have "s' = sdp_accept cid t" using assms(2) SdpChannelClosed True t(1) by (simp add: Let_def)
    then show ?thesis
      using assms(3) SdpChannelClosed True t(2,3)
      by (auto simp: desk_def sdp_accept_def sdp_call_def waiting_def connection_calls_def)
  next
    case False
    then show ?thesis
      using SdpChannelClosed assms(2,3) n w
      by (auto simp: desk_def connection_calls_def split: list.splits if_splits)
  qed
qed (use assms in \<open>auto simp: desk_def waiting_def connection_calls_def sdp_respond_def sdp_call_def bind_eq_Some_conv
  split: if_splits\<close>)

lemma history_desk:
  assumes "server_ok s" and "48 \<le> unat mtu"
    and "\<And>channel packet p. SdpData channel packet \<in> set es \<Longrightarrow> \<not> ids_overrun packet p"
    and "desk_run es (desk s) = (vs, d)"
  shows "\<exists>s'. sdp_history mtu es s = Some s' \<and> server_ok s' \<and> desk s' = d
    \<and> connection_calls s' = connection_calls s @ concat (map visit_calls vs)"
  using assms(1,3,4)
proof (induction es arbitrary: s vs)
  case (Cons e es)
  have o: "\<not> ids_overrun packet p" if "e = SdpData channel packet" for channel packet p
    using Cons.prems(2) [of channel packet p] that by simp
  obtain s1 where s1: "sdp_packet_handler mtu e s = Some s1" "server_ok s1"
    using event_safe [OF Cons.prems(1) assms(2), of e] o by blast
  obtain us d1 where e: "desk_event e (desk s) = (us, d1)" by (metis prod.collapse)
  obtain ws where w: "desk_run es d1 = (ws, d)" "vs = us @ ws"
    using Cons.prems(3) e by (auto split: prod.splits)
  have d: "desk s1 = d1" "connection_calls s1 = connection_calls s @ concat (map visit_calls us)"
    using event_desk [OF Cons.prems(1) s1(1) e] by simp_all
  have "\<not> ids_overrun packet p" if "SdpData channel packet \<in> set es" for channel packet p
    using Cons.prems(2) [of channel packet p] that by simp
  then obtain s' where "sdp_history mtu es s1 = Some s'" "server_ok s'" "desk s' = d"
    "connection_calls s' = connection_calls s1 @ concat (map visit_calls ws)"
    using Cons.IH [OF s1(2) _ w(1) [folded d(1)]] by blast
  with s1(1) d(2) w(2) show ?case by simp
qed simp

text \<open>Property C40: in any history of events (connections that arrive, open, fail to open and close in any order,
  with any data between that has no nil element in the last bytes of an ID list, and an MTU of at least 48) the
  calls that accept and decline connections are exactly, and in order, those of a desk with a queue of eight: a connection is accepted at once when no channel is served, waits when one
  is and fewer than eight wait, and is refused otherwise; when the served channel closes, the first that waits is
  accepted. Those that waited are accepted in the order of their arrival, each once: what was taken from the queue,
  followed by what still waits, is what waited first, followed by what was queued. Closing a channel that is only
  waiting changes nothing, so its identifier is accepted in its turn although the peer is gone.\<close>

theorem sdp_waiting_fifo:
  assumes "server_ok s" and "48 \<le> unat mtu"
    and "\<And>channel packet p. SdpData channel packet \<in> set es \<Longrightarrow> \<not> ids_overrun packet p"
    and "desk_run es (sdp_l2cap_cid s, waiting s) = (vs, served, queue)"
  shows "\<exists>s'. sdp_history mtu es s = Some s' \<and> server_ok s'
    \<and> filter is_connection_call (sdp_calls s') = filter is_connection_call (sdp_calls s) @ concat (map visit_calls vs)
    \<and> sdp_l2cap_cid s' = served \<and> waiting s' = queue
    \<and> promoted vs @ waiting s' = waiting s @ queued_visits vs"
  using history_desk [OF assms(1-3)] desk_run_order [OF assms(4)] assms(4)
  by (fastforce simp: desk_def connection_calls_def)

text \<open>Three connections arrive, the second is gone before its turn, and the server still accepts it.\<close>

definition demo_visits :: "sdp_event list" where
  "demo_visits =
     [SdpIncomingConnection 0x41, SdpChannelOpened 0, SdpIncomingConnection 0x42, SdpIncomingConnection 0x43,
      SdpData 0x41 [9, 0, 1, 0, 0], SdpCanSendNow, SdpChannelClosed 0x42, SdpChannelClosed 0x41]"

lemma demo_visits_desk:
  "desk_run demo_visits (0, []) = ([Direct 0x41, Queued 0x42, Queued 0x43, Promoted 0x42], 0x42, [0x43])"
  by code_simp

theorem sdp_waiting_fifo_witness:
  "\<exists>s'. sdp_history 48 demo_visits sdp_static = Some s' \<and> server_ok s'
    \<and> filter is_connection_call (sdp_calls s')
      = filter is_connection_call (sdp_calls sdp_static)
        @ concat (map visit_calls [Direct 0x41, Queued 0x42, Queued 0x43, Promoted 0x42])
    \<and> sdp_l2cap_cid s' = 0x42 \<and> waiting s' = [0x43]
    \<and> promoted [Direct 0x41, Queued 0x42, Queued 0x43, Promoted 0x42] @ waiting s'
      = waiting sdp_static @ queued_visits [Direct 0x41, Queued 0x42, Queued 0x43, Promoted 0x42]"
proof (rule sdp_waiting_fifo)
  show "server_ok sdp_static" by (simp add: sdp_static_def server_ok_def db_ok_def)
  show "\<not> ids_overrun packet p" if "SdpData channel packet \<in> set demo_visits" for channel packet p
    using that by (intro no_overrun) (auto simp: demo_visits_def nth_Cons' split: if_splits)
  show "desk_run demo_visits (sdp_l2cap_cid sdp_static, waiting sdp_static)
    = ([Direct 0x41, Queued 0x42, Queued 0x43, Promoted 0x42], 0x42, [0x43])"
    using demo_visits_desk by (simp add: sdp_static_def waiting_def)
qed simp

text \<open>A channel that fails to open frees the server, but the connections that wait are not served.\<close>

lemma open_failure_strands:
  assumes "server_ok s" and "status \<noteq> 0"
  shows "sdp_packet_handler mtu (SdpChannelOpened status) s = Some (s\<lparr>sdp_l2cap_cid := 0\<rparr>)
    \<and> sdp_packet_handler mtu (SdpIncomingConnection c) (s\<lparr>sdp_l2cap_cid := 0\<rparr>) = Some (sdp_accept c (s\<lparr>sdp_l2cap_cid := 0\<rparr>))
    \<and> waiting (sdp_accept c (s\<lparr>sdp_l2cap_cid := 0\<rparr>)) = waiting s"
  using assms by (simp add: sdp_accept_def sdp_call_def waiting_def)

end
