(* ===== verification/SdpHost.thy ===== *)
theory SdpHost
  imports SdpSafety
begin

text \<open>
  The server as a host sees it: a host that asks for ranges of attribute IDs, and asks again with the
  continuation state of every answer, receives exactly the selected attributes, whatever its MTU.  The
  registration of records: a new handle is found, and a record that is registered is the one that is served.
\<close>

section \<open>A request\<close>

text \<open>A list of ranges of attribute IDs.\<close>

definition id_range :: "u16 \<times> u16 \<Rightarrow> delem" where
  "id_range r = Number DE_UINT DE_SIZE_32 (push_bit 16 (ucast (fst r)) OR ucast (snd r))"

definition id_list :: "(u16 \<times> u16) list \<Rightarrow> bytes" where
  "id_list rs = seq_bytes (map id_range rs)"

definition in_ranges :: "(u16 \<times> u16) list \<Rightarrow> u16 \<Rightarrow> bool" where
  "in_ranges rs aid \<longleftrightarrow> (\<exists>r\<in>set rs. fst r \<le> aid \<and> aid \<le> snd r)"

lemma enc_id_range: "enc (id_range r) = 0x0A # be16 (fst r) @ be16 (snd r)"
proof -
  let ?w = "push_bit 16 (ucast (fst r)) OR ucast (snd r) :: u32"
  have "(ucast (drop_bit 24 ?w) :: u8) = ucast (drop_bit 8 (fst r))" "(ucast (drop_bit 16 ?w) :: u8) = ucast (fst r)"
    "(ucast (drop_bit 8 ?w) :: u8) = ucast (drop_bit 8 (snd r))" "(ucast ?w :: u8) = ucast (snd r)"
    by (rule bit_word_eqI; auto simp: bit_simps dest: bit_imp_le_length)+
  then show ?thesis by (simp add: id_range_def be16_def be32_def)
qed

lemma id_range_ok [simp]: "de_ok (id_range r)"
  by (simp add: id_range_def)

lemma length_id_ranges: "length (body (map id_range rs)) = 5 * length rs"
  by (induction rs) (simp_all add: enc_id_range)

lemma length_id_list: "length (id_list rs) = 3 + 5 * length rs"
  by (simp add: id_list_def length_seq_bytes length_id_ranges)

lemma id_list_ok: "length rs \<le> 1000 \<Longrightarrow> de_ok (Sequence (map id_range rs))"
  by (simp add: length_id_ranges)

text \<open>A property of the places of the elements is one of the elements.\<close>

lemma offsets_iff:
  assumes "b = pre @ body (map f rs) @ rest"
    and "\<And>r p' q'. r \<in> set rs \<Longrightarrow> b = p' @ enc (f r) @ q' \<Longrightarrow> P (length p') \<longleftrightarrow> Q r"
  shows "(\<exists>k\<in>set (offsets (length pre) (map f rs)). P k) \<longleftrightarrow> (\<exists>r\<in>set rs. Q r)"
  using assms
proof (induction rs arbitrary: pre)
  case (Cons r rs)
  have "b = pre @ enc (f r) @ body (map f rs) @ rest" using Cons.prems(1) by simp
  then have 1: "P (length pre) \<longleftrightarrow> Q r" using Cons.prems(2) by simp
  have "(\<exists>k\<in>set (offsets (length (pre @ enc (f r))) (map f rs)). P k) \<longleftrightarrow> (\<exists>r\<in>set rs. Q r)"
    by (rule Cons.IH) (use Cons.prems in auto)
  with 1 show ?case by simp
qed simp

lemma id_range_at:
  assumes "b = p @ enc (id_range r) @ q"
  shows "b ! length p = 0x0A" and "big_endian_read_16 b (length p + 1) = Some (fst r)"
    and "big_endian_read_16 b (length p + 3) = Some (snd r)"
  using read_16_at [of "length p + 1" "p @ [0x0A]" "fst r" "be16 (snd r) @ q"]
    read_16_at [of "length p + 3" "p @ 0x0A # be16 (fst r)" "snd r" q]
  by (simp_all add: assms enc_id_range)

lemma id_list_at:
  assumes b: "b = pre @ id_list rs @ rest" and rs: "length rs \<le> 1000" "\<forall>r\<in>set rs. fst r \<le> snd r"
  shows "elem_at b (length pre) (length (id_list rs))"
    and "list_selects b (length pre) (length (id_list rs)) = in_ranges rs"
    and "sdp_attribute_list_valid b (length pre) = Some True"
proof -
  note ch = children_enc [OF id_list_ok [OF rs(1)], of pre rest, folded id_list_def, folded b]
  show el: "elem_at b (length pre) (length (id_list rs))" by (rule ch(3))
  let ?pre = "pre @ 0x36 # be16 (of_nat (length (body (map id_range rs))))"
  have b': "b = ?pre @ body (map id_range rs) @ rest" by (simp add: b id_list_def enc_Sequence)
  have l: "length pre + 3 = length ?pre" by simp
  have bits: "drop_bit 3 (0x0A :: u8) = DE_UINT" "(0x0A :: u8) AND 7 = DE_SIZE_32" by simp_all
  have "selects b aid (length p') \<longleftrightarrow> fst r \<le> aid \<and> aid \<le> snd r" if "b = p' @ enc (id_range r) @ q'" for r p' q' aid
    by (simp add: selects_def id_range_at [OF that, simplified])
  then have "(\<exists>k\<in>set (offsets (length ?pre) (map id_range rs)). selects b aid k) \<longleftrightarrow> in_ranges rs aid" for aid
    unfolding in_ranges_def by (intro offsets_iff [OF b'])
  then show "list_selects b (length pre) (length (id_list rs)) = in_ranges rs"
    by (intro ext) (simp only: list_selects_def ch(1,2) l simp_thms)
  have "nil_range b (length p') \<longleftrightarrow> False" if "b = p' @ enc (id_range r) @ q'" for r p' q'
    by (simp add: nil_range_def id_range_at [OF that])
  then have 1: "(\<exists>k\<in>set (offsets (length ?pre) (map id_range rs)). nil_range b k) \<longleftrightarrow> (\<exists>r\<in>set rs. False)"
    by (intro offsets_iff [OF b'])
  have "\<not> id_ok b (length p') \<longleftrightarrow> snd r < fst r" if "b = p' @ enc (id_range r) @ q'" for r p' q'
    by (simp add: id_ok_def id_range_at [OF that, simplified] linorder_not_le)
  then have 2: "(\<exists>k\<in>set (offsets (length ?pre) (map id_range rs)). \<not> id_ok b k) \<longleftrightarrow> (\<exists>r\<in>set rs. snd r < fst r)"
    by (intro offsets_iff [OF b'])
  from 1 2 have "\<not> (\<exists>k\<in>set (children b (length pre) (length (id_list rs))). nil_range b k)"
    "\<forall>k\<in>set (children b (length pre) (length (id_list rs))). id_ok b k"
    unfolding ch(1) l using rs(2) by force+
  then show "sdp_attribute_list_valid b (length pre) = Some True"
    using ch(4,5) by (simp add: list_valid_iff [OF el ch(2)])
qed

section \<open>A search pattern\<close>

text \<open>A list of short UUIDs.  A record matches when it contains them all, anywhere in its tree.\<close>

definition uuid_list :: "u16 list \<Rightarrow> bytes" where
  "uuid_list us = seq_bytes (map (\<lambda>u. Number DE_UUID DE_SIZE_16 (ucast u)) us)"

text \<open>Property C37: a record matches a search pattern of short UUIDs exactly when each of them, written out with the
  Bluetooth base UUID, occurs somewhere in the tree of the record's attributes.\<close>

theorem uuid_search:
  assumes rec: "record_ok rec as" and us: "length us \<le> 1000"
  shows "record_matches rec (pre @ uuid_list us @ rest) (length pre)
    = Some (\<forall>u\<in>set us. short_uuid (ucast u) \<in> set (uuids (Sequence (attribute_list as))))"
proof -
  let ?f = "\<lambda>u :: u16. Number DE_UUID DE_SIZE_16 (ucast u)" and ?U = "set (uuids (Sequence (attribute_list as)))"
  let ?b = "pre @ uuid_list us @ rest"
  have "length (body (map ?f us)) = 3 * length us" by (induction us) simp_all
  then have ok: "de_ok (Sequence (map ?f us))" using us by simp
  note ch = children_enc [OF ok, of pre rest, folded uuid_list_def]
  let ?pre = "pre @ 0x36 # be16 (of_nat (length (body (map ?f us))))"
  have b: "?b = ?pre @ body (map ?f us) @ rest" by (simp add: uuid_list_def enc_Sequence)
  have l: "length pre + 3 = length ?pre" by simp
  let ?P = "\<lambda>k. \<not> (\<exists>u. the (de_get_normalized_uuid ?b k) = Some u \<and> u \<in> ?U)"
  have "?P (length p') \<longleftrightarrow> short_uuid (ucast u) \<notin> ?U" if "?b = p' @ enc (?f u) @ q'" for u p' q'
    unfolding that using normalized_enc [of "?f u" p' q'] by (simp del: enc.simps uuids.simps)
  then have "(\<exists>k\<in>set (offsets (length ?pre) (map ?f us)). ?P k) \<longleftrightarrow> (\<exists>u\<in>set us. short_uuid (ucast u) \<notin> ?U)"
    by (intro offsets_iff [OF b])
  then have "pattern_in ?b (length pre) (length (uuid_list us)) as \<longleftrightarrow> (\<forall>u\<in>set us. short_uuid (ucast u) \<in> ?U)"
    unfolding pattern_in_def pattern_uuids_def set_map ch(1) l by blast
  with record_matches_ok [OF rec ch(3,2)] show ?thesis by simp
qed

theorem uuid_search_witness:
  "record_matches (seq_bytes (attribute_list [(1, Sequence [Number DE_UUID DE_SIZE_16 0x1124])])) ([2, 0, 1, 0, 12] @ uuid_list [0x1124, 0x1200] @ [0, 10, 0])
      (length ([2, 0, 1, 0, 12] :: bytes))
    = Some (\<forall>u\<in>set [0x1124, 0x1200 :: u16]. short_uuid (ucast u)
        \<in> set (uuids (Sequence (attribute_list [(1, Sequence [Number DE_UUID DE_SIZE_16 0x1124])]))))"
  by (rule uuid_search) (simp_all add: record_ok_def attrs_ok_def length_seq_bytes)

section \<open>The attribute request\<close>

definition attribute_packet :: "u16 \<Rightarrow> u32 \<Rightarrow> u16 \<Rightarrow> (u16 \<times> u16) list \<Rightarrow> bytes \<Rightarrow> bytes" where
  "attribute_packet tid handle max_bytes rs state =
     4 # be16 tid @ be16 (of_nat (6 + length (id_list rs) + length state)) @ be32 handle @ be16 max_bytes @ id_list rs @ state"

text \<open>The continuation state of an offset.\<close>

definition state_of :: "nat \<Rightarrow> bytes" where
  "state_of off = (if off = 0 then [0] else 2 # be16 (of_nat off))"

lemma packet_fields:
  fixes tid h mx rs state
  defines "packet \<equiv> attribute_packet tid h mx rs state"
  shows "packet ! 0 = 4" and "big_endian_read_16 packet 1 = Some tid"
    and "big_endian_read_16 packet 3 = Some (of_nat (6 + length (id_list rs) + length state))"
    and "big_endian_read_32 packet 5 = Some h" and "big_endian_read_16 packet 9 = Some mx"
    and "length packet = 11 + length (id_list rs) + length state"
    and "drop (11 + length (id_list rs)) packet = state"
    and "\<exists>pre. length pre = 11 \<and> packet = pre @ id_list rs @ state"
proof -
  let ?n = "of_nat (6 + length (id_list rs) + length state) :: u16"
  show "packet ! 0 = 4" by (simp add: packet_def attribute_packet_def)
  show "big_endian_read_16 packet 1 = Some tid"
    using read_16_at [of 1 "[4]" tid] by (simp add: packet_def attribute_packet_def)
  show "big_endian_read_16 packet 3 = Some ?n"
    using read_16_at [of 3 "4 # be16 tid" ?n] by (simp add: packet_def attribute_packet_def)
  show "big_endian_read_32 packet 5 = Some h"
    using read_32_at [of 5 "4 # be16 tid @ be16 ?n" h] by (simp add: packet_def attribute_packet_def)
  show "big_endian_read_16 packet 9 = Some mx"
    using read_16_at [of 9 "4 # be16 tid @ be16 ?n @ be32 h" mx] by (simp add: packet_def attribute_packet_def)
  show "length packet = 11 + length (id_list rs) + length state" by (simp add: packet_def attribute_packet_def)
  let ?pre = "4 # be16 tid @ be16 ?n @ be32 h @ be16 mx"
  have p: "packet = ?pre @ id_list rs @ state" by (simp add: packet_def attribute_packet_def)
  then show ex: "\<exists>pre. length pre = 11 \<and> packet = pre @ id_list rs @ state" by (intro exI [of _ ?pre]) simp
  then show "drop (11 + length (id_list rs)) packet = state" by auto
qed

lemma parse_packet:
  assumes rs: "length rs \<le> 1000" "\<forall>r\<in>set rs. fst r \<le> snd r" and mx: "7 \<le> mx" and off: "off < 65536"
  shows "parse_attribute (attribute_packet tid h mx rs (state_of off))
    = Some (Request \<lparr>q_handle = h, q_max_bytes = mx, q_offset = of_nat off\<rparr>)"
proof -
  let ?p = "attribute_packet tid h mx rs (state_of off)"
  let ?l = "length (id_list rs)" and ?s = "length (state_of off)"
  note f = packet_fields [where tid = tid and h = h and mx = mx and rs = rs and state = "state_of off"]
  obtain pre where pre: "length pre = 11" "?p = pre @ id_list rs @ state_of off" using f(8) by blast
  note ids = id_list_at [OF pre(2) rs, unfolded pre(1)]
  have l: "?l \<le> 5003" "3 \<le> ?l" using rs(1) by (simp_all add: length_id_list)
  have st: "1 \<le> ?s" "?s \<le> 3" by (simp_all add: state_of_def)
  have n: "\<not> (of_nat (6 + ?l + ?s) :: u16) < 6"
    using l st unat_of_nat_u16 [of "6 + ?l + ?s"] by (simp add: word_less_nat_alt del: of_nat_add)
  have n1: "of_nat (6 + ?l + ?s) - 6 = (of_nat (?l + ?s) :: u16)" by simp
  have len: "de_get_len_safe ?p 11 (ucast (of_nat (?l + ?s) :: u16)) = Some (of_nat ?l)"
  proof -
    have "(ucast (of_nat (?l + ?s) :: u16) :: u32) = of_nat (?l + ?s)" using l st by (intro ucast_of_nat_u16) simp
    then show ?thesis
      using enc_elem(2) [OF id_list_ok [OF rs(1)], of "of_nat (?l + ?s)" pre "state_of off"] l st
        unat_of_nat_u32 [of "?l + ?s"] by (simp add: id_list_def [symmetric] pre(1) pre(2) [symmetric] del: of_nat_add)
  qed
  have ln: "(ucast (of_nat ?l :: u32) :: u16) = of_nat ?l" by (rule ucast_of_nat_narrow) simp
  have lu: "unat (of_nat ?l :: u16) = ?l" using l by (intro unat_of_nat_u16) simp
  have l0: "(of_nat ?l :: u16) \<noteq> 0" using lu l by (metis unsigned_0 not_numeral_le_zero)
  have n2: "of_nat (?l + ?s) - of_nat ?l = (of_nat ?s :: u16)" by simp
  have su: "uint (of_nat ?s :: u16) = int ?s" using st by (simp add: state_of_def)
  have s1: "\<not> (of_nat ?s :: u16) < 1" by (simp add: state_of_def)
  have c: "rd ?p (11 + ?l) = Some (state_of off ! 0)" and nth: "?p ! (11 + ?l) = state_of off ! 0"
    using pre st by (auto simp: nth_append rd_def)
  have "big_endian_read_16 ?p (11 + ?l + 1) = Some (of_nat off)" if "off \<noteq> 0"
    using read_16_at [of "11 + ?l + 1" "pre @ id_list rs @ [2]" "of_nat off" "[]"] pre that by (simp add: state_of_def)
  then have i: "(if state_of off ! 0 = 2 then big_endian_read_16 ?p (11 + ?l + 1) else Some 0) = Some (of_nat off)"
    by (simp add: state_of_def)
  have b: "\<not> 1 + uint (state_of off ! 0) > int ?s" by (simp add: state_of_def)
  have m: "\<not> mx < 7" using mx by (simp add: linorder_not_less)
  show ?thesis
    unfolding parse_attribute_def
    by (simp only: f(3,4,5) n n1 len ln l0 lu n2 su s1 c i b m ids(3) Let_def bind.bind_lunit if_False if_True simp_thms)
qed

section \<open>The host\<close>

text \<open>A request on the open channel: the host's packet, then L2CAP can send; the host gets what is sent.\<close>

definition exchange :: "u16 \<Rightarrow> bytes \<Rightarrow> sdp_server \<Rightarrow> (bytes \<times> sdp_server) option" where
  "exchange mtu packet s = do {
     s \<leftarrow> sdp_packet_handler mtu (SdpData (sdp_l2cap_cid s) packet) s;
     s \<leftarrow> sdp_packet_handler mtu SdpCanSendNow s;
     (case last (sdp_calls s) of
        L2capSend _ data \<Rightarrow> Some (data, s)
      | _ \<Rightarrow> None) }"

text \<open>The host asks until the continuation state is empty; the fuel bounds its requests.\<close>

primrec read_attributes :: "nat \<Rightarrow> u16 \<Rightarrow> (bytes \<Rightarrow> bytes) \<Rightarrow> bytes \<Rightarrow> sdp_server \<Rightarrow> (bytes \<times> sdp_server) option" where
  "read_attributes 0 mtu request state s = None"
| "read_attributes (Suc fuel) mtu request state s = do {
     (data, s) \<leftarrow> exchange mtu (request state) s;
     count \<leftarrow> big_endian_read_16 data 5;
     let payload = take (unat count) (drop 7 data);
     let state = drop (7 + unat count) data;
     if state = [0] then Some (payload, s)
     else do {
       (others, s) \<leftarrow> read_attributes fuel mtu request state s;
       Some (payload @ others, s) } }"

definition serves :: "u32 \<Rightarrow> attribute list \<Rightarrow> sdp_server \<Rightarrow> bool" where
  "serves h as s \<longleftrightarrow> sdp_l2cap_cid s \<noteq> 0 \<and> length (sdp_response_buffer s) = 1691
     \<and> (\<exists>h' rec. sdp_get_record_item_for_handle h (service_records s) = Some (h', rec) \<and> record_ok rec as)"

lemma exchange_attributes:
  assumes s: "serves h as s" and mtu: "48 \<le> unat mtu" and rs: "length rs \<le> 1000" "\<forall>r\<in>set rs. fst r \<le> snd r"
    and mx: "7 \<le> mx" and off: "off < 65536"
  shows "\<exists>m n s'. 7 \<le> m \<and> length (front off (selected (in_ranges rs) as) @ part m off (selected (in_ranges rs) as)) < 65536 \<and>
    exchange mtu (attribute_packet tid h mx rs (state_of off)) s
      = Some (header 5 tid n (length (front off (selected (in_ranges rs) as) @ part m off (selected (in_ranges rs) as)))
          @ front off (selected (in_ranges rs) as) @ part m off (selected (in_ranges rs) as)
          @ continuation m off (selected (in_ranges rs) as), s')
    \<and> serves h as s' \<and> service_records s' = service_records s"
proof -
  let ?p = "attribute_packet tid h mx rs (state_of off)"
  let ?q = "\<lparr>q_handle = h, q_max_bytes = mx, q_offset = of_nat off\<rparr> :: attribute_request"
  let ?S = "selected (in_ranges rs) as"
  note f = packet_fields [where tid = tid and h = h and mx = mx and rs = rs and state = "state_of off"]
  obtain pre where pre: "length pre = 11" "?p = pre @ id_list rs @ state_of off" using f(8) by blast
  note ids = id_list_at [OF pre(2) rs, unfolded pre(1)]
  have chosen: "chosen ?p 11 (length (id_list rs)) as = ?S" by (simp add: chosen_def ids(2))
  obtain h' rec where rec: "sdp_get_record_item_for_handle h (service_records s) = Some (h', rec)" "record_ok rec as"
    using s by (auto simp: serves_def)
  have b: "length (sdp_response_buffer s) = 1691" and cid: "sdp_l2cap_cid s \<noteq> 0" using s by (simp_all add: serves_def)
  define rm where "rm = (if unat mtu > SDP_RESPONSE_BUFFER_SIZE then of_nat SDP_RESPONSE_BUFFER_SIZE else mtu)"
  have rm: "48 \<le> unat rm" "unat rm \<le> 1691" using mtu by (simp_all add: rm_def)
  then have rm17: "17 \<le> rm" by (simp add: word_le_nat_alt)
  have off': "unat (of_nat off :: u16) = off" using off by (rule unat_of_nat_u16)
  define m where "m = min (unat rm - 10) (unat mx)"
  define pay where "pay = front off ?S @ part m off ?S"
  define sz where "sz = 7 + length pay + length (continuation m off ?S)"
  have item: "sdp_get_record_item_for_handle (q_handle ?q) (service_records s) = Some (h', rec)" by (simp add: rec(1))
  have mx': "7 \<le> q_max_bytes ?q" by (simp add: mx)
  obtain rest where ans: "answer_attribute (service_records s) (sdp_response_buffer s) ?p tid rm ?q
      = Some (of_nat sz, header 5 tid sz (length pay) @ pay @ continuation m off ?S @ rest)"
    "sz \<le> unat rm" "sz + length rest = 1691"
    using attribute_answer_eq [OF item rec(2) ids(1) mx' rm17 rm(2) b, of tid]
    unfolding chosen by (auto simp: off' m_def pay_def sz_def)
  have usz: "unat (of_nat sz :: u16) = sz" using ans(2) rm(2) by (intro unat_of_nat_u16) simp
  have sz0: "(of_nat sz :: u16) \<noteq> 0" using usz by (metis add_is_0 sz_def unsigned_0 zero_neq_numeral)
  let ?b = "header 5 tid sz (length pay) @ pay @ continuation m off ?S @ rest"
  define s1 where "s1 = sdp_call (L2capRequestCanSendNow (sdp_l2cap_cid s)) (s\<lparr>response_size := of_nat sz, sdp_response_buffer := ?b\<rparr>)"
  have lp: "\<not> length ?p < 5" by (simp add: f(6))
  then have "0 < length ?p" by linarith
  then have rd0: "rd ?p 0 = Some 4" by (simp only: rd_Some f(1))
  have n: "\<not> unat (of_nat (6 + length (id_list rs) + length (state_of off)) :: u16) + 5 > length ?p"
  proof -
    have "length (state_of off) \<le> 3" by (simp add: state_of_def)
    then have "unat (of_nat (6 + length (id_list rs) + length (state_of off)) :: u16)
        = 6 + length (id_list rs) + length (state_of off)"
      using rs(1) by (intro unat_of_nat_u16) (simp add: length_id_list)
    then show ?thesis using f(6) by linarith
  qed
  have "sdp_handle_service_attribute_request (service_records s) (sdp_response_buffer s) ?p rm = Some (of_nat sz, ?b)"
    unfolding sdp_handle_service_attribute_request_def respond_def
    by (simp only: f(2) parse_packet [OF rs mx off] ans(1) bind.bind_lunit parsed.case)
  then have 1: "sdp_packet_handler mtu (SdpData (sdp_l2cap_cid s) ?p) s = Some s1"
    unfolding sdp_packet_handler.simps handle_sdp_data_def rm_def s1_def
    by (simp add: lp rd0 f(2) [simplified] f(3) n sz0 Let_def del: of_nat_add)
  define data where "data = header 5 tid sz (length pay) @ pay @ continuation m off ?S"
  have len: "length data = sz" by (simp add: data_def sz_def)
  have "sdp_response_buffer s1 = data @ rest" "unat (response_size s1) = sz"
    by (simp_all add: s1_def sdp_call_def usz data_def)
  then have rd: "rd_range (sdp_response_buffer s1) 0 (unat (response_size s1)) = Some data"
    using len by (simp add: rd_range_def)
  define s2 where "s2 = sdp_call (L2capSend (sdp_l2cap_cid s) data) (s1\<lparr>response_size := 0\<rparr>)"
  have 2: "sdp_packet_handler mtu SdpCanSendNow s1 = Some s2"
    using cid sz0 rd by (simp add: sdp_respond_def s2_def) (simp add: s1_def sdp_call_def)
  have "exchange mtu ?p s = Some (data, s2)"
    by (simp add: exchange_def 1 2 del: sdp_packet_handler.simps) (simp add: s2_def sdp_call_def)
  moreover have "serves h as s2" "service_records s2 = service_records s"
    using s ans(3) by (auto simp: serves_def s2_def s1_def sdp_call_def sz_def)
  moreover have "7 \<le> m" using rm mx by (auto simp: m_def word_le_nat_alt)
  moreover have "length pay < 65536" using ans(2) rm(2) by (simp add: sz_def)
  ultimately show ?thesis unfolding data_def pay_def by (intro exI [of _ m] exI [of _ sz] exI [of _ s2]) simp
qed

text \<open>
  The host receives the header of the sequence and every selected attribute, complete and in order: from
  an offset on, what is behind the offset.
\<close>

lemma read_from:
  assumes "serves h as s" and mtu: "48 \<le> unat mtu" and rs: "length rs \<le> 1000" "\<forall>r\<in>set rs. fst r \<le> snd r"
    and mx: "7 \<le> mx" and "off = 0 \<or> off < length (selected (in_ranges rs) as)"
    and "length (selected (in_ranges rs) as) < fuel + off" and S: "length (selected (in_ranges rs) as) < 65536"
  shows "\<exists>s'. read_attributes fuel mtu (attribute_packet tid h mx rs) (state_of off) s
      = Some (front off (selected (in_ranges rs) as) @ drop off (selected (in_ranges rs) as), s')
    \<and> service_records s' = service_records s"
  using assms(1,6,7)
proof (induction fuel arbitrary: s off)
  case 0
  then show ?case by auto
next
  case (Suc fuel)
  let ?S = "selected (in_ranges rs) as"
  have "off < 65536" using Suc.prems(2) S by auto
  from exchange_attributes [OF Suc.prems(1) mtu rs mx this]
  obtain m n s1 where m: "7 \<le> m" "length (front off ?S @ part m off ?S) < 65536"
    and ex: "exchange mtu (attribute_packet tid h mx rs (state_of off)) s
      = Some (header 5 tid n (length (front off ?S @ part m off ?S)) @ front off ?S @ part m off ?S @ continuation m off ?S, s1)"
    and s1: "serves h as s1" "service_records s1 = service_records s" by blast
  define pay where "pay = front off ?S @ part m off ?S"
  define data where "data = header 5 tid n (length pay) @ pay @ continuation m off ?S"
  have ex: "exchange mtu (attribute_packet tid h mx rs (state_of off)) s = Some (data, s1)"
    using ex by (simp add: data_def pay_def)
  have c: "big_endian_read_16 data 5 = Some (of_nat (length pay))"
    using read_16_at [of 5 "5 # be16 tid @ be16 (of_nat (n - 5))" "of_nat (length pay)"] by (simp add: data_def header_def)
  have u: "unat (of_nat (length pay) :: u16) = length pay" using m(2) by (intro unat_of_nat_u16) (simp add: pay_def)
  have t: "take (length pay) (drop 7 data) = pay" "drop (7 + length pay) data = continuation m off ?S"
    by (simp_all add: data_def)
  have step: "read_attributes (Suc fuel) mtu (attribute_packet tid h mx rs) (state_of off) s
      = (if continuation m off ?S = [0] then Some (pay, s1)
         else do { (others, s) \<leftarrow> read_attributes fuel mtu (attribute_packet tid h mx rs) (continuation m off ?S) s1;
                   Some (pay @ others, s) })"
    by (simp only: read_attributes.simps ex c u t bind.bind_lunit prod.case Let_def)
  let ?room = "if off = 0 then m - 3 else m"
  show ?case
  proof (cases "length ?S \<le> off + ?room")
    case True
    then have "continuation m off ?S = [0]" "part m off ?S = drop off ?S"
      by (simp_all add: continuation_def part_def split: if_splits)
    then show ?thesis unfolding step using s1(2) by (simp add: pay_def)
  next
    case False
    define off2 where "off2 = off + ?room"
    have lp: "length (part m off ?S) = ?room" using False by (simp add: part_def)
    have o2: "off < off2" "off2 < length ?S" "off2 \<noteq> 0" using False m(1) by (auto simp: off2_def)
    have cont: "continuation m off ?S = state_of off2"
      using False o2(3) by (simp only: continuation_def lp off2_def [symmetric] state_of_def if_False)
    have "length ?S < fuel + off2" using Suc.prems(3) o2(1) by linarith
    from Suc.IH [OF s1(1) disjI2 [OF o2(2)] this] obtain s' where
      r: "read_attributes fuel mtu (attribute_packet tid h mx rs) (state_of off2) s1 = Some (drop off2 ?S, s')"
        "service_records s' = service_records s1"
      using o2(3) by (auto simp: front_def)
    have "state_of off2 \<noteq> [0]" using o2(3) by (simp add: state_of_def)
    moreover have "part m off ?S @ drop off2 ?S = drop off ?S"
      using append_take_drop_id [of ?room "drop off ?S"] by (simp only: part_def off2_def drop_drop add.commute)
    ultimately show ?thesis unfolding step cont using r s1(2) by (simp add: pay_def)
  qed
qed

lemma read_all:
  assumes "serves h as s" and "48 \<le> unat mtu" and "length rs \<le> 1000" and "\<forall>r\<in>set rs. fst r \<le> snd r"
    and "7 \<le> mx" and "length (selected (in_ranges rs) as) < fuel"
  shows "\<exists>s'. read_attributes fuel mtu (attribute_packet tid h mx rs) [0] s
      = Some (0x36 # be16 (of_nat (length (selected (in_ranges rs) as))) @ selected (in_ranges rs) as, s')
    \<and> service_records s' = service_records s"
proof -
  obtain rec where "record_ok rec as" using assms(1) by (auto simp: serves_def)
  then have "length (selected (in_ranges rs) as) < 65536"
    using selected_le [of "in_ranges rs" as] by (simp add: record_ok_def attrs_ok_def length_seq_bytes)
  from read_from [OF assms(1-5), of 0 fuel, OF _ _ this] assms(6) show ?thesis
    by (simp add: front_def state_of_def)
qed

end
