(* ===== verification/SdpRegister.thy ===== *)
theory SdpRegister
  imports SdpHost
begin

text \<open>
  The service database: new handles, registration and look-up.
\<close>

section \<open>Handles\<close>

lemma lookup_None: "sdp_get_record_item_for_handle h items = None \<longleftrightarrow> h \<notin> fst ` set items"
  by (induction items) auto

definition free_handle :: "service_record_item list \<Rightarrow> u32 \<Rightarrow> bool" where
  "free_handle items h \<longleftrightarrow> h \<noteq> 0 \<and> h \<notin> fst ` set items"

lemma next_free_step:
  "next_free_handle items n = (if free_handle items n then Some (n, n + 1) else next_free_handle items (n + 1))"
  by (subst next_free_handle.simps) (auto simp: free_handle_def Let_def lookup_None [symmetric])

lemma next_free_at:
  "\<forall>i<k. \<not> free_handle items (n + of_nat i) \<Longrightarrow> free_handle items (n + of_nat k)
    \<Longrightarrow> next_free_handle items n = Some (n + of_nat k, n + of_nat k + 1)"
proof (induction k arbitrary: n)
  case 0
  then show ?case by (simp add: next_free_step [of items n])
next
  case (Suc k)
  have "\<not> free_handle items n" using Suc.prems(1) by auto
  moreover have "\<forall>i<k. \<not> free_handle items (n + 1 + of_nat i)"
  proof (intro allI impI)
    show "\<not> free_handle items (n + 1 + of_nat i)" if "i < k" for i
      using Suc.prems(1) [rule_format, of "Suc i"] that by (simp add: add.assoc)
  qed
  ultimately show ?case
    using Suc.IH [of "n + 1"] Suc.prems(2) by (simp add: next_free_step [of items n] add.assoc)
qed

text \<open>Fewer records than words: the loop ends, with the first free handle.\<close>

lemma free_exists:
  assumes "length items < 2 ^ 32 - 1"
  shows "\<exists>k. free_handle items (n + of_nat k)"
proof (rule ccontr)
  assume no: "\<not> ?thesis"
  have "w \<in> insert 0 (fst ` set items)" for w
  proof -
    have "\<not> free_handle items (n + of_nat (unat (w - n)))" using no by blast
    then show ?thesis by (auto simp: free_handle_def)
  qed
  then have "(UNIV :: u32 set) \<subseteq> insert 0 (fst ` set items)" by blast
  then have "card (UNIV :: u32 set) \<le> card (insert 0 (fst ` set items))" by (intro card_mono) simp_all
  also have "\<dots> \<le> Suc (card (fst ` set items))" by (simp add: card_insert_if)
  also have "card (fst ` set items) \<le> length items" by (meson card_image_le card_length finite_set order_trans)
  finally show False using assms by (simp add: card_word)
qed

text \<open>Property C39: the search for a new handle ends whenever fewer than 2 to the 32 minus one records are registered, also
  when the counter wraps around, with a handle that is not zero and not in use.\<close>

theorem handle_created:
  assumes "length (service_records s) < 2 ^ 32 - 1"
  shows "\<exists>h n. sdp_create_service_record_handle s = Some (h, s\<lparr>next_service_record_handle := n\<rparr>)
    \<and> h \<noteq> 0 \<and> sdp_get_record_for_handle h s = None"
proof -
  let ?free = "\<lambda>k. free_handle (service_records s) (next_service_record_handle s + of_nat k)"
  obtain k where k: "?free k" using free_exists [OF assms] by blast
  define m where "m = (LEAST k. ?free k)"
  have "?free m" unfolding m_def using k by (rule LeastI)
  moreover have "\<forall>i<m. \<not> ?free i" unfolding m_def by (blast dest: not_less_Least)
  ultimately show ?thesis
    using next_free_at [of m "service_records s" "next_service_record_handle s"]
    by (auto simp: sdp_create_service_record_handle_def free_handle_def sdp_get_record_for_handle_def lookup_None)
qed

theorem handle_created_witness:
  "\<exists>h n. sdp_create_service_record_handle (sdp_static\<lparr>next_service_record_handle := 0xffffffff, service_records := [(0xffffffff, [])]\<rparr>)
      = Some (h, (sdp_static\<lparr>next_service_record_handle := 0xffffffff, service_records := [(0xffffffff, [])]\<rparr>)\<lparr>next_service_record_handle := n\<rparr>)
    \<and> h \<noteq> 0 \<and> sdp_get_record_for_handle h (sdp_static\<lparr>next_service_record_handle := 0xffffffff, service_records := [(0xffffffff, [])]\<rparr>) = None"
  by (rule handle_created) simp

section \<open>Registration\<close>

lemma record_handle:
  assumes "record_ok rec as" and "map_of as 0 = Some (Number DE_UINT DE_SIZE_32 h)"
  shows "sdp_get_service_record_handle rec = Some h"
proof -
  have as: "attrs_ok as" using assms(1) by (simp add: record_ok_def)
  obtain rest where rec: "rec = [] @ seq_bytes (attribute_list as) @ rest" using record_split [OF assms(1)] ..
  show ?thesis
  proof (rule attribute_value_found [OF as, where pre = "[]" and rest = rest and aid = 0])
    assume "map_of as 0 = None"
    then show ?thesis using assms(2) by simp
  next
    fix v p r
    assume v: "map_of as 0 = Some v"
      and l: "sdp_get_attribute_value_for_attribute_id ([] @ seq_bytes (attribute_list as) @ rest) (length []) 0 = Some (Some (length p))"
      and b: "[] @ seq_bytes (attribute_list as) @ rest = p @ enc v @ r"
    have "v = Number DE_UINT DE_SIZE_32 h" using v assms(2) by simp
    then have "enc v = 0x0A # be32 h" by simp
    then have e: "rec = p @ 0x0A # be32 h @ r" using b rec by simp
    have "rec ! length p = 0x0A" "length p < length rec" by (simp_all add: e)
    moreover have "big_endian_read_32 rec (length p + 1) = Some h"
      using read_32_at [of "length p + 1" "p @ [0x0A]" h r] by (simp add: e)
    ultimately show ?thesis
      using l unfolding rec [symmetric]
      by (simp add: sdp_get_service_record_handle_def de_get_element_type_def de_get_size_type_def)
  qed
qed

lemma item_member: "sdp_get_record_item_for_handle h items = Some item \<Longrightarrow> item \<in> set items \<and> fst item = h"
  by (induction items) (auto split: if_splits)

text \<open>Property C38: a record is registered exactly when its first attribute is a free handle above the reserved ones and
  there is memory; then its handle leads to it and every other handle to what it led to before, and otherwise
  nothing changes.  Handles stay distinct.\<close>

theorem register_lookup:
  assumes "record_ok rec as" and "map_of as 0 = Some (Number DE_UINT DE_SIZE_32 h)"
  shows "\<exists>status s'. sdp_register_service alloc rec s = Some (status, s')
    \<and> (status = 0 \<longleftrightarrow> 0xffff < h \<and> sdp_get_record_for_handle h s = None \<and> alloc)
    \<and> (if status = 0 then sdp_get_record_for_handle h s' = Some rec
          \<and> (\<forall>h'. h' \<noteq> h \<longrightarrow> sdp_get_record_for_handle h' s' = sdp_get_record_for_handle h' s)
          \<and> (distinct (map fst (service_records s)) \<longrightarrow> distinct (map fst (service_records s')))
        else s' = s)
    \<and> (db_ok (service_records s) \<longrightarrow> db_ok (service_records s'))"
  using assms
  by (auto simp: sdp_register_service_def record_handle [OF assms] sdp_get_record_for_handle_def lookup_None linorder_not_le
    linorder_not_less)

theorem register_lookup_witness:
  "\<exists>status s'. sdp_register_service True (seq_bytes (attribute_list [(0, Number DE_UINT DE_SIZE_32 0x10001)])) sdp_static = Some (status, s')
    \<and> (status = 0 \<longleftrightarrow> 0xffff < (0x10001 :: u32) \<and> sdp_get_record_for_handle 0x10001 sdp_static = None \<and> True)
    \<and> (if status = 0 then sdp_get_record_for_handle 0x10001 s' = Some (seq_bytes (attribute_list [(0, Number DE_UINT DE_SIZE_32 0x10001)]))
          \<and> (\<forall>h'. h' \<noteq> 0x10001 \<longrightarrow> sdp_get_record_for_handle h' s' = sdp_get_record_for_handle h' sdp_static)
          \<and> (distinct (map fst (service_records sdp_static)) \<longrightarrow> distinct (map fst (service_records s')))
        else s' = sdp_static)
    \<and> (db_ok (service_records sdp_static) \<longrightarrow> db_ok (service_records s'))"
  by (rule register_lookup [where as = "[(0, Number DE_UINT DE_SIZE_32 0x10001)]"]) (simp_all add: record_ok_def attrs_ok_def length_seq_bytes)

lemma unregister_other:
  assumes "h' \<noteq> h"
  shows "sdp_get_record_for_handle h' (sdp_unregister_service h s) = sdp_get_record_for_handle h' s"
proof -
  have "sdp_get_record_item_for_handle h' (remove1 item items) = sdp_get_record_item_for_handle h' items"
    if "fst item = h" for item items
    using that assms by (induction items) auto
  then show ?thesis
    using item_member [of h "service_records s"]
    by (auto simp: sdp_unregister_service_def sdp_get_record_for_handle_def split: option.split)
qed

lemma unregister_removes:
  assumes "distinct (map fst (service_records s))"
  shows "sdp_get_record_for_handle h (sdp_unregister_service h s) = None"
    and "h' \<noteq> h \<Longrightarrow> sdp_get_record_for_handle h' (sdp_unregister_service h s) = sdp_get_record_for_handle h' s"
proof -
  have gone: "fst item \<notin> fst ` set (remove1 item (service_records s))" if "item \<in> set (service_records s)" for item
    using that assms by (auto simp: distinct_map set_remove1_eq inj_on_def)
  show "sdp_get_record_for_handle h (sdp_unregister_service h s) = None"
  proof (cases "sdp_get_record_item_for_handle h (service_records s)")
    case None
    then show ?thesis by (simp add: sdp_unregister_service_def sdp_get_record_for_handle_def)
  next
    case (Some item)
    from item_member [OF this] have "h \<notin> fst ` set (remove1 item (service_records s))" using gone [of item] by simp
    then show ?thesis using Some by (simp add: sdp_unregister_service_def sdp_get_record_for_handle_def lookup_None)
  qed
qed (rule unregister_other)

end
