(* ===== verification/FirmwareRecords.thy ===== *)
theory FirmwareRecords
  imports FirmwareDescriptor SdpRegister
begin

text \<open>
  The service records that \<open>btstack_main\<close> of \<open>main/btstack_hid.c\<close> builds and registers: they fit their
  buffers, so its assertions hold, and a host finds and reads them.
\<close>

section \<open>The code\<close>

text \<open>The part of \<open>btstack_main\<close> from \<open>sdp_init\<close> on; the lengths are the ones the assertions compare.\<close>

definition hid_params :: hid_sdp_record where
  "hid_params =
     \<lparr>hid_device_subclass = 0x08, hid_country_code = 33, hid_virtual_cable = 0, hid_remote_wake = 1,
      hid_reconnect_initiate = 1, hid_normally_connectable = True, hid_boot_device = False,
      hid_ssr_host_max_latency = 0xFFFF, hid_ssr_host_min_timeout = 0xFFFF, hid_supervision_timeout = 3200,
      hid_sdp_descriptor = hid_descriptor, hid_descriptor_size = of_nat (length hid_descriptor),
      device_name = Some (map of_char ''Pro Controller'')\<rparr>"

definition register_services :: "bool \<Rightarrow> sdp_server \<Rightarrow> (nat \<times> nat \<times> sdp_server) option" where
  "register_services alloc s = do {
     let s = sdp_init s;
     (handle, s) \<leftarrow> sdp_create_service_record_handle s;
     hid \<leftarrow> hid_create_sdp_record (replicate 512 0) 0 handle hid_params;
     hid_len \<leftarrow> de_get_len hid 0;
     if unat hid_len > 512 then None
     else do {
       (_, s) \<leftarrow> sdp_register_service alloc hid s;
       (handle, s) \<leftarrow> sdp_create_service_record_handle s;
       dev \<leftarrow> device_id_create_sdp_record (replicate 100 0) 0 handle 2 0x057E 0x2009 0x0100;
       id_len \<leftarrow> de_get_len dev 0;
       if unat id_len > 100 then None
       else do {
         (_, s) \<leftarrow> sdp_register_service alloc dev s;
         Some (unat hid_len, unat id_len, s) } } }"

section \<open>The records\<close>

lemma hid_attributes_ok:
  assumes "length (hid_sdp_descriptor p) < 60000" and "\<And>n. device_name p = Some n \<Longrightarrow> length n < 1000"
  shows "attrs_ok (hid_attributes h p)"
proof (cases "device_name p")
  case None
  then show ?thesis
    using assms(1) by (simp add: attrs_ok_def hid_attributes_def length_seq_bytes length_enc_Block min_def del: enc.simps)
next
  case (Some n)
  then show ?thesis
    using assms(1) assms(2) [OF Some]
    by (simp add: attrs_ok_def hid_attributes_def length_seq_bytes length_enc_Block min_def del: enc.simps)
qed

lemma device_id_attributes_ok: "attrs_ok (device_id_attributes h src vid pid ver)"
  by (simp add: attrs_ok_def device_id_attributes_def length_seq_bytes del: enc.simps)

lemma built_record:
  assumes "attrs_ok as"
  shows "record_ok (lay b [attribute_list as]) as"
    and "de_get_len (lay b [attribute_list as]) 0 = Some (of_nat (length (seq_bytes (attribute_list as))))"
proof -
  show "record_ok (lay b [attribute_list as]) as" using assms by (auto simp: record_ok_def lay_single)
  have "elem_at ([] @ seq_bytes (attribute_list as) @ drop (length (seq_bytes (attribute_list as))) b) (length ([] :: bytes))
      (length (seq_bytes (attribute_list as)))"
    by (rule enc_elem(1) [OF attrs_sequence [OF assms]])
  then show "de_get_len (lay b [attribute_list as]) 0 = Some (of_nat (length (seq_bytes (attribute_list as))))"
    by (simp add: lay_single elem_at_def)
qed

lemma hid_descriptor_length: "length hid_descriptor = 155"
  by (simp add: hid_descriptor_def)

lemma params_simps [simp]:
  "device_name hid_params = Some (map of_char ''Pro Controller'')" "hid_descriptor_size hid_params = 155"
  "hid_sdp_descriptor hid_params = hid_descriptor"
  by (simp_all add: hid_params_def hid_descriptor_length)

definition hid_record :: bytes where
  "hid_record = lay (replicate 512 0) [attribute_list (hid_attributes 0x10001 hid_params)]"

definition device_id_record :: bytes where
  "device_id_record = lay (replicate 100 0) [attribute_list (device_id_attributes 0x10002 2 0x057E 0x2009 0x0100)]"

lemma hid_record_ok: "record_ok hid_record (hid_attributes 0x10001 hid_params)"
  unfolding hid_record_def by (intro built_record(1) hid_attributes_ok) (auto simp: hid_descriptor_length)

lemma device_id_record_ok: "record_ok device_id_record (device_id_attributes 0x10002 2 0x057E 0x2009 0x0100)"
  unfolding device_id_record_def by (intro built_record(1) device_id_attributes_ok)

lemma hid_record_built: "hid_create_sdp_record (replicate 512 0) 0 0x10001 hid_params = Some hid_record"
  using hid_record_lay [of hid_params "replicate 512 0" "0x10001"]
  by (simp add: hid_record_def hid_descriptor_length ptr_extent)

lemma device_id_record_built:
  "device_id_create_sdp_record (replicate 100 0) 0 0x10002 2 0x057E 0x2009 0x0100 = Some device_id_record"
  using device_id_record_lay [of "replicate 100 0" "0x10002" 2 "0x057E" "0x2009" "0x0100"]
  by (simp add: device_id_record_def ptr_extent)

lemma hid_record_length: "length (seq_bytes (attribute_list (hid_attributes 0x10001 hid_params))) = 356"
  by (simp add: hid_attributes_def length_seq_bytes length_enc_Block hid_descriptor_length del: enc.simps)

lemma device_id_record_length:
  "length (seq_bytes (attribute_list (device_id_attributes 0x10002 2 0x057E 0x2009 0x0100))) = 64"
  by (simp add: device_id_attributes_def length_seq_bytes del: enc.simps)

lemma records_fit: "de_get_len hid_record 0 = Some 356" "de_get_len device_id_record 0 = Some 64"
  unfolding hid_record_def device_id_record_def
  using built_record(2) [OF hid_attributes_ok, of hid_params] built_record(2) [OF device_id_attributes_ok]
  by (simp_all add: hid_descriptor_length hid_record_length device_id_record_length)

text \<open>The database asks for ascending attribute IDs; the HID record does not have them.\<close>

lemma hid_attributes_not_ascending: "\<not> sorted_wrt (<) (map fst (hid_attributes 0x10001 hid_params))"
  by (simp add: hid_attributes_def)

lemma handles:
  "sdp_get_service_record_handle hid_record = Some 0x10001"
  "sdp_get_service_record_handle device_id_record = Some 0x10002"
  by (rule record_handle [OF hid_record_ok] record_handle [OF device_id_record_ok],
    simp add: hid_attributes_def device_id_attributes_def)+

text \<open>Property C35: when \<open>btstack_main\<close> starts with an empty database, it registers its two records under the
  handles 0x10001 and 0x10002; they take 356 and 64 bytes, so that its two assertions hold and it goes on.\<close>

theorem firmware_services:
  assumes "service_records s = []" and "length mac = 6" and "length (g_esp32_mac d) = 6"
  shows "register_services True s = Some (356, 64, s\<lparr>next_service_record_handle := 0x10003,
      service_records := [(0x10002, device_id_record), (0x10001, hid_record)]\<rparr>)
    \<and> btstack_main mac 356 64 d = Some (btstack_setup, d\<lparr>g_esp32_mac := mac\<rparr>)"
  using assms
  by (simp add: register_services_def sdp_init_def sdp_create_service_record_handle_def next_free_step free_handle_def
    hid_record_built device_id_record_built records_fit sdp_register_service_def handles btstack_main_def Let_def)

theorem firmware_services_witness:
  "register_services True sdp_static = Some (356, 64, sdp_static\<lparr>next_service_record_handle := 0x10003,
      service_records := [(0x10002, device_id_record), (0x10001, hid_record)]\<rparr>)
    \<and> btstack_main [1, 2, 3, 4, 5, 6] 356 64 bt_boot
      = Some (btstack_setup, bt_boot\<lparr>g_esp32_mac := [1, 2, 3, 4, 5, 6]\<rparr>)"
  by (rule firmware_services) (simp_all add: sdp_static_def bt_boot_def)

section \<open>The server of the firmware\<close>

definition firmware_server :: sdp_server where
  "firmware_server =
     \<lparr>service_records = [(0x10002, device_id_record), (0x10001, hid_record)], next_service_record_handle = 0x10003,
      sdp_response_buffer = replicate 1691 0, sdp_l2cap_cid = 0x41, response_size = 0,
      waiting_list_cids = replicate 8 0, waiting_list_count = 0, sdp_calls = []\<rparr>"

lemma firmware_server_ok: "server_ok firmware_server" "sends_within mtu firmware_server"
  using hid_record_ok device_id_record_ok by (auto simp: firmware_server_def server_ok_def sends_within_def db_ok_def)

lemma firmware_serves: "serves 0x10001 (hid_attributes 0x10001 hid_params) firmware_server"
  using hid_record_ok by (simp add: firmware_server_def serves_def)

lemma in_all_ranges: "in_ranges [(0, 0xffff)] = (\<lambda>aid. True)"
proof
  show "in_ranges [(0, 0xffff)] aid = True" for aid
    using unat_u16_lt [of aid] by (simp add: in_ranges_def word_le_nat_alt)
qed

lemma selected_all: "selected (\<lambda>aid. True) as = body (attribute_list as)"
  by (induction as) (auto simp: selected_def attribute_bytes_def enc_id simp del: enc.simps)

lemma hid_body_length: "length (body (attribute_list (hid_attributes 0x10001 hid_params))) = 353"
  using hid_record_length by (simp add: length_seq_bytes)

text \<open>Property C34: with an MTU of at least 48, no history of the SDP channel leaves a buffer, and nothing is ever sent that is longer than the MTU of the
  host; the only exception is a list of attribute IDs with a nil element that is read past.\<close>

theorem sdp_history_safe:
  assumes "server_ok s" and "sends_within mtu s" and "48 \<le> unat mtu"
    and "\<forall>channel packet p. SdpData channel packet \<in> set es \<longrightarrow> \<not> ids_overrun packet p"
  shows "\<exists>s'. sdp_history mtu es s = Some s' \<and> server_ok s' \<and> sends_within mtu s' \<and> service_records s' = service_records s"
  using history_safe [OF assms(1-3), of es] assms(4) by blast

theorem sdp_history_safe_witness:
  "\<exists>s'. sdp_history 48 [SdpData 0x41 [4, 0, 1, 0, 14, 0, 1, 0, 1, 0, 64, 0x35, 5, 0x0A, 0, 0, 0xff, 0xff, 0], SdpCanSendNow]
     firmware_server = Some s' \<and> server_ok s' \<and> sends_within 48 s' \<and> service_records s' = service_records firmware_server"
proof (rule sdp_history_safe [OF firmware_server_ok])
  show "\<forall>channel packet p. SdpData channel packet \<in> set [SdpData 0x41 [4, 0, 1, 0, 14, 0, 1, 0, 1, 0, 64, 0x35, 5, 0x0A, 0, 0, 0xff, 0xff, 0],
      SdpCanSendNow] \<longrightarrow> \<not> ids_overrun packet p"
  proof (intro allI impI no_overrun)
    fix channel packet and k :: nat
    assume "SdpData channel packet \<in> set [SdpData 0x41 [4, 0, 1, 0, 14, 0, 1, 0, 1, 0, 64, 0x35, 5, 0x0A, 0, 0, 0xff, 0xff, 0], SdpCanSendNow]"
    then have p: "packet = [4, 0, 1, 0, 14, 0, 1, 0, 1, 0, 64, 0x35, 5, 0x0A, 0, 0, 0xff, 0xff, 0]" by simp
    assume "k < length packet" and "packet ! k = 2"
    then have "2 \<in> set packet" by (metis nth_mem)
    then show "k + 5 \<le> length packet" by (simp add: p)
  qed
qed simp

text \<open>Property C33: a host that asks for ranges of attribute IDs and follows the continuation state, whatever its MTU and
  however few bytes it asks for at a time, receives the header of the sequence and exactly the selected
  attributes of the record, complete and in order.\<close>

theorem host_reads_attributes:
  assumes "serves h as s" and "48 \<le> unat mtu" and "length rs \<le> 1000" and "\<forall>r\<in>set rs. fst r \<le> snd r"
    and "7 \<le> mx" and "length (selected (in_ranges rs) as) < fuel"
  shows "\<exists>s'. read_attributes fuel mtu (attribute_packet tid h mx rs) [0] s
      = Some (0x36 # be16 (of_nat (length (selected (in_ranges rs) as))) @ selected (in_ranges rs) as, s')
    \<and> service_records s' = service_records s"
  by (rule read_all [OF assms])

theorem host_reads_attributes_witness:
  "\<exists>s'. read_attributes 400 48 (attribute_packet 1 0x10001 64 [(0, 0xffff)]) [0] firmware_server
      = Some (0x36 # be16 353 @ body (attribute_list (hid_attributes 0x10001 hid_params)), s')
    \<and> service_records s' = service_records firmware_server"
  using host_reads_attributes [OF firmware_serves, of 48 "[(0, 0xffff)]" 64 400 1]
  by (simp add: in_all_ranges selected_all hid_body_length)

end
